(* ===== verification/Prelude.thy ===== *)
theory Prelude
  imports Main "HOL-Library.Word" "HOL-Library.Monad_Syntax"
begin

text \<open>
  Shared vocabulary of the development: the simp collections, bytes and C strings, little-endian
  integers, reads and writes at an offset of a byte array, and the scanning loop
  \<open>for (i = 0; i < n; i++) if (P(a[i])) return i;\<close> that the tables of the program use.

  A byte is a \<^typ>\<open>char\<close> (256 values), so a memory buffer, a disk image and a C string are all
  of type \<^typ>\<open>string\<close>; the terminator of a C string is not part of the list. A computation that
  does not return (an endless loop, or an access outside of the mapped memory) is \<^const>\<open>None\<close>.
\<close>

named_theorems bytes_simps "reads and writes of byte arrays"
named_theorems table_simps "scans and updates of fixed-size tables"

subsection \<open>Bytes and C strings\<close>

abbreviation NUL :: char where "NUL \<equiv> CHR 0x00"

text \<open>The C string at the start of a byte array: the bytes before the first zero byte.\<close>

definition cstr :: "string \<Rightarrow> string" where
  "cstr bs = takeWhile (\<lambda>c. c \<noteq> NUL) bs"

text \<open>\<open>cstring s\<close>: \<open>s\<close> holds no zero byte, so a C string can hold exactly it.\<close>

definition cstring :: "string \<Rightarrow> bool" where
  "cstring s \<longleftrightarrow> NUL \<notin> set s"

lemma cstr_append_NUL [simp]: "cstring s \<Longrightarrow> cstr (s @ NUL # rest) = s"
  by (auto simp: cstr_def cstring_def takeWhile_tail takeWhile_append2)

lemma cstr_cstring [simp]: "cstring (cstr bs)"
  by (auto simp: cstr_def cstring_def dest: set_takeWhileD)

lemma cstr_id [simp]: "cstring s \<Longrightarrow> cstr s = s"
  by (auto simp: cstr_def cstring_def takeWhile_eq_all_conv)

lemma cstring_simps [simp]:
  "cstring []" "cstring (c # s) \<longleftrightarrow> c \<noteq> NUL \<and> cstring s"
  "cstring (s @ t) \<longleftrightarrow> cstring s \<and> cstring t"
  by (auto simp: cstring_def)

lemma cstring_take [simp]: "cstring s \<Longrightarrow> cstring (take n s)"
  by (auto simp: cstring_def dest: in_set_takeD)

subsection \<open>Little-endian integers\<close>

fun le_bytes :: "nat \<Rightarrow> nat \<Rightarrow> string" where
  "le_bytes 0 n = []"
| "le_bytes (Suc k) n = char_of (n mod 256) # le_bytes k (n div 256)"

fun le_val :: "string \<Rightarrow> nat" where
  "le_val [] = 0"
| "le_val (c # cs) = of_char c + 256 * le_val cs"

lemma length_le_bytes [simp]: "length (le_bytes k n) = k"
  by (induction k arbitrary: n) auto

lemma le_val_le_bytes: "le_val (le_bytes k n) = n mod 256 ^ k"
proof (induction k arbitrary: n)
  case 0
  then show ?case by simp
next
  case (Suc k)
  then show ?case by (simp add: mod_mult2_eq)
qed

lemma le_val_bound: "le_val cs < 256 ^ length cs"
proof (induction cs)
  case Nil
  then show ?case by simp
next
  case (Cons c cs)
  have "(of_char c :: nat) < 256" by (rule nat_of_char_less_256)
  with Cons have "of_char c + 256 * le_val cs < 256 * (1 + le_val cs)"
    by simp
  also have "\<dots> \<le> 256 * 256 ^ length cs"
    using Cons by simp
  finally show ?case by simp
qed

lemma le_bytes_le_val: "le_bytes (length cs) (le_val cs) = cs"
  by (induction cs) (auto simp: nat_of_char_less_256)

text \<open>A fixed width of \<open>k\<close> bytes holds a word of \<open>8 * k\<close> bits exactly.\<close>

lemma le_word_roundtrip:
  assumes "LENGTH('a::len) = 8 * k"
  shows "of_nat (le_val (le_bytes k (unat (w :: 'a word)))) = w"
proof -
  have "256 ^ k = (2::nat) ^ LENGTH('a)"
    by (simp add: assms power_mult)
  then have "le_val (le_bytes k (unat w)) = unat w"
    by (simp add: le_val_le_bytes)
  then show ?thesis by simp
qed

lemma le_bytes_roundtrip:
  assumes "LENGTH('a::len) = 8 * length cs"
  shows "le_bytes (length cs) (unat (of_nat (le_val cs) :: 'a word)) = cs"
proof -
  have "le_val cs < 2 ^ LENGTH('a)"
    using le_val_bound [of cs] by (simp add: assms power_mult)
  then have "unat (of_nat (le_val cs) :: 'a word) = le_val cs"
    by (simp add: unat_of_nat)
  then show ?thesis by (simp add: le_bytes_le_val)
qed

subsection \<open>Reads and writes at an offset\<close>

text \<open>
  \<open>pread\<close> returns fewer bytes at the end of the array, as \<open>read(2)\<close> does; \<open>pwrite\<close> extends the
  array, and a hole between the old end and the offset reads as zero bytes, as \<open>lseek(2)\<close> followed
  by \<open>write(2)\<close> does on a regular file.
\<close>

definition pread :: "string \<Rightarrow> nat \<Rightarrow> nat \<Rightarrow> string" where
  "pread img off n = take n (drop off img)"

definition pwrite :: "string \<Rightarrow> nat \<Rightarrow> string \<Rightarrow> string" where
  "pwrite img off buf =
     take off img @ replicate (off - length img) NUL @ buf @ drop (off + length buf) img"

lemma length_pread [bytes_simps]: "length (pread img off n) = min n (length img - off)"
  by (simp add: pread_def)

lemma pread_step: "pread bs m n @ drop (m + n) bs = drop m bs"
  by (simp add: pread_def) (metis add.commute append_take_drop_id drop_drop)

lemma length_pread_inside [simp]: "off + n \<le> length img \<Longrightarrow> length (pread img off n) = n"
  by (simp add: pread_def)

lemma length_pwrite [bytes_simps]:
  "length (pwrite img off buf) = max (length img) (off + length buf)"
  by (auto simp: pwrite_def)

lemma nth_pread [bytes_simps]: "i < n \<Longrightarrow> off + i < length img \<Longrightarrow> pread img off n ! i = img ! (off + i)"
  by (simp add: pread_def)

lemma nth_pwrite:
  assumes "i < max (length img) (off + length buf)"
  shows "pwrite img off buf ! i =
    (if off \<le> i \<and> i < off + length buf then buf ! (i - off)
     else if i < length img then img ! i else NUL)"
proof (cases "i < off")
  case True
  then show ?thesis by (auto simp: pwrite_def nth_append min_def)
next
  case False
  then have "pwrite img off buf ! i = (buf @ drop (off + length buf) img) ! (i - off)"
    using assms by (auto simp: pwrite_def nth_append min_def less_max_iff_disj)
  with False assms show ?thesis by (auto simp: nth_append less_max_iff_disj)
qed

lemma pread_pwrite_same [bytes_simps]:
  "length buf = n \<Longrightarrow> pread (pwrite img off buf) off n = buf"
  by (auto simp: pread_def pwrite_def min_def not_le)

lemma pread_pwrite_other [bytes_simps]:
  assumes "off + n \<le> off' \<or> off' + length buf \<le> off" "off + n \<le> length img"
  shows "pread (pwrite img off' buf) off n = pread img off n"
proof (rule nth_equalityI)
  show "length (pread (pwrite img off' buf) off n) = length (pread img off n)"
    using assms by (simp add: bytes_simps)
next
  fix i assume "i < length (pread (pwrite img off' buf) off n)"
  then have i: "i < n" by (simp add: bytes_simps)
  with assms show "pread (pwrite img off' buf) off n ! i = pread img off n ! i"
    by (auto simp: bytes_simps nth_pwrite)
qed

lemma pread_pwrite_inside:
  "k + m \<le> length buf \<Longrightarrow> pread (pwrite img off buf) (off + k) m = pread buf k m"
  by (rule nth_equalityI) (auto simp: bytes_simps nth_pwrite)

subsection \<open>Scanning a table\<close>

text \<open>\<open>find_idx P xs\<close>: the least index whose element satisfies \<open>P\<close>, if there is one.\<close>

fun find_idx :: "('a \<Rightarrow> bool) \<Rightarrow> 'a list \<Rightarrow> nat option" where
  "find_idx P [] = None"
| "find_idx P (x # xs) = (if P x then Some 0 else map_option Suc (find_idx P xs))"

lemma find_idx_None [table_simps]: "find_idx P xs = None \<longleftrightarrow> (\<forall>x\<in>set xs. \<not> P x)"
  by (induction xs) auto

lemma find_idx_Some:
  "find_idx P xs = Some i \<longleftrightarrow> i < length xs \<and> P (xs ! i) \<and> (\<forall>j<i. \<not> P (xs ! j))"
proof (induction xs arbitrary: i)
  case Nil
  then show ?case by simp
next
  case (Cons x xs)
  show ?case
  proof (cases i)
    case 0
    then show ?thesis by auto
  next
    case (Suc k)
    have "(\<forall>j<Suc k. \<not> P ((x # xs) ! j)) \<longleftrightarrow> \<not> P x \<and> (\<forall>j<k. \<not> P (xs ! j))"
      by (auto simp: less_Suc_eq_0_disj)
    with Suc Cons show ?thesis by (cases "P x") auto
  qed
qed

lemma find_idx_SomeD:
  assumes "find_idx P xs = Some i"
  shows "i < length xs" "P (xs ! i)" "j < i \<Longrightarrow> \<not> P (xs ! j)"
  using assms by (auto simp: find_idx_Some)

lemma find_idx_ex: "x \<in> set xs \<Longrightarrow> P x \<Longrightarrow> \<exists>k. find_idx P xs = Some k"
  using find_idx_None [of P xs] by (cases "find_idx P xs") auto

subsection \<open>Options\<close>

lemmas bind_Some = Option.bind_eq_Some_conv

lemma bind_SomeE:
  assumes "Option.bind m f = Some y"
  obtains x where "m = Some x" "f x = Some y"
  using assms by (auto simp: bind_Some)

text \<open>
  \<open>ensures P m\<close>: if the computation returns, its result satisfies \<open>P\<close>. The rules turn a goal about a
  \<open>do\<close> block into goals about its steps.
\<close>

definition ensures :: "('a \<Rightarrow> bool) \<Rightarrow> 'a option \<Rightarrow> bool" where
  "ensures P m \<longleftrightarrow> (\<forall>x. m = Some x \<longrightarrow> P x)"

lemma ensures_simps [simp]:
  "ensures P None" "ensures P (Some x) \<longleftrightarrow> P x"
  "ensures P (Option.bind m f) \<longleftrightarrow> (\<forall>x. m = Some x \<longrightarrow> ensures P (f x))"
  by (auto simp: ensures_def bind_Some)

lemma ensuresD: "ensures P m \<Longrightarrow> m = Some x \<Longrightarrow> P x"
  by (simp add: ensures_def)

lemma ensuresI: "(\<And>x. m = Some x \<Longrightarrow> P x) \<Longrightarrow> ensures P m"
  by (simp add: ensures_def)

subsection \<open>The contract of an indexed store\<close>

text \<open>
  The interface the FAT, the block device and the slots of a directory block share: \<open>size_of\<close> cells,
  read by \<open>get\<close> and replaced by \<open>put\<close>, either of which may fail outside of the invariant.
  \<open>store_contents\<close> is the list of the cells.
\<close>

definition store_contents :: "('s \<Rightarrow> nat) \<Rightarrow> ('s \<Rightarrow> nat \<Rightarrow> 'a option) \<Rightarrow> 's \<Rightarrow> 'a list" where
  "store_contents size_of get s = map (\<lambda>i. the (get s i)) [0..<size_of s]"

lemma length_store_contents [simp]: "length (store_contents size_of get s) = size_of s"
  by (simp add: store_contents_def)

lemma nth_store_contents: "i < size_of s \<Longrightarrow> store_contents size_of get s ! i = the (get s i)"
  by (simp add: store_contents_def)

locale indexed_store =
  fixes inv :: "'s \<Rightarrow> bool"
    and size_of :: "'s \<Rightarrow> nat"
    and valid :: "'s \<Rightarrow> 'a \<Rightarrow> bool"
    and get :: "'s \<Rightarrow> nat \<Rightarrow> 'a option"
    and put :: "nat \<Rightarrow> 'a \<Rightarrow> 's \<Rightarrow> 's option"
  assumes get_inside: "inv s \<Longrightarrow> i < size_of s \<Longrightarrow> \<exists>v. get s i = Some v"
    and put_inside: "inv s \<Longrightarrow> i < size_of s \<Longrightarrow> valid s v \<Longrightarrow>
      \<exists>s'. put i v s = Some s' \<and> inv s' \<and> size_of s' = size_of s"
    and get_put: "inv s \<Longrightarrow> i < size_of s \<Longrightarrow> valid s v \<Longrightarrow> put i v s = Some s' \<Longrightarrow>
      j < size_of s \<Longrightarrow> get s' j = (if j = i then Some v else get s j)"
begin

abbreviation contents :: "'s \<Rightarrow> 'a list" where
  "contents \<equiv> store_contents size_of get"

lemma get_contents: "inv s \<Longrightarrow> i < size_of s \<Longrightarrow> get s i = Some (contents s ! i)"
  using get_inside [of s i] by (auto simp: nth_store_contents)

lemma contents_put:
  assumes "inv s" "i < size_of s" "valid s v" "put i v s = Some s'"
  shows "contents s' = (contents s)[i := v]"
proof -
  have "size_of s' = size_of s" using put_inside [OF assms(1-3)] assms(4) by auto
  with assms show ?thesis
    by (intro nth_equalityI) (auto simp: nth_store_contents get_put nth_list_update)
qed

lemma put_total:
  assumes "inv s" "i < size_of s" "valid s v"
  shows "\<exists>s'. put i v s = Some s' \<and> inv s' \<and> size_of s' = size_of s \<and>
    contents s' = (contents s)[i := v]"
  using put_inside [OF assms] contents_put [OF assms] by blast

lemma put_preserves:
  assumes "inv s" "i < size_of s" "valid s v" "put i v s = Some s'"
  shows "inv s'" "size_of s' = size_of s"
  using put_inside [OF assms(1-3)] assms(4) by auto

lemma put_put_same:
  assumes "inv s" "i < size_of s" "valid s v" "put i v s = Some s'" "valid s' w"
  shows "\<exists>s''. put i w s' = Some s'' \<and> contents s'' = (contents s)[i := w]"
  using put_total [of s' i w] put_preserves [OF assms(1-4)] contents_put [OF assms(1-4)] assms
  by auto

end

end
