(* ===== verification/PennFatDefs.thy ===== *)
theory PennFatDefs
  imports Prelude
begin

unbundle bit_operations_syntax

text \<open>
  \<open>src/common/pennfat_definitions.h\<close> and \<open>src/common/pennfat_errors.h\<close>: open modes, permission
  bits, the error codes and their strings, the 64-byte directory entry with its on-disk encoding,
  and the entries of the descriptor table and of the system-wide file table.
\<close>

subsection \<open>Error codes\<close>

datatype PennFatErr =
    PennFatErr_SUCCESS | PennFatErr_INTERNAL | PennFatErr_NOT_MOUNTED | PennFatErr_INVAD
  | PennFatErr_EXISTS | PennFatErr_PERM | PennFatErr_INUSE | PennFatErr_NOSPACE
  | PennFatErr_OUTOFMEM | PennFatErr_UNEXPCMD | PennFatErr_NOTEMPTY | PennFatErr_NOTDIR
  | PennFatErr_ISDIR | PennFatErr_IO | PennFatErr_BUSY | PennFatErr_NOT_IMPL
  | PennFatErr_RANGE | PennFatErr_DUMMY

text \<open>\<open>PennFatErr_OK\<close> is an alias of \<open>PennFatErr_SUCCESS\<close> in the enum.\<close>

abbreviation PennFatErr_OK :: PennFatErr where "PennFatErr_OK \<equiv> PennFatErr_SUCCESS"

text \<open>
  The enum is an \<open>int\<close> in C, and \<open>k_open\<close>, \<open>k_read\<close>, \<open>k_write\<close> and \<open>k_lseek\<close> return a
  descriptor or a count through the same type: \<open>err_code\<close> is the value of a constructor.
\<close>

fun err_code :: "PennFatErr \<Rightarrow> int" where
  "err_code PennFatErr_SUCCESS = 0"
| "err_code PennFatErr_INTERNAL = -1"
| "err_code PennFatErr_NOT_MOUNTED = -2"
| "err_code PennFatErr_INVAD = -3"
| "err_code PennFatErr_EXISTS = -4"
| "err_code PennFatErr_PERM = -5"
| "err_code PennFatErr_INUSE = -6"
| "err_code PennFatErr_NOSPACE = -7"
| "err_code PennFatErr_OUTOFMEM = -8"
| "err_code PennFatErr_UNEXPCMD = -9"
| "err_code PennFatErr_NOTEMPTY = -10"
| "err_code PennFatErr_NOTDIR = -12"
| "err_code PennFatErr_ISDIR = -13"
| "err_code PennFatErr_IO = -14"
| "err_code PennFatErr_BUSY = -15"
| "err_code PennFatErr_NOT_IMPL = -16"
| "err_code PennFatErr_RANGE = -17"
| "err_code PennFatErr_DUMMY = -18"

lemma err_code_neg: "err_code e \<noteq> 0 \<longleftrightarrow> e \<noteq> PennFatErr_SUCCESS" "err_code e \<le> 0"
  by (cases e; simp)+

lemma err_code_inj [simp]: "err_code e = err_code e' \<longleftrightarrow> e = e'"
  by (cases e; cases e'; simp)

definition PENNFAT_ERR_MIN :: int where "PENNFAT_ERR_MIN = err_code PennFatErr_DUMMY"
definition PENNFAT_ERR_MAX :: int where "PENNFAT_ERR_MAX = err_code PennFatErr_SUCCESS"
definition PENNFAT_ERR_COUNT :: int where
  "PENNFAT_ERR_COUNT = PENNFAT_ERR_MAX - PENNFAT_ERR_MIN + 1"

definition pennFatErrStrings :: "string list" where
  "pennFatErrStrings =
    [''Dummy error'', ''Range error'', ''Not implemented'', ''Resource busy'', ''I/O error'',
     ''Is a directory'', ''Not a directory'', ''Directory not empty'', ''Unexpected command'',
     ''Out of memory'', ''No space left on device'', ''File in use'', ''Permission denied'',
     ''File existance error'', ''Invalid argument'', ''File system not mounted'',
     ''Internal error'', ''Success'', ''Success'']"

definition PennFatErr_toErrString :: "int \<Rightarrow> string" where
  "PennFatErr_toErrString err =
    (let index = err - PENNFAT_ERR_MIN in
     if index \<ge> 0 \<and> index < PENNFAT_ERR_COUNT then pennFatErrStrings ! nat index
     else ''Unknown error'')"

lemmas err_string_defs = PennFatErr_toErrString_def PENNFAT_ERR_MIN_def PENNFAT_ERR_MAX_def
  PENNFAT_ERR_COUNT_def pennFatErrStrings_def

subsection \<open>Open modes, seek constants and permissions\<close>

definition K_O_CREATE :: int where "K_O_CREATE = 1"
definition K_O_RDONLY :: int where "K_O_RDONLY = 2"
definition K_O_WRONLY :: int where "K_O_WRONLY = 4"
definition K_O_APPEND :: int where "K_O_APPEND = 8"

definition HAS_CREATE :: "int \<Rightarrow> bool" where "HAS_CREATE mode \<longleftrightarrow> mode AND K_O_CREATE \<noteq> 0"
definition HAS_READ :: "int \<Rightarrow> bool" where "HAS_READ mode \<longleftrightarrow> mode AND K_O_RDONLY \<noteq> 0"
definition HAS_WRITE :: "int \<Rightarrow> bool" where "HAS_WRITE mode \<longleftrightarrow> mode AND K_O_WRONLY \<noteq> 0"
definition HAS_APPEND :: "int \<Rightarrow> bool" where "HAS_APPEND mode \<longleftrightarrow> mode AND K_O_APPEND \<noteq> 0"

definition is_valid_mode :: "int \<Rightarrow> bool" where
  "is_valid_mode mode =
    (if mode AND NOT (K_O_CREATE OR K_O_RDONLY OR K_O_WRONLY OR K_O_APPEND) \<noteq> 0 then False
     else if mode AND K_O_WRONLY \<noteq> 0 \<and> mode AND K_O_APPEND \<noteq> 0 then False
     else True)"

definition F_SEEK_SET :: int where "F_SEEK_SET = 0"
definition F_SEEK_CUR :: int where "F_SEEK_CUR = 1"
definition F_SEEK_END :: int where "F_SEEK_END = 2"

definition PERM_NONE :: "8 word" where "PERM_NONE = 0"
definition PERM_EXEC :: "8 word" where "PERM_EXEC = 1"
definition PERM_WRITE :: "8 word" where "PERM_WRITE = 2"
definition PERM_READ :: "8 word" where "PERM_READ = 4"
definition DEF_PERM :: "8 word" where "DEF_PERM = PERM_READ OR PERM_WRITE"

definition CAN_READ :: "8 word \<Rightarrow> bool" where "CAN_READ perm \<longleftrightarrow> perm AND PERM_READ \<noteq> 0"
definition CAN_WRITE :: "8 word \<Rightarrow> bool" where "CAN_WRITE perm \<longleftrightarrow> perm AND PERM_WRITE \<noteq> 0"
definition CAN_EXEC :: "8 word \<Rightarrow> bool" where "CAN_EXEC perm \<longleftrightarrow> perm AND PERM_EXEC \<noteq> 0"

definition REQ_READ_PERM :: "int \<Rightarrow> bool" where
  "REQ_READ_PERM mode \<longleftrightarrow> mode AND K_O_RDONLY \<noteq> 0"
definition REQ_WRITE_PERM :: "int \<Rightarrow> bool" where
  "REQ_WRITE_PERM mode \<longleftrightarrow> mode AND (K_O_WRONLY OR K_O_APPEND) \<noteq> 0"

definition VALID_PERM :: "8 word \<Rightarrow> bool" where
  "VALID_PERM perm \<longleftrightarrow>
     perm = PERM_NONE \<or> perm = PERM_EXEC \<or> perm = PERM_WRITE \<or>
     perm = PERM_READ OR PERM_EXEC \<or> perm = PERM_READ OR PERM_WRITE \<or>
     perm = PERM_READ OR PERM_WRITE OR PERM_EXEC"

lemmas mode_defs = K_O_CREATE_def K_O_RDONLY_def K_O_WRONLY_def K_O_APPEND_def
  HAS_CREATE_def HAS_READ_def HAS_WRITE_def HAS_APPEND_def is_valid_mode_def
  REQ_READ_PERM_def REQ_WRITE_PERM_def F_SEEK_SET_def F_SEEK_CUR_def F_SEEK_END_def

lemmas perm_defs = PERM_NONE_def PERM_EXEC_def PERM_WRITE_def PERM_READ_def DEF_PERM_def
  CAN_READ_def CAN_WRITE_def CAN_EXEC_def VALID_PERM_def

subsection \<open>Directory entries and their encoding\<close>

text \<open>
  \<open>dir_entry_t\<close> is packed: name at byte 0, size at 32, first block at 36, type at 38, permissions
  at 39, mtime at 40, reserved at 48; 64 bytes in all, little-endian.
\<close>

record dir_entry =
  de_name :: string
  de_size :: "32 word"
  de_first_block :: "16 word"
  de_type :: "8 word"
  de_perm :: "8 word"
  de_mtime :: "64 word"
  de_reserved :: string

abbreviation (input) DIRENT_SIZE :: nat where "DIRENT_SIZE \<equiv> 64"

definition wf_dirent :: "dir_entry \<Rightarrow> bool" where
  "wf_dirent e \<longleftrightarrow> length (de_name e) = 32 \<and> length (de_reserved e) = 16"

definition enc_dirent :: "dir_entry \<Rightarrow> string" where
  "enc_dirent e = de_name e @ le_bytes 4 (unat (de_size e)) @ le_bytes 2 (unat (de_first_block e)) @
     le_bytes 1 (unat (de_type e)) @ le_bytes 1 (unat (de_perm e)) @
     le_bytes 8 (unat (de_mtime e)) @ de_reserved e"

definition dec_dirent :: "string \<Rightarrow> dir_entry" where
  "dec_dirent bs = \<lparr>
     de_name = pread bs 0 32,
     de_size = of_nat (le_val (pread bs 32 4)),
     de_first_block = of_nat (le_val (pread bs 36 2)),
     de_type = of_nat (le_val (pread bs 38 1)),
     de_perm = of_nat (le_val (pread bs 39 1)),
     de_mtime = of_nat (le_val (pread bs 40 8)),
     de_reserved = pread bs 48 16\<rparr>"

lemma length_enc_dirent [simp]: "wf_dirent e \<Longrightarrow> length (enc_dirent e) = 64"
  by (simp add: enc_dirent_def wf_dirent_def)

lemma wf_dec_dirent [simp]: "length bs = 64 \<Longrightarrow> wf_dirent (dec_dirent bs)"
  by (simp add: dec_dirent_def wf_dirent_def)

lemma dec_enc_dirent: "wf_dirent e \<Longrightarrow> dec_dirent (enc_dirent e) = e"
  using le_word_roundtrip [of 1 "de_type e"] le_word_roundtrip [of 1 "de_perm e"]
  by (cases e) (simp add: dec_dirent_def enc_dirent_def wf_dirent_def pread_def le_word_roundtrip)

lemma enc_dec_dirent:
  assumes "length bs = 64"
  shows "enc_dirent (dec_dirent bs) = bs"
proof -
  have len: "length (pread bs 32 4) = 4" "length (pread bs 36 2) = 2" "length (pread bs 38 1) = 1"
    "length (pread bs 39 1) = 1" "length (pread bs 40 8) = 8"
    using assms by simp_all
  have word: "le_bytes 4 (unat (of_nat (le_val (pread bs 32 4)) :: 32 word)) = pread bs 32 4"
    "le_bytes 2 (unat (of_nat (le_val (pread bs 36 2)) :: 16 word)) = pread bs 36 2"
    "le_bytes 1 (unat (of_nat (le_val (pread bs 38 1)) :: 8 word)) = pread bs 38 1"
    "le_bytes 1 (unat (of_nat (le_val (pread bs 39 1)) :: 8 word)) = pread bs 39 1"
    "le_bytes 8 (unat (of_nat (le_val (pread bs 40 8)) :: 64 word)) = pread bs 40 8"
    using le_bytes_roundtrip [of "pread bs 32 4", where 'a = 32]
      le_bytes_roundtrip [of "pread bs 36 2", where 'a = 16]
      le_bytes_roundtrip [of "pread bs 38 1", where 'a = 8]
      le_bytes_roundtrip [of "pread bs 39 1", where 'a = 8]
      le_bytes_roundtrip [of "pread bs 40 8", where 'a = 64]
    by (simp_all only: len) simp_all
  have "bs = pread bs 0 32 @ drop 32 bs" "drop 32 bs = pread bs 32 4 @ drop 36 bs"
    "drop 36 bs = pread bs 36 2 @ drop 38 bs" "drop 38 bs = pread bs 38 1 @ drop 39 bs"
    "drop 39 bs = pread bs 39 1 @ drop 40 bs" "drop 40 bs = pread bs 40 8 @ drop 48 bs"
    "drop 48 bs = pread bs 48 16"
    using pread_step [of bs 0 32] pread_step [of bs 32 4] pread_step [of bs 36 2]
      pread_step [of bs 38 1] pread_step [of bs 39 1] pread_step [of bs 40 8] assms
    by (simp_all add: pread_def)
  then have "bs = pread bs 0 32 @ pread bs 32 4 @ pread bs 36 2 @ pread bs 38 1 @
      pread bs 39 1 @ pread bs 40 8 @ pread bs 48 16"
    by metis
  then show ?thesis
    by (simp only: enc_dirent_def dec_dirent_def dir_entry.simps word)
qed

text \<open>The zero-filled entry that \<open>memset(&entry, 0, sizeof entry)\<close> leaves.\<close>

definition zero_dirent :: dir_entry where
  "zero_dirent = \<lparr>de_name = replicate 32 NUL, de_size = 0, de_first_block = 0, de_type = 0,
     de_perm = 0, de_mtime = 0, de_reserved = replicate 16 NUL\<rparr>"

text \<open>
  \<open>strncpy(name, s, sizeof(name) - 1)\<close> into a zeroed 32-byte array: at most 31 bytes of \<open>s\<close>, the
  rest zero.
\<close>

definition name_field :: "string \<Rightarrow> string" where
  "name_field s = take 31 s @ replicate (32 - length (take 31 s)) NUL"

text \<open>The C string an entry's name array holds.\<close>

definition dname :: "dir_entry \<Rightarrow> string" where "dname e = cstr (de_name e)"

subsection \<open>Table entries\<close>

record fd_entry =
  fd_in_use :: bool
  fd_sysfile_index :: nat
  fd_mode :: int
  fd_offset :: "32 word"

record system_file =
  sf_ref_count :: int
  sf_in_use :: bool
  sf_first_block :: "16 word"
  sf_size :: "32 word"
  sf_mtime :: "64 word"
  sf_dir_index :: "32 word"

definition zero_fd :: fd_entry where
  "zero_fd = \<lparr>fd_in_use = False, fd_sysfile_index = 0, fd_mode = 0, fd_offset = 0\<rparr>"

definition zero_sysfile :: system_file where
  "zero_sysfile = \<lparr>sf_ref_count = 0, sf_in_use = False, sf_first_block = 0, sf_size = 0,
     sf_mtime = 0, sf_dir_index = 0\<rparr>"

lemma wf_zero_dirent [simp]: "wf_dirent zero_dirent"
  by (simp add: wf_dirent_def zero_dirent_def)

lemma length_name_field [simp]: "length (name_field s) = 32"
  by (simp add: name_field_def)

lemma cstr_name_field: "cstring s \<Longrightarrow> cstr (name_field s) = take 31 s"
proof -
  assume "cstring s"
  moreover obtain k where "32 - length (take 31 s) = Suc k"
    by (cases "32 - length (take 31 s)") auto
  ultimately show ?thesis by (simp add: name_field_def)
qed

end
