(* ===== verification/FatCore.thy ===== *)
theory FatCore
  imports PennFatDefs
begin

text \<open>
  The global state of \<open>src/internal/pennfat_kernel.c\<close> and its lowest layer: block reads and
  writes on the image file and the memory-mapped FAT, with the geometry of a mounted image and the
  proof that the FAT and the blocks are stores in the sense of \<open>indexed_store\<close>.

  The image behind \<open>g_fs_fd\<close> is one byte array \<open>g_img\<close>. The FAT is a shared mapping of its first
  bytes, so \<open>g_fat[i]\<close> and \<open>read_block\<close>/\<open>write_block\<close> work on the same bytes; nothing in the
  model keeps the two apart when a block number falls inside the FAT region.
\<close>

subsection \<open>The host\<close>

text \<open>
  What the operating system does during one call is a parameter: the clock, and for every
  allocation site and every system call whether it succeeds. A failing \<open>lseek\<close> and a failing
  transfer lead to the same return value, so each block transfer has one flag.
\<close>

datatype site =
    Site_read_symlink_target | Site_read_dirent | Site_write_dirent | Site_add_dirent
  | Site_find_entry | Site_k_read | Site_k_write | Site_k_ls | Site_k_mkdir | Site_k_rmdir
  | Site_k_symlink | Site_find_dir_name | Site_k_mount | Site_mkfs_fat | Site_mkfs_zero

record host =
  h_now :: "64 word"            \<comment> \<open>\<open>time(NULL)\<close>\<close>
  h_malloc :: "site \<Rightarrow> bool"     \<comment> \<open>\<open>malloc\<close>/\<open>calloc\<close> at this site succeeds\<close>
  h_read :: "nat \<Rightarrow> bool"        \<comment> \<open>\<open>lseek\<close> and \<open>read\<close> of this block succeed\<close>
  h_write :: "nat \<Rightarrow> bool"       \<comment> \<open>\<open>lseek\<close> and \<open>write\<close> of this block succeed\<close>
  h_sync :: "nat \<Rightarrow> bool"        \<comment> \<open>\<open>fdatasync\<close> after writing this block succeeds\<close>
  h_open :: bool                \<comment> \<open>\<open>open(2)\<close> of the image file\<close>
  h_super :: bool               \<comment> \<open>reading the two superblock bytes\<close>
  h_mmap :: bool
  h_root :: bool                \<comment> \<open>seek to and transfer of the root directory block\<close>
  h_ftruncate :: bool
  h_fat_write :: bool           \<comment> \<open>writing the FAT region in \<open>k_mkfs\<close>\<close>
  h_msync :: bool
  h_munmap :: bool
  h_fsync :: bool
  h_close :: bool

definition good_host :: "host \<Rightarrow> bool" where
  "good_host h \<longleftrightarrow> (\<forall>x. h_malloc h x) \<and> (\<forall>b. h_read h b) \<and> (\<forall>b. h_write h b) \<and>
     (\<forall>b. h_sync h b) \<and> h_open h \<and> h_super h \<and> h_mmap h \<and> h_root h \<and> h_ftruncate h \<and>
     h_fat_write h \<and> h_msync h \<and> h_munmap h \<and> h_fsync h \<and> h_close h"

lemma good_hostD [simp]:
  assumes "good_host h"
  shows "h_malloc h x" "h_read h b" "h_write h b" "h_sync h b" "h_open h" "h_super h" "h_mmap h"
    "h_root h" "h_ftruncate h" "h_fat_write h" "h_msync h" "h_munmap h" "h_fsync h" "h_close h"
  using assms by (simp_all add: good_host_def)

text \<open>A host on which every call succeeds, at a given time.\<close>

definition host_at :: "64 word \<Rightarrow> host" where
  "host_at now = \<lparr>h_now = now, h_malloc = (\<lambda>_. True), h_read = (\<lambda>_. True), h_write = (\<lambda>_. True),
     h_sync = (\<lambda>_. True), h_open = True, h_super = True, h_mmap = True, h_root = True,
     h_ftruncate = True, h_fat_write = True, h_msync = True, h_munmap = True, h_fsync = True,
     h_close = True\<rparr>"

lemma good_host_at [simp]: "good_host (host_at now)" and h_now_host_at [simp]: "h_now (host_at now) = now"
  by (simp_all add: good_host_def host_at_def)

subsection \<open>Global state\<close>

definition FAT_FREE :: "16 word" where "FAT_FREE = 0"
definition FAT_EOC :: "16 word" where "FAT_EOC = 0xFFFF"
definition MAX_SYSTEM_FILES :: nat where "MAX_SYSTEM_FILES = 64"
definition MAX_FD :: nat where "MAX_FD = 32"
definition block_sizes :: "nat list" where "block_sizes = [256, 512, 1024, 2048, 4096]"

record superblock_t =
  fat_block_count :: nat
  data_start_block :: nat

text \<open>
  \<open>g_fs_fd\<close> is the host file the descriptor refers to, \<^const>\<open>None\<close> for \<open>-1\<close>; \<open>g_img\<close> is that file's
  contents while it is open. \<open>g_fat\<close> says whether the mapping exists. \<open>host_files\<close> are the image
  files of the host by name; the open one is written back when it is closed.
\<close>

record fs =
  g_mounted :: bool
  g_fs_fd :: "string option"
  g_img :: string
  g_block_size :: nat
  g_fat :: bool
  g_root_dir :: string
  g_superblock :: superblock_t
  g_sysfile_table :: "system_file list"
  g_fd_table :: "fd_entry list"
  g_cwd_block :: "16 word"
  host_files :: "string \<Rightarrow> string option"

definition init_fs :: fs where
  "init_fs = \<lparr>g_mounted = False, g_fs_fd = None, g_img = [], g_block_size = 512, g_fat = False,
     g_root_dir = [], g_superblock = \<lparr>fat_block_count = 0, data_start_block = 0\<rparr>,
     g_sysfile_table = replicate MAX_SYSTEM_FILES zero_sysfile,
     g_fd_table = replicate MAX_FD zero_fd, g_cwd_block = 1, host_files = (\<lambda>_. None)\<rparr>"

subsection \<open>Block transfers\<close>

text \<open>
  \<open>read_block\<close> gives \<^const>\<open>None\<close> for the return value \<open>-1\<close> and \<open>Some\<close> of the buffer for \<open>0\<close>. The byte
  offset is below \<open>2^32\<close> for every block number of 16 bits (\<open>block_offset_no_wrap\<close> below), so the
  32-bit product of the source does not wrap.
\<close>

definition read_block :: "host \<Rightarrow> fs \<Rightarrow> nat \<Rightarrow> string option" where
  "read_block h s block_index =
    (if g_fs_fd s = None then None
     else let offset = block_index * g_block_size s in
       if \<not> h_read h block_index then None
       else let buf = pread (g_img s) offset (g_block_size s) in
         if length buf \<noteq> g_block_size s then None else Some buf)"

definition write_block :: "host \<Rightarrow> string \<Rightarrow> nat \<Rightarrow> fs \<Rightarrow> bool \<times> fs" where
  "write_block h buf block_index s =
    (if g_fs_fd s = None then (False, s)
     else let offset = block_index * g_block_size s in
       if \<not> h_write h block_index then (False, s)
       else let s' = s\<lparr>g_img := pwrite (g_img s) offset buf\<rparr> in
         if \<not> h_sync h block_index then (False, s') else (True, s'))"

subsection \<open>The mapped FAT\<close>

text \<open>
  An index outside of the mapped entries, or a mapping that is gone, is a memory fault: no result.
\<close>

definition fat_entries :: "fs \<Rightarrow> nat" where
  "fat_entries s = (fat_block_count (g_superblock s) * g_block_size s) div 2"

definition fat_get :: "fs \<Rightarrow> nat \<Rightarrow> 16 word option" where
  "fat_get s i =
    (if g_fat s \<and> i < fat_entries s \<and> 2 * i + 2 \<le> length (g_img s)
     then Some (of_nat (le_val (pread (g_img s) (2 * i) 2))) else None)"

definition fat_set :: "nat \<Rightarrow> 16 word \<Rightarrow> fs \<Rightarrow> fs option" where
  "fat_set i v s =
    (if g_fat s \<and> i < fat_entries s \<and> 2 * i + 2 \<le> length (g_img s)
     then Some (s\<lparr>g_img := pwrite (g_img s) (2 * i) (le_bytes 2 (unat v))\<rparr>) else None)"

subsection \<open>The geometry of a mounted image\<close>

definition fat_blocks :: "fs \<Rightarrow> nat" where "fat_blocks s = fat_block_count (g_superblock s)"

definition geom :: "fs \<Rightarrow> bool" where
  "geom s \<longleftrightarrow> g_fat s \<and> g_fs_fd s \<noteq> None \<and> g_block_size s \<in> set block_sizes \<and>
     1 \<le> fat_blocks s \<and> fat_blocks s \<le> 32 \<and> data_start_block (g_superblock s) = 2 \<and>
     length (g_img s) = (fat_blocks s + fat_entries s -
       (if fat_entries s = 0x10000 then 2 else 1)) * g_block_size s"

definition image_blocks :: "fs \<Rightarrow> nat" where
  "image_blocks s = length (g_img s) div g_block_size s"

lemma block_size_cases:
  assumes "geom s"
  obtains "g_block_size s = 256" | "g_block_size s = 512" | "g_block_size s = 1024"
    | "g_block_size s = 2048" | "g_block_size s = 4096"
  using assms by (auto simp: geom_def block_sizes_def)

lemma geom_block_size: "geom s \<Longrightarrow> 256 \<le> g_block_size s \<and> g_block_size s \<le> 4096"
  by (erule block_size_cases) auto

lemma fat_entries_double: "geom s \<Longrightarrow> 2 * fat_entries s = fat_blocks s * g_block_size s"
  by (erule block_size_cases) (simp_all add: fat_entries_def fat_blocks_def)

lemma fat_entries_bounds:
  assumes "geom s"
  shows "128 \<le> fat_entries s" "fat_entries s \<le> 65536"
proof -
  have "1 * 256 \<le> fat_blocks s * g_block_size s" "fat_blocks s * g_block_size s \<le> 32 * 4096"
    using assms geom_block_size [OF assms] by (intro mult_le_mono; simp add: geom_def)+
  then show "128 \<le> fat_entries s" "fat_entries s \<le> 65536"
    using fat_entries_double [OF assms] by linarith+
qed

lemma image_length:
  assumes "geom s"
  shows "length (g_img s) = image_blocks s * g_block_size s"
  using assms geom_block_size [OF assms] by (auto simp: geom_def image_blocks_def)

lemma image_blocks_eq:
  assumes "geom s"
  shows "image_blocks s = fat_blocks s + fat_entries s - (if fat_entries s = 0x10000 then 2 else 1)"
  using assms geom_block_size [OF assms] by (auto simp: geom_def image_blocks_def)

lemma fat_blocks_inside:
  assumes "geom s"
  shows "fat_blocks s < image_blocks s" "fat_entries s \<le> image_blocks s \<or> fat_entries s = 65536"
  using assms fat_entries_bounds [OF assms] image_blocks_eq [OF assms]
  by (auto simp: geom_def split: if_splits)

lemma fat_region_inside:
  assumes "geom s"
  shows "2 * fat_entries s \<le> length (g_img s)"
proof -
  have "fat_blocks s * g_block_size s \<le> image_blocks s * g_block_size s"
    using fat_blocks_inside [OF assms] by (intro mult_le_mono) auto
  then show ?thesis by (simp add: fat_entries_double assms image_length)
qed

lemma word16_bound: "unat (b :: 16 word) < 2 ^ 16"
  using unsigned_less [of b, where 'a = nat] by simp

text \<open>The 32-bit product of block number and block size never wraps.\<close>

lemma block_offset_no_wrap:
  assumes "geom s"
  shows "unat (ucast (b :: 16 word) * (of_nat (g_block_size s) :: 32 word)) = unat b * g_block_size s"
proof -
  have "unat b * g_block_size s < 2 ^ 16 * 4096"
    using word16_bound [of b] geom_block_size [OF assms]
    by (intro mult_less_le_imp_less) auto
  then have "unat b * g_block_size s < 2 ^ 32" by simp
  moreover have "unat (of_nat (g_block_size s) :: 32 word) = g_block_size s"
    using geom_block_size [OF assms] by (simp add: unat_of_nat)
  moreover have "unat (ucast b :: 32 word) = unat b"
    using word16_bound [of b] by (simp add: unsigned_ucast_eq take_bit_nat_eq_self)
  ultimately show ?thesis
    by (simp add: unat_word_ariths)
qed

subsection \<open>The FAT as a store\<close>

text \<open>\<open>same_but_img s s'\<close>: only the bytes of the image differ.\<close>

definition same_but_img :: "fs \<Rightarrow> fs \<Rightarrow> bool" where
  "same_but_img s s' \<longleftrightarrow> s' = s\<lparr>g_img := g_img s'\<rparr>"

lemma same_but_img_upd [simp]: "same_but_img s (s\<lparr>g_img := x\<rparr>)"
  by (simp add: same_but_img_def)

lemma same_but_img_refl [simp]: "same_but_img s s"
  by (simp add: same_but_img_def)

lemma same_but_img_trans:
  assumes "same_but_img s s'" "same_but_img s' s''"
  shows "same_but_img s s''"
proof -
  have "s'' = s'\<lparr>g_img := g_img s''\<rparr>" using assms(2) by (simp only: same_but_img_def)
  also have "\<dots> = s\<lparr>g_img := g_img s''\<rparr>"
    using assms(1) by (metis fs.surjective fs.update_convs(3) same_but_img_def)
  finally show ?thesis by (simp only: same_but_img_def)
qed

lemma same_but_img_fields:
  assumes "same_but_img s s'"
  shows "g_mounted s' = g_mounted s" "g_fs_fd s' = g_fs_fd s" "g_block_size s' = g_block_size s"
    "g_fat s' = g_fat s" "g_root_dir s' = g_root_dir s" "g_superblock s' = g_superblock s"
    "g_sysfile_table s' = g_sysfile_table s" "g_fd_table s' = g_fd_table s"
    "g_cwd_block s' = g_cwd_block s" "host_files s' = host_files s"
    "fat_blocks s' = fat_blocks s" "fat_entries s' = fat_entries s"
proof -
  obtain x where "s' = s\<lparr>g_img := x\<rparr>" using assms by (auto simp: same_but_img_def)
  then show "g_mounted s' = g_mounted s" "g_fs_fd s' = g_fs_fd s" "g_block_size s' = g_block_size s"
    "g_fat s' = g_fat s" "g_root_dir s' = g_root_dir s" "g_superblock s' = g_superblock s"
    "g_sysfile_table s' = g_sysfile_table s" "g_fd_table s' = g_fd_table s"
    "g_cwd_block s' = g_cwd_block s" "host_files s' = host_files s"
    "fat_blocks s' = fat_blocks s" "fat_entries s' = fat_entries s"
    by (simp_all add: fat_blocks_def fat_entries_def)
qed

lemma geom_same_but_img:
  assumes "geom s" "same_but_img s s'" "length (g_img s') = length (g_img s)"
  shows "geom s'"
  using assms by (simp add: geom_def same_but_img_fields)

lemma fat_set_eq:
  assumes "geom s" "i < fat_entries s"
  shows "fat_set i v s = Some (s\<lparr>g_img := pwrite (g_img s) (2 * i) (le_bytes 2 (unat v))\<rparr>)"
  using assms fat_region_inside [OF assms(1)] by (auto simp: fat_set_def geom_def)

lemma fat_get_eq:
  assumes "geom s" "i < fat_entries s"
  shows "fat_get s i = Some (of_nat (le_val (pread (g_img s) (2 * i) 2)))"
  using assms fat_region_inside [OF assms(1)] by (auto simp: fat_get_def geom_def)

lemma fat_get_outside: "fat_entries s \<le> i \<Longrightarrow> fat_get s i = None"
  by (simp add: fat_get_def)

lemma length_fat_set:
  assumes "geom s" "i < fat_entries s"
  shows "length (pwrite (g_img s) (2 * i) (le_bytes 2 n)) = length (g_img s)"
  using assms fat_region_inside [OF assms(1)] by (simp add: length_pwrite)

lemma geom_fat_set:
  assumes "geom s" "i < fat_entries s"
  shows "geom (s\<lparr>g_img := pwrite (g_img s) (2 * i) (le_bytes 2 n)\<rparr>)"
  using assms length_fat_set [OF assms] by (intro geom_same_but_img [OF assms(1)]) auto

interpretation fat: indexed_store geom fat_entries "\<lambda>_ _. True" fat_get fat_set
proof (unfold_locales, goal_cases)
  case (1 s i)
  then show ?case by (simp add: fat_get_eq)
next
  case (2 s i v)
  then show ?case using geom_fat_set [of s i] by (auto simp: fat_set_eq fat_entries_def)
next
  case (3 s i v s' j)
  let ?s' = "s\<lparr>g_img := pwrite (g_img s) (2 * i) (le_bytes 2 (unat v))\<rparr>"
  have s': "s' = ?s'" using 3 by (simp add: fat_set_eq)
  have g: "geom ?s'" "fat_entries ?s' = fat_entries s"
    using 3 geom_fat_set [of s i] by (auto simp: fat_entries_def)
  have "pread (g_img ?s') (2 * j) 2 = (if j = i then le_bytes 2 (unat v) else pread (g_img s) (2 * j) 2)"
    using 3 fat_region_inside [of s] by (auto simp: pread_pwrite_same intro!: pread_pwrite_other)
  moreover have "of_nat (le_val (le_bytes 2 (unat v))) = v"
    using le_word_roundtrip [of 2 v] by simp
  ultimately show ?case using 3 g by (simp add: s' fat_get_eq)
qed

abbreviation fat_list :: "fs \<Rightarrow> 16 word list" where
  "fat_list \<equiv> store_contents fat_entries fat_get"

lemma fat_set_same_but_img: "fat_set i v s = Some s' \<Longrightarrow> same_but_img s s'"
  by (auto simp: fat_set_def split: if_splits)

subsection \<open>The blocks of the image as a store\<close>

text \<open>\<open>put_block\<close> is \<open>write_block\<close> with its failure as \<^const>\<open>None\<close>.\<close>

definition put_block :: "host \<Rightarrow> nat \<Rightarrow> string \<Rightarrow> fs \<Rightarrow> fs option" where
  "put_block h b buf s = (case write_block h buf b s of (ok, s') \<Rightarrow> if ok then Some s' else None)"

lemma block_inside:
  assumes "geom s" "b < image_blocks s"
  shows "b * g_block_size s + g_block_size s \<le> length (g_img s)"
proof -
  have "Suc b * g_block_size s \<le> image_blocks s * g_block_size s"
    using assms by (intro mult_le_mono) auto
  then show ?thesis using image_length [OF assms(1)] by simp
qed

lemma read_block_eq:
  assumes "good_host h" "geom s" "b < image_blocks s"
  shows "read_block h s b = Some (pread (g_img s) (b * g_block_size s) (g_block_size s))"
  using assms block_inside [OF assms(2,3)] by (auto simp: read_block_def geom_def Let_def)

lemma read_block_beyond:
  assumes "geom s" "image_blocks s \<le> b"
  shows "read_block h s b = None"
proof -
  have "length (g_img s) \<le> b * g_block_size s"
    using assms image_length [OF assms(1)] by simp
  then show ?thesis
    using geom_block_size [OF assms(1)] by (auto simp: read_block_def Let_def length_pread)
qed

lemma read_block_length: "read_block h s b = Some blk \<Longrightarrow> length blk = g_block_size s"
  by (auto simp: read_block_def Let_def split: if_splits)

lemma write_block_eq:
  assumes "good_host h" "geom s"
  shows "write_block h buf b s = (True, s\<lparr>g_img := pwrite (g_img s) (b * g_block_size s) buf\<rparr>)"
  using assms by (auto simp: write_block_def geom_def Let_def)

lemma write_block_same_but_img: "write_block h buf b s = (ok, s') \<Longrightarrow> same_but_img s s'"
  by (auto simp: write_block_def Let_def split: if_splits)

lemma geom_write_block:
  assumes "geom s" "b < image_blocks s" "length buf = g_block_size s"
  shows "geom (s\<lparr>g_img := pwrite (g_img s) (b * g_block_size s) buf\<rparr>)"
    "image_blocks (s\<lparr>g_img := pwrite (g_img s) (b * g_block_size s) buf\<rparr>) = image_blocks s"
proof -
  have len: "length (pwrite (g_img s) (b * g_block_size s) buf) = length (g_img s)"
    using block_inside [OF assms(1,2)] assms(3) by (simp add: length_pwrite)
  then show "geom (s\<lparr>g_img := pwrite (g_img s) (b * g_block_size s) buf\<rparr>)"
    by (intro geom_same_but_img [OF assms(1)]) auto
  show "image_blocks (s\<lparr>g_img := pwrite (g_img s) (b * g_block_size s) buf\<rparr>) = image_blocks s"
    by (simp add: image_blocks_def len)
qed

lemma blocks_disjoint:
  assumes "(b :: nat) \<noteq> c"
  shows "b * k + k \<le> c * k \<or> c * k + k \<le> b * k"
proof -
  have "Suc b * k \<le> c * k \<or> Suc c * k \<le> b * k"
    using assms by (cases "b < c") (auto intro!: mult_le_mono1 simp del: mult_Suc)
  then show ?thesis by (simp add: add.commute)
qed

interpretation blk: indexed_store "\<lambda>s. good_host h \<and> geom s" image_blocks
  "\<lambda>s buf. length buf = g_block_size s" "read_block h" "put_block h" for h
proof (unfold_locales, goal_cases)
  case (1 s i)
  then show ?case by (simp add: read_block_eq)
next
  case (2 s i v)
  then show ?case using geom_write_block [of s i v] by (auto simp: put_block_def write_block_eq)
next
  case (3 s i v s' j)
  let ?s' = "s\<lparr>g_img := pwrite (g_img s) (i * g_block_size s) v\<rparr>"
  have s': "s' = ?s'" using 3 by (simp add: put_block_def write_block_eq)
  have g: "geom ?s'" "image_blocks ?s' = image_blocks s"
    using 3 geom_write_block [of s i v] by auto
  have "pread (g_img ?s') (j * g_block_size s) (g_block_size s) =
      (if j = i then v else pread (g_img s) (j * g_block_size s) (g_block_size s))"
    using 3 block_inside [of s j] blocks_disjoint [of j i "g_block_size s"]
    by (auto simp: pread_pwrite_same intro!: pread_pwrite_other)
  then show ?case using 3 g by (simp add: s' read_block_eq)
qed

subsection \<open>The FAT region and the blocks behind it\<close>

lemma fat_set_keeps_block:
  assumes "geom s" "i < fat_entries s" "fat_set i v s = Some s'" "fat_blocks s \<le> b"
  shows "read_block h s' b = read_block h s b"
proof (cases "b < image_blocks s")
  case True
  have "fat_blocks s * g_block_size s \<le> b * g_block_size s" using assms(4) by simp
  then have "2 * i + 2 \<le> b * g_block_size s"
    using assms(2) fat_entries_double [OF assms(1)] by linarith
  then have "pread (g_img s') (b * g_block_size s) (g_block_size s) =
      pread (g_img s) (b * g_block_size s) (g_block_size s)"
    using assms block_inside [OF assms(1) True]
    by (auto simp: fat_set_eq intro!: pread_pwrite_other)
  moreover have "g_fs_fd s' = g_fs_fd s" "g_block_size s' = g_block_size s"
    using fat_set_same_but_img [OF assms(3)] by (simp_all add: same_but_img_fields)
  ultimately show ?thesis by (simp add: read_block_def Let_def)
next
  case False
  have "length (g_img s') = length (g_img s)"
    using assms length_fat_set [OF assms(1,2)] by (auto simp: fat_set_eq)
  then have "image_blocks s' = image_blocks s"
    using fat_set_same_but_img [OF assms(3)] by (simp add: image_blocks_def same_but_img_fields)
  then show ?thesis
    using False fat.put_preserves(1) [OF assms(1,2) TrueI assms(3)] assms(1)
    by (simp add: read_block_beyond)
qed

lemma write_block_keeps_fat:
  assumes "geom s" "fat_blocks s \<le> b" "b < image_blocks s" "length buf = g_block_size s"
    "write_block h buf b s = (ok, s')"
  shows "fat_list s' = fat_list s"
proof -
  consider "s' = s" | "s' = s\<lparr>g_img := pwrite (g_img s) (b * g_block_size s) buf\<rparr>"
    using assms(5) by (auto simp: write_block_def Let_def split: if_splits)
  then show ?thesis
  proof cases
    case 1
    then show ?thesis by simp
  next
    case 2
    have g: "geom s'" "fat_entries s' = fat_entries s"
      using geom_write_block [OF assms(1,3,4)] 2 by (simp_all add: fat_entries_def)
    have "pread (g_img s') (2 * i) 2 = pread (g_img s) (2 * i) 2" if "i < fat_entries s" for i
    proof -
      have "fat_blocks s * g_block_size s \<le> b * g_block_size s" using assms(2) by simp
      then have "2 * i + 2 \<le> b * g_block_size s"
        using that fat_entries_double [OF assms(1)] by linarith
      then show ?thesis
        using that fat_region_inside [OF assms(1)] 2 by (auto intro!: pread_pwrite_other)
    qed
    then show ?thesis
      using g assms(1) by (intro nth_equalityI) (simp_all add: nth_store_contents fat_get_eq)
  qed
qed

end
