(* ===== verification/FatChain.thy ===== *)
theory FatChain
  imports FatCore
begin

text \<open>
  Chains of blocks in the FAT of \<open>src/internal/pennfat_kernel.c\<close>: locating the block of a file
  offset, allocating a block, releasing a chain, and the walk to the last block.
\<close>

subsection \<open>Chain walks, allocation and release\<close>

text \<open>
  \<open>locate_block_in_chain\<close>: the loop steps \<open>block_count\<close> times and tests for the end of the chain
  before each step, not after the last one. The result is \<^const>\<open>None\<close> for \<open>-1\<close>, otherwise the block
  and the offset in it.
\<close>

fun locate_walk :: "nat \<Rightarrow> fs \<Rightarrow> 16 word \<Rightarrow> 16 word option option" where
  "locate_walk 0 s current = Some (Some current)"
| "locate_walk (Suc k) s current =
    (if current = FAT_EOC then Some None
     else do { nxt \<leftarrow> fat_get s (unat current); locate_walk k s nxt })"

definition locate_block_in_chain :: "fs \<Rightarrow> 16 word \<Rightarrow> 32 word \<Rightarrow> (16 word \<times> nat) option option" where
  "locate_block_in_chain s start_block file_offset =
    (if start_block = FAT_FREE \<or> start_block = FAT_EOC then Some None
     else let block_count = unat file_offset div g_block_size s;
              offset_in_block = unat file_offset mod g_block_size s in
       do { r \<leftarrow> locate_walk block_count s start_block;
            Some (map_option (\<lambda>b. (b, offset_in_block)) r) })"

text \<open>\<open>allocate_free_block\<close>: \<^const>\<open>None\<close> stands for \<open>-1\<close>.\<close>

function alloc_scan :: "fs \<Rightarrow> nat \<Rightarrow> nat \<Rightarrow> nat option option" where
  "alloc_scan s i total_entries =
    (if i < total_entries
     then do { v \<leftarrow> fat_get s i;
               if v = FAT_FREE then Some (Some i) else alloc_scan s (Suc i) total_entries }
     else Some None)"
  by pat_completeness auto
termination
  by (relation "measure (\<lambda>(s, i, n). n - i)") auto

declare alloc_scan.simps [simp del]

definition allocate_free_block :: "fs \<Rightarrow> (nat option \<times> fs) option" where
  "allocate_free_block s =
    do { r \<leftarrow> alloc_scan s (data_start_block (g_superblock s)) (fat_entries s);
         case r of None \<Rightarrow> Some (None, s)
         | Some i \<Rightarrow> do { s' \<leftarrow> fat_set i FAT_EOC s; Some (Some i, s') } }"

text \<open>
  \<open>free_block_chain\<close> returns \<open>PennFatErr_OK\<close> whenever it returns, so only the new state is
  modelled. The loop is taken as it is, without a bound.
\<close>

partial_function (option) free_chain_loop :: "16 word \<Rightarrow> fs \<Rightarrow> fs option" where
  "free_chain_loop current s =
    (if current \<noteq> FAT_EOC \<and> current \<noteq> FAT_FREE
     then do { nxt \<leftarrow> fat_get s (unat current);
               s' \<leftarrow> fat_set (unat current) FAT_FREE s;
               free_chain_loop nxt s' }
     else Some s)"

declare free_chain_loop.simps [code]

definition free_block_chain :: "16 word \<Rightarrow> fs \<Rightarrow> fs option" where
  "free_block_chain start_block s =
    (if start_block = FAT_FREE \<or> start_block = FAT_EOC then Some s
     else free_chain_loop start_block s)"

text \<open>\<open>while (g_fat[b] != FAT_EOC) b = g_fat[b];\<close>, the walk to the last block of a chain.\<close>

partial_function (option) last_block :: "fs \<Rightarrow> 16 word \<Rightarrow> 16 word option" where
  "last_block s b =
    do { v \<leftarrow> fat_get s (unat b); if v \<noteq> FAT_EOC then last_block s v else Some b }"

declare last_block.simps [code]

subsection \<open>Allocation\<close>

lemma alloc_scan_find:
  assumes "geom s" "i \<le> fat_entries s"
  shows "alloc_scan s i (fat_entries s) =
    Some (map_option ((+) i) (find_idx (\<lambda>v. v = FAT_FREE) (drop i (fat_list s))))"
  using assms(2)
proof (induction "fat_entries s - i" arbitrary: i)
  case 0
  then show ?case by (simp add: alloc_scan.simps [of s i])
next
  case (Suc k)
  then have i: "i < fat_entries s" and IH: "alloc_scan s (Suc i) (fat_entries s) =
    Some (map_option ((+) (Suc i)) (find_idx (\<lambda>v. v = FAT_FREE) (drop (Suc i) (fat_list s))))"
    by auto
  have "drop i (fat_list s) = fat_list s ! i # drop (Suc i) (fat_list s)"
    using i by (simp add: Cons_nth_drop_Suc)
  moreover have "(+) i \<circ> Suc = (+) (Suc i)" by auto
  ultimately show ?case
    using i IH by (simp add: alloc_scan.simps [of s i] fat.get_contents assms(1) option.map_comp)
qed

text \<open>What \<open>allocate_free_block\<close> does, by its two results.\<close>

lemma allocate_None:
  assumes "geom s" "allocate_free_block s = Some (None, s')"
  shows "s' = s" "\<And>i. 2 \<le> i \<Longrightarrow> i < fat_entries s \<Longrightarrow> fat_list s ! i \<noteq> FAT_FREE"
proof -
  have two: "data_start_block (g_superblock s) = 2" "2 \<le> fat_entries s"
    using assms(1) fat_entries_bounds [OF assms(1)] by (auto simp: geom_def)
  then have none: "find_idx (\<lambda>v. v = FAT_FREE) (drop 2 (fat_list s)) = None" and "s' = s"
    using assms by (auto simp: allocate_free_block_def alloc_scan_find bind_Some split: option.splits)
  then show "s' = s" by simp
  fix i assume "2 \<le> i" "i < fat_entries s"
  moreover from this obtain j where "i = 2 + j" using le_Suc_ex by blast
  ultimately have "fat_list s ! i \<in> set (drop 2 (fat_list s))"
    by (auto simp: in_set_conv_nth intro!: exI [of _ j])
  then show "fat_list s ! i \<noteq> FAT_FREE" using none by (auto simp: find_idx_None)
qed

lemma allocate_Some:
  assumes "geom s" "allocate_free_block s = Some (Some b, s')"
  shows "2 \<le> b" "b < fat_entries s" "fat_list s ! b = FAT_FREE"
    "\<And>i. 2 \<le> i \<Longrightarrow> i < b \<Longrightarrow> fat_list s ! i \<noteq> FAT_FREE" "fat_set b FAT_EOC s = Some s'"
proof -
  have two: "data_start_block (g_superblock s) = 2" "2 \<le> fat_entries s"
    using assms(1) fat_entries_bounds [OF assms(1)] by (auto simp: geom_def)
  then obtain k where k: "find_idx (\<lambda>v. v = FAT_FREE) (drop 2 (fat_list s)) = Some k" "b = 2 + k"
    and set: "fat_set b FAT_EOC s = Some s'"
    using assms by (auto simp: allocate_free_block_def alloc_scan_find bind_Some split: option.splits)
  show "fat_set b FAT_EOC s = Some s'" by (rule set)
  show "2 \<le> b" "b < fat_entries s" "fat_list s ! b = FAT_FREE"
    using find_idx_SomeD(1,2) [OF k(1)] k(2) by auto
  fix i assume i: "2 \<le> i" "i < b"
  moreover from this obtain j where "i = 2 + j" using le_Suc_ex by blast
  ultimately have "drop 2 (fat_list s) ! j \<noteq> FAT_FREE" "i = 2 + j"
    using find_idx_SomeD(3) [OF k(1), of j] k(2) by auto
  then show "fat_list s ! i \<noteq> FAT_FREE"
    using i \<open>b < fat_entries s\<close> by simp
qed

lemma allocate_total:
  assumes "geom s"
  shows "\<exists>r s'. allocate_free_block s = Some (r, s')"
proof -
  have two: "data_start_block (g_superblock s) = 2" "2 \<le> fat_entries s"
    using assms fat_entries_bounds [OF assms] by (auto simp: geom_def)
  show ?thesis
  proof (cases "find_idx (\<lambda>v. v = FAT_FREE) (drop 2 (fat_list s))")
    case None
    then show ?thesis using two assms by (simp add: allocate_free_block_def alloc_scan_find)
  next
    case (Some k)
    then have "2 + k < fat_entries s" using find_idx_SomeD(1) [OF Some] by auto
    then show ?thesis
      using two assms Some fat.put_total [of s "2 + k" FAT_EOC]
      by (auto simp: allocate_free_block_def alloc_scan_find)
  qed
qed

lemma allocate_effect:
  assumes "geom s" "allocate_free_block s = Some (Some b, s')"
  shows "geom s'" "fat_entries s' = fat_entries s" "fat_list s' = (fat_list s)[b := FAT_EOC]"
    "same_but_img s s'" "\<And>c. fat_blocks s \<le> c \<Longrightarrow> read_block h s' c = read_block h s c"
  using allocate_Some [OF assms] fat.put_preserves [of s b FAT_EOC s'] assms(1)
    fat.contents_put [of s b FAT_EOC s'] fat_set_same_but_img fat_set_keeps_block
  by (auto simp del: One_nat_def)

subsection \<open>Blocks linked from a block\<close>

text \<open>
  \<open>linked fat b c\<close>: following the links from \<open>b\<close> meets the block \<open>c\<close> before a free entry or the end
  mark. \<open>fat_closed\<close>: no link leaves the FAT (entry 0 holds the superblock, not a link).
\<close>

definition chain_end :: "16 word \<Rightarrow> bool" where
  "chain_end b \<longleftrightarrow> b = FAT_EOC \<or> b = FAT_FREE"

inductive linked :: "16 word list \<Rightarrow> 16 word \<Rightarrow> 16 word \<Rightarrow> bool" for fat where
  linked_here: "\<not> chain_end b \<Longrightarrow> linked fat b b"
| linked_next: "\<not> chain_end b \<Longrightarrow> linked fat (fat ! unat b) c \<Longrightarrow> linked fat b c"

inductive_cases linked_cases: "linked fat b c"

definition fat_closed :: "16 word list \<Rightarrow> bool" where
  "fat_closed fat \<longleftrightarrow> (\<forall>i. 1 \<le> i \<and> i < length fat \<longrightarrow> fat ! i = FAT_EOC \<or> unat (fat ! i) < length fat)"

lemma not_linked_end: "chain_end b \<Longrightarrow> \<not> linked fat b c"
  by (auto elim: linked_cases)

lemma linked_unfold:
  "linked fat b c \<longleftrightarrow> \<not> chain_end b \<and> (c = b \<or> linked fat (fat ! unat b) c)"
  by (subst linked.simps) auto

lemma linked_ends: "linked fat b c \<Longrightarrow> \<not> chain_end c"
  by (induction rule: linked.induct) auto

lemma linked_cut:
  assumes "linked (fat[unat (b :: 16 word) := FAT_FREE]) x c"
  shows "linked fat x c"
  using assms
proof (induction rule: linked.induct)
  case (linked_here x)
  then show ?case by (rule linked.linked_here)
next
  case (linked_next x c)
  show ?case
  proof (cases "x = b \<and> unat b < length fat")
    case True
    then show ?thesis using linked_next not_linked_end [of FAT_FREE fat c]
      by (simp add: chain_end_def)
  next
    case False
    then have "fat[unat b := FAT_FREE] ! unat x = fat ! unat x"
      by (metis list_update_beyond not_le nth_list_update_neq unsigned_word_eqI)
    then show ?thesis using linked_next by (auto intro: linked.linked_next)
  qed
qed

lemma linked_avoid:
  assumes "linked fat x c" "c \<noteq> b"
  shows "linked (fat[unat b := FAT_FREE]) x c \<or> linked (fat[unat b := FAT_FREE]) (fat ! unat b) c"
  using assms
proof (induction rule: linked.induct)
  case (linked_here x)
  then show ?case by (auto intro: linked.linked_here)
next
  case (linked_next x c)
  show ?case
  proof (cases "x = b")
    case True
    then show ?thesis using linked_next by auto
  next
    case False
    then have "fat[unat b := FAT_FREE] ! unat x = fat ! unat x"
      by (metis nth_list_update_neq unsigned_word_eqI)
    then show ?thesis using linked_next by (auto intro: linked.linked_next)
  qed
qed

text \<open>After the head is freed, what is linked from the next block is the rest of the chain.\<close>

lemma linked_after_free:
  assumes "c \<noteq> b" "\<not> chain_end b"
  shows "linked (fat[unat b := FAT_FREE]) (fat ! unat b) c \<longleftrightarrow> linked fat b c"
proof
  assume "linked (fat[unat b := FAT_FREE]) (fat ! unat b) c"
  then show "linked fat b c" using linked_cut assms(2) by (blast intro: linked.linked_next)
next
  assume "linked fat b c"
  then have "linked fat (fat ! unat b) c" using assms by (auto elim: linked_cases)
  from linked_avoid [OF this assms(1)] show "linked (fat[unat b := FAT_FREE]) (fat ! unat b) c"
    by auto
qed

lemma fat_closed_set:
  assumes "fat_closed fat" "v = FAT_EOC \<or> unat v < length fat"
  shows "fat_closed (fat[i := v])"
proof (cases "i < length fat")
  case True
  then have "fat[i := v] ! j = (if j = i then v else fat ! j)" for j
    by (simp add: nth_list_update)
  then show ?thesis using assms by (auto simp: fat_closed_def)
qed (use assms in \<open>simp add: list_update_beyond not_less\<close>)

lemma fat_closed_free:
  assumes "fat_closed fat"
  shows "fat_closed (fat[i := FAT_FREE])"
  using fat_closed_set [OF assms, of FAT_FREE i] assms
  by (cases "fat = []") (auto simp: FAT_FREE_def)

subsection \<open>Releasing a chain\<close>

text \<open>The number of entries in use bounds the number of steps, also on a cyclic chain.\<close>

definition used_count :: "16 word list \<Rightarrow> nat" where
  "used_count fat = length (filter (\<lambda>v. v \<noteq> FAT_FREE) fat)"

lemma used_count_free:
  "i < length fat \<Longrightarrow> fat ! i \<noteq> FAT_FREE \<Longrightarrow> used_count (fat[i := FAT_FREE]) < used_count fat"
proof (induction fat arbitrary: i)
  case Nil
  then show ?case by simp
next
  case (Cons v fat)
  then show ?case by (cases i) (auto simp: used_count_def)
qed

lemma free_chain_loop_end [simp]: "chain_end b \<Longrightarrow> free_chain_loop b s = Some s"
  by (auto simp: chain_end_def free_chain_loop.simps [of b])

text \<open>Every entry linked from the start is free afterwards, no other entry changes.\<close>

definition freed :: "16 word list \<Rightarrow> 16 word \<Rightarrow> 16 word list" where
  "freed fat b = map (\<lambda>i. if linked fat b (of_nat i) then FAT_FREE else fat ! i) [0..<length fat]"

lemma nth_freed: "i < length fat \<Longrightarrow>
    freed fat b ! i = (if linked fat b (of_nat i) then FAT_FREE else fat ! i)"
  by (simp add: freed_def)

lemma length_freed [simp]: "length (freed fat b) = length fat"
  by (simp add: freed_def)

lemma freed_end: "chain_end b \<Longrightarrow> freed fat b = fat"
  by (simp add: freed_def not_linked_end map_nth)

lemma freed_step:
  assumes "\<not> chain_end b" "unat b < length fat" "length fat \<le> 65536"
  shows "freed (fat[unat b := FAT_FREE]) (fat ! unat b) = freed fat b"
proof (rule nth_equalityI)
  fix i assume "i < length (freed (fat[unat b := FAT_FREE]) (fat ! unat b))"
  then have i: "i < length fat" by simp
  then have u: "unat (of_nat i :: 16 word) = i"
    using assms(3) by (simp add: unat_of_nat)
  show "freed (fat[unat b := FAT_FREE]) (fat ! unat b) ! i = freed fat b ! i"
  proof (cases "of_nat i = b")
    case True
    then have "i = unat b" using u by simp
    then show ?thesis using i assms linked_here [OF assms(1)] by (auto simp: nth_freed)
  next
    case False
    then have "i \<noteq> unat b" by auto
    then show ?thesis using i linked_after_free [OF False assms(1)] by (simp add: nth_freed)
  qed
qed simp

lemma free_chain_loop_spec:
  assumes "geom s" "fat_closed (fat_list s)" "chain_end b \<or> unat b < fat_entries s"
  shows "\<exists>s'. free_chain_loop b s = Some s' \<and> geom s' \<and> same_but_img s s' \<and>
    fat_list s' = freed (fat_list s) b \<and> fat_closed (fat_list s') \<and>
    (\<forall>h c. fat_blocks s \<le> c \<longrightarrow> read_block h s' c = read_block h s c)"
  using assms
proof (induction "used_count (fat_list s)" arbitrary: s b rule: less_induct)
  case less
  show ?case
  proof (cases "chain_end b")
    case True
    then show ?thesis using less.prems by (simp add: freed_end)
  next
    case False
    let ?i = "unat b" and ?nxt = "fat_list s ! unat b"
    have i: "?i < fat_entries s" "1 \<le> ?i"
      using False less.prems(3) unat_eq_zero [of b] by (auto simp: chain_end_def FAT_FREE_def)
    obtain s1 where s1: "fat_set ?i FAT_FREE s = Some s1" "geom s1" "fat_entries s1 = fat_entries s"
      "fat_list s1 = (fat_list s)[?i := FAT_FREE]"
      using fat.put_total [of s ?i FAT_FREE] less.prems i by auto
    note keep = fat_set_same_but_img [OF s1(1)]
      fat_set_keeps_block [OF less.prems(1) i(1) s1(1)]
    have step: "free_chain_loop b s = free_chain_loop ?nxt s1"
      using False i s1 fat.get_contents [of s ?i] less.prems(1)
      by (auto simp: free_chain_loop.simps [of b s] chain_end_def)
    have closed: "fat_closed (fat_list s1)"
      using less.prems(2) by (simp add: s1 fat_closed_free)
    have nxt: "chain_end ?nxt \<or> unat ?nxt < fat_entries s1"
      using less.prems(2) i s1 by (auto simp: fat_closed_def chain_end_def)
    have fr: "freed (fat_list s1) ?nxt = freed (fat_list s) b"
      using freed_step [OF False, of "fat_list s"] i fat_entries_bounds [OF less.prems(1)]
      by (simp add: s1)
    have blocks: "fat_blocks s1 = fat_blocks s" using keep(1) by (simp add: same_but_img_fields)
    show ?thesis
    proof (cases "chain_end ?nxt")
      case True
      then show ?thesis
        using step s1 closed keep fr by (auto simp: freed_end)
    next
      case nend: False
      have "?nxt \<noteq> FAT_FREE" using nend by (simp add: chain_end_def)
      then have "used_count (fat_list s1) < used_count (fat_list s)"
        using used_count_free [of ?i "fat_list s"] i by (simp add: s1)
      from less.hyps [OF this s1(2) closed nxt] show ?thesis
        using step fr keep blocks same_but_img_trans [OF keep(1)] by auto
    qed
  qed
qed

lemma free_block_chain_spec:
  assumes "geom s" "fat_closed (fat_list s)" "chain_end b \<or> unat b < fat_entries s"
  shows "\<exists>s'. free_block_chain b s = Some s' \<and> geom s' \<and> same_but_img s s' \<and>
    fat_list s' = freed (fat_list s) b \<and> fat_closed (fat_list s') \<and>
    (\<forall>h c. fat_blocks s \<le> c \<longrightarrow> read_block h s' c = read_block h s c)"
  using free_chain_loop_spec [OF assms] free_chain_loop_end [of b s]
  by (auto simp: free_block_chain_def chain_end_def)

subsection \<open>Chains as lists of blocks\<close>

text \<open>\<open>chain fat b bs\<close>: from \<open>b\<close> the links visit exactly the blocks \<open>bs\<close> and then the end mark.\<close>

fun chain :: "16 word list \<Rightarrow> 16 word \<Rightarrow> 16 word list \<Rightarrow> bool" where
  "chain fat b [] \<longleftrightarrow> b = FAT_EOC"
| "chain fat b (x # xs) \<longleftrightarrow> x = b \<and> \<not> chain_end b \<and> unat b < length fat \<and>
     chain fat (fat ! unat b) xs"

lemma chain_unique: "chain fat b xs \<Longrightarrow> chain fat b ys \<Longrightarrow> xs = ys"
proof (induction xs arbitrary: b ys)
  case Nil
  then show ?case by (cases ys) (auto simp: chain_end_def)
next
  case (Cons x xs)
  then show ?case by (cases ys) (auto simp: chain_end_def)
qed

lemma chain_drop: "chain fat b xs \<Longrightarrow> k < length xs \<Longrightarrow> chain fat (xs ! k) (drop k xs)"
proof (induction xs arbitrary: b k)
  case Nil
  then show ?case by simp
next
  case (Cons x xs)
  then show ?case by (cases k) auto
qed

lemma chain_distinct: "chain fat b xs \<Longrightarrow> distinct xs"
proof (induction xs arbitrary: b)
  case Nil
  then show ?case by simp
next
  case (Cons x xs)
  have "x \<notin> set xs"
  proof
    assume "x \<in> set xs"
    then obtain k where k: "k < length xs" "xs ! k = x" by (auto simp: in_set_conv_nth)
    have "chain fat x (drop k xs)" using chain_drop [of fat _ xs k] Cons.prems k by auto
    moreover have "chain fat x (x # xs)" using Cons.prems by simp
    ultimately have "drop k xs = x # xs" by (rule chain_unique)
    then show False by (metis impossible_Cons length_drop diff_le_self)
  qed
  with Cons show ?case by auto
qed

lemma linked_chain: "chain fat b xs \<Longrightarrow> linked fat b c \<longleftrightarrow> c \<in> set xs"
proof (induction xs arbitrary: b)
  case Nil
  then show ?case by (simp add: not_linked_end chain_end_def)
next
  case (Cons x xs)
  then show ?case by (auto simp: linked_unfold [of fat b c])
qed

lemma chain_start: "chain fat b xs \<Longrightarrow> xs \<noteq> [] \<Longrightarrow> \<not> chain_end b \<and> unat b < length fat \<and> hd xs = b"
  by (cases xs) auto

lemma chain_mem: "chain fat b xs \<Longrightarrow> c \<in> set xs \<Longrightarrow> \<not> chain_end c \<and> unat c < length fat"
  by (induction xs arbitrary: b) auto

lemma chain_other:
  assumes "chain fat b xs" "\<forall>c\<in>set xs. fat' ! unat c = fat ! unat c" "length fat' = length fat"
  shows "chain fat' b xs"
  using assms by (induction xs arbitrary: b) auto

subsection \<open>Locating an offset\<close>

lemma locate_walk_chain:
  assumes "geom s" "chain (fat_list s) b xs"
  shows "locate_walk k s b =
    Some (if k < length xs then Some (xs ! k) else if k = length xs then Some FAT_EOC else None)"
  using assms(2)
proof (induction k arbitrary: b xs)
  case 0
  then show ?case by (cases xs) auto
next
  case (Suc k)
  show ?case
  proof (cases xs)
    case Nil
    then show ?thesis using Suc.prems by simp
  next
    case (Cons x ys)
    then have b: "b \<noteq> FAT_EOC" "unat b < fat_entries s" "chain (fat_list s) (fat_list s ! unat b) ys"
      using Suc.prems by (auto simp: chain_end_def)
    then show ?thesis using Suc.IH [OF b(3)] Cons fat.get_contents [OF assms(1) b(2)] by simp
  qed
qed

lemma locate_chain:
  assumes "geom s" "chain (fat_list s) b xs" "xs \<noteq> []"
  shows "locate_block_in_chain s b offset =
    (let k = unat offset div g_block_size s; r = unat offset mod g_block_size s in
     Some (if k < length xs then Some (xs ! k, r)
           else if k = length xs then Some (FAT_EOC, r) else None))"
  using locate_walk_chain [OF assms(1,2)] chain_start [OF assms(2,3)]
  by (simp add: locate_block_in_chain_def chain_end_def Let_def)

lemma last_block_chain:
  assumes "geom s" "chain (fat_list s) b xs" "xs \<noteq> []"
  shows "last_block s b = Some (last xs)"
  using assms(2,3)
proof (induction xs arbitrary: b)
  case Nil
  then show ?case by simp
next
  case (Cons x xs)
  have b: "b = x" "unat b < fat_entries s" "chain (fat_list s) (fat_list s ! unat b) xs"
    using Cons.prems by auto
  have get: "fat_get s (unat b) = Some (fat_list s ! unat b)"
    by (rule fat.get_contents [OF assms(1) b(2)])
  show ?case
  proof (cases xs)
    case Nil
    then show ?thesis using b get by (subst last_block.simps) simp
  next
    case (Cons y ys)
    then have "fat_list s ! unat b \<noteq> FAT_EOC" using b(3) by (auto simp: chain_end_def)
    then show ?thesis using Cons.IH [OF b(3)] get b(1) Cons by (subst last_block.simps) simp
  qed
qed

text \<open>The number of the end mark is no block of the image unless the FAT has 65536 entries.\<close>

lemma eoc_not_readable:
  assumes "geom s" "fat_entries s < 0x10000 - fat_blocks s"
  shows "read_block h s (unat FAT_EOC) = None"
  using assms image_blocks_eq [OF assms(1)]
  by (intro read_block_beyond) (auto simp: FAT_EOC_def)

end
