(* ===== verification/DirOps.thy ===== *)
theory DirOps
  imports FatChain
begin

text \<open>
  Directory blocks of \<open>src/internal/pennfat_kernel.c\<close>: reading and writing one entry, finding an
  entry by name, adding an entry, the name of a directory in its parent, symlink targets, and the
  unused \<open>lookup_entry\<close> on the in-memory root block.
\<close>

subsection \<open>Entries of a block\<close>

text \<open>\<open>(dir_entry_t*)block_buffer\<close>, an array of \<open>g_block_size / sizeof(dir_entry_t)\<close> entries.\<close>

definition entries_per_block :: "fs \<Rightarrow> nat" where
  "entries_per_block s = g_block_size s div 64"

definition dir_entries :: "fs \<Rightarrow> string \<Rightarrow> dir_entry list" where
  "dir_entries s blk = map (\<lambda>i. dec_dirent (pread blk (64 * i) 64)) [0..<entries_per_block s]"

text \<open>\<open>name[0]\<close>: 0 ends a directory, 1 marks a deleted entry, 2 a deleted entry still in use.\<close>

definition name0 :: "dir_entry \<Rightarrow> char" where "name0 e = de_name e ! 0"

definition deleted_mark :: "dir_entry \<Rightarrow> bool" where
  "deleted_mark e \<longleftrightarrow> name0 e = CHR 0x01 \<or> name0 e = CHR 0x02"

text \<open>The entries a scan of one block visits: up to the end mark, without the deleted ones.\<close>

definition live_entries :: "dir_entry list \<Rightarrow> dir_entry list" where
  "live_entries es = filter (\<lambda>e. \<not> deleted_mark e) (takeWhile (\<lambda>e. name0 e \<noteq> NUL) es)"

text \<open>The deleted entry the kernel writes: all zero but \<open>name[0] = 1\<close>.\<close>

definition deleted_dirent :: dir_entry where
  "deleted_dirent = zero_dirent\<lparr>de_name := CHR 0x01 # replicate 31 NUL\<rparr>"

subsection \<open>One entry\<close>

definition read_dirent :: "host \<Rightarrow> fs \<Rightarrow> 16 word \<Rightarrow> int \<Rightarrow> PennFatErr + dir_entry" where
  "read_dirent h s block_num index =
    (if block_num = FAT_FREE \<or> block_num = FAT_EOC then Inl PennFatErr_INVAD
     else if \<not> h_malloc h Site_read_dirent then Inl PennFatErr_OUTOFMEM
     else case read_block h s (unat block_num) of
       None \<Rightarrow> Inl PennFatErr_IO
     | Some blk \<Rightarrow>
         if index < 0 \<or> nat index \<ge> entries_per_block s then Inl PennFatErr_INVAD
         else Inr (dir_entries s blk ! nat index))"

definition write_dirent ::
  "host \<Rightarrow> 16 word \<Rightarrow> int \<Rightarrow> dir_entry \<Rightarrow> fs \<Rightarrow> PennFatErr \<times> fs" where
  "write_dirent h block_num index entry s =
    (if block_num = FAT_FREE \<or> block_num = FAT_EOC then (PennFatErr_INVAD, s)
     else if \<not> h_malloc h Site_write_dirent then (PennFatErr_OUTOFMEM, s)
     else case read_block h s (unat block_num) of
       None \<Rightarrow> (PennFatErr_IO, s)
     | Some blk \<Rightarrow>
         if index < 0 \<or> nat index \<ge> entries_per_block s then (PennFatErr_INVAD, s)
         else let (ok, s') = write_block h (pwrite blk (64 * nat index) (enc_dirent entry))
                               (unat block_num) s in
           if \<not> ok then (PennFatErr_IO, s') else (PennFatErr_OK, s'))"

subsection \<open>Adding an entry\<close>

definition slot_free :: "dir_entry \<Rightarrow> bool" where
  "slot_free e \<longleftrightarrow> name0 e = NUL \<or> name0 e = CHR 0x01"

text \<open>The search for a slot along the chain: \<open>Inl\<close> on a read error, \<open>Inr None\<close> at the end.\<close>

partial_function (option) slot_loop ::
  "host \<Rightarrow> fs \<Rightarrow> 16 word \<Rightarrow> (PennFatErr + (16 word \<times> nat) option) option" where
  "slot_loop h s current_block =
    (if current_block \<noteq> FAT_EOC \<and> current_block \<noteq> FAT_FREE
     then case read_block h s (unat current_block) of
         None \<Rightarrow> Some (Inl PennFatErr_IO)
       | Some blk \<Rightarrow>
           (case find_idx slot_free (dir_entries s blk) of
              Some i \<Rightarrow> Some (Inr (Some (current_block, i)))
            | None \<Rightarrow> do { nxt \<leftarrow> fat_get s (unat current_block); slot_loop h s nxt })
     else Some (Inr None))"

declare slot_loop.simps [code]

text \<open>No slot: a new zeroed block is linked to the end of the chain. \<open>Inl\<close> is the error.\<close>

definition extend_dir :: "host \<Rightarrow> 16 word \<Rightarrow> fs \<Rightarrow> ((PennFatErr + 16 word) \<times> fs) option" where
  "extend_dir h dir_block s =
    do { (r, s1) \<leftarrow> allocate_free_block s;
         case r of None \<Rightarrow> Some (Inl PennFatErr_NOSPACE, s1)
         | Some new_block \<Rightarrow>
           do { last \<leftarrow> last_block s1 dir_block;
                s2 \<leftarrow> fat_set (unat last) (of_nat new_block) s1;
                let (ok, s3) = write_block h (replicate (g_block_size s2) NUL) new_block s2 in
                if \<not> ok
                then do { s4 \<leftarrow> fat_set (unat last) FAT_EOC s3;
                          s5 \<leftarrow> fat_set new_block FAT_FREE s4;
                          Some (Inl PennFatErr_IO, s5) }
                else Some (Inr (of_nat new_block), s3) } }"

text \<open>The entry is stored in its slot: read the block, replace 64 bytes, write it back.\<close>

definition put_slot :: "host \<Rightarrow> 16 word \<Rightarrow> nat \<Rightarrow> dir_entry \<Rightarrow> fs \<Rightarrow> PennFatErr \<times> fs" where
  "put_slot h slot_block slot_index entry s =
    (case read_block h s (unat slot_block) of
       None \<Rightarrow> (PennFatErr_IO, s)
     | Some blk \<Rightarrow>
         let (ok, s') = write_block h (pwrite blk (64 * slot_index) (enc_dirent entry))
                          (unat slot_block) s in
         if \<not> ok then (PennFatErr_IO, s') else (PennFatErr_OK, s'))"

definition add_dirent_to_dir ::
  "host \<Rightarrow> 16 word \<Rightarrow> dir_entry \<Rightarrow> fs \<Rightarrow> (PennFatErr \<times> fs) option" where
  "add_dirent_to_dir h dir_block entry s =
    (if dir_block = FAT_FREE \<or> dir_block = FAT_EOC then Some (PennFatErr_INVAD, s)
     else if \<not> h_malloc h Site_add_dirent then Some (PennFatErr_OUTOFMEM, s)
     else do { r \<leftarrow> slot_loop h s dir_block;
       case r of
         Inl e \<Rightarrow> Some (e, s)
       | Inr (Some (slot_block, slot_index)) \<Rightarrow> Some (put_slot h slot_block slot_index entry s)
       | Inr None \<Rightarrow>
           do { (x, s1) \<leftarrow> extend_dir h dir_block s;
                case x of Inl e \<Rightarrow> Some (e, s1)
                | Inr slot_block \<Rightarrow> Some (put_slot h slot_block 0 entry s1) } })"

subsection \<open>Finding an entry\<close>

text \<open>
  The scan of one block: a zero \<open>name[0]\<close> ends the scan of this block (the chain walk still goes
  on), deleted entries are skipped, and the first equal name is taken.
\<close>

fun scan_name :: "string \<Rightarrow> dir_entry list \<Rightarrow> nat option" where
  "scan_name name [] = None"
| "scan_name name (e # es) =
    (if name0 e = NUL then None
     else if deleted_mark e then map_option Suc (scan_name name es)
     else if dname e = name then Some 0
     else map_option Suc (scan_name name es))"

text \<open>The fields \<open>find_entry_in_dir\<close> fills when it finds the entry: entry, block, index.\<close>

type_synonym found_entry = "dir_entry \<times> 16 word \<times> nat"

partial_function (option) find_loop ::
  "host \<Rightarrow> fs \<Rightarrow> string \<Rightarrow> 16 word \<Rightarrow> (PennFatErr + found_entry option) option" where
  "find_loop h s name current_block =
    (if current_block \<noteq> FAT_EOC \<and> current_block \<noteq> FAT_FREE
     then case read_block h s (unat current_block) of
         None \<Rightarrow> Some (Inl PennFatErr_IO)
       | Some blk \<Rightarrow>
           (case scan_name name (dir_entries s blk) of
              Some i \<Rightarrow> Some (Inr (Some (dir_entries s blk ! i, current_block, i)))
            | None \<Rightarrow> do { nxt \<leftarrow> fat_get s (unat current_block); find_loop h s name nxt })
     else Some (Inr None))"

declare find_loop.simps [code]

definition find_entry_in_dir ::
  "host \<Rightarrow> fs \<Rightarrow> 16 word \<Rightarrow> string \<Rightarrow> (PennFatErr + found_entry option) option" where
  "find_entry_in_dir h s dir_block name =
    (if dir_block = FAT_FREE \<or> dir_block = FAT_EOC then Some (Inl PennFatErr_INVAD)
     else if \<not> h_malloc h Site_find_entry then Some (Inl PennFatErr_OUTOFMEM)
     else find_loop h s name dir_block)"

subsection \<open>The name of a directory in its parent\<close>

definition dir_entry_for :: "16 word \<Rightarrow> dir_entry \<Rightarrow> bool" where
  "dir_entry_for target e \<longleftrightarrow> name0 e \<noteq> NUL \<and> \<not> deleted_mark e \<and> de_type e = 2 \<and>
     de_first_block e = target \<and> dname e \<noteq> ''.'' \<and> dname e \<noteq> ''..''"

fun scan_dir_name :: "16 word \<Rightarrow> dir_entry list \<Rightarrow> string option" where
  "scan_dir_name target [] = None"
| "scan_dir_name target (e # es) =
    (if dir_entry_for target e then Some (dname e)
     else if name0 e = NUL then None else scan_dir_name target es)"

partial_function (option) dir_name_loop ::
  "host \<Rightarrow> fs \<Rightarrow> 16 word \<Rightarrow> 16 word \<Rightarrow> (PennFatErr + string) option" where
  "dir_name_loop h s target current_block =
    (if current_block \<noteq> FAT_EOC \<and> current_block \<noteq> FAT_FREE
     then case read_block h s (unat current_block) of
         None \<Rightarrow> Some (Inl PennFatErr_IO)
       | Some blk \<Rightarrow>
           (case scan_dir_name target (dir_entries s blk) of
              Some nm \<Rightarrow> Some (Inr nm)
            | None \<Rightarrow> do { nxt \<leftarrow> fat_get s (unat current_block); dir_name_loop h s target nxt })
     else Some (Inl PennFatErr_EXISTS))"

declare dir_name_loop.simps [code]

text \<open>The result is the C string left in \<open>name_buf\<close> of \<open>buf_size\<close> bytes.\<close>

definition find_dir_name_in_parent ::
  "host \<Rightarrow> fs \<Rightarrow> 16 word \<Rightarrow> 16 word \<Rightarrow> nat \<Rightarrow> (PennFatErr + string) option" where
  "find_dir_name_in_parent h s target parent buf_size =
    (if \<not> g_mounted s \<or> buf_size = 0 then Some (Inl PennFatErr_INVAD)
     else if parent = FAT_FREE \<or> parent = FAT_EOC \<or> target = FAT_FREE \<or> target = FAT_EOC
     then Some (Inl PennFatErr_INVAD)
     else if target = 1 then Some (Inr [])
     else if \<not> h_malloc h Site_find_dir_name then Some (Inl PennFatErr_OUTOFMEM)
     else do { r \<leftarrow> dir_name_loop h s target parent;
               Some (map_sum id (take (buf_size - 1)) r) })"

subsection \<open>Symlink targets\<close>

definition read_symlink_target :: "host \<Rightarrow> fs \<Rightarrow> dir_entry \<Rightarrow> nat \<Rightarrow> PennFatErr + string" where
  "read_symlink_target h s link_entry buf_size =
    (if buf_size = 0 then Inl PennFatErr_INVAD
     else if de_type link_entry \<noteq> 4 then Inl PennFatErr_INVAD
     else if \<not> h_malloc h Site_read_symlink_target then Inl PennFatErr_OUTOFMEM
     else case read_block h s (unat (de_first_block link_entry)) of
       None \<Rightarrow> Inl PennFatErr_IO
     | Some blk \<Rightarrow>
         let target_len = (if unat (de_size link_entry) \<ge> buf_size then buf_size - 1
                           else unat (de_size link_entry)) in
         Inr (cstr (take target_len blk)))"

subsection \<open>The unused lookup on the in-memory root block\<close>

text \<open>
  \<open>lookup_entry\<close> works on \<open>g_root_dir\<close>, the copy of the root block that \<open>k_mount\<close> reads. No other
  function calls it. The loop keeps the first free index and stops at an equal name
  (\<open>strncmp\<close> over 32 bytes).
\<close>

definition root_entries :: "fs \<Rightarrow> dir_entry list" where
  "root_entries s = dir_entries s (g_root_dir s)"

definition lookup_match :: "string \<Rightarrow> dir_entry \<Rightarrow> bool" where
  "lookup_match fname e \<longleftrightarrow> name0 e \<noteq> NUL \<and> dname e = take 32 fname"

definition put_root_entry :: "nat \<Rightarrow> dir_entry \<Rightarrow> fs \<Rightarrow> fs" where
  "put_root_entry i e s = s\<lparr>g_root_dir := pwrite (g_root_dir s) (64 * i) (enc_dirent e)\<rparr>"

definition lookup_entry :: "host \<Rightarrow> string \<Rightarrow> int \<Rightarrow> fs \<Rightarrow> (int \<times> fs) option" where
  "lookup_entry h fname mode s =
    (if fname = [] then Some (err_code PennFatErr_INVAD, s)
     else if \<not> g_mounted s then Some (err_code PennFatErr_NOT_MOUNTED, s)
     else case find_idx (lookup_match fname) (root_entries s) of
       Some i \<Rightarrow>
         let e = root_entries s ! i in
         if (REQ_READ_PERM mode \<and> \<not> CAN_READ (de_perm e)) \<or>
            (REQ_WRITE_PERM mode \<and> \<not> CAN_WRITE (de_perm e))
         then Some (err_code PennFatErr_PERM, s) else Some (int i, s)
     | None \<Rightarrow>
         if \<not> HAS_CREATE mode then Some (err_code PennFatErr_EXISTS, s)
         else (case find_idx (\<lambda>e. name0 e = NUL) (root_entries s) of
           None \<Rightarrow> Some (err_code PennFatErr_OUTOFMEM, s)
         | Some idx \<Rightarrow>
             let e = zero_dirent\<lparr>de_name := name_field fname, de_mtime := h_now h,
                       de_perm := DEF_PERM\<rparr> in
             do { (r, s1) \<leftarrow> allocate_free_block s;
                  case r of
                    None \<Rightarrow> Some (err_code PennFatErr_NOSPACE, put_root_entry idx zero_dirent s1)
                  | Some block \<Rightarrow>
                      Some (int idx, put_root_entry idx (e\<lparr>de_first_block := of_nat block\<rparr>) s1) }))"

subsection \<open>Directory blocks as arrays of entries\<close>

lemma length_dir_entries [simp]: "length (dir_entries s blk) = entries_per_block s"
  by (simp add: dir_entries_def)

lemma nth_dir_entries: "i < entries_per_block s \<Longrightarrow> dir_entries s blk ! i = dec_dirent (pread blk (64 * i) 64)"
  by (simp add: dir_entries_def)

lemma entries_per_block_double:
  assumes "geom s"
  shows "64 * entries_per_block s = g_block_size s" "4 \<le> entries_per_block s" "entries_per_block s \<le> 64"
  using assms by (auto elim!: block_size_cases simp: entries_per_block_def)

lemma entries_per_block_same: "same_but_img s s' \<Longrightarrow> entries_per_block s' = entries_per_block s"
  by (simp only: entries_per_block_def same_but_img_fields(3))

lemma dir_entries_same: "g_block_size s' = g_block_size s \<Longrightarrow> dir_entries s' blk = dir_entries s blk"
  by (simp add: dir_entries_def entries_per_block_def)

lemma dir_entries_pwrite:
  assumes "geom s" "length blk = g_block_size s" "i < entries_per_block s" "wf_dirent e"
  shows "dir_entries s (pwrite blk (64 * i) (enc_dirent e)) = (dir_entries s blk)[i := e]"
proof (rule nth_equalityI)
  fix j assume "j < length (dir_entries s (pwrite blk (64 * i) (enc_dirent e)))"
  then have j: "j < entries_per_block s" by simp
  have "64 * j + 64 \<le> length blk"
    using j entries_per_block_double(1) [OF assms(1)] assms(2) by linarith
  then have "pread (pwrite blk (64 * i) (enc_dirent e)) (64 * j) 64 =
      (if j = i then enc_dirent e else pread blk (64 * j) 64)"
    using assms(4) by (auto simp: pread_pwrite_same intro!: pread_pwrite_other)
  then show "dir_entries s (pwrite blk (64 * i) (enc_dirent e)) ! j = (dir_entries s blk)[i := e] ! j"
    using j assms by (simp add: nth_dir_entries nth_list_update dec_enc_dirent)
qed simp

lemma length_pwrite_entry:
  assumes "geom s" "length blk = g_block_size s" "i < entries_per_block s" "wf_dirent e"
  shows "length (pwrite blk (64 * i) (enc_dirent e)) = g_block_size s"
proof -
  have "64 * i + 64 \<le> length blk"
    using assms entries_per_block_double(1) [OF assms(1)] by linarith
  then show ?thesis using assms by (simp add: length_pwrite)
qed

text \<open>The entries of directory block \<open>b\<close> of the image.\<close>

definition block_entries :: "host \<Rightarrow> fs \<Rightarrow> 16 word \<Rightarrow> dir_entry list" where
  "block_entries h s b = dir_entries s (the (read_block h s (unat b)))"

definition dir_block_ok :: "fs \<Rightarrow> 16 word \<Rightarrow> bool" where
  "dir_block_ok s b \<longleftrightarrow> \<not> chain_end b \<and> unat b < image_blocks s"

lemma length_block_entries [simp]: "length (block_entries h s b) = entries_per_block s"
  by (simp add: block_entries_def)

lemma read_dirent_eq:
  assumes "good_host h" "geom s" "dir_block_ok s b"
  shows "read_dirent h s b idx =
    (if idx < 0 \<or> nat idx \<ge> entries_per_block s then Inl PennFatErr_INVAD
     else Inr (block_entries h s b ! nat idx))"
  using assms blk.get_inside [of h s "unat b"]
  by (auto simp: read_dirent_def dir_block_ok_def chain_end_def block_entries_def)

lemma wf_block_entry:
  assumes "good_host h" "geom s" "dir_block_ok s b" "i < entries_per_block s"
  shows "wf_dirent (block_entries h s b ! i)"
proof -
  obtain blk where blk: "read_block h s (unat b) = Some blk"
    using blk.get_inside [of h s "unat b"] assms by (auto simp: dir_block_ok_def)
  have "64 * i + 64 \<le> length blk"
    using assms(4) entries_per_block_double(1) [OF assms(2)] read_block_length [OF blk] by linarith
  then show ?thesis using assms blk by (simp add: block_entries_def nth_dir_entries)
qed

text \<open>A successful change of one entry: the image keeps its geometry, one entry of one block changes.\<close>

definition entry_changed :: "host \<Rightarrow> fs \<Rightarrow> 16 word \<Rightarrow> nat \<Rightarrow> dir_entry \<Rightarrow> fs \<Rightarrow> bool" where
  "entry_changed h s b i e s' \<longleftrightarrow> same_but_img s s' \<and> geom s' \<and> image_blocks s' = image_blocks s \<and>
     block_entries h s' b = (block_entries h s b)[i := e] \<and>
     (\<forall>c < image_blocks s. c \<noteq> unat b \<longrightarrow> read_block h s' c = read_block h s c) \<and>
     (fat_blocks s \<le> unat b \<longrightarrow> fat_list s' = fat_list s)"

lemma put_slot_changed:
  assumes "good_host h" "geom s" "dir_block_ok s b" "i < entries_per_block s" "wf_dirent e"
  shows "\<exists>s'. put_slot h b i e s = (PennFatErr_OK, s') \<and> entry_changed h s b i e s'"
proof -
  obtain blk where blk: "read_block h s (unat b) = Some blk" "length blk = g_block_size s"
    using blk.get_inside [of h s "unat b"] assms read_block_length by (auto simp: dir_block_ok_def)
  define buf where "buf = pwrite blk (64 * i) (enc_dirent e)"
  have len: "length buf = g_block_size s"
    unfolding buf_def using assms(2) blk(2) assms(4,5) by (rule length_pwrite_entry)
  obtain s' where w: "write_block h buf (unat b) s = (True, s')" and put: "put_block h (unat b) buf s = Some s'"
    using write_block_eq [OF assms(1,2)] by (auto simp: put_block_def)
  have b: "unat b < image_blocks s" using assms(3) by (simp add: dir_block_ok_def)
  have inv: "geom s'" "image_blocks s' = image_blocks s"
    using blk.put_preserves [OF conjI [OF assms(1,2)] b len put] by simp_all
  have same: "same_but_img s s'" by (rule write_block_same_but_img [OF w])
  have get: "read_block h s' j = (if j = unat b then Some buf else read_block h s j)"
    if "j < image_blocks s" for j
    using blk.get_put [OF conjI [OF assms(1,2)] b len put that] by simp
  have "block_entries h s' b = dir_entries s buf"
    using get [OF b] dir_entries_same [OF same_but_img_fields(3) [OF same]]
    by (simp add: block_entries_def)
  also have "\<dots> = (block_entries h s b)[i := e]"
    unfolding buf_def using dir_entries_pwrite [OF assms(2) blk(2) assms(4,5)] blk(1)
    by (simp add: block_entries_def)
  finally have "block_entries h s' b = (block_entries h s b)[i := e]" .
  moreover have "fat_list s' = fat_list s" if "fat_blocks s \<le> unat b"
    by (rule write_block_keeps_fat [OF assms(2) that b len w])
  ultimately have "entry_changed h s b i e s'"
    using inv same get by (auto simp: entry_changed_def)
  then show ?thesis using blk(1) w by (simp add: put_slot_def buf_def)
qed

lemma write_dirent_changed:
  assumes "good_host h" "geom s" "dir_block_ok s b" "i < entries_per_block s" "wf_dirent e"
  shows "\<exists>s'. write_dirent h b (int i) e s = (PennFatErr_OK, s') \<and> entry_changed h s b i e s'"
proof -
  have "write_dirent h b (int i) e s = put_slot h b i e s"
    using assms blk.get_inside [of h s "unat b"]
    by (auto simp: write_dirent_def put_slot_def dir_block_ok_def chain_end_def)
  then show ?thesis using put_slot_changed [OF assms] by simp
qed

lemma write_dirent_outside:
  "idx < 0 \<Longrightarrow> snd (write_dirent h b idx e s) = s"
  by (auto simp: write_dirent_def split: option.splits)

definition get_slot :: "host \<Rightarrow> 16 word \<Rightarrow> fs \<Rightarrow> nat \<Rightarrow> dir_entry option" where
  "get_slot h b s i = (case read_dirent h s b (int i) of Inl _ \<Rightarrow> None | Inr e \<Rightarrow> Some e)"

definition set_slot :: "host \<Rightarrow> 16 word \<Rightarrow> nat \<Rightarrow> dir_entry \<Rightarrow> fs \<Rightarrow> fs option" where
  "set_slot h b i e s =
    (case write_dirent h b (int i) e s of (err, s') \<Rightarrow> if err = PennFatErr_OK then Some s' else None)"

interpretation slots: indexed_store "\<lambda>s. good_host h \<and> geom s \<and> dir_block_ok s b" entries_per_block
  "\<lambda>_. wf_dirent" "get_slot h b" "set_slot h b" for h b
proof (unfold_locales, goal_cases)
  case (1 s i)
  then show ?case by (simp add: get_slot_def read_dirent_eq)
next
  case (2 s i e)
  then show ?case using write_dirent_changed [of h s b i e]
    by (auto simp: set_slot_def entry_changed_def dir_block_ok_def dest: entries_per_block_same)
next
  case (3 s i e s' j)
  then have ch: "entry_changed h s b i e s'"
    using write_dirent_changed [of h s b i e] by (auto simp: set_slot_def)
  then have "geom s'" "dir_block_ok s' b" "entries_per_block s' = entries_per_block s"
    "block_entries h s' b = (block_entries h s b)[i := e]"
    using 3 by (auto simp: entry_changed_def dir_block_ok_def dest: entries_per_block_same)
  with 3 show ?case
    by (simp add: get_slot_def read_dirent_eq nth_list_update)
qed

subsection \<open>Searching a directory\<close>

text \<open>
  \<open>dir_chain s d bs\<close>: the directory that starts at block \<open>d\<close> consists of the blocks \<open>bs\<close>, all of
  them on the image. \<open>find_chain\<close> is the search over that list, and \<open>chain_entries\<close> are the live
  entries of the directory in their order.
\<close>

definition dir_chain :: "fs \<Rightarrow> 16 word \<Rightarrow> 16 word list \<Rightarrow> bool" where
  "dir_chain s d bs \<longleftrightarrow> chain (fat_list s) d bs \<and> bs \<noteq> [] \<and> (\<forall>c\<in>set bs. unat c < image_blocks s)"

fun find_chain :: "host \<Rightarrow> fs \<Rightarrow> string \<Rightarrow> 16 word list \<Rightarrow> found_entry option" where
  "find_chain h s name [] = None"
| "find_chain h s name (b # bs) =
    (case scan_name name (block_entries h s b) of
       Some i \<Rightarrow> Some (block_entries h s b ! i, b, i)
     | None \<Rightarrow> find_chain h s name bs)"

definition chain_entries :: "host \<Rightarrow> fs \<Rightarrow> 16 word list \<Rightarrow> dir_entry list" where
  "chain_entries h s bs = concat (map (\<lambda>b. live_entries (block_entries h s b)) bs)"

lemma live_entries_Cons:
  "live_entries (e # es) =
    (if name0 e = NUL then [] else if deleted_mark e then live_entries es else e # live_entries es)"
  by (simp add: live_entries_def)

lemma live_entries_Nil [simp]: "live_entries [] = []"
  by (simp add: live_entries_def)

lemma scan_name_find:
  "map_option (\<lambda>i. es ! i) (scan_name name es) = List.find (\<lambda>e. dname e = name) (live_entries es)"
  by (induction es) (simp_all add: live_entries_Cons option.map_comp comp_def)

lemma scan_name_bound: "scan_name name es = Some i \<Longrightarrow> i < length es"
  by (induction es arbitrary: i) (auto split: if_splits)

lemma scan_name_None:
  "scan_name name es = None \<longleftrightarrow> name \<notin> dname ` set (live_entries es)"
  by (induction es) (auto simp: live_entries_Cons)

lemma find_append:
  "List.find P (xs @ ys) = (case List.find P xs of None \<Rightarrow> List.find P ys | Some x \<Rightarrow> Some x)"
  by (induction xs) auto

lemma find_chain_live:
  "map_option fst (find_chain h s name bs) = List.find (\<lambda>e. dname e = name) (chain_entries h s bs)"
proof (induction bs)
  case Nil
  then show ?case by (simp add: chain_entries_def)
next
  case (Cons b bs)
  then show ?case
    using scan_name_find [of "block_entries h s b" name]
    by (cases "scan_name name (block_entries h s b)")
       (simp_all add: chain_entries_def find_append flip: scan_name_find)
qed

lemma find_chain_None:
  "find_chain h s name bs = None \<longleftrightarrow> name \<notin> dname ` set (chain_entries h s bs)"
proof (induction bs)
  case Nil
  then show ?case by (simp add: chain_entries_def)
next
  case (Cons b bs)
  then show ?case
    using scan_name_None [of name "block_entries h s b"]
    by (cases "scan_name name (block_entries h s b)") (auto simp: chain_entries_def)
qed

lemma chain_block:
  assumes "good_host h" "geom s" "chain (fat_list s) d (b # bs)" "unat b < image_blocks s"
  shows "\<exists>blk. read_block h s (unat d) = Some blk \<and> block_entries h s b = dir_entries s blk"
    "fat_get s (unat d) = Some (fat_list s ! unat d)" "d \<noteq> FAT_EOC" "d \<noteq> FAT_FREE"
    "chain (fat_list s) (fat_list s ! unat d) bs"
  using assms blk.get_inside [of h s "unat b"] fat.get_contents [of s "unat d"]
  by (auto simp: chain_end_def block_entries_def)

lemma find_loop_chain:
  assumes "good_host h" "geom s" "chain (fat_list s) d bs" "\<forall>c\<in>set bs. unat c < image_blocks s"
  shows "find_loop h s name d = Some (Inr (find_chain h s name bs))"
  using assms(3,4)
proof (induction bs arbitrary: d)
  case Nil
  then show ?case by (simp add: find_loop.simps)
next
  case (Cons b bs)
  have b: "b = d" using Cons.prems by simp
  have inside: "unat b < image_blocks s" using Cons.prems by simp
  note links = chain_block(2-5) [OF assms(1,2) Cons.prems(1) inside]
  obtain blk where blk: "read_block h s (unat d) = Some blk" "block_entries h s b = dir_entries s blk"
    using chain_block(1) [OF assms(1,2) Cons.prems(1) inside] by auto
  have IH: "find_loop h s name (fat_list s ! unat d) = Some (Inr (find_chain h s name bs))"
    using Cons.IH [of "fat_list s ! unat d"] Cons.prems by auto
  show ?case
    using blk links IH b
    by (subst find_loop.simps) (simp split: option.splits)
qed

lemma find_entry_chain:
  assumes "good_host h" "geom s" "dir_chain s d bs"
  shows "find_entry_in_dir h s d name = Some (Inr (find_chain h s name bs))"
  using assms chain_start [of "fat_list s" d bs] find_loop_chain [of h s d bs name]
  by (auto simp: find_entry_in_dir_def dir_chain_def chain_end_def)

subsection \<open>Finding a slot\<close>

fun slot_chain :: "host \<Rightarrow> fs \<Rightarrow> 16 word list \<Rightarrow> (16 word \<times> nat) option" where
  "slot_chain h s [] = None"
| "slot_chain h s (b # bs) =
    (case find_idx slot_free (block_entries h s b) of
       Some i \<Rightarrow> Some (b, i) | None \<Rightarrow> slot_chain h s bs)"

lemma slot_loop_chain:
  assumes "good_host h" "geom s" "chain (fat_list s) d bs" "\<forall>c\<in>set bs. unat c < image_blocks s"
  shows "slot_loop h s d = Some (Inr (slot_chain h s bs))"
  using assms(3,4)
proof (induction bs arbitrary: d)
  case Nil
  then show ?case by (simp add: slot_loop.simps)
next
  case (Cons b bs)
  have b: "b = d" using Cons.prems by simp
  have inside: "unat b < image_blocks s" using Cons.prems by simp
  note links = chain_block(2-5) [OF assms(1,2) Cons.prems(1) inside]
  obtain blk where blk: "read_block h s (unat d) = Some blk" "block_entries h s b = dir_entries s blk"
    using chain_block(1) [OF assms(1,2) Cons.prems(1) inside] by auto
  have IH: "slot_loop h s (fat_list s ! unat d) = Some (Inr (slot_chain h s bs))"
    using Cons.IH [of "fat_list s ! unat d"] Cons.prems by auto
  show ?case
    using blk links IH b
    by (subst slot_loop.simps) (simp split: option.splits)
qed

lemma slot_chain_Some:
  assumes "slot_chain h s bs = Some (b, i)"
  shows "b \<in> set bs" "i < entries_per_block s" "slot_free (block_entries h s b ! i)"
  using assms by (induction bs) (auto split: option.splits dest: find_idx_SomeD)

text \<open>
  The slot is the first free one, so no end mark stands before it: the new name is met, and no
  other block shadows it.
\<close>

lemma scan_name_reaches:
  assumes "i < length es" "\<forall>j<i. \<not> slot_free (es ! j)" "name \<notin> dname ` set (live_entries es)"
    "dname e = name" "name0 e \<noteq> NUL" "\<not> deleted_mark e"
  shows "scan_name name (es[i := e]) = Some i"
  using assms
proof (induction es arbitrary: i)
  case Nil
  then show ?case by simp
next
  case (Cons x es)
  show ?case
  proof (cases i)
    case 0
    then show ?thesis using Cons.prems by simp
  next
    case (Suc k)
    have x: "name0 x \<noteq> NUL" using Cons.prems(2) Suc by (auto simp: slot_free_def)
    moreover have "\<not> deleted_mark x \<longrightarrow> dname x \<noteq> name"
      using Cons.prems(3) x by (auto simp: live_entries_Cons)
    moreover have "scan_name name (es[k := e]) = Some k"
    proof (rule Cons.IH)
      show "\<forall>j<k. \<not> slot_free (es ! j)"
      proof (intro allI impI)
        fix j assume "j < k"
        then show "\<not> slot_free (es ! j)" using Cons.prems(2) [rule_format, of "Suc j"] Suc by simp
      qed
      show "name \<notin> dname ` set (live_entries es)"
        using Cons.prems(3) x by (auto simp: live_entries_Cons split: if_splits)
    qed (use Cons.prems Suc in auto)
    ultimately show ?thesis using Suc by simp
  qed
qed

lemma block_entries_same:
  assumes "same_but_img s s'" "read_block h s' (unat b) = read_block h s (unat b)"
  shows "block_entries h s' b = block_entries h s b"
  using dir_entries_same [OF same_but_img_fields(3) [OF assms(1)]] assms(2)
  by (simp add: block_entries_def)

lemma find_chain_same:
  assumes "\<forall>b\<in>set bs. block_entries h s' b = block_entries h s b"
  shows "find_chain h s' name bs = find_chain h s name bs"
  using assms by (induction bs) (auto split: option.split)

lemma find_after_add:
  assumes "slot_chain h s bs = Some (b, i)" "distinct bs" "find_chain h s name bs = None"
    "entry_changed h s b i e s'" "\<forall>c\<in>set bs. unat c < image_blocks s"
    "dname e = name" "name0 e \<noteq> NUL" "\<not> deleted_mark e"
  shows "find_chain h s' name bs = Some (e, b, i)"
  using assms(1-3,5)
proof (induction bs)
  case Nil
  then show ?case by simp
next
  case (Cons c bs)
  have none: "scan_name name (block_entries h s c) = None" "find_chain h s name bs = None"
    using Cons.prems(3) by (auto split: option.splits)
  show ?case
  proof (cases "find_idx slot_free (block_entries h s c)")
    case None
    then have sl: "slot_chain h s bs = Some (b, i)" using Cons.prems(1) by simp
    then have "c \<noteq> b" using slot_chain_Some(1) [OF sl] Cons.prems(2) by auto
    then have "block_entries h s' c = block_entries h s c"
      using assms(4) Cons.prems(4) by (intro block_entries_same) (auto simp: entry_changed_def dest: unsigned_word_eqI)
    then show ?thesis using Cons sl none by simp
  next
    case (Some k)
    then have bi: "b = c" "i = k" using Cons.prems(1) by auto
    have "scan_name name ((block_entries h s c)[k := e]) = Some k"
      using find_idx_SomeD [OF Some] none(1) assms(6-8)
      by (intro scan_name_reaches) (auto simp: scan_name_None)
    moreover have "block_entries h s' c = (block_entries h s c)[k := e]"
      using assms(4) bi by (simp add: entry_changed_def)
    ultimately show ?thesis using bi find_idx_SomeD(1) [OF Some] by simp
  qed
qed

subsection \<open>Adding an entry\<close>

lemma le_val_zeros [simp]: "le_val (replicate k NUL) = 0"
  by (induction k) auto

lemma pread_zeros: "off + k \<le> n \<Longrightarrow> pread (replicate n NUL) off k = replicate k NUL"
  by (simp add: pread_def)

lemma dec_zeros [simp]: "dec_dirent (replicate 64 NUL) = zero_dirent"
  by (simp add: dec_dirent_def zero_dirent_def pread_zeros)

lemma dir_entries_zeros:
  assumes "geom s"
  shows "dir_entries s (replicate (g_block_size s) NUL) = replicate (entries_per_block s) zero_dirent"
proof (rule nth_equalityI)
  fix i assume i: "i < length (dir_entries s (replicate (g_block_size s) NUL))"
  then have "64 * i + 64 \<le> g_block_size s"
    using entries_per_block_double(1) [OF assms] by simp
  then show "dir_entries s (replicate (g_block_size s) NUL) ! i =
      replicate (entries_per_block s) zero_dirent ! i"
    using i by (simp add: nth_dir_entries pread_zeros)
qed simp

lemma name0_zero [simp]: "name0 zero_dirent = NUL"
  by (simp add: name0_def zero_dirent_def)

lemma chain_not_free: "chain fat b xs \<Longrightarrow> c \<in> set xs \<Longrightarrow> fat ! unat c \<noteq> FAT_FREE"
proof (induction xs arbitrary: b)
  case Nil
  then show ?case by simp
next
  case (Cons x xs)
  show ?case
  proof (cases "c = x")
    case True
    then show ?thesis using Cons.prems
      by (cases xs) (auto simp: chain_end_def FAT_FREE_def FAT_EOC_def)
  next
    case False
    then show ?thesis using Cons by auto
  qed
qed

lemma chain_snoc:
  assumes "chain fat b xs" "xs \<noteq> []" "n < length fat" "fat ! n = FAT_FREE" "1 \<le> n" "n < 0xFFFF"
  shows "chain (fat[n := FAT_EOC, unat (last xs) := of_nat n]) b (xs @ [of_nat n])"
  using assms(1,2)
proof (induction xs arbitrary: b)
  case Nil
  then show ?case by simp
next
  case (Cons x xs)
  have n: "unat (of_nat n :: 16 word) = n" using assms(6) by (simp add: unat_of_nat)
  have nend: "\<not> chain_end (of_nat n)"
  proof
    assume "chain_end (of_nat n)"
    then have "n = 0xFFFF \<or> n = 0" using n by (auto simp: chain_end_def FAT_EOC_def FAT_FREE_def)
    then show False using assms(5,6) by simp
  qed
  have xn: "unat x \<noteq> n" "unat (last (x # xs)) \<noteq> n"
    using chain_not_free [OF Cons.prems(1)] assms(4) last_in_set [of "x # xs"] by fastforce+
  show ?case
  proof (cases xs)
    case Nil
    then show ?thesis using Cons.prems n nend xn assms(3) by (auto simp: nth_list_update)
  next
    case (Cons y ys)
    have "last xs \<noteq> x"
      using chain_distinct [OF Cons.prems(1)] last_in_set [of xs] \<open>xs = y # ys\<close> by auto
    then have "unat (last xs) \<noteq> unat x" by (auto dest: unsigned_word_eqI)
    then show ?thesis
      using Cons.prems Cons.IH [of "fat ! unat b"] \<open>xs = y # ys\<close> xn by (auto simp: nth_list_update)
  qed
qed

lemma extend_dir_chain:
  assumes "good_host h" "geom s" "fat_blocks s = 1" "dir_chain s d bs"
  shows "(\<exists>n s'. extend_dir h d s = Some (Inr (of_nat n), s') \<and> same_but_img s s' \<and> geom s' \<and>
      image_blocks s' = image_blocks s \<and> 2 \<le> n \<and> n < fat_entries s \<and> fat_list s ! n = FAT_FREE \<and>
      fat_list s' = (fat_list s)[n := FAT_EOC, unat (last bs) := of_nat n] \<and>
      read_block h s' n = Some (replicate (g_block_size s) NUL) \<and>
      (\<forall>c. 1 \<le> c \<and> c < image_blocks s \<and> c \<noteq> n \<longrightarrow> read_block h s' c = read_block h s c)) \<or>
    (extend_dir h d s = Some (Inl PennFatErr_NOSPACE, s) \<and>
      (\<forall>i. 2 \<le> i \<and> i < fat_entries s \<longrightarrow> fat_list s ! i \<noteq> FAT_FREE))"
proof -
  obtain r s1 where alloc: "allocate_free_block s = Some (r, s1)"
    using allocate_total [OF assms(2)] by auto
  show ?thesis
  proof (cases r)
    case None
    then show ?thesis
      using allocate_None [OF assms(2)] alloc by (auto simp: extend_dir_def)
  next
    case (Some n)
    note al = allocate_Some [OF assms(2) alloc [unfolded Some]]
    note ef = allocate_effect [OF assms(2) alloc [unfolded Some]]
    have small: "fat_entries s \<le> 2048"
      using fat_entries_double [OF assms(2)] geom_block_size [OF assms(2)] assms(3) by simp
    have n: "n < image_blocks s" "unat (of_nat n :: 16 word) = n"
      using al(2) small fat_blocks_inside [OF assms(2)] by (auto simp: unat_of_nat)
    have ch: "chain (fat_list s) d bs" "bs \<noteq> []" using assms(4) by (auto simp: dir_chain_def)
    have last: "unat (last bs) < fat_entries s" "last bs \<in> set bs"
      using chain_mem [OF ch(1)] last_in_set [OF ch(2)] by auto
    have "chain (fat_list s1) d bs"
    proof (rule chain_other [OF ch(1)])
      show "\<forall>c\<in>set bs. fat_list s1 ! unat c = fat_list s ! unat c"
        using chain_not_free [OF ch(1)] al(2,3) by (auto simp: ef(3) nth_list_update)
    qed (simp add: ef)
    then have lb: "last_block s1 d = Some (last bs)"
      using last_block_chain [OF ef(1)] ch(2) by simp
    obtain s2 where s2: "fat_set (unat (last bs)) (of_nat n) s1 = Some s2" "geom s2"
      "fat_entries s2 = fat_entries s1" "fat_list s2 = (fat_list s1)[unat (last bs) := of_nat n]"
      using fat.put_total [of s1 "unat (last bs)" "of_nat n"] ef(1,2) last(1) by auto
    have same12: "same_but_img s1 s2" by (rule fat_set_same_but_img [OF s2(1)])
    have same2: "same_but_img s s2" by (rule same_but_img_trans [OF ef(4) same12])
    note f2 = same_but_img_fields [OF same2]
    have ib: "image_blocks s2 = image_blocks s"
      using image_blocks_eq [OF assms(2)] image_blocks_eq [OF s2(2)] by (simp add: f2)
    have rb2: "read_block h s2 c = read_block h s c" if "1 \<le> c" for c
      using fat_set_keeps_block [OF ef(1) _ s2(1), of c h] ef(5) [of c h] that assms(3) last(1)
      by (simp add: ef(2) same_but_img_fields [OF ef(4)])
    let ?z = "replicate (g_block_size s2) NUL"
    obtain s3 where w: "write_block h ?z n s2 = (True, s3)" and put: "put_block h n ?z s2 = Some s3"
      using write_block_eq [OF assms(1) s2(2)] by (auto simp: put_block_def)
    have n2: "n < image_blocks s2" using n ib by simp
    note blk3 = blk.put_preserves [OF conjI [OF assms(1) s2(2)] n2 length_replicate put]
    have get3: "read_block h s3 c = (if c = n then Some ?z else read_block h s2 c)"
      if "c < image_blocks s" for c
      using blk.get_put [OF conjI [OF assms(1) s2(2)] n2 length_replicate put, of c] that ib by simp
    have fat3: "fat_list s3 = fat_list s2"
      using al(1) assms(3) n2 by (intro write_block_keeps_fat [OF s2(2) _ n2 length_replicate w]) (simp add: f2)
    have ext: "extend_dir h d s = Some (Inr (of_nat n), s3)"
      using alloc Some lb s2(1) w by (simp add: extend_dir_def)
    have "same_but_img s s3"
      by (rule same_but_img_trans [OF same2 write_block_same_but_img [OF w]])
    then show ?thesis
      using ext blk3 ib al(1-3) fat3 s2(4) ef(3) get3 n(1) rb2
      by (intro disjI1 exI [of _ n] exI [of _ s3]) (auto simp: f2)
  qed
qed

text \<open>
  \<open>tidy es\<close>: nothing live stands behind the end mark. Then filling a free slot leaves every other
  name as it was.
\<close>

definition tidy :: "dir_entry list \<Rightarrow> bool" where
  "tidy es \<longleftrightarrow> (\<forall>i j. i < j \<and> j < length es \<and> name0 (es ! i) = NUL \<longrightarrow> name0 (es ! j) = NUL)"

lemma tidy_Cons: "tidy (e # es) \<longleftrightarrow> tidy es \<and> (name0 e = NUL \<longrightarrow> (\<forall>x\<in>set es. name0 x = NUL))"
  by (auto simp: tidy_def all_set_conv_all_nth less_Suc_eq_0_disj nth_Cons split: nat.splits)

lemma scan_name_blank: "\<forall>x\<in>set es. name0 x = NUL \<Longrightarrow> scan_name m es = None"
  by (cases es) auto

lemma scan_name_other:
  assumes "i < length es" "slot_free (es ! i)" "tidy es" "dname e \<noteq> m" "name0 e \<noteq> NUL" "\<not> deleted_mark e"
  shows "scan_name m (es[i := e]) = scan_name m es"
  using assms(1-3)
proof (induction es arbitrary: i)
  case Nil
  then show ?case by simp
next
  case (Cons x es)
  show ?case
  proof (cases i)
    case 0
    then show ?thesis
      using Cons.prems assms(4-6)
      by (auto simp: slot_free_def deleted_mark_def tidy_Cons scan_name_blank)
  next
    case (Suc k)
    then show ?thesis
      using Cons.IH [of k] Cons.prems by (auto simp: tidy_Cons)
  qed
qed

lemma find_chain_other:
  assumes "entry_changed h s b i e s'" "i < entries_per_block s" "slot_free (block_entries h s b ! i)"
    "tidy (block_entries h s b)" "dname e \<noteq> m" "name0 e \<noteq> NUL" "\<not> deleted_mark e"
    "\<forall>c\<in>set bs. unat c < image_blocks s"
  shows "map_option snd (find_chain h s' m bs) = map_option snd (find_chain h s m bs)"
  using assms(8)
proof (induction bs)
  case Nil
  then show ?case by simp
next
  case (Cons c bs)
  show ?case
  proof (cases "c = b")
    case True
    have "scan_name m (block_entries h s' b) = scan_name m (block_entries h s b)"
      using scan_name_other [of i "block_entries h s b" e m] assms by (simp add: entry_changed_def)
    then show ?thesis using Cons True by (auto split: option.split)
  next
    case False
    then have "block_entries h s' c = block_entries h s c"
      using assms(1) Cons.prems
      by (intro block_entries_same) (auto simp: entry_changed_def dest: unsigned_word_eqI)
    then show ?thesis using Cons by (auto split: option.split)
  qed
qed

lemma find_chain_append:
  "find_chain h s m (bs @ cs) =
    (case find_chain h s m bs of None \<Rightarrow> find_chain h s m cs | Some r \<Rightarrow> Some r)"
  by (induction bs) (auto split: option.split)

lemma entry_changed_chain:
  assumes "entry_changed h s b i e s'" "dir_chain s d bs" "fat_blocks s \<le> unat b"
  shows "dir_chain s' d bs"
  using assms by (simp add: entry_changed_def dir_chain_def)

lemma dir_chain_block: "dir_chain s d bs \<Longrightarrow> b \<in> set bs \<Longrightarrow> dir_block_ok s b"
  using chain_mem [of "fat_list s" d bs b] by (auto simp: dir_chain_def dir_block_ok_def)

lemma chain_end_pos: "\<not> chain_end b \<Longrightarrow> 1 \<le> unat b"
  using unat_eq_zero [of b] by (auto simp: chain_end_def FAT_FREE_def)

text \<open>The two ways \<open>add_dirent_to_dir\<close> succeeds: a slot of the chain, or slot 0 of a new block.\<close>

lemma add_in_chain:
  assumes "good_host h" "geom s" "fat_blocks s = 1" "dir_chain s d bs" "wf_dirent e"
    "slot_chain h s bs = Some (b, i)"
  shows "\<exists>s'. add_dirent_to_dir h d e s = Some (PennFatErr_OK, s') \<and> entry_changed h s b i e s' \<and>
    dir_chain s' d bs"
proof -
  have b: "b \<in> set bs" "i < entries_per_block s"
    using slot_chain_Some [OF assms(6)] by auto
  have ok: "dir_block_ok s b" by (rule dir_chain_block [OF assms(4) b(1)])
  obtain s' where s': "put_slot h b i e s = (PennFatErr_OK, s')" "entry_changed h s b i e s'"
    using put_slot_changed [OF assms(1,2) ok b(2) assms(5)] by auto
  have d: "\<not> chain_end d" using chain_start [of "fat_list s" d bs] assms(4) by (auto simp: dir_chain_def)
  have "add_dirent_to_dir h d e s = Some (PennFatErr_OK, s')"
    using slot_loop_chain [of h s d bs] assms d s'(1)
    by (auto simp: add_dirent_to_dir_def dir_chain_def chain_end_def)
  then show ?thesis
    using s'(2) entry_changed_chain [OF s'(2) assms(4)] ok chain_end_pos [of b] assms(3)
    by (auto simp: dir_block_ok_def)
qed

lemma add_beyond_chain:
  assumes "good_host h" "geom s" "fat_blocks s = 1" "dir_chain s d bs" "wf_dirent e"
    "slot_chain h s bs = None"
  shows "(add_dirent_to_dir h d e s = Some (PennFatErr_NOSPACE, s) \<and>
      (\<forall>i. 2 \<le> i \<and> i < fat_entries s \<longrightarrow> fat_list s ! i \<noteq> FAT_FREE)) \<or>
    (\<exists>b s1 s'. add_dirent_to_dir h d e s = Some (PennFatErr_OK, s') \<and> b \<notin> set bs \<and>
      same_but_img s s1 \<and> geom s1 \<and> image_blocks s1 = image_blocks s \<and>
      dir_chain s1 d (bs @ [b]) \<and> dir_chain s' d (bs @ [b]) \<and>
      block_entries h s1 b = replicate (entries_per_block s) zero_dirent \<and>
      (\<forall>c\<in>set bs. block_entries h s1 c = block_entries h s c) \<and> entry_changed h s1 b 0 e s')"
proof -
  have d: "\<not> chain_end d" using chain_start [of "fat_list s" d bs] assms(4) by (auto simp: dir_chain_def)
  have unfold: "add_dirent_to_dir h d e s =
      do { (x, s1) \<leftarrow> extend_dir h d s;
           case x of Inl e \<Rightarrow> Some (e, s1) | Inr sb \<Rightarrow> Some (put_slot h sb 0 e s1) }"
    using slot_loop_chain [of h s d bs] assms d
    by (auto simp: add_dirent_to_dir_def dir_chain_def chain_end_def)
  consider (new) n s1 where "extend_dir h d s = Some (Inr (of_nat n), s1)" "same_but_img s s1" "geom s1"
      "image_blocks s1 = image_blocks s" "2 \<le> n" "n < fat_entries s" "fat_list s ! n = FAT_FREE"
      "fat_list s1 = (fat_list s)[n := FAT_EOC, unat (last bs) := of_nat n]"
      "read_block h s1 n = Some (replicate (g_block_size s) NUL)"
      "\<forall>c. 1 \<le> c \<and> c < image_blocks s \<and> c \<noteq> n \<longrightarrow> read_block h s1 c = read_block h s c"
    | (full) "extend_dir h d s = Some (Inl PennFatErr_NOSPACE, s)"
      "\<forall>i. 2 \<le> i \<and> i < fat_entries s \<longrightarrow> fat_list s ! i \<noteq> FAT_FREE"
    using extend_dir_chain [OF assms(1-4)] by blast
  then show ?thesis
  proof cases
    case full
    then show ?thesis using unfold by simp
  next
    case new
    let ?b = "of_nat n :: 16 word"
    have ch: "chain (fat_list s) d bs" "bs \<noteq> []" "\<forall>c\<in>set bs. unat c < image_blocks s"
      using assms(4) by (auto simp: dir_chain_def)
    have small: "fat_entries s \<le> 2048"
      using fat_entries_double [OF assms(2)] geom_block_size [OF assms(2)] assms(3) by simp
    have n: "unat ?b = n" "n < image_blocks s"
      using new(6) small fat_blocks_inside [OF assms(2)] by (auto simp: unat_of_nat)
    have fresh: "?b \<notin> set bs"
      using chain_not_free [OF ch(1), of ?b] new(7) n(1) by auto
    have ch1: "dir_chain s1 d (bs @ [?b])"
      using chain_snoc [OF ch(1,2), of n] new(4-8) small n ch by (simp add: dir_chain_def)
    have same: "block_entries h s1 c = block_entries h s c" if c: "c \<in> set bs" for c
    proof (rule block_entries_same [OF new(2)])
      have "1 \<le> unat c" using chain_mem [OF ch(1) c] chain_end_pos by blast
      moreover have "unat c \<noteq> n" using fresh c n(1) by (auto dest: unsigned_word_eqI)
      ultimately show "read_block h s1 (unat c) = read_block h s (unat c)" using new(10) ch(3) c by simp
    qed
    have zero: "block_entries h s1 ?b = replicate (entries_per_block s) zero_dirent"
      using new(9) n(1) dir_entries_zeros [OF assms(2)] dir_entries_same [OF same_but_img_fields(3) [OF new(2)]]
      by (simp add: block_entries_def)
    have ok: "dir_block_ok s1 ?b" using dir_chain_block [OF ch1] by simp
    have "0 < entries_per_block s1" using entries_per_block_double [OF new(3)] by simp
    from put_slot_changed [OF assms(1) new(3) ok this assms(5)]
    obtain s' where s': "put_slot h ?b 0 e s1 = (PennFatErr_OK, s')" "entry_changed h s1 ?b 0 e s'" by auto
    have "dir_chain s' d (bs @ [?b])"
      using entry_changed_chain [OF s'(2) ch1] n(1) new(5) assms(3)
      by (simp add: same_but_img_fields [OF new(2)])
    then show ?thesis
      using unfold new(1-4) s' fresh ch1 same zero by (intro disjI2 exI [of _ ?b]) auto
  qed
qed

end
