(* ===== verification/DirMap.thy ===== *)
theory DirMap
  imports DirOps
begin

text \<open>
  The abstract view of a directory: a finite map from names to entries. Adding an entry, replacing
  one in place and marking one deleted are an update, an update and a removal of that map.
\<close>

subsection \<open>A directory as a map from names to entries\<close>

definition live :: "dir_entry \<Rightarrow> bool" where
  "live e \<longleftrightarrow> name0 e \<noteq> NUL \<and> \<not> deleted_mark e"

lemma live_entries_tidy: "tidy es \<Longrightarrow> live_entries es = filter live es"
proof (induction es)
  case Nil
  then show ?case by simp
next
  case (Cons e es)
  show ?case
  proof (cases "name0 e = NUL")
    case True
    then have "\<forall>x\<in>set (e # es). name0 x = NUL" using Cons.prems by (auto simp: tidy_Cons)
    then show ?thesis using True
      by (auto simp: live_entries_Cons live_def filter_empty_conv)
  next
    case False
    then show ?thesis using Cons by (auto simp: live_entries_Cons live_def tidy_Cons)
  qed
qed

text \<open>
  \<open>dir_ok\<close>: the blocks are tidy and no live name occurs twice. \<open>dir_map\<close> is then the abstract
  directory, and the searches and updates of the code are lookups and updates of it.
\<close>

definition dir_map :: "host \<Rightarrow> fs \<Rightarrow> 16 word list \<Rightarrow> string \<Rightarrow> dir_entry option" where
  "dir_map h s bs name = map_option fst (find_chain h s name bs)"

definition dir_ok :: "host \<Rightarrow> fs \<Rightarrow> 16 word \<Rightarrow> 16 word list \<Rightarrow> bool" where
  "dir_ok h s d bs \<longleftrightarrow> dir_chain s d bs \<and> (\<forall>b\<in>set bs. tidy (block_entries h s b)) \<and>
     distinct (map dname (chain_entries h s bs))"

lemma find_distinct:
  assumes "distinct (map f xs)"
  shows "List.find (\<lambda>e. f e = n) xs = Some e \<longleftrightarrow> e \<in> set xs \<and> f e = n"
  using assms by (induction xs) (auto simp: image_iff)

lemma dir_map_Some:
  assumes "dir_ok h s d bs"
  shows "dir_map h s bs name = Some e \<longleftrightarrow> e \<in> set (chain_entries h s bs) \<and> dname e = name"
  using assms find_distinct [of dname "chain_entries h s bs" name e]
  by (simp add: dir_map_def find_chain_live dir_ok_def)

lemma dir_map_eqI:
  assumes "dir_ok h s d bs" "dir_ok h s' d' bs'"
    "set (chain_entries h s' bs') = set (chain_entries h s bs) - R \<union> A"
    "\<And>e. e \<in> R \<Longrightarrow> dname e = n" "\<And>e. e \<in> set (chain_entries h s bs) \<Longrightarrow> dname e = n \<Longrightarrow> e \<in> R"
    "A = {} \<and> v = None \<or> (\<exists>e. A = {e} \<and> dname e = n \<and> v = Some e)"
  shows "dir_map h s' bs' = (dir_map h s bs)(n := v)"
proof (rule ext)
  fix m
  have "dir_map h s' bs' m = Some e \<longleftrightarrow> ((dir_map h s bs)(n := v)) m = Some e" for e
    using assms(3-6) by (auto simp: dir_map_Some [OF assms(1)] dir_map_Some [OF assms(2)])
  then show "dir_map h s' bs' m = ((dir_map h s bs)(n := v)) m"
    by (metis option.exhaust)
qed

lemma filter_update:
  assumes "i < length es"
  shows "filter P (es[i := e]) =
    filter P (take i es) @ (if P e then [e] else []) @ filter P (drop (Suc i) es)"
    "filter P es = filter P (take i es) @ (if P (es ! i) then [es ! i] else []) @ filter P (drop (Suc i) es)"
proof -
  show "filter P (es[i := e]) =
      filter P (take i es) @ (if P e then [e] else []) @ filter P (drop (Suc i) es)"
    using assms by (simp add: upd_conv_take_nth_drop)
  show "filter P es = filter P (take i es) @ (if P (es ! i) then [es ! i] else []) @
      filter P (drop (Suc i) es)"
    using arg_cong [OF id_take_nth_drop [OF assms], of "filter P"] by simp
qed

text \<open>The chain entries before and after one entry changes.\<close>

lemma chain_entries_split:
  assumes "distinct bs" "b \<in> set bs" "i < entries_per_block s"
    "\<forall>c\<in>set bs. tidy (block_entries h s c)" "tidy ((block_entries h s b)[i := e])"
    "block_entries h s' b = (block_entries h s b)[i := e]"
    "\<forall>c\<in>set bs. c \<noteq> b \<longrightarrow> block_entries h s' c = block_entries h s c"
  obtains xs ys where
    "chain_entries h s bs = xs @ (if live (block_entries h s b ! i) then [block_entries h s b ! i] else []) @ ys"
    "chain_entries h s' bs = xs @ (if live e then [e] else []) @ ys"
    "\<forall>c\<in>set bs. tidy (block_entries h s' c)"
proof -
  obtain as cs where bs: "bs = as @ b # cs" "b \<notin> set as" "b \<notin> set cs"
    using split_list [OF assms(2)] assms(1) by auto
  let ?pre = "chain_entries h s as" and ?post = "chain_entries h s cs"
  let ?es = "block_entries h s b"
  have i: "i < length ?es" using assms(3) by simp
  have same: "chain_entries h s' as = ?pre" "chain_entries h s' cs = ?post"
    using assms(7) bs
    by (auto simp: chain_entries_def intro!: arg_cong [of _ _ concat] arg_cong [of _ _ live_entries])
  have b: "live_entries ?es = filter live ?es" "live_entries (?es[i := e]) = filter live (?es[i := e])"
    using assms(2,4,5) by (auto simp: live_entries_tidy)
  show ?thesis
  proof (rule that [of "?pre @ filter live (take i ?es)" "filter live (drop (Suc i) ?es) @ ?post"])
    show "chain_entries h s bs = (?pre @ filter live (take i ?es)) @
        (if live (?es ! i) then [?es ! i] else []) @ filter live (drop (Suc i) ?es) @ ?post"
      using bs(1) filter_update(2) [OF i, of live] b by (simp add: chain_entries_def)
    show "chain_entries h s' bs = (?pre @ filter live (take i ?es)) @
        (if live e then [e] else []) @ filter live (drop (Suc i) ?es) @ ?post"
      using bs(1) filter_update(1) [OF i, of live e] b(2) assms(6) same by (simp add: chain_entries_def)
    show "\<forall>c\<in>set bs. tidy (block_entries h s' c)"
      using assms(2,4-7) by metis
  qed
qed

lemma tidy_update:
  assumes "tidy es" "i < length es" "name0 e \<noteq> NUL" "name0 (es ! i) = NUL \<Longrightarrow> \<forall>j<i. name0 (es ! j) \<noteq> NUL"
  shows "tidy (es[i := e])"
  unfolding tidy_def
proof (intro allI impI)
  fix j k assume jk: "j < k \<and> k < length (es[i := e]) \<and> name0 (es[i := e] ! j) = NUL"
  then have "j \<noteq> i" using assms(2,3) by auto
  then have j: "name0 (es ! j) = NUL" using jk by simp
  have "k \<noteq> i"
  proof
    assume "k = i"
    then have "name0 (es ! i) = NUL" using assms(1) jk j by (auto simp: tidy_def)
    then show False using assms(4) jk j \<open>k = i\<close> by auto
  qed
  then show "name0 (es[i := e] ! k) = NUL" using assms(1) jk j by (auto simp: tidy_def)
qed

lemma scan_name_position:
  assumes "scan_name name es = Some i"
  shows "i < length es" "live (es ! i)" "dname (es ! i) = name"
  using assms by (induction es arbitrary: i) (auto simp: live_def split: if_splits)

lemma find_chain_position:
  assumes "find_chain h s name bs = Some (e, b, i)"
  shows "b \<in> set bs" "i < entries_per_block s" "e = block_entries h s b ! i" "live e" "dname e = name"
  using assms by (induction bs) (auto split: option.splits dest: scan_name_position)

text \<open>One entry of a directory replaced, for every kind of replacement.\<close>

lemma dir_entry_replaced:
  assumes "dir_ok h s d bs" "fat_blocks s = 1" "b \<in> set bs" "i < entries_per_block s"
    "entry_changed h s b i e s'" "tidy ((block_entries h s b)[i := e])"
    "live e \<Longrightarrow> dname e = n" "live (block_entries h s b ! i) \<Longrightarrow> dname (block_entries h s b ! i) = n"
    "live (block_entries h s b ! i) \<or> dir_map h s bs n = None"
  shows "dir_ok h s' d bs" "dir_map h s' bs = (dir_map h s bs)(n := if live e then Some e else None)"
proof -
  let ?old = "block_entries h s b ! i"
  have ok: "dir_chain s d bs" "\<forall>c\<in>set bs. tidy (block_entries h s c)"
    and dist: "distinct (map dname (chain_entries h s bs))"
    using assms(1) by (auto simp: dir_ok_def)
  have b: "dir_block_ok s b" by (rule dir_chain_block [OF ok(1) assms(3)])
  then have ch: "dir_chain s' d bs"
    using entry_changed_chain [OF assms(5) ok(1)] chain_end_pos [of b] assms(2)
    by (auto simp: dir_block_ok_def)
  have same: "same_but_img s s'" using assms(5) by (simp add: entry_changed_def)
  have others: "block_entries h s' c = block_entries h s c" if "c \<in> set bs" "c \<noteq> b" for c
  proof (rule block_entries_same [OF same])
    have "unat c \<noteq> unat b" using that(2) by (auto dest: unsigned_word_eqI)
    then show "read_block h s' (unat c) = read_block h s (unat c)"
      using assms(5) ok(1) that(1) by (simp add: entry_changed_def dir_chain_def)
  qed
  obtain xs ys where
    before: "chain_entries h s bs = xs @ (if live ?old then [?old] else []) @ ys" and
    after: "chain_entries h s' bs = xs @ (if live e then [e] else []) @ ys" and
    tidy: "\<forall>c\<in>set bs. tidy (block_entries h s' c)"
  proof (rule chain_entries_split [of bs b i s h e s'])
    show "distinct bs" using chain_distinct ok(1) by (auto simp: dir_chain_def)
    show "block_entries h s' b = (block_entries h s b)[i := e]"
      using assms(5) by (simp add: entry_changed_def)
  qed (use assms others ok in auto)
  have fresh: "\<forall>x\<in>set xs \<union> set ys. dname x \<noteq> n"
  proof (cases "live ?old")
    case True
    then show ?thesis using dist assms(8) by (auto simp: before) (metis imageI)+
  next
    case False
    then show ?thesis using assms(9)
      by (auto simp: dir_map_def find_chain_None before)
  qed
  have dist': "distinct (map dname (chain_entries h s' bs))"
    using dist fresh assms(7) by (auto simp: before after)
  show ok': "dir_ok h s' d bs" using ch tidy dist' by (simp add: dir_ok_def)
  show "dir_map h s' bs = (dir_map h s bs)(n := if live e then Some e else None)"
    by (rule dir_map_eqI [OF assms(1) ok', of "if live ?old then {?old} else {}" "if live e then {e} else {}"])
       (use fresh assms(7,8) in \<open>auto simp: before after split: if_splits\<close>)
qed

text \<open>The entry of a found name is replaced by one of the same name.\<close>

lemma dir_entry_updated:
  assumes "good_host h" "geom s" "fat_blocks s = 1" "dir_ok h s d bs"
    "find_chain h s n bs = Some (e0, b, i)" "wf_dirent e" "live e" "dname e = n"
  shows "\<exists>s'. write_dirent h b (int i) e s = (PennFatErr_OK, s') \<and> entry_changed h s b i e s' \<and>
    dir_ok h s' d bs \<and> dir_map h s' bs = (dir_map h s bs)(n \<mapsto> e)"
proof -
  note pos = find_chain_position [OF assms(5)]
  have ok: "dir_block_ok s b" using assms(4) pos(1) by (auto simp: dir_ok_def intro: dir_chain_block)
  obtain s' where s': "write_dirent h b (int i) e s = (PennFatErr_OK, s')" "entry_changed h s b i e s'"
    using write_dirent_changed [OF assms(1,2) ok pos(2) assms(6)] by auto
  have t: "tidy ((block_entries h s b)[i := e])"
    using assms(4,7) pos by (intro tidy_update) (auto simp: dir_ok_def live_def)
  note rep = dir_entry_replaced [OF assms(4,3) pos(1,2) s'(2) t, of n]
  show ?thesis using rep s' pos assms(7,8) by auto
qed

lemma name0_deleted [simp]: "name0 deleted_dirent = CHR 0x01"
  by (simp add: name0_def deleted_dirent_def)

lemma deleted_not_live [simp]: "\<not> live deleted_dirent"
  by (simp add: live_def deleted_mark_def)

lemma wf_deleted [simp]: "wf_dirent deleted_dirent"
  by (simp add: wf_dirent_def deleted_dirent_def zero_dirent_def)

text \<open>The entry of a found name is marked deleted.\<close>

lemma dir_entry_deleted:
  assumes "good_host h" "geom s" "fat_blocks s = 1" "dir_ok h s d bs"
    "find_chain h s n bs = Some (e0, b, i)"
  shows "\<exists>s'. write_dirent h b (int i) deleted_dirent s = (PennFatErr_OK, s') \<and>
    entry_changed h s b i deleted_dirent s' \<and>
    dir_ok h s' d bs \<and> dir_map h s' bs = (dir_map h s bs)(n := None)"
proof -
  note pos = find_chain_position [OF assms(5)]
  have ok: "dir_block_ok s b" using assms(4) pos(1) by (auto simp: dir_ok_def intro: dir_chain_block)
  obtain s' where s': "write_dirent h b (int i) deleted_dirent s = (PennFatErr_OK, s')"
    "entry_changed h s b i deleted_dirent s'"
    using write_dirent_changed [OF assms(1,2) ok pos(2) wf_deleted] by auto
  have t: "tidy ((block_entries h s b)[i := deleted_dirent])"
    using assms(4) pos by (intro tidy_update) (auto simp: dir_ok_def live_def)
  note rep = dir_entry_replaced [OF assms(4,3) pos(1,2) s'(2) t, of n]
  show ?thesis using rep s' pos by auto
qed

text \<open>A new name is entered in a free slot, or in a block added to the directory.\<close>

lemma slot_chain_first:
  assumes "slot_chain h s bs = Some (b, i)"
  shows "\<forall>j<i. \<not> slot_free (block_entries h s b ! j)"
  using assms by (induction bs) (auto split: option.splits dest: find_idx_SomeD)

lemma slot_free_not_live: "slot_free e \<Longrightarrow> \<not> live e"
  by (auto simp: slot_free_def live_def deleted_mark_def)

lemma option_pair_eqI:
  "map_option fst x = map_option fst y \<Longrightarrow> map_option snd x = map_option snd y \<Longrightarrow> x = y"
  by (cases x; cases y) (auto simp: prod_eq_iff)

lemma dir_entry_added_in_chain:
  assumes "good_host h" "geom s" "fat_blocks s = 1" "dir_ok h s d bs" "wf_dirent e" "live e"
    "dir_map h s bs (dname e) = None" "slot_chain h s bs = Some (b, i)"
  shows "\<exists>s'. add_dirent_to_dir h d e s = Some (PennFatErr_OK, s') \<and> entry_changed h s b i e s' \<and>
    dir_ok h s' d bs \<and> dir_map h s' bs = (dir_map h s bs)(dname e \<mapsto> e) \<and>
    (\<forall>m. m \<noteq> dname e \<longrightarrow> find_chain h s' m bs = find_chain h s m bs)"
proof -
  note sl = slot_chain_Some [OF assms(8)]
  have ch: "dir_chain s d bs" using assms(4) by (simp add: dir_ok_def)
  obtain s' where s': "add_dirent_to_dir h d e s = Some (PennFatErr_OK, s')" "entry_changed h s b i e s'"
    using add_in_chain [OF assms(1-3) ch assms(5,8)] by auto
  have t: "tidy ((block_entries h s b)[i := e])"
    using assms(4,6) sl slot_chain_first [OF assms(8)]
    by (intro tidy_update) (auto simp: dir_ok_def live_def slot_free_def)
  note rep = dir_entry_replaced [OF assms(4,3) sl(1,2) s'(2) t, of "dname e"]
  have map: "dir_map h s' bs = (dir_map h s bs)(dname e \<mapsto> e)"
    using rep(2) slot_free_not_live [OF sl(3)] assms(6,7) by simp
  have "find_chain h s' m bs = find_chain h s m bs" if m: "m \<noteq> dname e" for m
  proof (rule option_pair_eqI)
    show "map_option fst (find_chain h s' m bs) = map_option fst (find_chain h s m bs)"
      using fun_cong [OF map, of m] m by (simp add: dir_map_def)
    show "map_option snd (find_chain h s' m bs) = map_option snd (find_chain h s m bs)"
      using find_chain_other [OF s'(2) sl(2,3), of m bs] assms(4,6) m sl(1)
      by (simp add: dir_ok_def dir_chain_def live_def)
  qed
  then show ?thesis using rep(1) map s' slot_free_not_live [OF sl(3)] assms(6,7) by auto
qed

lemma live_zero [simp]: "\<not> live zero_dirent"
  by (simp add: live_def)

lemma tidy_zeros: "tidy (replicate n zero_dirent)"
  by (simp add: tidy_def)

lemma chain_entries_same:
  assumes "\<forall>c\<in>set bs. block_entries h s' c = block_entries h s c"
  shows "chain_entries h s' bs = chain_entries h s bs"
  using assms by (auto simp: chain_entries_def intro!: arg_cong [of _ _ concat] arg_cong [of _ _ live_entries])

text \<open>A directory and the same directory with an empty block appended.\<close>

lemma dir_ok_empty_block:
  assumes "dir_ok h s d bs" "dir_chain s1 d (bs @ [b])"
    "block_entries h s1 b = replicate (entries_per_block s) zero_dirent"
    "\<forall>c\<in>set bs. block_entries h s1 c = block_entries h s c"
  shows "dir_ok h s1 d (bs @ [b])" "dir_map h s1 (bs @ [b]) = dir_map h s bs"
proof -
  have "live_entries (replicate (entries_per_block s) zero_dirent) = []"
    by (simp add: live_entries_tidy tidy_zeros)
  then have same: "chain_entries h s1 (bs @ [b]) = chain_entries h s bs"
    using chain_entries_same [OF assms(4)] by (simp add: chain_entries_def assms(3))
  show "dir_ok h s1 d (bs @ [b])"
    using assms same by (auto simp: dir_ok_def tidy_zeros)
  show "dir_map h s1 (bs @ [b]) = dir_map h s bs"
    by (rule ext) (simp add: dir_map_def find_chain_live same)
qed

lemma dir_entry_added_beyond:
  assumes "good_host h" "geom s" "fat_blocks s = 1" "dir_ok h s d bs" "wf_dirent e" "live e"
    "dir_map h s bs (dname e) = None" "slot_chain h s bs = None"
    "add_dirent_to_dir h d e s = Some (PennFatErr_OK, s')"
  shows "\<exists>b. same_but_img s s' \<and> geom s' \<and> image_blocks s' = image_blocks s \<and>
    dir_ok h s' d (bs @ [b]) \<and> dir_map h s' (bs @ [b]) = (dir_map h s bs)(dname e \<mapsto> e) \<and>
    (\<forall>m. m \<noteq> dname e \<longrightarrow> find_chain h s' m (bs @ [b]) = find_chain h s m bs)"
proof -
  have ch: "dir_chain s d bs" using assms(4) by (simp add: dir_ok_def)
  obtain b s1 where new: "b \<notin> set bs" "same_but_img s s1" "geom s1" "image_blocks s1 = image_blocks s"
      "dir_chain s1 d (bs @ [b])" "dir_chain s' d (bs @ [b])"
      "block_entries h s1 b = replicate (entries_per_block s) zero_dirent"
      "\<forall>c\<in>set bs. block_entries h s1 c = block_entries h s c" "entry_changed h s1 b 0 e s'"
    using add_beyond_chain [OF assms(1-3) ch assms(5,8)] assms(9) by auto
  note one = dir_ok_empty_block [OF assms(4) new(5,7,8)]
  have n0: "0 < entries_per_block s" using entries_per_block_double(2) [OF assms(2)] by simp
  have n1: "0 < entries_per_block s1" using entries_per_block_double(2) [OF new(3)] by simp
  have fb: "fat_blocks s1 = 1" using same_but_img_fields(11) [OF new(2)] assms(3) by simp
  have z: "block_entries h s1 b ! 0 = zero_dirent" using n0 by (simp add: new(7))
  have t: "tidy ((block_entries h s1 b)[0 := e])"
    using assms(6) n0 n1 by (intro tidy_update) (auto simp: new(7) tidy_zeros live_def)
  have ok: "dir_ok h s' d (bs @ [b])" and
    map: "dir_map h s' (bs @ [b]) = (dir_map h s bs)(dname e \<mapsto> e)"
    using dir_entry_replaced [OF one(1) fb _ n1 new(9) t, of "dname e"] z assms(6,7) one(2) by simp_all
  note ok
  moreover have "same_but_img s s'" "geom s'" "image_blocks s' = image_blocks s"
    using new(2,4,9) same_but_img_trans by (auto simp: entry_changed_def)
  moreover have "find_chain h s' m (bs @ [b]) = find_chain h s m bs" if m: "m \<noteq> dname e" for m
  proof -
    have "block_entries h s' c = block_entries h s c" if c: "c \<in> set bs" for c
    proof -
      have "c \<noteq> b" using new(1) c by auto
      then have "unat c \<noteq> unat b" by (auto dest: unsigned_word_eqI)
      then have "read_block h s' (unat c) = read_block h s1 (unat c)"
        using new(9) ch c by (auto simp: entry_changed_def dir_chain_def new(4))
      then show ?thesis
        using block_entries_same [of s1 s' h c] new(8,9) c by (auto simp: entry_changed_def)
    qed
    then have bs: "find_chain h s' m bs = find_chain h s m bs" by (intro find_chain_same) auto
    show ?thesis
    proof (cases "find_chain h s m bs")
      case None
      then have "dir_map h s' (bs @ [b]) m = None"
        using fun_cong [OF map, of m] m by (simp add: dir_map_def)
      then show ?thesis using None by (simp add: dir_map_def)
    qed (use bs in \<open>simp add: find_chain_append\<close>)
  qed
  ultimately show ?thesis using map by auto
qed

text \<open>Both cases: adding a new name is an update of the map, or there is no free block.\<close>

lemma dir_entry_added:
  assumes "good_host h" "geom s" "fat_blocks s = 1" "dir_ok h s d bs" "wf_dirent e" "live e"
    "dir_map h s bs (dname e) = None"
  shows "(add_dirent_to_dir h d e s = Some (PennFatErr_NOSPACE, s) \<and>
      (\<forall>i. 2 \<le> i \<and> i < fat_entries s \<longrightarrow> fat_list s ! i \<noteq> FAT_FREE)) \<or>
    (\<exists>s' bs'. add_dirent_to_dir h d e s = Some (PennFatErr_OK, s') \<and> same_but_img s s' \<and> geom s' \<and>
      image_blocks s' = image_blocks s \<and> dir_ok h s' d bs' \<and>
      dir_map h s' bs' = (dir_map h s bs)(dname e \<mapsto> e) \<and>
      (\<forall>m. m \<noteq> dname e \<longrightarrow> find_chain h s' m bs' = find_chain h s m bs))"
proof (cases "slot_chain h s bs")
  case None
  have ch: "dir_chain s d bs" using assms(4) by (simp add: dir_ok_def)
  show ?thesis
    using add_beyond_chain [OF assms(1-3) ch assms(5) None]
      dir_entry_added_beyond [OF assms(1-7) None] by blast
next
  case (Some r)
  then obtain b i where sl: "slot_chain h s bs = Some (b, i)" by (cases r) auto
  show ?thesis
    using dir_entry_added_in_chain [OF assms(1-7) sl] by (auto simp: entry_changed_def)
qed

lemma find_entry_dir_map:
  assumes "good_host h" "geom s" "dir_ok h s d bs"
  shows "find_entry_in_dir h s d name = Some (Inr (find_chain h s name bs))"
    "dir_map h s bs name = map_option fst (find_chain h s name bs)"
  using assms find_entry_chain [OF assms(1,2)] by (auto simp: dir_ok_def dir_map_def)

end
