(* ===== verification/PathRes.thy ===== *)
theory PathRes
  imports DirMap
begin

text \<open>
  Path resolution of \<open>src/internal/pennfat_kernel.c\<close>: splitting a path at slashes, the walk along
  its components with \<open>.\<close>, \<open>..\<close> and symbolic links, and the two wrappers.
\<close>

subsection \<open>Strings\<close>

text \<open>\<open>strtok(buf, "/")\<close> called to the end: the non-empty pieces between slashes.\<close>

fun strtok_slash :: "string \<Rightarrow> string \<Rightarrow> string list" where
  "strtok_slash acc [] = (if acc = [] then [] else [acc])"
| "strtok_slash acc (c # cs) =
    (if c = CHR ''/'' then (if acc = [] then strtok_slash [] cs else acc # strtok_slash [] cs)
     else strtok_slash (acc @ [c]) cs)"

text \<open>\<open>strrchr(path, '/')\<close>: what follows the last slash, the whole path when there is none.\<close>

definition get_filename_from_path :: "string \<Rightarrow> string" where
  "get_filename_from_path path = rev (takeWhile (\<lambda>c. c \<noteq> CHR ''/'') (rev path))"

definition PATH_MAX :: nat where "PATH_MAX = 256"

subsection \<open>The result of a resolution\<close>

record resolved_path =
  r_found :: bool
  r_is_root :: bool
  r_entry :: dir_entry
  r_entry_block :: "16 word"
  r_entry_index :: int
  r_parent :: "16 word"

definition zero_resolved :: resolved_path where
  "zero_resolved = \<lparr>r_found = False, r_is_root = False, r_entry = zero_dirent, r_entry_block = 0,
     r_entry_index = 0, r_parent = 0\<rparr>"

text \<open>A directory entry made up for a path that ends at a directory block, not at an entry.\<close>

definition made_up_entry :: "string \<Rightarrow> 16 word \<Rightarrow> 64 word \<Rightarrow> dir_entry" where
  "made_up_entry nm blk now = zero_dirent\<lparr>de_name := name_field nm, de_type := 2,
     de_perm := DEF_PERM, de_first_block := blk, de_mtime := now\<rparr>"

definition root_resolved :: "host \<Rightarrow> resolved_path" where
  "root_resolved h = \<lparr>r_found = True, r_is_root = True, r_entry = made_up_entry ''/'' 1 (h_now h),
     r_entry_block = 1, r_entry_index = -1, r_parent = 1\<rparr>"

definition cwd_resolved :: "host \<Rightarrow> fs \<Rightarrow> resolved_path" where
  "cwd_resolved h s =
    (let cwd = g_cwd_block s in
     \<lparr>r_found = True, r_is_root = (cwd = 1),
      r_entry = (if cwd = 1 then made_up_entry ''/'' 1 (h_now h) else made_up_entry ''.'' cwd 0),
      r_entry_block = cwd, r_entry_index = -1, r_parent = cwd\<rparr>)"

definition end_resolved :: "host \<Rightarrow> 16 word \<Rightarrow> 16 word \<Rightarrow> resolved_path" where
  "end_resolved h parent_dir current_dir =
     \<lparr>r_found = True, r_is_root = (current_dir = 1),
      r_entry = made_up_entry ''.'' current_dir (h_now h),
      r_entry_block = current_dir, r_entry_index = -1, r_parent = parent_dir\<rparr>"

definition entry_resolved :: "16 word \<Rightarrow> found_entry \<Rightarrow> resolved_path" where
  "entry_resolved parent_dir f = (case f of (e, blk, i) \<Rightarrow>
     \<lparr>r_found = True, r_is_root = False, r_entry = e, r_entry_block = blk,
      r_entry_index = int i, r_parent = parent_dir\<rparr>)"

subsection \<open>The walk along the components\<close>

datatype walk_end = Done PennFatErr resolved_path | Follow string

fun walk_components ::
  "host \<Rightarrow> fs \<Rightarrow> bool \<Rightarrow> 16 word \<Rightarrow> 16 word \<Rightarrow> string list \<Rightarrow> walk_end option" where
  "walk_components h s follow parent_dir current_dir [] =
     Some (Done PennFatErr_OK (end_resolved h parent_dir current_dir))"
| "walk_components h s follow parent_dir current_dir (component # rest) =
    (if component = ''.'' then walk_components h s follow parent_dir current_dir rest
     else if component = ''..'' then
       (if current_dir = 1 then walk_components h s follow parent_dir current_dir rest
        else do { r \<leftarrow> find_entry_in_dir h s current_dir ''..'';
          case r of
            Inl e \<Rightarrow> Some (Done e zero_resolved)
          | Inr None \<Rightarrow> Some (Done PennFatErr_OK zero_resolved)
          | Inr (Some (e, _, _)) \<Rightarrow>
              walk_components h s follow current_dir (de_first_block e) rest })
     else do { r \<leftarrow> find_entry_in_dir h s current_dir component;
       case r of
         Inl e \<Rightarrow> Some (Done e zero_resolved)
       | Inr None \<Rightarrow> Some (Done PennFatErr_OK (zero_resolved\<lparr>r_parent := current_dir\<rparr>))
       | Inr (Some (e, blk, i)) \<Rightarrow>
           if rest = [] then
             (if follow \<and> de_type e = 4 then
                (case read_symlink_target h s e PATH_MAX of
                   Inl err \<Rightarrow> Some (Done err zero_resolved)
                 | Inr target_path \<Rightarrow> Some (Follow target_path))
              else Some (Done PennFatErr_OK (entry_resolved current_dir (e, blk, i))))
           else if de_type e \<noteq> 2 then
             Some (Done PennFatErr_NOTDIR (zero_resolved\<lparr>r_parent := current_dir\<rparr>))
           else walk_components h s follow current_dir (de_first_block e) rest })"

subsection \<open>Resolution\<close>

text \<open>
  A symbolic link restarts the resolution on its target, one level deeper; beyond eight levels the
  resolution fails, which is also why it terminates.
\<close>

function resolve_path_internal ::
  "host \<Rightarrow> fs \<Rightarrow> string \<Rightarrow> bool \<Rightarrow> nat \<Rightarrow> (PennFatErr \<times> resolved_path) option" where
  "resolve_path_internal h s path follow symlink_depth =
    (if symlink_depth > 8 then Some (PennFatErr_RANGE, zero_resolved)
     else if path = [] then Some (PennFatErr_OK, cwd_resolved h s)
     else
       let current_dir = (if hd path = CHR ''/'' then 1 else g_cwd_block s);
           path1 = (if hd path = CHR ''/'' then tl path else path) in
       if path1 = [] then Some (PennFatErr_OK, root_resolved h)
       else do { w \<leftarrow> walk_components h s follow current_dir current_dir
                       (strtok_slash [] (take (PATH_MAX - 1) path1));
         case w of
           Done e r \<Rightarrow> Some (e, r)
         | Follow target \<Rightarrow> resolve_path_internal h s target follow (Suc symlink_depth) })"
  by pat_completeness auto
termination
  by (relation "measure (\<lambda>(h, s, p, f, d). 9 - d)") auto

declare resolve_path_internal.simps [simp del]

text \<open>
  \<open>resolve_path\<close> treats the path \<open>/\<close> itself: the entry stays all zero, so its type is 0, not 2, and
  the parent block is 0.
\<close>

definition slash_resolved :: resolved_path where
  "slash_resolved = zero_resolved\<lparr>r_found := True, r_is_root := True, r_entry_block := 1\<rparr>"

definition resolve_path :: "host \<Rightarrow> fs \<Rightarrow> string \<Rightarrow> (PennFatErr \<times> resolved_path) option" where
  "resolve_path h s path =
    (if path = ''/'' then Some (PennFatErr_OK, slash_resolved)
     else resolve_path_internal h s path True 0)"

definition resolve_path_no_follow ::
  "host \<Rightarrow> fs \<Rightarrow> string \<Rightarrow> (PennFatErr \<times> resolved_path) option" where
  "resolve_path_no_follow h s path = resolve_path_internal h s path False 0"

subsection \<open>Names without a slash\<close>

definition plain_name :: "string \<Rightarrow> bool" where
  "plain_name p \<longleftrightarrow> p \<noteq> [] \<and> length p < 32 \<and> CHR ''/'' \<notin> set p \<and> cstring p \<and> p \<noteq> ''.'' \<and> p \<noteq> ''..'' \<and>
     hd p \<noteq> CHR 0x01 \<and> hd p \<noteq> CHR 0x02"

lemma strtok_plain: "CHR ''/'' \<notin> set p \<Longrightarrow> strtok_slash acc p = (if acc @ p = [] then [] else [acc @ p])"
  by (induction p arbitrary: acc) auto

lemma plain_nameD:
  assumes "plain_name p"
  shows "p \<noteq> []" "length p < 32" "CHR ''/'' \<notin> set p" "cstring p" "p \<noteq> ''.''" "p \<noteq> ''..''" "p \<noteq> ''/''"
    "hd p \<noteq> CHR ''/''" "strtok_slash [] p = [p]" "get_filename_from_path p = p"
    "take (PATH_MAX - 1) p = p"
proof -
  have "takeWhile (\<lambda>c. c \<noteq> CHR ''/'') (rev p) = rev p"
    using assms by (auto simp: plain_name_def takeWhile_eq_all_conv)
  then show "get_filename_from_path p = p"
    by (simp only: get_filename_from_path_def rev_rev_ident)
  show "hd p \<noteq> CHR ''/''" using assms by (cases p) (auto simp: plain_name_def)
qed (use assms strtok_plain [of p "[]"] in \<open>auto simp: plain_name_def PATH_MAX_def\<close>)

lemma resolve_internal_plain:
  assumes "plain_name p"
  shows "resolve_path_internal h s p follow 0 =
    do { w \<leftarrow> walk_components h s follow (g_cwd_block s) (g_cwd_block s) [p];
         case w of Done e r \<Rightarrow> Some (e, r)
         | Follow target \<Rightarrow> resolve_path_internal h s target follow 1 }"
  using plain_nameD [OF assms] by (subst resolve_path_internal.simps) (simp add: Let_def)

lemma resolve_plain:
  assumes "good_host h" "geom s" "plain_name p" "dir_ok h s (g_cwd_block s) bs"
  shows "resolve_path h s p =
    (case find_chain h s p bs of
       None \<Rightarrow> Some (PennFatErr_OK, zero_resolved\<lparr>r_parent := g_cwd_block s\<rparr>)
     | Some (e, b, i) \<Rightarrow>
         if de_type e = 4 then
           (case read_symlink_target h s e PATH_MAX of
              Inl err \<Rightarrow> Some (err, zero_resolved)
            | Inr target \<Rightarrow> resolve_path_internal h s target True 1)
         else Some (PennFatErr_OK, entry_resolved (g_cwd_block s) (e, b, i)))"
  using plain_nameD [OF assms(3)] find_entry_dir_map(1) [OF assms(1,2,4), of p]
  by (auto simp: resolve_path_def resolve_internal_plain [OF assms(3)]
      split: option.splits sum.splits)

text \<open>The two results the operations on names rest on.\<close>

lemma resolve_plain_absent:
  assumes "good_host h" "geom s" "plain_name p" "dir_ok h s (g_cwd_block s) bs" "dir_map h s bs p = None"
  shows "resolve_path h s p = Some (PennFatErr_OK, zero_resolved\<lparr>r_parent := g_cwd_block s\<rparr>)"
  using resolve_plain [OF assms(1-4)] assms(5) by (simp add: dir_map_def)

lemma resolve_plain_found:
  assumes "good_host h" "geom s" "plain_name p" "dir_ok h s (g_cwd_block s) bs"
    "find_chain h s p bs = Some (e, b, i)" "de_type e \<noteq> 4"
  shows "resolve_path h s p = Some (PennFatErr_OK, entry_resolved (g_cwd_block s) (e, b, i))"
  using resolve_plain [OF assms(1-4)] assms(5,6) by simp

lemma dname_name_field: "cstring p \<Longrightarrow> length p < 32 \<Longrightarrow> cstr (name_field p) = p"
  by (simp add: cstr_name_field)

lemma name0_name_field: "p \<noteq> [] \<Longrightarrow> name_field p ! 0 = hd p"
  by (cases p) (auto simp: name_field_def)

lemma live_named:
  assumes "plain_name p" "de_name e = name_field p"
  shows "live e" "dname e = p"
  using assms plain_nameD [OF assms(1)]
  by (auto simp: live_def deleted_mark_def name0_def name0_name_field dname_def dname_name_field
      plain_name_def) (cases p; auto)

end
