(* ===== verification/FileTable.thy ===== *)
theory FileTable
  imports PathRes
begin

text \<open>
  The system-wide file table and the descriptor table of \<open>src/internal/pennfat_kernel.c\<close>. An open
  file is identified by its pseudo-inode: the block and the index of its directory entry.
\<close>

text \<open>\<open>(dir_entry_block << 16) | dir_entry_index\<close>, an \<open>int\<close>.\<close>

definition pseudo_inode :: "16 word \<Rightarrow> int \<Rightarrow> 32 word" where
  "pseudo_inode blk idx = push_bit 16 (ucast blk) OR of_int idx"

text \<open>\<open>(pseudo_inode >> 16) & 0xFFFF\<close> and \<open>pseudo_inode & 0xFFFF\<close>.\<close>

definition inode_block :: "32 word \<Rightarrow> 16 word" where
  "inode_block n = ucast (drop_bit 16 n)"

definition inode_index :: "32 word \<Rightarrow> int" where
  "inode_index n = uint (n AND 0xFFFF)"

definition set_sysfile :: "nat \<Rightarrow> system_file \<Rightarrow> fs \<Rightarrow> fs" where
  "set_sysfile i f s = s\<lparr>g_sysfile_table := (g_sysfile_table s)[i := f]\<rparr>"

definition set_fd :: "nat \<Rightarrow> fd_entry \<Rightarrow> fs \<Rightarrow> fs" where
  "set_fd i f s = s\<lparr>g_fd_table := (g_fd_table s)[i := f]\<rparr>"

text \<open>\<open>find_and_increment_sysfile\<close>: \<^const>\<open>None\<close> stands for \<open>-1\<close>.\<close>

definition find_and_increment_sysfile :: "32 word \<Rightarrow> fs \<Rightarrow> nat option \<times> fs" where
  "find_and_increment_sysfile n s =
    (case find_idx (\<lambda>f. sf_in_use f \<and> sf_dir_index f = n) (g_sysfile_table s) of
       Some i \<Rightarrow> let f = g_sysfile_table s ! i in
         (Some i, set_sysfile i (f\<lparr>sf_ref_count := sf_ref_count f + 1\<rparr>) s)
     | None \<Rightarrow> (None, s))"

definition create_sysfile_entry_from_resolved ::
  "dir_entry \<Rightarrow> 32 word \<Rightarrow> fs \<Rightarrow> nat option \<times> fs" where
  "create_sysfile_entry_from_resolved entry n s =
    (case find_idx (\<lambda>f. \<not> sf_in_use f) (g_sysfile_table s) of
       Some i \<Rightarrow>
         (Some i, set_sysfile i \<lparr>sf_ref_count = 1, sf_in_use = True,
            sf_first_block = de_first_block entry, sf_size = de_size entry,
            sf_mtime = de_mtime entry, sf_dir_index = n\<rparr> s)
     | None \<Rightarrow> (None, s))"

text \<open>
  The write-back when the last reference goes: only if the entry on disk is live and still starts
  at the same block. Its own errors are logged and dropped.
\<close>

definition writeback_dirent :: "host \<Rightarrow> system_file \<Rightarrow> fs \<Rightarrow> fs" where
  "writeback_dirent h f s =
    (let entry_block = inode_block (sf_dir_index f); entry_index = inode_index (sf_dir_index f) in
     case read_dirent h s entry_block entry_index of
       Inl _ \<Rightarrow> s
     | Inr e \<Rightarrow>
         if name0 e \<noteq> NUL \<and> \<not> deleted_mark e \<and> de_first_block e = sf_first_block f
         then snd (write_dirent h entry_block entry_index
                (e\<lparr>de_size := sf_size f, de_mtime := sf_mtime f,
                   de_first_block := sf_first_block f\<rparr>) s)
         else s)"

definition release_sysfile_entry :: "host \<Rightarrow> nat \<Rightarrow> fs \<Rightarrow> fs" where
  "release_sysfile_entry h sys_idx s =
    (if sys_idx \<ge> MAX_SYSTEM_FILES \<or> \<not> sf_in_use (g_sysfile_table s ! sys_idx) then s
     else let f = g_sysfile_table s ! sys_idx;
              f1 = f\<lparr>sf_ref_count := sf_ref_count f - 1\<rparr>;
              s1 = set_sysfile sys_idx f1 s in
       if sf_ref_count f1 \<le> 0
       then set_sysfile sys_idx zero_sysfile (writeback_dirent h f1 s1)
       else s1)"

text \<open>The first unused descriptor takes the open file; the table is full otherwise.\<close>

definition assign_fd :: "host \<Rightarrow> int \<Rightarrow> nat \<Rightarrow> 32 word \<Rightarrow> fs \<Rightarrow> int \<times> fs" where
  "assign_fd h mode sys_idx sz s =
    (case find_idx (\<lambda>f. \<not> fd_in_use f) (g_fd_table s) of
       Some fd \<Rightarrow>
         (int fd, set_fd fd \<lparr>fd_in_use = True, fd_sysfile_index = sys_idx, fd_mode = mode,
            fd_offset = (if HAS_APPEND mode then sz else 0)\<rparr> s)
     | None \<Rightarrow> (err_code PennFatErr_OUTOFMEM, release_sysfile_entry h sys_idx s))"

text \<open>\<open>fd < 0 || fd >= MAX_FD || !g_fd_table[fd].in_use\<close>\<close>

definition bad_fd :: "int \<Rightarrow> fs \<Rightarrow> bool" where
  "bad_fd fd s \<longleftrightarrow> fd < 0 \<or> fd \<ge> int MAX_FD \<or> \<not> fd_in_use (g_fd_table s ! nat fd)"

end
