(* ===== verification/FileOps.thy ===== *)
theory FileOps
  imports FileTable
begin

text \<open>
  The descriptor operations of \<open>src/internal/pennfat_kernel.c\<close>: \<open>k_open\<close>, \<open>k_read\<close>, \<open>k_write\<close>,
  \<open>k_close\<close>, \<open>k_lseek\<close> and \<open>k_unlink\<close>. A path or buffer pointer is a \<^typ>\<open>string option\<close> where the
  code tests it for \<open>NULL\<close>.
\<close>

subsection \<open>k_open\<close>

text \<open>Opening an existing entry: type, permissions, truncation, the system-wide table.\<close>

definition truncate_entry ::
  "host \<Rightarrow> resolved_path \<Rightarrow> fs \<Rightarrow> ((PennFatErr + dir_entry) \<times> fs) option" where
  "truncate_entry h r s =
    do { s1 \<leftarrow> free_block_chain (de_first_block (r_entry r)) s;
         (a, s2) \<leftarrow> allocate_free_block s1;
         case a of None \<Rightarrow> Some (Inl PennFatErr_NOSPACE, s2)
         | Some first_block \<Rightarrow>
           let e = (r_entry r)\<lparr>de_first_block := of_nat first_block, de_size := 0,
                     de_mtime := h_now h\<rparr>;
               (err, s3) = write_dirent h (r_entry_block r) (r_entry_index r) e s2 in
           if err \<noteq> PennFatErr_OK
           then do { s4 \<leftarrow> fat_set first_block FAT_FREE s3; Some (Inl err, s4) }
           else Some (Inr e, s3) }"

definition enter_sysfile ::
  "dir_entry \<Rightarrow> 32 word \<Rightarrow> fs \<Rightarrow> (PennFatErr + nat) \<times> fs" where
  "enter_sysfile e n s =
    (case find_and_increment_sysfile n s of
       (Some i, s1) \<Rightarrow> (Inr i, s1)
     | (None, s1) \<Rightarrow> (case create_sysfile_entry_from_resolved e n s1 of
           (Some i, s2) \<Rightarrow> (Inr i, s2)
         | (None, s2) \<Rightarrow> (Inl PennFatErr_OUTOFMEM, s2)))"

text \<open>The result carries the table index and the size in the (updated) entry.\<close>

definition k_open_existing ::
  "host \<Rightarrow> resolved_path \<Rightarrow> int \<Rightarrow> fs \<Rightarrow> ((PennFatErr + nat \<times> 32 word) \<times> fs) option" where
  "k_open_existing h r mode s =
    (if de_type (r_entry r) = 2 then Some (Inl PennFatErr_ISDIR, s)
     else if (REQ_READ_PERM mode \<and> \<not> CAN_READ (de_perm (r_entry r))) \<or>
             (REQ_WRITE_PERM mode \<and> \<not> CAN_WRITE (de_perm (r_entry r)))
     then Some (Inl PennFatErr_PERM, s)
     else do { (x, s1) \<leftarrow> (if HAS_WRITE mode \<and> \<not> HAS_APPEND mode then truncate_entry h r s
                          else Some (Inr (r_entry r), s));
       case x of Inl err \<Rightarrow> Some (Inl err, s1)
       | Inr e \<Rightarrow>
           let (y, s2) = enter_sysfile e (pseudo_inode (r_entry_block r) (r_entry_index r)) s1 in
           Some (map_sum id (\<lambda>i. (i, de_size e)) y, s2) })"

text \<open>The directory entry of a new regular file.\<close>

definition new_file_entry :: "host \<Rightarrow> string \<Rightarrow> nat \<Rightarrow> dir_entry" where
  "new_file_entry h filename first_block = zero_dirent\<lparr>de_name := name_field filename,
     de_type := 1, de_perm := DEF_PERM, de_first_block := of_nat first_block, de_size := 0,
     de_mtime := h_now h\<rparr>"

text \<open>
  Creating the file: a block, an entry in the parent, then the path is resolved again to learn
  where the entry went.
\<close>

definition k_open_enter_new ::
  "host \<Rightarrow> string \<Rightarrow> nat \<Rightarrow> fs \<Rightarrow> ((PennFatErr + nat \<times> 32 word) \<times> fs) option" where
  "k_open_enter_new h path first_block s =
    do { (err, c) \<leftarrow> resolve_path h s path;
         if \<not> (err = PennFatErr_OK \<and> r_found c)
         then Some (Inl (if err \<noteq> PennFatErr_OK then err else PennFatErr_IO), s)
         else case create_sysfile_entry_from_resolved (r_entry c)
                     (pseudo_inode (r_entry_block c) (r_entry_index c)) s of
             (Some i, s1) \<Rightarrow> Some (Inr (i, de_size (r_entry c)), s1)
           | (None, s1) \<Rightarrow>
               let (_, s2) = write_dirent h (r_entry_block c) (r_entry_index c) deleted_dirent s1 in
               do { s3 \<leftarrow> free_block_chain (of_nat first_block) s2;
                    Some (Inl PennFatErr_OUTOFMEM, s3) } }"

definition k_open_create ::
  "host \<Rightarrow> string \<Rightarrow> resolved_path \<Rightarrow> int \<Rightarrow> fs \<Rightarrow> ((PennFatErr + nat \<times> 32 word) \<times> fs) option" where
  "k_open_create h path r mode s =
    (if \<not> HAS_CREATE mode then Some (Inl PennFatErr_EXISTS, s)
     else if r_parent r = FAT_FREE \<or> r_parent r = FAT_EOC then Some (Inl PennFatErr_EXISTS, s)
     else let filename = get_filename_from_path path in
       if length filename \<ge> 32 then Some (Inl PennFatErr_INVAD, s)
       else do { (a, s1) \<leftarrow> allocate_free_block s;
         case a of None \<Rightarrow> Some (Inl PennFatErr_NOSPACE, s1)
         | Some first_block \<Rightarrow>
           do { (err, s2) \<leftarrow> add_dirent_to_dir h (r_parent r)
                                (new_file_entry h filename first_block) s1;
                if err \<noteq> PennFatErr_OK
                then do { s3 \<leftarrow> fat_set first_block FAT_FREE s2; Some (Inl err, s3) }
                else k_open_enter_new h path first_block s2 } })"

definition k_open :: "host \<Rightarrow> string option \<Rightarrow> int \<Rightarrow> fs \<Rightarrow> (int \<times> fs) option" where
  "k_open h path mode s =
    (if \<not> g_mounted s then Some (err_code PennFatErr_NOT_MOUNTED, s)
     else case path of None \<Rightarrow> Some (err_code PennFatErr_INVAD, s)
     | Some p \<Rightarrow>
       if p = [] \<and> g_cwd_block s = 1 then Some (err_code PennFatErr_INVAD, s)
       else if \<not> is_valid_mode mode then Some (err_code PennFatErr_INVAD, s)
       else do { (err, r) \<leftarrow> resolve_path h s p;
         if err \<noteq> PennFatErr_OK \<and> err \<noteq> PennFatErr_NOTDIR then Some (err_code err, s)
         else do { (x, s1) \<leftarrow> (if r_found r then k_open_existing h r mode s
                             else k_open_create h p r mode s);
           case x of Inl e \<Rightarrow> Some (err_code e, s1)
           | Inr (sys_idx, sz) \<Rightarrow> Some (assign_fd h mode sys_idx sz s1) } })"

subsection \<open>k_read\<close>

text \<open>The loop: \<open>buf\<close> holds the bytes stored so far, its length is \<open>total_read\<close>.\<close>

partial_function (option) read_loop ::
  "host \<Rightarrow> fs \<Rightarrow> 16 word \<Rightarrow> int \<Rightarrow> string \<Rightarrow> 32 word \<Rightarrow> (string \<times> 32 word) option" where
  "read_loop h s first_block to_read buf offset =
    (if int (length buf) < to_read
     then do { r \<leftarrow> locate_block_in_chain s first_block offset;
       case r of None \<Rightarrow> Some (buf, offset)
       | Some (block_num, offset_in_block) \<Rightarrow>
           (case read_block h s (unat block_num) of None \<Rightarrow> Some (buf, offset)
            | Some block_buf \<Rightarrow>
              let remain = nat (to_read - int (length buf));
                  chunk = min (g_block_size s - offset_in_block) remain in
              read_loop h s first_block to_read (buf @ pread block_buf offset_in_block chunk)
                (offset + of_nat chunk)) }
     else Some (buf, offset))"

declare read_loop.simps [code]

text \<open>The result: the return value, the bytes stored in \<open>buf\<close>, the new state.\<close>

definition k_read :: "host \<Rightarrow> int \<Rightarrow> int \<Rightarrow> fs \<Rightarrow> (int \<times> string \<times> fs) option" where
  "k_read h fd n s =
    (if \<not> g_mounted s then Some (err_code PennFatErr_NOT_MOUNTED, [], s)
     else if bad_fd fd s then Some (err_code PennFatErr_INTERNAL, [], s)
     else let fdesc = g_fd_table s ! nat fd;
              sf = g_sysfile_table s ! fd_sysfile_index fdesc in
       if HAS_WRITE (fd_mode fdesc) then Some (err_code PennFatErr_PERM, [], s)
       else let size_left = (if sf_size sf > fd_offset fdesc then sf_size sf - fd_offset fdesc
                             else 0) in
         if size_left = 0 then Some (err_code PennFatErr_SUCCESS, [], s)
         else if \<not> h_malloc h Site_k_read then Some (err_code PennFatErr_INTERNAL, [], s)
         else let to_read = (if n < sint size_left then n else sint size_left) in
           do { (buf, off) \<leftarrow> read_loop h s (sf_first_block sf) to_read [] (fd_offset fdesc);
                Some (int (length buf), buf, set_fd (nat fd) (fdesc\<lparr>fd_offset := off\<rparr>) s) })"

subsection \<open>k_write\<close>

text \<open>
  The block to write to: the one \<open>locate_block_in_chain\<close> gives, or a new one linked to the end of
  the chain, with offset 0. \<^const>\<open>None\<close> in the pair: no free block, the loop stops.
\<close>

definition write_target ::
  "16 word \<Rightarrow> 32 word \<Rightarrow> fs \<Rightarrow> ((16 word \<times> nat) option \<times> fs) option" where
  "write_target first_block offset s =
    do { r \<leftarrow> locate_block_in_chain s first_block offset;
         case r of Some t \<Rightarrow> Some (Some t, s)
         | None \<Rightarrow>
           do { last \<leftarrow> last_block s first_block;
                (a, s1) \<leftarrow> allocate_free_block s;
                case a of None \<Rightarrow> Some (None, s1)
                | Some newblk \<Rightarrow>
                  do { s2 \<leftarrow> fat_set (unat last) (of_nat newblk) s1;
                       Some (Some (of_nat newblk, 0), s2) } } }"

text \<open>The bookkeeping after a chunk: the offset moves, a larger offset is the new size.\<close>

definition advance :: "host \<Rightarrow> nat \<Rightarrow> nat \<Rightarrow> fs \<Rightarrow> fs" where
  "advance h fd chunk s =
    (let fdesc = g_fd_table s ! fd; i = fd_sysfile_index fdesc; sf = g_sysfile_table s ! i;
         off = fd_offset fdesc + of_nat chunk;
         s1 = set_fd fd (fdesc\<lparr>fd_offset := off\<rparr>) s in
     if off > sf_size sf then set_sysfile i (sf\<lparr>sf_size := off, sf_mtime := h_now h\<rparr>) s1 else s1)"

partial_function (option) write_loop ::
  "host \<Rightarrow> nat \<Rightarrow> string \<Rightarrow> int \<Rightarrow> nat \<Rightarrow> fs \<Rightarrow> (nat \<times> fs) option" where
  "write_loop h fd buf n total_written s =
    (if int total_written < n
     then let fdesc = g_fd_table s ! fd; sf = g_sysfile_table s ! fd_sysfile_index fdesc in
       do { (t, s1) \<leftarrow> write_target (sf_first_block sf) (fd_offset fdesc) s;
         case t of None \<Rightarrow> Some (total_written, s1)
         | Some (block_num, offset_in_block) \<Rightarrow>
           (case read_block h s1 (unat block_num) of None \<Rightarrow> Some (total_written, s1)
            | Some block_buf \<Rightarrow>
              let remain = nat (n - int total_written);
                  chunk = min (g_block_size s1 - offset_in_block) remain;
                  new_buf = pwrite block_buf offset_in_block (pread buf total_written chunk);
                  w = write_block h new_buf (unat block_num) s1 in
              if \<not> fst w then Some (total_written, snd w)
              else write_loop h fd buf n (total_written + chunk) (advance h fd chunk (snd w))) }
     else Some (total_written, s))"

declare write_loop.simps [code]

text \<open>\<open>buf\<close> holds at least \<open>n\<close> bytes, as every caller ensures.\<close>

definition k_write :: "host \<Rightarrow> int \<Rightarrow> string \<Rightarrow> int \<Rightarrow> fs \<Rightarrow> (int \<times> fs) option" where
  "k_write h fd buf n s =
    (if \<not> g_mounted s then Some (err_code PennFatErr_NOT_MOUNTED, s)
     else if bad_fd fd s then Some (err_code PennFatErr_INTERNAL, s)
     else if HAS_READ (fd_mode (g_fd_table s ! nat fd)) then Some (err_code PennFatErr_PERM, s)
     else if \<not> h_malloc h Site_k_write then Some (err_code PennFatErr_INTERNAL, s)
     else do { (total_written, s1) \<leftarrow> write_loop h (nat fd) buf n 0 s;
               Some (int total_written, s1) })"

subsection \<open>k_close and k_lseek\<close>

definition k_close :: "host \<Rightarrow> int \<Rightarrow> fs \<Rightarrow> int \<times> fs" where
  "k_close h fd s =
    (if \<not> g_mounted s then (err_code PennFatErr_NOT_MOUNTED, s)
     else if bad_fd fd s then (err_code PennFatErr_INTERNAL, s)
     else let fdesc = g_fd_table s ! nat fd;
              s1 = set_fd (nat fd) (fdesc\<lparr>fd_in_use := False\<rparr>) s in
       (err_code PennFatErr_SUCCESS, release_sysfile_entry h (fd_sysfile_index fdesc) s1))"

text \<open>Arithmetic on \<open>int\<close> of 32 bits; an overflow, undefined in C, wraps.\<close>

definition int32 :: "int \<Rightarrow> int" where "int32 x = sint (word_of_int x :: 32 word)"

definition lseek_target :: "fd_entry \<Rightarrow> system_file \<Rightarrow> int \<Rightarrow> int \<Rightarrow> int option" where
  "lseek_target fdesc sf offset whence =
    (if whence = F_SEEK_SET then Some offset
     else if whence = F_SEEK_CUR then Some (int32 (sint (fd_offset fdesc) + offset))
     else if whence = F_SEEK_END then Some (int32 (sint (sf_size sf) + offset))
     else None)"

definition k_lseek :: "int \<Rightarrow> int \<Rightarrow> int \<Rightarrow> fs \<Rightarrow> int \<times> fs" where
  "k_lseek fd offset whence s =
    (if \<not> g_mounted s then (err_code PennFatErr_NOT_MOUNTED, s)
     else if bad_fd fd s then (err_code PennFatErr_INTERNAL, s)
     else let fdesc = g_fd_table s ! nat fd;
              sf = g_sysfile_table s ! fd_sysfile_index fdesc in
       case lseek_target fdesc sf offset whence of
         None \<Rightarrow> (err_code PennFatErr_INVAD, s)
       | Some new_offset \<Rightarrow>
           if new_offset < 0 then (err_code PennFatErr_INVAD, s)
           else (new_offset, set_fd (nat fd) (fdesc\<lparr>fd_offset := word_of_int new_offset\<rparr>) s))"

subsection \<open>k_unlink\<close>

text \<open>The check that no descriptor refers to the entry: increment, look, decrement.\<close>

definition busy_check :: "32 word \<Rightarrow> fs \<Rightarrow> bool \<times> fs" where
  "busy_check n s =
    (case find_and_increment_sysfile n s of
       (None, s1) \<Rightarrow> (False, s1)
     | (Some i, s1) \<Rightarrow>
         let f = g_sysfile_table s1 ! i in
         (sf_ref_count f > 1, set_sysfile i (f\<lparr>sf_ref_count := sf_ref_count f - 1\<rparr>) s1))"

definition k_unlink :: "host \<Rightarrow> string option \<Rightarrow> fs \<Rightarrow> (PennFatErr \<times> fs) option" where
  "k_unlink h path s =
    (if \<not> g_mounted s then Some (PennFatErr_NOT_MOUNTED, s)
     else case path of None \<Rightarrow> Some (PennFatErr_INVAD, s)
     | Some p \<Rightarrow>
       if p = [] \<or> p = ''/'' \<or> p = ''.'' \<or> p = ''..'' then Some (PennFatErr_INVAD, s)
       else do { (err, r) \<leftarrow> resolve_path h s p;
         if err \<noteq> PennFatErr_OK then Some (err, s)
         else if \<not> r_found r \<or> r_is_root r then Some (PennFatErr_EXISTS, s)
         else if de_type (r_entry r) = 2 then Some (PennFatErr_ISDIR, s)
         else let (busy, s1) = busy_check (pseudo_inode (r_entry_block r) (r_entry_index r)) s in
           if busy then Some (PennFatErr_BUSY, s1)
           else do { s2 \<leftarrow> free_block_chain (de_first_block (r_entry r)) s1;
                     Some (write_dirent h (r_entry_block r) (r_entry_index r) deleted_dirent s2) } })"

end
