(* ===== verification/NameOps.thy ===== *)
theory NameOps
  imports FileOps
begin

text \<open>
  The operations on names of \<open>src/internal/pennfat_kernel.c\<close>: \<open>k_ls\<close>, \<open>k_ls_long\<close>, \<open>k_touch\<close>,
  \<open>k_chmod\<close>, \<open>k_chdir\<close>, \<open>k_getcwd\<close>, \<open>k_symlink\<close>, \<open>k_mkdir\<close>, \<open>k_rmdir\<close> and \<open>k_rename\<close>. A listing
  is the list of entries printed; the layout of a line is not modelled, but for its permission
  column.
\<close>

subsection \<open>Listing\<close>

definition perm_to_str :: "8 word \<Rightarrow> string" where
  "perm_to_str perm =
    [if perm AND PERM_READ \<noteq> 0 then CHR ''r'' else CHR ''-'',
     if perm AND PERM_WRITE \<noteq> 0 then CHR ''w'' else CHR ''-'',
     if perm AND PERM_EXEC \<noteq> 0 then CHR ''x'' else CHR ''-'']"

text \<open>What a line shows after the name: nothing, the target of a link, or a read error.\<close>

datatype link_text = NotLink | LinkTo string | LinkError

definition link_target :: "host \<Rightarrow> fs \<Rightarrow> dir_entry \<Rightarrow> link_text" where
  "link_target h s e =
    (if de_type e \<noteq> 4 then NotLink
     else case read_block h s (unat (de_first_block e)) of
       None \<Rightarrow> LinkError
     | Some blk \<Rightarrow> LinkTo (cstr (take (g_block_size s - 1) blk)))"

partial_function (option) ls_loop ::
  "host \<Rightarrow> fs \<Rightarrow> 16 word \<Rightarrow> (dir_entry \<times> link_text) list \<Rightarrow>
     (PennFatErr \<times> (dir_entry \<times> link_text) list) option" where
  "ls_loop h s current_block out =
    (if current_block \<noteq> FAT_EOC \<and> current_block \<noteq> FAT_FREE
     then case read_block h s (unat current_block) of
         None \<Rightarrow> Some (PennFatErr_IO, out)
       | Some blk \<Rightarrow>
           do { nxt \<leftarrow> fat_get s (unat current_block);
                ls_loop h s nxt (out @ map (\<lambda>e. (e, link_target h s e))
                                         (live_entries (dir_entries s blk))) }
     else Some (PennFatErr_OK, out))"

declare ls_loop.simps [code]

definition k_ls ::
  "host \<Rightarrow> string option \<Rightarrow> fs \<Rightarrow> (PennFatErr \<times> (dir_entry \<times> link_text) list) option" where
  "k_ls h path s =
    (if \<not> g_mounted s then Some (PennFatErr_NOT_MOUNTED, [])
     else let target = (case path of None \<Rightarrow> ''.'' | Some p \<Rightarrow> if p = [] then ''.'' else p) in
       do { (err, r) \<leftarrow> resolve_path h s target;
         if err \<noteq> PennFatErr_OK then Some (err, [])
         else if \<not> r_found r then Some (PennFatErr_EXISTS, [])
         else if \<not> r_is_root r \<and> de_type (r_entry r) \<noteq> 2 then Some (PennFatErr_NOTDIR, [])
         else let dir = (if r_is_root r then 1 else de_first_block (r_entry r)) in
           if \<not> h_malloc h Site_k_ls then Some (PennFatErr_OUTOFMEM, [])
           else ls_loop h s dir [] })"

text \<open>The long listing walks the same entries; its permission column is ten characters wide.\<close>

definition long_perm_str :: "dir_entry \<Rightarrow> string" where
  "long_perm_str e = (if de_type e = 2 then CHR ''d'' else CHR ''-'') #
     perm_to_str (de_perm e) @ ''------''"

definition k_ls_long ::
  "host \<Rightarrow> string option \<Rightarrow> fs \<Rightarrow> (PennFatErr \<times> (string \<times> dir_entry \<times> link_text) list) option" where
  "k_ls_long h path s =
    (if \<not> g_mounted s then Some (PennFatErr_NOT_MOUNTED, [])
     else let target = (case path of None \<Rightarrow> ''.'' | Some p \<Rightarrow> if p = [] then ''.'' else p) in
       do { (err, r) \<leftarrow> resolve_path h s target;
         if err \<noteq> PennFatErr_OK then Some (err, [])
         else if \<not> r_found r then Some (PennFatErr_EXISTS, [])
         else if \<not> r_is_root r \<and> de_type (r_entry r) \<noteq> 2 then Some (PennFatErr_NOTDIR, [])
         else let dir = (if r_is_root r then 1 else de_first_block (r_entry r)) in
           if \<not> h_malloc h Site_k_ls then Some (PennFatErr_OUTOFMEM, [])
           else do { (err2, out) \<leftarrow> ls_loop h s dir [];
                     Some (err2, map (\<lambda>(e, t). (long_perm_str e, e, t)) out) } })"

subsection \<open>k_touch and k_chmod\<close>

definition k_touch :: "host \<Rightarrow> string option \<Rightarrow> fs \<Rightarrow> (PennFatErr \<times> fs) option" where
  "k_touch h path s =
    (if \<not> g_mounted s then Some (PennFatErr_NOT_MOUNTED, s)
     else case path of None \<Rightarrow> Some (PennFatErr_INVAD, s)
     | Some p \<Rightarrow>
       if p = [] then Some (PennFatErr_INVAD, s)
       else do { (err, r) \<leftarrow> resolve_path h s p;
         if err \<noteq> PennFatErr_OK \<and> err \<noteq> PennFatErr_NOTDIR then Some (err, s)
         else if r_found r then
           (if r_is_root r then Some (PennFatErr_ISDIR, s)
            else Some (write_dirent h (r_entry_block r) (r_entry_index r)
                   ((r_entry r)\<lparr>de_mtime := h_now h\<rparr>) s))
         else if r_parent r = FAT_FREE \<or> r_parent r = FAT_EOC then Some (PennFatErr_EXISTS, s)
         else let filename = get_filename_from_path p in
           if length filename \<ge> 32 then Some (PennFatErr_INVAD, s)
           else if filename = ''.'' \<or> filename = ''..'' then Some (PennFatErr_INVAD, s)
           else do { (a, s1) \<leftarrow> allocate_free_block s;
             case a of None \<Rightarrow> Some (PennFatErr_NOSPACE, s1)
             | Some first_block \<Rightarrow>
               do { (e, s2) \<leftarrow> add_dirent_to_dir h (r_parent r)
                                 (new_file_entry h filename first_block) s1;
                    if e \<noteq> PennFatErr_OK
                    then do { s3 \<leftarrow> fat_set first_block FAT_FREE s2; Some (e, s3) }
                    else Some (PennFatErr_OK, s2) } } })"

definition k_chmod :: "host \<Rightarrow> string option \<Rightarrow> 8 word \<Rightarrow> fs \<Rightarrow> (PennFatErr \<times> fs) option" where
  "k_chmod h path new_perm s =
    (if \<not> g_mounted s then Some (PennFatErr_NOT_MOUNTED, s)
     else case path of None \<Rightarrow> Some (PennFatErr_INVAD, s)
     | Some p \<Rightarrow>
       if p = [] then Some (PennFatErr_INVAD, s)
       else if \<not> VALID_PERM new_perm then Some (PennFatErr_INVAD, s)
       else do { (err, r) \<leftarrow> resolve_path h s p;
         if err \<noteq> PennFatErr_OK then Some (err, s)
         else if \<not> r_found r \<or> r_is_root r then Some (PennFatErr_EXISTS, s)
         else Some (write_dirent h (r_entry_block r) (r_entry_index r)
                ((r_entry r)\<lparr>de_perm := new_perm, de_mtime := h_now h\<rparr>) s) })"

subsection \<open>The working directory\<close>

definition k_chdir :: "host \<Rightarrow> string option \<Rightarrow> fs \<Rightarrow> (PennFatErr \<times> fs) option" where
  "k_chdir h path s =
    (if \<not> g_mounted s then Some (PennFatErr_NOT_MOUNTED, s)
     else case path of None \<Rightarrow> Some (PennFatErr_INVAD, s)
     | Some p \<Rightarrow> do { (err, r) \<leftarrow> resolve_path h s p;
         if err \<noteq> PennFatErr_OK then Some (err, s)
         else if \<not> r_found r then Some (PennFatErr_EXISTS, s)
         else if r_is_root r then Some (PennFatErr_OK, s\<lparr>g_cwd_block := 1\<rparr>)
         else if de_type (r_entry r) \<noteq> 2 then Some (PennFatErr_NOTDIR, s)
         else Some (PennFatErr_OK, s\<lparr>g_cwd_block := de_first_block (r_entry r)\<rparr>) })"

text \<open>
  The climb to the root: the first argument is \<open>max_depth - safety_count\<close>. \<open>Inr\<close> carries the path
  built and what is left of the count.
\<close>

fun getcwd_loop :: "nat \<Rightarrow> host \<Rightarrow> fs \<Rightarrow> 16 word \<Rightarrow> string \<Rightarrow> (PennFatErr + string \<times> nat) option" where
  "getcwd_loop 0 h s current_dir current_path = Some (Inr (current_path, 0))"
| "getcwd_loop (Suc left) h s current_dir current_path =
    (if current_dir = 1 then Some (Inr (current_path, Suc left))
     else do { r \<leftarrow> find_entry_in_dir h s current_dir ''..'';
       case r of Inl _ \<Rightarrow> Some (Inl PennFatErr_IO)
       | Inr None \<Rightarrow> Some (Inl PennFatErr_IO)
       | Inr (Some (e, _, _)) \<Rightarrow>
         do { q \<leftarrow> find_dir_name_in_parent h s current_dir (de_first_block e) 32;
           case q of Inl _ \<Rightarrow> Some (Inl PennFatErr_IO)
           | Inr component \<Rightarrow>
               getcwd_loop left h s (de_first_block e)
                 (take (PATH_MAX - 1) (CHR ''/'' # component @ current_path)) } })"

text \<open>The result: the code and the string left in \<open>buf\<close>; \<^const>\<open>None\<close> if \<open>buf\<close> is not written.\<close>

definition k_getcwd :: "host \<Rightarrow> nat \<Rightarrow> fs \<Rightarrow> (PennFatErr \<times> string option) option" where
  "k_getcwd h sz s =
    (if \<not> g_mounted s then Some (PennFatErr_NOT_MOUNTED, None)
     else if sz = 0 then Some (PennFatErr_INVAD, None)
     else if g_cwd_block s = 1
     then (if sz < 2 then Some (PennFatErr_RANGE, None) else Some (PennFatErr_OK, Some ''/''))
     else do { r \<leftarrow> getcwd_loop 64 h s (g_cwd_block s) [];
       case r of Inl err \<Rightarrow> Some (err, Some ''?'')
       | Inr (path, left) \<Rightarrow>
           if left = 0 then Some (PennFatErr_RANGE, Some ''?'')
           else if path = []
           then (if sz < 2 then Some (PennFatErr_RANGE, None) else Some (PennFatErr_OK, Some ''/''))
           else if length path \<ge> sz then Some (PennFatErr_RANGE, Some (take (sz - 1) path))
           else Some (PennFatErr_OK, Some path) })"

subsection \<open>k_symlink\<close>

definition link_dirent :: "host \<Rightarrow> string \<Rightarrow> string \<Rightarrow> nat \<Rightarrow> dir_entry" where
  "link_dirent h link_filename target target_block = zero_dirent\<lparr>de_name := name_field link_filename,
     de_type := 4, de_perm := DEF_PERM OR PERM_EXEC, de_first_block := of_nat target_block,
     de_size := of_nat (length target), de_mtime := h_now h\<rparr>"

definition symlink_store ::
  "host \<Rightarrow> string \<Rightarrow> string \<Rightarrow> 16 word \<Rightarrow> nat \<Rightarrow> fs \<Rightarrow> (PennFatErr \<times> fs) option" where
  "symlink_store h target link_filename parent target_block s =
    (if \<not> h_malloc h Site_k_symlink
     then do { s1 \<leftarrow> fat_set target_block FAT_FREE s; Some (PennFatErr_OUTOFMEM, s1) }
     else let (ok, s1) = write_block h
                (take (g_block_size s - 1) target @
                   replicate (g_block_size s - length (take (g_block_size s - 1) target)) NUL)
                target_block s in
       if \<not> ok then do { s2 \<leftarrow> fat_set target_block FAT_FREE s1; Some (PennFatErr_IO, s2) }
       else do { (err, s2) \<leftarrow> add_dirent_to_dir h parent
                                (link_dirent h link_filename target target_block) s1;
                 if err \<noteq> PennFatErr_OK
                 then do { s3 \<leftarrow> free_block_chain (of_nat target_block) s2; Some (err, s3) }
                 else Some (PennFatErr_OK, s2) })"

definition k_symlink ::
  "host \<Rightarrow> string option \<Rightarrow> string option \<Rightarrow> fs \<Rightarrow> (PennFatErr \<times> fs) option" where
  "k_symlink h target linkpath s =
    (if \<not> g_mounted s then Some (PennFatErr_NOT_MOUNTED, s)
     else if target = None \<or> linkpath = None \<or> target = Some [] \<or> linkpath = Some []
     then Some (PennFatErr_INVAD, s)
     else let t = the target; p = the linkpath in
       do { (err, r) \<leftarrow> resolve_path_no_follow h s p;
         if err \<noteq> PennFatErr_OK \<and> err \<noteq> PennFatErr_NOTDIR then Some (err, s)
         else if r_found r then Some (PennFatErr_EXISTS, s)
         else if r_parent r = FAT_FREE \<or> r_parent r = FAT_EOC then Some (PennFatErr_EXISTS, s)
         else let link_filename = get_filename_from_path p in
           if length link_filename = 0 \<or> length link_filename \<ge> 32 then Some (PennFatErr_INVAD, s)
           else if link_filename = ''.'' \<or> link_filename = ''..'' then Some (PennFatErr_INVAD, s)
           else if length t \<ge> g_block_size s then Some (PennFatErr_RANGE, s)
           else do { (a, s1) \<leftarrow> allocate_free_block s;
             case a of None \<Rightarrow> Some (PennFatErr_NOSPACE, s1)
             | Some target_block \<Rightarrow> symlink_store h t link_filename (r_parent r) target_block s1 } })"

subsection \<open>k_mkdir and k_rmdir\<close>

definition dir_dirent :: "string \<Rightarrow> 16 word \<Rightarrow> 64 word \<Rightarrow> dir_entry" where
  "dir_dirent nm blk now = zero_dirent\<lparr>de_name := name_field nm, de_type := 2, de_perm := DEF_PERM,
     de_first_block := blk, de_mtime := now\<rparr>"

text \<open>The first block of a new directory: \<open>.\<close> and \<open>..\<close>, the rest zero.\<close>

definition new_dir_block :: "nat \<Rightarrow> 16 word \<Rightarrow> 16 word \<Rightarrow> 64 word \<Rightarrow> string" where
  "new_dir_block bs self parent now =
     pwrite (pwrite (replicate bs NUL) 0 (enc_dirent (dir_dirent ''.'' self now)))
       64 (enc_dirent (dir_dirent ''..'' parent now))"

definition mkdir_store ::
  "host \<Rightarrow> string \<Rightarrow> 16 word \<Rightarrow> nat \<Rightarrow> fs \<Rightarrow> (PennFatErr \<times> fs) option" where
  "mkdir_store h dirname parent dir_block s =
    do { (err, s1) \<leftarrow> add_dirent_to_dir h parent (dir_dirent dirname (of_nat dir_block) (h_now h)) s;
         if err \<noteq> PennFatErr_OK
         then do { s2 \<leftarrow> fat_set dir_block FAT_FREE s1; Some (err, s2) }
         else if \<not> h_malloc h Site_k_mkdir
         then do { s2 \<leftarrow> fat_set dir_block FAT_FREE s1; Some (PennFatErr_OUTOFMEM, s2) }
         else let (ok, s2) = write_block h
                    (new_dir_block (g_block_size s1) (of_nat dir_block) parent (h_now h)) dir_block s1 in
           if \<not> ok then do { s3 \<leftarrow> fat_set dir_block FAT_FREE s2; Some (PennFatErr_IO, s3) }
           else Some (PennFatErr_OK, s2) }"

definition k_mkdir :: "host \<Rightarrow> string option \<Rightarrow> fs \<Rightarrow> (PennFatErr \<times> fs) option" where
  "k_mkdir h path s =
    (if \<not> g_mounted s then Some (PennFatErr_NOT_MOUNTED, s)
     else case path of None \<Rightarrow> Some (PennFatErr_INVAD, s)
     | Some p \<Rightarrow>
       if p = [] then Some (PennFatErr_INVAD, s)
       else do { (err, r) \<leftarrow> resolve_path h s p;
         if err \<noteq> PennFatErr_OK \<and> err \<noteq> PennFatErr_NOTDIR then Some (err, s)
         else if r_found r then Some (PennFatErr_EXISTS, s)
         else if r_parent r = FAT_FREE \<or> r_parent r = FAT_EOC then Some (PennFatErr_EXISTS, s)
         else let dirname = get_filename_from_path p in
           if length dirname = 0 \<or> length dirname \<ge> 32 then Some (PennFatErr_INVAD, s)
           else if dirname = ''.'' \<or> dirname = ''..'' then Some (PennFatErr_INVAD, s)
           else do { (a, s1) \<leftarrow> allocate_free_block s;
             case a of None \<Rightarrow> Some (PennFatErr_NOSPACE, s1)
             | Some dir_block \<Rightarrow> mkdir_store h dirname (r_parent r) dir_block s1 } })"

text \<open>Only \<open>.\<close> and \<open>..\<close> are live in the directory's first block.\<close>

definition dir_block_empty :: "dir_entry list \<Rightarrow> bool" where
  "dir_block_empty es \<longleftrightarrow> list_all (\<lambda>e. dname e = ''.'' \<or> dname e = ''..'') (live_entries es)"

definition k_rmdir :: "host \<Rightarrow> string option \<Rightarrow> fs \<Rightarrow> (PennFatErr \<times> fs) option" where
  "k_rmdir h path s =
    (if \<not> g_mounted s then Some (PennFatErr_NOT_MOUNTED, s)
     else case path of None \<Rightarrow> Some (PennFatErr_INVAD, s)
     | Some p \<Rightarrow>
       if p = [] \<or> p = ''/'' then Some (PennFatErr_INVAD, s)
       else do { (err, r) \<leftarrow> resolve_path h s p;
         if err \<noteq> PennFatErr_OK then Some (err, s)
         else if \<not> r_found r then Some (PennFatErr_EXISTS, s)
         else if de_type (r_entry r) \<noteq> 2 then Some (PennFatErr_NOTDIR, s)
         else let dir_block = de_first_block (r_entry r) in
           if \<not> h_malloc h Site_k_rmdir then Some (PennFatErr_OUTOFMEM, s)
           else case read_block h s (unat dir_block) of
             None \<Rightarrow> Some (PennFatErr_IO, s)
           | Some blk \<Rightarrow>
               if \<not> dir_block_empty (dir_entries s blk) then Some (PennFatErr_NOTEMPTY, s)
               else let (e, s1) = write_dirent h (r_entry_block r) (r_entry_index r) deleted_dirent s in
                 if e \<noteq> PennFatErr_OK then Some (e, s1)
                 else do { s2 \<leftarrow> fat_set (unat dir_block) FAT_FREE s1; Some (PennFatErr_OK, s2) } })"

subsection \<open>k_rename\<close>

text \<open>The destination exists: types must agree, then it is removed through its path.\<close>

definition rename_clear ::
  "host \<Rightarrow> string \<Rightarrow> resolved_path \<Rightarrow> resolved_path \<Rightarrow> fs \<Rightarrow> (PennFatErr \<times> fs) option" where
  "rename_clear h newpath old new s =
    (if \<not> r_found new then Some (PennFatErr_OK, s)
     else if de_type (r_entry old) \<noteq> de_type (r_entry new)
     then Some (if de_type (r_entry old) = 2 then PennFatErr_NOTDIR else PennFatErr_ISDIR, s)
     else if de_type (r_entry new) = 2 then k_rmdir h (Some newpath) s
     else k_unlink h (Some newpath) s)"

definition rename_move ::
  "host \<Rightarrow> string \<Rightarrow> resolved_path \<Rightarrow> resolved_path \<Rightarrow> fs \<Rightarrow> (PennFatErr \<times> fs) option" where
  "rename_move h new_filename old new s =
    do { (err, s1) \<leftarrow> add_dirent_to_dir h (r_parent new)
                      ((r_entry old)\<lparr>de_name := name_field new_filename, de_mtime := h_now h\<rparr>) s;
         if err \<noteq> PennFatErr_OK then Some (err, s1)
         else Some (write_dirent h (r_entry_block old) (r_entry_index old) deleted_dirent s1) }"

definition k_rename ::
  "host \<Rightarrow> string option \<Rightarrow> string option \<Rightarrow> fs \<Rightarrow> (PennFatErr \<times> fs) option" where
  "k_rename h oldpath newpath s =
    (if \<not> g_mounted s then Some (PennFatErr_NOT_MOUNTED, s)
     else if oldpath = None \<or> oldpath = Some [] \<or> newpath = None \<or> newpath = Some []
     then Some (PennFatErr_INVAD, s)
     else if oldpath = newpath then Some (PennFatErr_OK, s)
     else let p = the oldpath; q = the newpath in
       do { (err, old) \<leftarrow> resolve_path h s p;
         if err \<noteq> PennFatErr_OK then Some (err, s)
         else if \<not> r_found old \<or> r_is_root old then Some (PennFatErr_EXISTS, s)
         else if dname (r_entry old) = ''.'' \<or> dname (r_entry old) = ''..''
         then Some (PennFatErr_INVAD, s)
         else do { (err2, new) \<leftarrow> resolve_path h s q;
           if err2 \<noteq> PennFatErr_OK \<and> err2 \<noteq> PennFatErr_NOTDIR then Some (err2, s)
           else if r_parent new = FAT_FREE \<or> r_parent new = FAT_EOC then Some (PennFatErr_EXISTS, s)
           else let new_filename = get_filename_from_path q in
             if length new_filename = 0 \<or> length new_filename \<ge> 32 then Some (PennFatErr_INVAD, s)
             else if new_filename = ''.'' \<or> new_filename = ''..'' then Some (PennFatErr_INVAD, s)
             else do { (e, s1) \<leftarrow> rename_clear h q old new s;
               if e \<noteq> PennFatErr_OK then Some (e, s1)
               else rename_move h new_filename old new s1 } } })"

end
