(* ===== verification/MountOps.thy ===== *)
theory MountOps
  imports NameOps
begin

text \<open>
  \<open>k_mkfs\<close>, \<open>k_mount\<close>, \<open>k_unmount\<close> and the module clean-up of \<open>src/internal/pennfat_kernel.c\<close>.
\<close>

subsection \<open>k_mkfs\<close>

definition mkfs_fat_entries :: "nat \<Rightarrow> nat \<Rightarrow> nat" where
  "mkfs_fat_entries blocks_in_fat block_size = (blocks_in_fat * block_size) div 2"

definition mkfs_total_size :: "nat \<Rightarrow> nat \<Rightarrow> nat" where
  "mkfs_total_size blocks_in_fat block_size =
    (let fat_region_size = blocks_in_fat * block_size;
         fat_entries = mkfs_fat_entries blocks_in_fat block_size;
         data_blocks = (fat_entries - 1) - (if fat_entries - 1 = 0xFFFF then 1 else 0)
     in fat_region_size + data_blocks * block_size)"

definition mkfs_fat_array :: "nat \<Rightarrow> nat \<Rightarrow> nat \<Rightarrow> 16 word list" where
  "mkfs_fat_array blocks_in_fat block_size_config n =
     (replicate n FAT_FREE)
       [0 := push_bit 8 (of_nat blocks_in_fat) OR of_nat block_size_config, 1 := FAT_EOC]"

definition fat_bytes :: "16 word list \<Rightarrow> string" where
  "fat_bytes ws = concat (map (\<lambda>w. le_bytes 2 (unat w)) ws)"

definition put_file :: "string \<Rightarrow> string \<Rightarrow> fs \<Rightarrow> fs" where
  "put_file name content s = s\<lparr>host_files := (host_files s)(name \<mapsto> content)\<rparr>"

definition k_mkfs :: "host \<Rightarrow> string \<Rightarrow> int \<Rightarrow> int \<Rightarrow> fs \<Rightarrow> PennFatErr \<times> fs" where
  "k_mkfs h fs_name blocks_in_fat block_size_config s =
    (if g_mounted s then (PennFatErr_UNEXPCMD, s)
     else if blocks_in_fat < 1 \<or> blocks_in_fat > 32 then (PennFatErr_INVAD, s)
     else if block_size_config < 0 \<or> block_size_config > 4 then (PennFatErr_INVAD, s)
     else let nb = nat blocks_in_fat; cfg = nat block_size_config;
              block_size = block_sizes ! cfg;
              fat_region_size = nb * block_size in
       if \<not> h_open h then (PennFatErr_INTERNAL, s)
       else if \<not> h_ftruncate h then (PennFatErr_INTERNAL, put_file fs_name [] s)
       else let img0 = replicate (mkfs_total_size nb block_size) NUL in
         if \<not> h_malloc h Site_mkfs_fat then (PennFatErr_OUTOFMEM, put_file fs_name img0 s)
         else if \<not> h_fat_write h then (PennFatErr_INTERNAL, put_file fs_name img0 s)
         else let img1 = pwrite img0 0
                    (fat_bytes (mkfs_fat_array nb cfg (mkfs_fat_entries nb block_size))) in
           if \<not> h_malloc h Site_mkfs_zero then (PennFatErr_INTERNAL, put_file fs_name img1 s)
           else if \<not> h_root h then (PennFatErr_INTERNAL, put_file fs_name img1 s)
           else (PennFatErr_SUCCESS,
                 put_file fs_name (pwrite img1 fat_region_size (replicate block_size NUL)) s))"

subsection \<open>k_mount\<close>

definition super_config :: "16 word \<Rightarrow> nat" where "super_config w = unat (w AND 0xFF)"
definition super_blocks :: "16 word \<Rightarrow> nat" where "super_blocks w = unat (drop_bit 8 w AND 0xFF)"

text \<open>
  \<open>mount_map\<close> is the part after the checks of the superblock: mapping the FAT, reading the root
  block, clearing the tables. \<open>g_cwd_block\<close> is not among the fields it sets.
\<close>

definition mount_map :: "host \<Rightarrow> 16 word \<Rightarrow> fs \<Rightarrow> PennFatErr \<times> fs" where
  "mount_map h super_entry s =
    (let fat_region_size = super_blocks super_entry * g_block_size s in
     if \<not> h_mmap h then (PennFatErr_INTERNAL, s)
     else if of_nat (le_val (pread (g_img s) 0 2)) \<noteq> super_entry then (PennFatErr_INTERNAL, s)
     else let s1 = s\<lparr>g_fat := True,
                g_superblock := \<lparr>fat_block_count = super_blocks super_entry, data_start_block = 2\<rparr>\<rparr>;
              root = pread (g_img s) fat_region_size (g_block_size s) in
       if \<not> h_malloc h Site_k_mount then (PennFatErr_OUTOFMEM, s1\<lparr>g_fat := False\<rparr>)
       else if \<not> h_root h \<or> length root \<noteq> g_block_size s
       then (PennFatErr_INTERNAL, s1\<lparr>g_fat := False\<rparr>)
       else (PennFatErr_SUCCESS, s1\<lparr>g_root_dir := root,
               g_sysfile_table := replicate MAX_SYSTEM_FILES zero_sysfile,
               g_fd_table := replicate MAX_FD zero_fd, g_mounted := True\<rparr>))"

definition k_mount :: "host \<Rightarrow> string \<Rightarrow> fs \<Rightarrow> PennFatErr \<times> fs" where
  "k_mount h fs_name s =
    (if g_mounted s then (PennFatErr_UNEXPCMD, s)
     else if \<not> h_open h then (PennFatErr_INTERNAL, s)
     else case host_files s fs_name of None \<Rightarrow> (PennFatErr_INTERNAL, s)
     | Some content \<Rightarrow>
       let s0 = s\<lparr>g_fs_fd := Some fs_name, g_img := content\<rparr> in
       if \<not> h_super h \<or> length (pread content 0 2) \<noteq> 2 then (PennFatErr_INTERNAL, s0)
       else let super_entry = of_nat (le_val (pread content 0 2)) :: 16 word in
         if super_config super_entry \<ge> length block_sizes then (PennFatErr_INVAD, s0)
         else if super_blocks super_entry < 1 \<or> super_blocks super_entry > 32
         then (PennFatErr_INVAD, s0)
         else mount_map h super_entry (s0\<lparr>g_block_size := block_sizes ! super_config super_entry\<rparr>))"

subsection \<open>k_unmount\<close>

definition close_all :: "host \<Rightarrow> fs \<Rightarrow> fs" where
  "close_all h s = fold (\<lambda>fd s. if fd_in_use (g_fd_table s ! fd) then snd (k_close h (int fd) s) else s)
     [0..<MAX_FD] s"

text \<open>The contents of the open image become the host file's when the descriptor is closed.\<close>

definition close_image :: "fs \<Rightarrow> fs" where
  "close_image s = (case g_fs_fd s of None \<Rightarrow> s | Some nm \<Rightarrow> put_file nm (g_img s) s)"

text \<open>
  The block that \<open>k_mount\<close> read into \<open>g_root_dir\<close> is written back to the block after the FAT region;
  no operation but the unused \<open>lookup_entry\<close> changes that buffer in between.
\<close>

definition k_unmount :: "host \<Rightarrow> fs \<Rightarrow> (PennFatErr \<times> fs) option" where
  "k_unmount h s =
    (if \<not> g_mounted s then Some (PennFatErr_NOT_MOUNTED, s)
     else do { w \<leftarrow> fat_get s 0;
       let fat_region_size = super_blocks w * g_block_size s in
       let s1 = close_all h s in
       if \<not> h_root h then Some (PennFatErr_INTERNAL, s1)
       else let s2 = s1\<lparr>g_img := pwrite (g_img s1) fat_region_size (g_root_dir s1)\<rparr> in
         if \<not> h_msync h then Some (PennFatErr_INTERNAL, s2)
         else if \<not> h_munmap h then Some (PennFatErr_INTERNAL, s2)
         else let s3 = s2\<lparr>g_fat := False, g_root_dir := []\<rparr> in
           if \<not> h_fsync h then Some (PennFatErr_INTERNAL, (close_image s3)\<lparr>g_fs_fd := None\<rparr>)
           else if \<not> h_close h then Some (PennFatErr_INTERNAL, close_image s3)
           else Some (PennFatErr_SUCCESS, (close_image s3)\<lparr>g_fs_fd := None, g_mounted := False\<rparr>) })"

definition pennfat_kernel_cleanup :: "host \<Rightarrow> fs \<Rightarrow> fs option" where
  "pennfat_kernel_cleanup h s =
    (if g_mounted s then do { (_, s1) \<leftarrow> k_unmount h s; Some s1 } else Some s)"

end
