(* ===== verification/MountProps.thy ===== *)
theory MountProps
  imports MountOps
begin

text \<open>
  What \<open>k_mkfs\<close> writes and \<open>k_mount\<close> reads back: the superblock entry, the FAT, the data blocks, and
  the state of a freshly made and mounted file system, on which the witnesses of the other theories
  stand.
\<close>

subsection \<open>The superblock entry\<close>

definition super_word :: "nat \<Rightarrow> nat \<Rightarrow> 16 word" where
  "super_word nb cfg = push_bit 8 (of_nat nb) OR of_nat cfg"

lemma super_word_table:
  "list_all (\<lambda>nb. list_all (\<lambda>cfg. super_config (super_word nb cfg) = cfg \<and>
     super_blocks (super_word nb cfg) = nb) [0..<5]) [1..<33]"
  by code_simp

lemma super_word_fields:
  assumes "1 \<le> nb" "nb \<le> 32" "cfg \<le> 4"
  shows "super_config (super_word nb cfg) = cfg" "super_blocks (super_word nb cfg) = nb"
proof -
  have "nb \<in> set [1..<33]" "cfg \<in> set [0..<5]" using assms by auto
  then show "super_config (super_word nb cfg) = cfg" "super_blocks (super_word nb cfg) = nb"
    using super_word_table by (simp_all only: list_all_iff)
qed

subsection \<open>The image k_mkfs writes\<close>

lemma length_fat_bytes [simp]: "length (fat_bytes ws) = 2 * length ws"
  by (induction ws) (auto simp: fat_bytes_def)

lemma pread_fat_bytes: "i < length ws \<Longrightarrow> pread (fat_bytes ws) (2 * i) 2 = le_bytes 2 (unat (ws ! i))"
proof (induction ws arbitrary: i)
  case Nil
  then show ?case by simp
next
  case (Cons w ws)
  have hd: "fat_bytes (w # ws) = le_bytes 2 (unat w) @ fat_bytes ws" by (simp add: fat_bytes_def)
  show ?case
  proof (cases i)
    case 0
    then show ?thesis by (simp add: hd pread_def)
  next
    case (Suc k)
    have "pread (le_bytes 2 (unat w) @ fat_bytes ws) (2 * Suc k) 2 = pread (fat_bytes ws) (2 * k) 2"
      by (simp add: pread_def)
    then show ?thesis using Cons Suc by (simp only: hd nth_Cons_Suc) simp
  qed
qed

definition mkfs_image :: "nat \<Rightarrow> nat \<Rightarrow> string" where
  "mkfs_image nb cfg =
    (let bs = block_sizes ! cfg in
     pwrite (pwrite (replicate (mkfs_total_size nb bs) NUL) 0
              (fat_bytes (mkfs_fat_array nb cfg (mkfs_fat_entries nb bs))))
       (nb * bs) (replicate bs NUL))"

lemma mkfs_good:
  assumes "good_host h" "\<not> g_mounted s" "1 \<le> nb" "nb \<le> 32" "cfg \<le> 4"
  shows "k_mkfs h name (int nb) (int cfg) s = (PennFatErr_SUCCESS, put_file name (mkfs_image nb cfg) s)"
  using assms by (simp add: k_mkfs_def mkfs_image_def Let_def)

lemma block_sizes_nth:
  assumes "cfg \<le> 4"
  shows "block_sizes ! cfg \<in> set block_sizes" "256 \<le> block_sizes ! cfg" "block_sizes ! cfg \<le> 4096"
    "even (block_sizes ! cfg)"
proof -
  have "cfg \<in> {0, 1, 2, 3, 4}" using assms by auto
  then show "block_sizes ! cfg \<in> set block_sizes" "256 \<le> block_sizes ! cfg"
    "block_sizes ! cfg \<le> 4096" "even (block_sizes ! cfg)"
    by (auto simp: block_sizes_def)
qed

lemma mkfs_sizes:
  assumes "1 \<le> nb" "nb \<le> 32" "cfg \<le> 4"
  defines "bs \<equiv> block_sizes ! cfg"
  shows "2 * mkfs_fat_entries nb bs = nb * bs" "128 \<le> mkfs_fat_entries nb bs"
    "mkfs_fat_entries nb bs \<le> 65536"
    "mkfs_total_size nb bs =
      (nb + mkfs_fat_entries nb bs - (if mkfs_fat_entries nb bs = 0x10000 then 2 else 1)) * bs"
    "nb * bs + bs \<le> mkfs_total_size nb bs"
proof -
  note bs = block_sizes_nth [OF assms(3), folded bs_def]
  show n: "2 * mkfs_fat_entries nb bs = nb * bs" using bs(4) by (simp add: mkfs_fat_entries_def)
  have "1 * 256 \<le> nb * bs" "nb * bs \<le> 32 * 4096"
    using assms(1,2) bs(2,3) by (intro mult_le_mono; simp)+
  with n show lo: "128 \<le> mkfs_fat_entries nb bs" and "mkfs_fat_entries nb bs \<le> 65536" by linarith+
  show tot: "mkfs_total_size nb bs =
      (nb + mkfs_fat_entries nb bs - (if mkfs_fat_entries nb bs = 0x10000 then 2 else 1)) * bs"
    using lo by (auto simp: mkfs_total_size_def Let_def add_mult_distrib [symmetric])
  have "(nb + 1) * bs \<le> mkfs_total_size nb bs"
    unfolding tot using lo by (intro mult_le_mono1) auto
  then show "nb * bs + bs \<le> mkfs_total_size nb bs" by (simp add: add_mult_distrib)
qed

lemma length_mkfs_fat_array [simp]: "length (mkfs_fat_array nb cfg n) = n"
  by (simp add: mkfs_fat_array_def)

lemma mkfs_image_facts:
  assumes "1 \<le> nb" "nb \<le> 32" "cfg \<le> 4"
  defines "bs \<equiv> block_sizes ! cfg"
  defines "n \<equiv> mkfs_fat_entries nb bs"
  shows "length (mkfs_image nb cfg) = mkfs_total_size nb bs"
    "\<And>i. i < n \<Longrightarrow> pread (mkfs_image nb cfg) (2 * i) 2 = le_bytes 2 (unat (mkfs_fat_array nb cfg n ! i))"
    "\<And>off k. nb * bs \<le> off \<Longrightarrow> off + k \<le> mkfs_total_size nb bs \<Longrightarrow>
       pread (mkfs_image nb cfg) off k = replicate k NUL"
proof -
  note sz = mkfs_sizes [OF assms(1-3), folded bs_def, folded n_def]
  let ?img1 = "pwrite (replicate (mkfs_total_size nb bs) NUL) 0 (fat_bytes (mkfs_fat_array nb cfg n))"
  have img: "mkfs_image nb cfg = pwrite ?img1 (nb * bs) (replicate bs NUL)"
    by (simp add: mkfs_image_def Let_def bs_def n_def)
  have len1: "length ?img1 = mkfs_total_size nb bs" using sz by (simp add: length_pwrite)
  show len: "length (mkfs_image nb cfg) = mkfs_total_size nb bs"
    using sz len1 by (simp add: img length_pwrite)
  {
    fix i assume "i < n"
    then have i: "2 * i + 2 \<le> nb * bs" using sz(1) by linarith
    then have "pread (mkfs_image nb cfg) (2 * i) 2 = pread ?img1 (2 * i) 2"
      unfolding img using len1 sz(5) by (intro pread_pwrite_other) auto
    also have "\<dots> = pread (fat_bytes (mkfs_fat_array nb cfg n)) (2 * i) 2"
      using pread_pwrite_inside [of "2 * i" 2 "fat_bytes (mkfs_fat_array nb cfg n)" _ 0] \<open>i < n\<close> by simp
    also have "\<dots> = le_bytes 2 (unat (mkfs_fat_array nb cfg n ! i))"
      using \<open>i < n\<close> by (intro pread_fat_bytes) simp
    finally show "pread (mkfs_image nb cfg) (2 * i) 2 = le_bytes 2 (unat (mkfs_fat_array nb cfg n ! i))" .
  }
  fix off k assume ok: "nb * bs \<le> off" "off + k \<le> mkfs_total_size nb bs"
  show "pread (mkfs_image nb cfg) off k = replicate k NUL"
  proof (rule nth_equalityI)
    fix j assume "j < length (pread (mkfs_image nb cfg) off k)"
    then have j: "j < k" by (simp add: length_pread)
    then have "off + j < mkfs_total_size nb bs" "2 * n \<le> off + j" using ok sz(1) by auto
    then show "pread (mkfs_image nb cfg) off k ! j = replicate k NUL ! j"
      using j ok len by (simp add: nth_pread) (simp add: img nth_pwrite length_pwrite)
  qed (use ok len in simp)
qed

subsection \<open>Mounting a fresh image\<close>

lemma mkfs_image_super:
  assumes "1 \<le> nb" "nb \<le> 32" "cfg \<le> 4"
  shows "of_nat (le_val (pread (mkfs_image nb cfg) 0 2)) = super_word nb cfg"
    "length (pread (mkfs_image nb cfg) 0 2) = 2"
proof -
  note sz = mkfs_sizes [OF assms] and img = mkfs_image_facts [OF assms]
  have "pread (mkfs_image nb cfg) (2 * 0) 2 = le_bytes 2 (unat (super_word nb cfg))"
    using sz(2) by (subst img(2)) (auto simp: mkfs_fat_array_def super_word_def)
  then show "of_nat (le_val (pread (mkfs_image nb cfg) 0 2)) = super_word nb cfg"
    "length (pread (mkfs_image nb cfg) 0 2) = 2"
    using le_word_roundtrip [of 2 "super_word nb cfg"] by simp_all
qed

text \<open>The state after mounting, written out.\<close>

definition mounted_fresh :: "string \<Rightarrow> nat \<Rightarrow> nat \<Rightarrow> fs \<Rightarrow> fs" where
  "mounted_fresh name nb cfg s = s\<lparr>g_fs_fd := Some name, g_img := mkfs_image nb cfg,
     g_block_size := block_sizes ! cfg, g_fat := True,
     g_superblock := \<lparr>fat_block_count = nb, data_start_block = 2\<rparr>,
     g_root_dir := replicate (block_sizes ! cfg) NUL,
     g_sysfile_table := replicate MAX_SYSTEM_FILES zero_sysfile,
     g_fd_table := replicate MAX_FD zero_fd, g_mounted := True\<rparr>"

lemma mount_fresh:
  assumes "good_host h" "\<not> g_mounted s" "1 \<le> nb" "nb \<le> 32" "cfg \<le> 4"
    "host_files s name = Some (mkfs_image nb cfg)"
  shows "k_mount h name s = (PennFatErr_SUCCESS, mounted_fresh name nb cfg s)"
proof -
  note img = mkfs_image_super [OF assms(3-5)] and sw = super_word_fields [OF assms(3-5)]
  note facts = mkfs_image_facts [OF assms(3-5)] and sz = mkfs_sizes [OF assms(3-5)]
  have root: "pread (mkfs_image nb cfg) (nb * block_sizes ! cfg) (block_sizes ! cfg) =
      replicate (block_sizes ! cfg) NUL"
    using sz(5) by (intro facts(3)) auto
  show ?thesis
    using assms img sw root
    by (simp add: k_mount_def mount_map_def Let_def mounted_fresh_def)
       (simp add: block_sizes_def)
qed

lemma geom_mounted_fresh:
  assumes "1 \<le> nb" "nb \<le> 32" "cfg \<le> 4"
  shows "geom (mounted_fresh name nb cfg s)"
    "fat_entries (mounted_fresh name nb cfg s) = mkfs_fat_entries nb (block_sizes ! cfg)"
    "fat_blocks (mounted_fresh name nb cfg s) = nb"
proof -
  note sz = mkfs_sizes [OF assms] and facts = mkfs_image_facts [OF assms]
  show fe: "fat_entries (mounted_fresh name nb cfg s) = mkfs_fat_entries nb (block_sizes ! cfg)"
    by (simp add: fat_entries_def mounted_fresh_def mkfs_fat_entries_def)
  show "fat_blocks (mounted_fresh name nb cfg s) = nb"
    by (simp add: fat_blocks_def mounted_fresh_def)
  show "geom (mounted_fresh name nb cfg s)"
    using assms sz(4) facts(1) block_sizes_nth(1) [OF assms(3)] fe
    by (simp add: geom_def fat_blocks_def mounted_fresh_def)
qed

lemma fat_list_fresh:
  assumes "1 \<le> nb" "nb \<le> 32" "cfg \<le> 4"
  shows "fat_list (mounted_fresh name nb cfg s) =
    mkfs_fat_array nb cfg (mkfs_fat_entries nb (block_sizes ! cfg))"
proof (rule nth_equalityI)
  note g = geom_mounted_fresh [OF assms, of name s]
  show "length (fat_list (mounted_fresh name nb cfg s)) =
      length (mkfs_fat_array nb cfg (mkfs_fat_entries nb (block_sizes ! cfg)))"
    by (simp add: g)
  fix i assume "i < length (fat_list (mounted_fresh name nb cfg s))"
  then have i: "i < mkfs_fat_entries nb (block_sizes ! cfg)" by (simp add: g)
  have img: "g_img (mounted_fresh name nb cfg s) = mkfs_image nb cfg" by (simp add: mounted_fresh_def)
  show "fat_list (mounted_fresh name nb cfg s) ! i =
      mkfs_fat_array nb cfg (mkfs_fat_entries nb (block_sizes ! cfg)) ! i"
    using i mkfs_image_facts(2) [OF assms i] le_word_roundtrip [of 2, where 'a = 16]
    by (simp add: nth_store_contents g fat_get_eq img)
qed

end
