(* ===== verification/DirProps.thy ===== *)
theory DirProps
  imports MountProps
begin

text \<open>
  What the operations on names do to the working directory, seen as a map from names to entries.
\<close>

subsection \<open>The working directory as a map\<close>

text \<open>
  A mounted image with one FAT block whose working directory is sound. With more FAT blocks the
  directory at block 1 lies inside of the FAT region.
\<close>

definition cwd_dir :: "host \<Rightarrow> fs \<Rightarrow> 16 word list \<Rightarrow> bool" where
  "cwd_dir h s bs \<longleftrightarrow> g_mounted s \<and> geom s \<and> fat_blocks s = 1 \<and> dir_ok h s (g_cwd_block s) bs"

lemma dir_ok_frame:
  assumes "dir_ok h s d bs" "same_but_img s s'" "image_blocks s' = image_blocks s"
    "\<forall>c\<in>set bs. fat_list s' ! unat c = fat_list s ! unat c"
    "\<forall>c\<in>set bs. read_block h s' (unat c) = read_block h s (unat c)"
  shows "dir_ok h s' d bs" "dir_map h s' bs = dir_map h s bs"
proof -
  have be: "\<forall>c\<in>set bs. block_entries h s' c = block_entries h s c"
    using assms(5) block_entries_same [OF assms(2)] by blast
  note ce = chain_entries_same [OF be]
  have "chain (fat_list s) d bs" using assms(1) by (simp add: dir_ok_def dir_chain_def)
  from chain_other [OF this assms(4)] have "chain (fat_list s') d bs"
    by (simp add: same_but_img_fields(12) [OF assms(2)])
  then show "dir_ok h s' d bs"
    using assms(1,3) be ce by (auto simp: dir_ok_def dir_chain_def)
  show "dir_map h s' bs = dir_map h s bs"
    by (rule ext) (simp add: dir_map_def find_chain_live ce)
qed

lemma image_blocks_same:
  "geom s \<Longrightarrow> geom s' \<Longrightarrow> same_but_img s s' \<Longrightarrow> image_blocks s' = image_blocks s"
  by (simp only: image_blocks_eq same_but_img_fields)

lemma dir_blocks_pos: "dir_ok h s d bs \<Longrightarrow> c \<in> set bs \<Longrightarrow> 1 \<le> unat c \<and> unat c < fat_entries s"
  using chain_mem [of "fat_list s" d bs c] chain_end_pos by (auto simp: dir_ok_def dir_chain_def)

lemma dir_ok_alloc:
  assumes "geom s" "fat_blocks s = 1" "dir_ok h s d bs" "allocate_free_block s = Some (Some n, s')"
  shows "dir_ok h s' d bs" "dir_map h s' bs = dir_map h s bs"
proof -
  note al = allocate_Some [OF assms(1,4)] and ef = allocate_effect [OF assms(1,4)]
  have fat: "\<forall>c\<in>set bs. fat_list s' ! unat c = fat_list s ! unat c"
    using chain_not_free [of "fat_list s" d bs] assms(3) al(2,3)
    by (auto simp: dir_ok_def dir_chain_def ef(3) nth_list_update)
  have blks: "\<forall>c\<in>set bs. read_block h s' (unat c) = read_block h s (unat c)"
    using dir_blocks_pos [OF assms(3)] ef(5) assms(2) by simp
  note fr = dir_ok_frame [OF assms(3) ef(4) image_blocks_same [OF assms(1) ef(1,4)] fat blks]
  show "dir_ok h s' d bs" "dir_map h s' bs = dir_map h s bs" by (rule fr)+
qed

lemma wf_new_file [simp]: "wf_dirent (new_file_entry h p n)"
  by (simp add: wf_dirent_def new_file_entry_def zero_dirent_def)

lemma de_name_new_file [simp]: "de_name (new_file_entry h p n) = name_field p"
  by (simp add: new_file_entry_def)

lemma fat_undo:
  assumes "geom s" "allocate_free_block s = Some (Some n, s1)"
  shows "\<exists>s2. fat_set n FAT_FREE s1 = Some s2 \<and> geom s2 \<and> same_but_img s s2 \<and> fat_list s2 = fat_list s \<and>
    (\<forall>h c. fat_blocks s \<le> c \<longrightarrow> read_block h s2 c = read_block h s c)"
proof -
  note al = allocate_Some [OF assms] and ef = allocate_effect [OF assms]
  obtain s2 where s2: "fat_set n FAT_FREE s1 = Some s2" "geom s2" "fat_entries s2 = fat_entries s1"
    "fat_list s2 = (fat_list s1)[n := FAT_FREE]"
    using fat.put_total [of s1 n FAT_FREE] ef(1,2) al(2) by auto
  have n1: "n < fat_entries s1" using al(2) ef(2) by simp
  have fb: "fat_blocks s1 = fat_blocks s" by (rule same_but_img_fields(11) [OF ef(4)])
  have "fat_list s2 = fat_list s"
    using al(2,3) by (simp add: s2(4) ef(3)) (metis list_update_id)
  then show ?thesis
    using s2(1,2) same_but_img_trans [OF ef(4) fat_set_same_but_img [OF s2(1)]]
      fat_set_keeps_block [OF ef(1) n1 s2(1)] ef(5) fb by auto
qed

text \<open>A new file takes one block, and a second one if the directory has to grow.\<close>

definition two_free :: "fs \<Rightarrow> bool" where
  "two_free s \<longleftrightarrow> (\<exists>i j. 2 \<le> i \<and> i < j \<and> j < fat_entries s \<and> fat_list s ! i = FAT_FREE \<and>
     fat_list s ! j = FAT_FREE)"

lemma no_free_after:
  assumes "geom s" "allocate_free_block s = Some (Some n, s1)"
    "\<forall>i. 2 \<le> i \<and> i < fat_entries s1 \<longrightarrow> fat_list s1 ! i \<noteq> FAT_FREE"
  shows "\<not> two_free s"
proof -
  note ef = allocate_effect [OF assms(1,2)]
  have "fat_list s ! i \<noteq> FAT_FREE" if "2 \<le> i" "i < fat_entries s" "i \<noteq> n" for i
    using assms(3) [rule_format, of i] that by (simp add: ef(2,3))
  then show ?thesis by (auto simp: two_free_def) (metis le_trans less_imp_le nat_neq_iff order_less_trans)
qed

lemma no_free_at_all:
  assumes "\<And>i. 2 \<le> i \<Longrightarrow> i < fat_entries s \<Longrightarrow> fat_list s ! i \<noteq> FAT_FREE"
  shows "\<not> two_free s"
  using assms by (auto simp: two_free_def)

text \<open>\<open>k_touch\<close> of a new name.\<close>

lemma touch_new:
  assumes "good_host h" "cwd_dir h s bs" "plain_name p" "dir_map h s bs p = None"
  shows "\<exists>err s'. k_touch h (Some p) s = Some (err, s') \<and> same_but_img s s' \<and>
    (err = PennFatErr_OK \<and>
       (\<exists>n bs'. 2 \<le> n \<and> n < fat_entries s \<and> fat_list s ! n = FAT_FREE \<and> cwd_dir h s' bs' \<and>
         dir_map h s' bs' = (dir_map h s bs)(p \<mapsto> new_file_entry h p n)) \<or>
     err = PennFatErr_NOSPACE \<and> cwd_dir h s' bs \<and> dir_map h s' bs = dir_map h s bs \<and>
       fat_list s' = fat_list s \<and> \<not> two_free s)"
proof -
  have s: "g_mounted s" "geom s" "fat_blocks s = 1" "dir_ok h s (g_cwd_block s) bs"
    using assms(2) by (auto simp: cwd_dir_def)
  note p = plain_nameD [OF assms(3)]
  have res: "resolve_path h s p = Some (PennFatErr_OK, zero_resolved\<lparr>r_parent := g_cwd_block s\<rparr>)"
    by (rule resolve_plain_absent [OF assms(1) s(2) assms(3) s(4) assms(4)])
  have d: "\<not> chain_end (g_cwd_block s)"
    using chain_start [of "fat_list s" "g_cwd_block s" bs] s(4) by (auto simp: dir_ok_def dir_chain_def)
  obtain r s1 where alloc: "allocate_free_block s = Some (r, s1)"
    using allocate_total [OF s(2)] by auto
  have run: "k_touch h (Some p) s = (case r of None \<Rightarrow> Some (PennFatErr_NOSPACE, s1)
      | Some n \<Rightarrow> do { (e, s2) \<leftarrow> add_dirent_to_dir h (g_cwd_block s) (new_file_entry h p n) s1;
           if e \<noteq> PennFatErr_OK then do { s3 \<leftarrow> fat_set n FAT_FREE s2; Some (e, s3) }
           else Some (PennFatErr_OK, s2) })"
    using s(1) p d res alloc by (simp add: k_touch_def zero_resolved_def chain_end_def split: option.split)
  show ?thesis
  proof (cases r)
    case None
    then show ?thesis
      using run allocate_None [OF s(2)] alloc assms(2) no_free_at_all [of s] by auto
  next
    case (Some n)
    note al = allocate_Some [OF s(2) alloc [unfolded Some]]
    note ef = allocate_effect [OF s(2) alloc [unfolded Some]]
    note f1 = same_but_img_fields [OF ef(4)]
    note d1 = dir_ok_alloc [OF s(2-4) alloc [unfolded Some]]
    let ?e = "new_file_entry h p n"
    have e: "live ?e" "dname ?e = p" using live_named [OF assms(3)] by auto
    have fb: "fat_blocks s1 = 1" using f1(11) s(3) by simp
    have fresh: "dir_map h s1 bs (dname ?e) = None" using d1(2) e(2) assms(4) by simp
    consider (full) "add_dirent_to_dir h (g_cwd_block s) ?e s1 = Some (PennFatErr_NOSPACE, s1)"
        "\<forall>i. 2 \<le> i \<and> i < fat_entries s1 \<longrightarrow> fat_list s1 ! i \<noteq> FAT_FREE"
      | (ok) s2 bs' where "add_dirent_to_dir h (g_cwd_block s) ?e s1 = Some (PennFatErr_OK, s2)"
        "same_but_img s1 s2" "geom s2" "dir_ok h s2 (g_cwd_block s) bs'"
        "dir_map h s2 bs' = (dir_map h s1 bs)(p \<mapsto> ?e)"
      using dir_entry_added [OF assms(1) ef(1) fb d1(1) wf_new_file e(1) fresh] e(2) by auto
    then show ?thesis
    proof cases
      case full
      obtain s2 where s2: "fat_set n FAT_FREE s1 = Some s2" "geom s2" "same_but_img s s2"
        "fat_list s2 = fat_list s" "\<forall>h c. fat_blocks s \<le> c \<longrightarrow> read_block h s2 c = read_block h s c"
        using fat_undo [OF s(2) alloc [unfolded Some]] by auto
      have "dir_ok h s2 (g_cwd_block s) bs \<and> dir_map h s2 bs = dir_map h s bs"
        using dir_ok_frame [OF s(4) s2(3) image_blocks_same [OF s(2) s2(2,3)]] s2(4,5) s(3)
          dir_blocks_pos [OF s(4)] by simp
      then show ?thesis
        using run Some full(1) s2 s(1,3) no_free_after [OF s(2) alloc [unfolded Some] full(2)]
        by (auto simp: cwd_dir_def same_but_img_fields [OF s2(3)])
    next
      case ok
      have same: "same_but_img s s2" by (rule same_but_img_trans [OF ef(4) ok(2)])
      have "cwd_dir h s2 bs'"
        using ok s by (simp add: cwd_dir_def same_but_img_fields [OF same])
      then show ?thesis using run Some ok same al(1-3) d1(2) by auto
    qed
  qed
qed

text \<open>The freshly mounted image with one FAT block has a sound, empty root directory.\<close>

lemma fresh_fat:
  assumes "1 \<le> nb" "nb \<le> 32" "cfg \<le> 4" "i < mkfs_fat_entries nb (block_sizes ! cfg)" "1 \<le> i"
  shows "fat_list (mounted_fresh name nb cfg s) ! i = (if i = 1 then FAT_EOC else FAT_FREE)"
  using assms mkfs_sizes(2) [OF assms(1-3)]
  by (auto simp: fat_list_fresh mkfs_fat_array_def nth_list_update)

lemma fresh_block:
  assumes "good_host h" "1 \<le> nb" "nb \<le> 32" "cfg \<le> 4" "nb \<le> b"
    "b < image_blocks (mounted_fresh name nb cfg s)"
  shows "read_block h (mounted_fresh name nb cfg s) b = Some (replicate (block_sizes ! cfg) NUL)"
proof -
  let ?s = "mounted_fresh name nb cfg s" and ?bs = "block_sizes ! cfg"
  note g = geom_mounted_fresh [OF assms(2-4), of name s]
  have f: "g_img ?s = mkfs_image nb cfg" "g_block_size ?s = ?bs" by (simp_all add: mounted_fresh_def)
  have "b * ?bs + ?bs \<le> length (mkfs_image nb cfg)" "nb * ?bs \<le> b * ?bs"
    using block_inside [OF g(1) assms(6)] assms(5) by (simp_all add: f)
  then have "pread (mkfs_image nb cfg) (b * ?bs) ?bs = replicate ?bs NUL"
    using mkfs_image_facts(1,3) [OF assms(2-4)] by simp
  then show ?thesis using read_block_eq [OF assms(1) g(1) assms(6)] by (simp add: f)
qed

lemma cwd_dir_fresh:
  assumes "good_host h" "cfg \<le> 4" "g_cwd_block s = 1"
  shows "cwd_dir h (mounted_fresh name 1 cfg s) [1]" "dir_map h (mounted_fresh name 1 cfg s) [1] = Map.empty"
proof -
  let ?s = "mounted_fresh name 1 cfg s"
  have nb: "(1::nat) \<le> 1" "(1::nat) \<le> 32" by simp_all
  note g = geom_mounted_fresh [OF nb assms(2), of name s] and sz = mkfs_sizes [OF nb assms(2)]
  have ib: "1 < image_blocks ?s" using fat_blocks_inside(1) [OF g(1)] g(3) by simp
  have "read_block h ?s 1 = Some (replicate (g_block_size ?s) NUL)"
    using fresh_block [OF assms(1) nb assms(2) _ ib] by (simp add: mounted_fresh_def)
  then have be: "block_entries h ?s 1 = replicate (entries_per_block ?s) zero_dirent"
    using dir_entries_zeros [OF g(1)] by (simp add: block_entries_def)
  then have ce: "chain_entries h ?s [1] = []"
    by (simp add: chain_entries_def live_entries_tidy tidy_zeros)
  have "chain (fat_list ?s) 1 [1]"
    using fresh_fat [OF nb assms(2), of 1 name s] sz(2) g(2)
    by (simp add: chain_end_def FAT_EOC_def FAT_FREE_def)
  then have ok: "dir_ok h ?s 1 [1]"
    using ib be ce by (simp add: dir_ok_def dir_chain_def tidy_zeros)
  then show "cwd_dir h ?s [1]"
    using g assms(3) by (simp add: cwd_dir_def) (simp add: mounted_fresh_def)
  show "dir_map h ?s [1] = Map.empty"
    by (rule ext) (simp only: dir_map_def find_chain_live ce find.simps)
qed

text \<open>The concrete state of the witnesses: block size 256, one FAT block, just mounted.\<close>

definition made_fs :: fs where "made_fs = put_file ''d'' (mkfs_image 1 0) init_fs"
definition fresh_fs :: fs where "fresh_fs = mounted_fresh ''d'' 1 0 made_fs"

lemma fresh_fs_dir [simp]:
  "good_host h \<Longrightarrow> cwd_dir h fresh_fs [1]" "good_host h \<Longrightarrow> dir_map h fresh_fs [1] = Map.empty"
  using cwd_dir_fresh [of h 0 made_fs "''d''"]
  by (simp_all add: fresh_fs_def made_fs_def init_fs_def put_file_def)

lemma fresh_fs_made:
  assumes "good_host h"
  shows "k_mkfs h ''d'' 1 0 init_fs = (PennFatErr_SUCCESS, made_fs)"
    "k_mount h ''d'' made_fs = (PennFatErr_SUCCESS, fresh_fs)"
  using mkfs_good [OF assms, of init_fs 1 0 "''d''"] mount_fresh [OF assms, of made_fs 1 0 "''d''"]
  by (simp_all add: init_fs_def put_file_def made_fs_def fresh_fs_def)

lemma geom_fresh_fs [simp]: "geom fresh_fs"
  unfolding fresh_fs_def by (rule geom_mounted_fresh) simp_all

lemma fresh_fs_fat: "fat_entries fresh_fs = 128" "fat_list fresh_fs = mkfs_fat_array 1 0 128"
  using geom_mounted_fresh(2) [of 1 0 "''d''" made_fs] fat_list_fresh [of 1 0 "''d''" made_fs]
  by (simp_all add: fresh_fs_def mkfs_fat_entries_def block_sizes_def)

lemma fat_closed_fresh: "fat_closed (fat_list fresh_fs)"
  unfolding fat_closed_def
proof (intro allI impI)
  fix i assume "1 \<le> i \<and> i < length (fat_list fresh_fs)"
  then show "fat_list fresh_fs ! i = FAT_EOC \<or> unat (fat_list fresh_fs ! i) < length (fat_list fresh_fs)"
    by (auto simp: fresh_fs_fat mkfs_fat_array_def nth_list_update FAT_FREE_def)
qed

lemma cwd_dirD:
  assumes "cwd_dir h s bs"
  shows "g_mounted s" "geom s" "fat_blocks s = 1" "dir_ok h s (g_cwd_block s) bs"
    "\<not> chain_end (g_cwd_block s)"
  using assms chain_start [of "fat_list s" "g_cwd_block s" bs]
  by (auto simp: cwd_dir_def dir_ok_def dir_chain_def)

text \<open>A state with the same working directory and geometry after one of its entries changed.\<close>

lemma cwd_dir_changed:
  assumes "cwd_dir h s bs" "same_but_img s s'" "geom s'" "dir_ok h s' (g_cwd_block s) bs'"
  shows "cwd_dir h s' bs'"
  using assms by (simp add: cwd_dir_def same_but_img_fields [OF assms(2)])

lemma wf_found:
  assumes "good_host h" "cwd_dir h s bs" "find_chain h s p bs = Some (e, b, i)"
  shows "wf_dirent e"
proof -
  note pos = find_chain_position [OF assms(3)]
  have "dir_block_ok s b" using cwd_dirD(4) [OF assms(2)] pos(1) dir_chain_block by (auto simp: dir_ok_def)
  then show ?thesis using wf_block_entry [OF assms(1) cwd_dirD(2) [OF assms(2)]] pos by auto
qed

text \<open>Replacing a field other than the name keeps the entry live and under its name.\<close>

lemma entry_kept:
  assumes "live e" "dname e = p" "wf_dirent e" "de_name e' = de_name e" "de_reserved e' = de_reserved e"
  shows "live e'" "dname e' = p" "wf_dirent e'"
  using assms by (auto simp: live_def deleted_mark_def name0_def dname_def wf_dirent_def)

lemma chmod_found:
  assumes "good_host h" "cwd_dir h s bs" "plain_name p" "find_chain h s p bs = Some (e, b, i)"
    "de_type e \<noteq> 4" "VALID_PERM perm"
  shows "\<exists>s'. k_chmod h (Some p) perm s = Some (PennFatErr_OK, s') \<and> same_but_img s s' \<and> cwd_dir h s' bs \<and>
    fat_list s' = fat_list s \<and>
    dir_map h s' bs = (dir_map h s bs)(p \<mapsto> e\<lparr>de_perm := perm, de_mtime := h_now h\<rparr>)"
proof -
  note s = cwd_dirD [OF assms(2)] and pos = find_chain_position [OF assms(4)]
  let ?e = "e\<lparr>de_perm := perm, de_mtime := h_now h\<rparr>"
  have k: "live ?e" "dname ?e = p" "wf_dirent ?e"
    using entry_kept [OF pos(4,5) wf_found [OF assms(1,2,4)], of ?e] by simp_all
  obtain s' where s': "write_dirent h b (int i) ?e s = (PennFatErr_OK, s')" "entry_changed h s b i ?e s'"
    "dir_ok h s' (g_cwd_block s) bs" "dir_map h s' bs = (dir_map h s bs)(p \<mapsto> ?e)"
    using dir_entry_updated [OF assms(1) s(2-4) assms(4) k(3,1,2)] by auto
  have run: "k_chmod h (Some p) perm s = Some (PennFatErr_OK, s')"
    using s(1) plain_nameD(1) [OF assms(3)] assms(6) s'(1)
      resolve_plain_found [OF assms(1) s(2) assms(3) s(4) assms(4,5)]
    by (simp add: k_chmod_def entry_resolved_def)
  have fat: "fat_list s' = fat_list s"
    using s'(2) s(3) dir_blocks_pos [OF s(4) pos(1)] by (simp add: entry_changed_def)
  show ?thesis
    using run fat s'(2,4) cwd_dir_changed [OF assms(2) _ _ s'(3)] by (auto simp: entry_changed_def)
qed

text \<open>\<open>k_unlink\<close> of a file that is not open.\<close>

definition open_inode :: "fs \<Rightarrow> 32 word \<Rightarrow> bool" where
  "open_inode s n \<longleftrightarrow> (\<exists>f\<in>set (g_sysfile_table s). sf_in_use f \<and> sf_dir_index f = n)"

lemma busy_check_closed:
  assumes "\<not> open_inode s n"
  shows "busy_check n s = (False, s)"
proof -
  have "find_idx (\<lambda>f. sf_in_use f \<and> sf_dir_index f = n) (g_sysfile_table s) = None"
    using assms by (auto simp: find_idx_None open_inode_def)
  then show ?thesis by (simp add: busy_check_def find_and_increment_sysfile_def)
qed

text \<open>The increment and the decrement of the check cancel.\<close>

lemma busy_check_open:
  assumes "open_inode s n" "\<forall>f\<in>set (g_sysfile_table s). sf_in_use f \<longrightarrow> 1 \<le> sf_ref_count f"
  shows "busy_check n s = (True, s)"
proof -
  let ?P = "\<lambda>f. sf_in_use f \<and> sf_dir_index f = n"
  obtain i where i: "find_idx ?P (g_sysfile_table s) = Some i"
    using assms(1) find_idx_ex [of _ "g_sysfile_table s" ?P] by (auto simp: open_inode_def)
  note D = find_idx_SomeD(1,2) [OF i]
  have "1 \<le> sf_ref_count (g_sysfile_table s ! i)" using assms(2) D by auto
  then show ?thesis
    using i D by (simp add: busy_check_def find_and_increment_sysfile_def Let_def set_sysfile_def)
qed

lemma unlink_closed:
  assumes "good_host h" "cwd_dir h s bs" "plain_name p" "find_chain h s p bs = Some (e, b, i)"
    "de_type e \<noteq> 2" "de_type e \<noteq> 4" "\<not> open_inode s (pseudo_inode b (int i))"
    "fat_closed (fat_list s)" "chain (fat_list s) (de_first_block e) xs" "set xs \<inter> set bs = {}"
  shows "\<exists>s'. k_unlink h (Some p) s = Some (PennFatErr_OK, s') \<and> same_but_img s s' \<and> cwd_dir h s' bs \<and>
    dir_map h s' bs = (dir_map h s bs)(p := None) \<and>
    (\<forall>n < fat_entries s. fat_list s' ! n = (if of_nat n \<in> set xs then FAT_FREE else fat_list s ! n)) \<and>
    block_entries h s' b = (block_entries h s b)[i := deleted_dirent] \<and>
    (\<forall>c. fat_blocks s \<le> c \<and> c < image_blocks s \<and> c \<noteq> unat b \<longrightarrow> read_block h s' c = read_block h s c)"
proof -
  note s = cwd_dirD [OF assms(2)] and pos = find_chain_position [OF assms(4)] and p = plain_nameD [OF assms(3)]
  let ?fb = "de_first_block e"
  have start: "chain_end ?fb \<or> unat ?fb < fat_entries s"
    using assms(9) by (cases xs) (auto simp: chain_end_def)
  obtain s1 where s1: "free_block_chain ?fb s = Some s1" "geom s1" "same_but_img s s1"
    "fat_list s1 = freed (fat_list s) ?fb" "\<forall>h c. fat_blocks s \<le> c \<longrightarrow> read_block h s1 c = read_block h s c"
    using free_block_chain_spec [OF s(2) assms(8) start] by auto
  note f1 = same_but_img_fields [OF s1(3)]
  have blks: "\<forall>c\<in>set bs. read_block h s1 (unat c) = read_block h s (unat c)"
    using dir_blocks_pos [OF s(4)] s1(5) s(3) by simp
  have fat: "\<forall>c\<in>set bs. fat_list s1 ! unat c = fat_list s ! unat c"
    using dir_blocks_pos [OF s(4)] assms(10) linked_chain [OF assms(9)] by (auto simp: s1(4) nth_freed)
  note d1 = dir_ok_frame [OF s(4) s1(3) image_blocks_same [OF s(2) s1(2,3)] fat blks]
  have be: "\<forall>c\<in>set bs. block_entries h s1 c = block_entries h s c"
    using blks block_entries_same [OF s1(3)] by blast
  then have found1: "find_chain h s1 p bs = Some (e, b, i)"
    using find_chain_same [of bs h s1 s p] assms(4) by simp
  have fb1: "fat_blocks s1 = 1" using f1(11) s(3) by simp
  obtain s' where s': "write_dirent h b (int i) deleted_dirent s1 = (PennFatErr_OK, s')"
    "entry_changed h s1 b i deleted_dirent s'" "dir_ok h s' (g_cwd_block s) bs"
    "dir_map h s' bs = (dir_map h s1 bs)(p := None)"
    using dir_entry_deleted [OF assms(1) s1(2) fb1 d1(1) found1] by auto
  have run: "k_unlink h (Some p) s = Some (PennFatErr_OK, s')"
    using s(1) p assms(5) s'(1) s1(1) busy_check_closed [OF assms(7)]
      resolve_plain_found [OF assms(1) s(2) assms(3) s(4) assms(4,6)]
    by (simp add: k_unlink_def entry_resolved_def)
  have same: "same_but_img s s'"
    using same_but_img_trans [OF s1(3)] s'(2) by (auto simp: entry_changed_def)
  have "fat_list s' = freed (fat_list s) ?fb"
    using s'(2) fb1 dir_blocks_pos [OF s(4) pos(1)] s1(4) by (simp add: entry_changed_def)
  moreover have "geom s'" using s'(2) by (simp add: entry_changed_def)
  moreover have "block_entries h s' b = (block_entries h s b)[i := deleted_dirent]"
    using s'(2) be pos(1) by (simp add: entry_changed_def)
  moreover have "read_block h s' c = read_block h s c" if "fat_blocks s \<le> c" "c < image_blocks s" "c \<noteq> unat b" for c
    using s'(2) s1(5) that image_blocks_same [OF s(2) s1(2,3)] by (simp add: entry_changed_def)
  ultimately show ?thesis
    using run same s'(4) d1(2) cwd_dir_changed [OF assms(2) same _ s'(3)] linked_chain [OF assms(9)]
    by (auto simp: nth_freed)
qed

lemma renamed_entry:
  assumes "plain_name q" "wf_dirent e"
  shows "live (e\<lparr>de_name := name_field q, de_mtime := now\<rparr>)"
    "dname (e\<lparr>de_name := name_field q, de_mtime := now\<rparr>) = q"
    "wf_dirent (e\<lparr>de_name := name_field q, de_mtime := now\<rparr>)"
  using assms(2) live_named [OF assms(1), of "e\<lparr>de_name := name_field q, de_mtime := now\<rparr>"]
  by (simp_all add: wf_dirent_def)

lemma rename_new:
  assumes "good_host h" "cwd_dir h s bs" "plain_name p" "plain_name q" "p \<noteq> q"
    "find_chain h s p bs = Some (e, b, i)" "de_type e \<noteq> 4" "dir_map h s bs q = None"
  shows "\<exists>err s' bs'. k_rename h (Some p) (Some q) s = Some (err, s') \<and> same_but_img s s' \<and>
    cwd_dir h s' bs' \<and>
    (err = PennFatErr_OK \<and> dir_map h s' bs' =
       (dir_map h s bs)(q \<mapsto> e\<lparr>de_name := name_field q, de_mtime := h_now h\<rparr>, p := None) \<or>
     err = PennFatErr_NOSPACE \<and> s' = s \<and> bs' = bs \<and>
       (\<forall>i. 2 \<le> i \<and> i < fat_entries s \<longrightarrow> fat_list s ! i \<noteq> FAT_FREE))"
proof -
  note s = cwd_dirD [OF assms(2)] and pos = find_chain_position [OF assms(6)]
  note p = plain_nameD [OF assms(3)] and q = plain_nameD [OF assms(4)]
  let ?e = "e\<lparr>de_name := name_field q, de_mtime := h_now h\<rparr>"
  note e' = renamed_entry [OF assms(4) wf_found [OF assms(1,2,6)], of "h_now h"]
  have run: "k_rename h (Some p) (Some q) s = rename_move h q (entry_resolved (g_cwd_block s) (e, b, i))
      (zero_resolved\<lparr>r_parent := g_cwd_block s\<rparr>) s"
    using s(1,5) p q assms(5) pos(5) resolve_plain_absent [OF assms(1) s(2) assms(4) s(4) assms(8)]
      resolve_plain_found [OF assms(1) s(2) assms(3) s(4) assms(6,7)]
    by (simp add: k_rename_def rename_clear_def entry_resolved_def zero_resolved_def chain_end_def Let_def)
  have move: "k_rename h (Some p) (Some q) s =
      do { (err, s1) \<leftarrow> add_dirent_to_dir h (g_cwd_block s) ?e s;
           if err \<noteq> PennFatErr_OK then Some (err, s1)
           else Some (write_dirent h b (int i) deleted_dirent s1) }"
    using run by (simp add: rename_move_def entry_resolved_def zero_resolved_def cong: if_cong)
  have fresh: "dir_map h s bs (dname ?e) = None" using e'(2) assms(8) by simp
  consider (full) "add_dirent_to_dir h (g_cwd_block s) ?e s = Some (PennFatErr_NOSPACE, s)"
      "\<forall>i. 2 \<le> i \<and> i < fat_entries s \<longrightarrow> fat_list s ! i \<noteq> FAT_FREE"
    | (ok) s1 bs' where "add_dirent_to_dir h (g_cwd_block s) ?e s = Some (PennFatErr_OK, s1)"
      "same_but_img s s1" "geom s1" "dir_ok h s1 (g_cwd_block s) bs'"
      "dir_map h s1 bs' = (dir_map h s bs)(q \<mapsto> ?e)"
      "find_chain h s1 p bs' = Some (e, b, i)"
    using dir_entry_added [OF assms(1) s(2-4) e'(3,1) fresh] e'(2) assms(5,6) by auto
  then show ?thesis
  proof cases
    case full
    then show ?thesis using move assms(2) by auto
  next
    case ok
    have fb: "fat_blocks s1 = 1" using same_but_img_fields(11) [OF ok(2)] s(3) by simp
    obtain s2 where s2: "write_dirent h b (int i) deleted_dirent s1 = (PennFatErr_OK, s2)"
      "entry_changed h s1 b i deleted_dirent s2" "dir_ok h s2 (g_cwd_block s) bs'"
      "dir_map h s2 bs' = (dir_map h s1 bs')(p := None)"
      using dir_entry_deleted [OF assms(1) ok(3) fb ok(4,6)] by auto
    have same: "same_but_img s s2" and g: "geom s2"
      using same_but_img_trans [OF ok(2)] s2(2) by (auto simp: entry_changed_def)
    show ?thesis
      using move ok(1) s2(1,4) same cwd_dir_changed [OF assms(2) same g s2(3)] ok(5) by auto
  qed
qed

text \<open>A listing shows the live entries in their order.\<close>

lemma ls_loop_chain:
  assumes "good_host h" "geom s" "chain (fat_list s) d bs" "\<forall>c\<in>set bs. unat c < image_blocks s"
  shows "ls_loop h s d out =
    Some (PennFatErr_OK, out @ map (\<lambda>e. (e, link_target h s e)) (chain_entries h s bs))"
  using assms(3,4)
proof (induction bs arbitrary: d out)
  case Nil
  then show ?case by (simp add: ls_loop.simps chain_entries_def)
next
  case (Cons b bs)
  have b: "b = d" and inside: "unat b < image_blocks s" using Cons.prems by simp_all
  note links = chain_block(2-5) [OF assms(1,2) Cons.prems(1) inside]
  obtain blk where blk: "read_block h s (unat d) = Some blk" "block_entries h s b = dir_entries s blk"
    using chain_block(1) [OF assms(1,2) Cons.prems(1) inside] by auto
  show ?case
    using blk links b Cons.IH [of "fat_list s ! unat d"] Cons.prems
    by (subst ls_loop.simps) (simp add: chain_entries_def)
qed

lemma resolve_cwd:
  "resolve_path h s ''.'' = Some (PennFatErr_OK, end_resolved h (g_cwd_block s) (g_cwd_block s))"
  by (simp add: resolve_path_def resolve_path_internal.simps Let_def PATH_MAX_def)

lemma ls_cwd:
  assumes "good_host h" "cwd_dir h s bs"
  shows "k_ls h None s =
    Some (PennFatErr_OK, map (\<lambda>e. (e, link_target h s e)) (chain_entries h s bs))"
proof -
  note s = cwd_dirD [OF assms(2)]
  have "chain (fat_list s) (g_cwd_block s) bs" "\<forall>c\<in>set bs. unat c < image_blocks s"
    using s(4) by (auto simp: dir_ok_def dir_chain_def)
  then show ?thesis
    using ls_loop_chain [OF assms(1) s(2), of "g_cwd_block s" bs "[]"] s(1) assms(1)
    by (cases "g_cwd_block s = 1")
       (auto simp: k_ls_def resolve_cwd end_resolved_def made_up_entry_def Let_def)
qed

end
