(* ===== verification/FileProps.thy ===== *)
theory FileProps
  imports DirProps
begin

text \<open>
  The contents of an open file as one byte string, the concatenation of its blocks, and what
  \<open>k_read\<close>, \<open>k_write\<close> and \<open>k_lseek\<close> do in terms of it.
\<close>

subsection \<open>The bytes of a file\<close>

definition file_bytes :: "host \<Rightarrow> fs \<Rightarrow> 16 word list \<Rightarrow> string" where
  "file_bytes h s xs = concat (map (\<lambda>b. the (read_block h s (unat b))) xs)"

lemma length_concat_blocks:
  "\<forall>b\<in>set bl. length b = k \<Longrightarrow> length (concat bl) = length bl * k"
  by (induction bl) auto

lemma pread_concat_block:
  assumes "\<forall>b\<in>set bl. length b = k" "i < length bl" "r + c \<le> k"
  shows "pread (concat bl) (i * k + r) c = pread (bl ! i) r c"
  using assms(1,2)
proof (induction bl arbitrary: i)
  case Nil
  then show ?case by simp
next
  case (Cons b bl)
  then show ?case
  proof (cases i)
    case 0
    then show ?thesis using Cons.prems assms(3) by (simp add: pread_def)
  next
    case (Suc j)
    have "pread (b @ concat bl) (Suc j * k + r) c = pread (concat bl) (j * k + r) c"
      using Cons.prems by (simp add: pread_def add.commute)
    then show ?thesis using Cons Suc by simp
  qed
qed

lemma pwrite_append_left:
  "off + length buf \<le> length a \<Longrightarrow> pwrite (a @ b) off buf = pwrite a off buf @ b"
  by (simp add: pwrite_def)

lemma pwrite_append_right:
  "length a \<le> off \<Longrightarrow> off \<le> length a + length b \<Longrightarrow> pwrite (a @ b) off buf = a @ pwrite b (off - length a) buf"
  by (simp add: pwrite_def)

lemma pwrite_concat_block:
  assumes "\<forall>b\<in>set bl. length b = k" "i < length bl" "r + length buf \<le> k"
  shows "pwrite (concat bl) (i * k + r) buf = concat (bl[i := pwrite (bl ! i) r buf])"
  using assms(1,2)
proof (induction bl arbitrary: i)
  case Nil
  then show ?case by simp
next
  case (Cons b bl)
  then show ?case
  proof (cases i)
    case 0
    then show ?thesis using Cons.prems assms(3) by (simp add: pwrite_append_left)
  next
    case (Suc j)
    have "Suc j * k \<le> length bl * k"
      using Cons.prems(2) Suc by (intro mult_le_mono1) simp
    then have "j * k + r \<le> length (concat bl)"
      using Cons.prems length_concat_blocks [of bl k] assms(3) by simp
    then have "pwrite (b @ concat bl) (Suc j * k + r) buf = b @ pwrite (concat bl) (j * k + r) buf"
      using Cons.prems(1) by (subst pwrite_append_right) (simp_all add: add.commute add.left_commute)
    then show ?thesis using Cons Suc by simp
  qed
qed

lemma pwrite_pwrite_adjacent:
  assumes "off \<le> length img"
  shows "pwrite (pwrite img off a) (off + length a) b = pwrite img off (a @ b)"
  using assms by (simp add: pwrite_def min_def add.commute add.left_commute)

lemma pread_adjacent: "pread img off m @ pread img (off + m) n = pread img off (m + n)"
  by (simp add: pread_def take_add add.commute)

text \<open>A chain of blocks that all lie behind the FAT region and inside of the image.\<close>

definition file_chain :: "fs \<Rightarrow> 16 word \<Rightarrow> 16 word list \<Rightarrow> bool" where
  "file_chain s fb xs \<longleftrightarrow> chain (fat_list s) fb xs \<and> xs \<noteq> [] \<and>
     (\<forall>c\<in>set xs. fat_blocks s \<le> unat c \<and> unat c < image_blocks s)"

lemma file_block:
  assumes "good_host h" "geom s" "file_chain s fb xs" "i < length xs"
  shows "\<exists>blk. read_block h s (unat (xs ! i)) = Some blk \<and> length blk = g_block_size s"
  using assms blk.get_inside [of h s "unat (xs ! i)"] read_block_length
  by (fastforce simp: file_chain_def)

lemma file_blocks_length:
  assumes "good_host h" "geom s" "file_chain s fb xs"
  shows "\<forall>b\<in>set (map (\<lambda>b. the (read_block h s (unat b))) xs). length b = g_block_size s"
proof
  fix b assume "b \<in> set (map (\<lambda>b. the (read_block h s (unat b))) xs)"
  then obtain i where "i < length xs" "b = the (read_block h s (unat (xs ! i)))"
    by (auto simp: in_set_conv_nth)
  then show "length b = g_block_size s" using file_block [OF assms, of i] by auto
qed

lemma length_file_bytes:
  assumes "good_host h" "geom s" "file_chain s fb xs"
  shows "length (file_bytes h s xs) = length xs * g_block_size s"
  using length_concat_blocks [OF file_blocks_length [OF assms]] by (simp add: file_bytes_def)

lemma file_chain_small:
  assumes "geom s" "file_chain s fb xs"
  shows "length xs * g_block_size s < 2147483648"
proof -
  have "distinct (map unat xs)"
    using chain_distinct [of "fat_list s" fb xs] assms(2)
    by (auto simp: file_chain_def distinct_map inj_on_def dest: unsigned_word_eqI)
  moreover have "set (map unat xs) \<subseteq> {..<65536}"
    using chain_mem [of "fat_list s" fb xs] assms fat_entries_bounds(2) [OF assms(1)]
    by (fastforce simp: file_chain_def)
  ultimately have "length xs \<le> 65536"
    using card_mono [of "{..<65536::nat}" "set (map unat xs)"] distinct_card by fastforce
  then have "length xs * g_block_size s \<le> 65536 * 4096"
    using geom_block_size [OF assms(1)] by (intro mult_le_mono) auto
  then show ?thesis by simp
qed

lemma locate_file:
  assumes "geom s" "file_chain s fb xs" "unat off \<le> length xs * g_block_size s"
  shows "locate_block_in_chain s fb off =
    Some (Some (if unat off < length xs * g_block_size s then xs ! (unat off div g_block_size s) else FAT_EOC,
      unat off mod g_block_size s))"
    "unat off < length xs * g_block_size s \<longleftrightarrow> unat off div g_block_size s < length xs"
proof -
  have bs: "0 < g_block_size s" using geom_block_size [OF assms(1)] by simp
  show iff: "unat off < length xs * g_block_size s \<longleftrightarrow> unat off div g_block_size s < length xs"
    using bs by (simp add: div_less_iff_less_mult)
  have "unat off div g_block_size s = length xs" if "\<not> unat off < length xs * g_block_size s"
    using that assms(3) bs by simp
  then show "locate_block_in_chain s fb off =
    Some (Some (if unat off < length xs * g_block_size s then xs ! (unat off div g_block_size s) else FAT_EOC,
      unat off mod g_block_size s))"
    using locate_chain [OF assms(1), of fb xs off] assms(2) iff by (auto simp: file_chain_def Let_def)
qed

subsection \<open>Reading\<close>

lemma unat_add_small:
  assumes "unat (off :: 32 word) + c < 2 ^ 32"
  shows "unat (off + of_nat c) = unat off + c"
  using assms by (simp add: unat_word_ariths unat_of_nat)

lemma read_loop_file:
  assumes "good_host h" "geom s" "file_chain s fb xs"
    "int (length buf) \<le> n" "unat off + (nat n - length buf) \<le> length xs * g_block_size s"
  shows "read_loop h s fb n buf off =
    Some (buf @ pread (file_bytes h s xs) (unat off) (nat n - length buf), off + of_nat (nat n - length buf))"
  using assms(4,5)
proof (induction "nat n - length buf" arbitrary: buf off rule: less_induct)
  case less
  show ?case
  proof (cases "int (length buf) < n")
    case False
    then have "nat n - length buf = 0" using less.prems by simp
    then show ?thesis using False by (subst read_loop.simps) (simp add: pread_def)
  next
    case True
    let ?bs = "g_block_size s" and ?rem = "nat n - length buf"
    let ?k = "unat off div ?bs" and ?r = "unat off mod ?bs"
    define c where "c = min (?bs - ?r) ?rem"
    have bs: "0 < ?bs" using geom_block_size [OF assms(2)] by simp
    have rem: "0 < ?rem" "nat (n - int (length buf)) = ?rem" using True by auto
    have r: "?r < ?bs" using bs by simp
    have c: "0 < c" "c \<le> ?rem" "?r + c \<le> ?bs" using r rem(1) by (auto simp: c_def)
    have off: "unat off < length xs * ?bs" using less.prems rem by linarith
    note loc = locate_file [OF assms(2,3) less_imp_le [OF off]]
    have k: "?k < length xs" using loc(2) off by simp
    obtain blk where blk: "read_block h s (unat (xs ! ?k)) = Some blk" "length blk = ?bs"
      using file_block [OF assms(1-3) k] by auto
    have part: "pread blk ?r c = pread (file_bytes h s xs) (unat off) c"
      using pread_concat_block [OF file_blocks_length [OF assms(1-3)], of ?k ?r c] k c(3) blk(1)
      by (simp add: file_bytes_def)
    have len: "length (pread blk ?r c) = c" using c(3) blk(2) by simp
    have "unat off + c < 2147483648"
      using less.prems(2) c(2) file_chain_small [OF assms(2,3)] by linarith
    then have small: "unat off + c < 2 ^ 32" by simp
    note u = unat_add_small [OF small]
    have step: "read_loop h s fb n buf off = read_loop h s fb n (buf @ pread blk ?r c) (off + of_nat c)"
      using True loc(1) off blk(1) rem by (subst read_loop.simps) (simp add: c_def Let_def)
    have IH: "read_loop h s fb n (buf @ pread blk ?r c) (off + of_nat c) =
      Some ((buf @ pread blk ?r c) @ pread (file_bytes h s xs) (unat (off + of_nat c)) (nat n - length (buf @ pread blk ?r c)),
        off + of_nat c + of_nat (nat n - length (buf @ pread blk ?r c)))"
    proof (rule less.hyps)
      show "nat n - length (buf @ pread blk ?r c) < ?rem"
        using c(1,2) rem(1) unfolding length_append len by linarith
      show "int (length (buf @ pread blk ?r c)) \<le> n"
        using c(2) less.prems(1) unfolding length_append len by linarith
      show "unat (off + of_nat c) + (nat n - length (buf @ pread blk ?r c)) \<le> length xs * ?bs"
        using c(2) less.prems(2) unfolding length_append len u by linarith
    qed
    have left: "nat n - length (buf @ pread blk ?r c) = ?rem - c" by (simp add: len)
    have e1: "pread (file_bytes h s xs) (unat off) c @ pread (file_bytes h s xs) (unat off + c) (?rem - c) =
        pread (file_bytes h s xs) (unat off) ?rem"
      using pread_adjacent [of "file_bytes h s xs" "unat off" c "?rem - c"]
      by (simp only: le_add_diff_inverse [OF c(2)])
    have e2: "(of_nat c :: 32 word) + of_nat (?rem - c) = of_nat ?rem"
      using c(2) by (metis le_add_diff_inverse of_nat_add)
    show ?thesis
      unfolding step IH left u by (simp only: append_assoc add.assoc part e1 e2)
  qed
qed

subsection \<open>An open file\<close>

definition fd_file :: "fs \<Rightarrow> nat \<Rightarrow> system_file" where
  "fd_file s fd = g_sysfile_table s ! fd_sysfile_index (g_fd_table s ! fd)"

definition open_file :: "fs \<Rightarrow> nat \<Rightarrow> 16 word list \<Rightarrow> bool" where
  "open_file s fd xs \<longleftrightarrow> g_mounted s \<and> geom s \<and> fd < MAX_FD \<and> length (g_fd_table s) = MAX_FD \<and>
     length (g_sysfile_table s) = MAX_SYSTEM_FILES \<and> fd_in_use (g_fd_table s ! fd) \<and>
     fd_sysfile_index (g_fd_table s ! fd) < MAX_SYSTEM_FILES \<and>
     file_chain s (sf_first_block (fd_file s fd)) xs \<and>
     unat (sf_size (fd_file s fd)) \<le> length xs * g_block_size s"

lemma open_fileD:
  assumes "open_file s fd xs"
  shows "g_mounted s" "geom s" "\<not> bad_fd (int fd) s" "fd < length (g_fd_table s)"
    "fd_sysfile_index (g_fd_table s ! fd) < length (g_sysfile_table s)"
    "file_chain s (sf_first_block (fd_file s fd)) xs"
    "unat (sf_size (fd_file s fd)) \<le> length xs * g_block_size s"
  using assms by (auto simp: open_file_def bad_fd_def)

lemma sint_small:
  assumes "unat (w :: 32 word) < 2147483648"
  shows "sint w = int (unat w)"
proof -
  have "uint w < 2147483648" using assms by (simp only: uint_nat)
  moreover have "- (2 ^ 31) \<le> uint w" by (rule order_trans [of _ 0]) simp_all
  ultimately have "signed_take_bit 31 (uint w) = uint w"
    by (intro signed_take_bit_int_eq_self) simp_all
  then show ?thesis by (simp add: sint_uint)
qed

lemma read_open_file:
  assumes "good_host h" "open_file s fd xs" "\<not> HAS_WRITE (fd_mode (g_fd_table s ! fd))" "0 \<le> n"
  defines "off \<equiv> fd_offset (g_fd_table s ! fd)"
  defines "m \<equiv> min (nat n) (unat (sf_size (fd_file s fd)) - unat off)"
  shows "k_read h (int fd) n s = Some (int m, pread (file_bytes h s xs) (unat off) m,
    set_fd fd ((g_fd_table s ! fd)\<lparr>fd_offset := off + of_nat m\<rparr>) s)"
proof -
  note s = open_fileD [OF assms(2)]
  let ?sz = "sf_size (fd_file s fd)"
  show ?thesis
  proof (cases "off < ?sz")
    case False
    then have "m = 0" by (simp add: m_def word_less_nat_alt not_less)
    moreover have "set_fd fd ((g_fd_table s ! fd)\<lparr>fd_offset := off\<rparr>) s = s"
      using s(4) by (simp add: set_fd_def off_def)
    ultimately show ?thesis
      using False s(1,3) assms(3) by (simp add: k_read_def off_def fd_file_def pread_def Let_def)
  next
    case True
    have left: "unat (?sz - off) = unat ?sz - unat off" "?sz - off \<noteq> 0"
      using True by (auto simp: unat_sub)
    have sl: "sint (?sz - off) = int (unat ?sz - unat off)"
      using left(1) s(7) file_chain_small [OF s(2,6)] by (subst sint_small) auto
    define n' where "n' = (if n < sint (?sz - off) then n else sint (?sz - off))"
    have n': "n' = int m" using sl assms(4) by (auto simp: n'_def m_def)
    have fit: "unat off + (nat n' - length []) \<le> length xs * g_block_size s"
      using s(7) True by (auto simp: n' m_def word_less_nat_alt)
    have loop: "read_loop h s (sf_first_block (fd_file s fd)) n' [] off =
        Some (pread (file_bytes h s xs) (unat off) m, off + of_nat m)"
      using read_loop_file [OF assms(1) s(2,6) _ fit] by (simp add: n')
    have "length (pread (file_bytes h s xs) (unat off) m) = m"
      using fit length_file_bytes [OF assms(1) s(2,6)] by (simp add: n' length_pread)
    then show ?thesis
      using True s(1,3) assms(1,3) left loop
      by (simp add: k_read_def off_def [symmetric] fd_file_def [symmetric] n'_def [symmetric] Let_def)
  qed
qed

subsection \<open>Writing\<close>

text \<open>
  \<open>wrote h fd xs data s s'\<close>: the bytes \<open>data\<close> have been stored at the offset of \<open>fd\<close>, the offset has
  moved behind them, and the size has grown to it if it was smaller. Nothing else changed.
\<close>

definition grown :: "host \<Rightarrow> nat \<Rightarrow> string \<Rightarrow> system_file \<Rightarrow> system_file" where
  "grown h off data sf =
    (if data \<noteq> [] \<and> unat (sf_size sf) < off + length data
     then sf\<lparr>sf_size := of_nat (off + length data), sf_mtime := h_now h\<rparr> else sf)"

definition wrote :: "host \<Rightarrow> nat \<Rightarrow> 16 word list \<Rightarrow> string \<Rightarrow> fs \<Rightarrow> fs \<Rightarrow> bool" where
  "wrote h fd xs data s s' \<longleftrightarrow>
     (let fdesc = g_fd_table s ! fd; off = unat (fd_offset fdesc); i = fd_sysfile_index fdesc in
      s' = s\<lparr>g_img := g_img s',
             g_fd_table := (g_fd_table s)[fd := fdesc\<lparr>fd_offset := fd_offset fdesc + of_nat (length data)\<rparr>],
             g_sysfile_table := (g_sysfile_table s)[i := grown h off data (g_sysfile_table s ! i)]\<rparr> \<and>
      geom s' \<and> image_blocks s' = image_blocks s \<and> fat_list s' = fat_list s \<and>
      file_bytes h s' xs = pwrite (file_bytes h s xs) off data \<and>
      (\<forall>c < image_blocks s. c \<notin> unat ` set xs \<longrightarrow> read_block h s' c = read_block h s c))"

lemma wrote_fields:
  assumes "wrote h fd xs data s s'"
  shows "g_mounted s' = g_mounted s" "g_block_size s' = g_block_size s" "fat_blocks s' = fat_blocks s"
    "g_fs_fd s' = g_fs_fd s" "fat_entries s' = fat_entries s" "g_cwd_block s' = g_cwd_block s"
    "length (g_fd_table s') = length (g_fd_table s)"
    "length (g_sysfile_table s') = length (g_sysfile_table s)"
proof -
  obtain x y z where "s' = s\<lparr>g_img := x, g_fd_table := y, g_sysfile_table := z\<rparr>"
    "length y = length (g_fd_table s)" "length z = length (g_sysfile_table s)"
    using assms unfolding wrote_def Let_def by (metis length_list_update)
  then show "g_mounted s' = g_mounted s" "g_block_size s' = g_block_size s" "fat_blocks s' = fat_blocks s"
    "g_fs_fd s' = g_fs_fd s" "fat_entries s' = fat_entries s" "g_cwd_block s' = g_cwd_block s"
    "length (g_fd_table s') = length (g_fd_table s)"
    "length (g_sysfile_table s') = length (g_sysfile_table s)"
    by (simp_all add: fat_blocks_def fat_entries_def)
qed

lemma wrote_tables:
  assumes "wrote h fd xs data s s'" "open_file s fd xs"
  shows "g_fd_table s' ! fd = (g_fd_table s ! fd)\<lparr>fd_offset := fd_offset (g_fd_table s ! fd) + of_nat (length data)\<rparr>"
    "fd_file s' fd = grown h (unat (fd_offset (g_fd_table s ! fd))) data (fd_file s fd)"
proof -
  note s = open_fileD [OF assms(2)]
  let ?f = "(g_fd_table s ! fd)\<lparr>fd_offset := fd_offset (g_fd_table s ! fd) + of_nat (length data)\<rparr>"
  let ?g = "grown h (unat (fd_offset (g_fd_table s ! fd))) data (fd_file s fd)"
  have eq: "s' = s\<lparr>g_img := g_img s', g_fd_table := (g_fd_table s)[fd := ?f],
      g_sysfile_table := (g_sysfile_table s)[fd_sysfile_index (g_fd_table s ! fd) := ?g]\<rparr>"
    using assms(1) by (simp only: wrote_def Let_def fd_file_def)
  have t: "g_fd_table s' = (g_fd_table s)[fd := ?f]"
    "g_sysfile_table s' = (g_sysfile_table s)[fd_sysfile_index (g_fd_table s ! fd) := ?g]"
    using arg_cong [OF eq, of g_fd_table] arg_cong [OF eq, of g_sysfile_table] by simp_all
  show fd: "g_fd_table s' ! fd = (g_fd_table s ! fd)\<lparr>fd_offset := fd_offset (g_fd_table s ! fd) + of_nat (length data)\<rparr>"
    using s(4) by (simp add: t(1))
  show "fd_file s' fd = grown h (unat (fd_offset (g_fd_table s ! fd))) data (fd_file s fd)"
    unfolding fd_file_def fd using s(5) by (simp add: t(2) fd_file_def)
qed

lemma grown_first_block [simp]: "sf_first_block (grown h off data sf) = sf_first_block sf"
  by (simp add: grown_def)

lemma wrote_open_file:
  assumes "good_host h" "wrote h fd xs data s s'" "open_file s fd xs"
    "unat (fd_offset (g_fd_table s ! fd)) + length data \<le> length xs * g_block_size s"
  shows "open_file s' fd xs"
proof -
  note f = wrote_fields [OF assms(2)] and t = wrote_tables [OF assms(2,3)] and s = open_fileD [OF assms(3)]
  have w: "geom s'" "image_blocks s' = image_blocks s" "fat_list s' = fat_list s"
    using assms(2) by (simp_all add: wrote_def Let_def)
  have "file_chain s' (sf_first_block (fd_file s' fd)) xs"
    using s(6) w by (simp add: file_chain_def t(2) f(3))
  moreover have "unat (sf_size (fd_file s' fd)) \<le> length xs * g_block_size s'"
  proof (cases "data \<noteq> [] \<and> unat (sf_size (fd_file s fd)) < unat (fd_offset (g_fd_table s ! fd)) + length data")
    case True
    have "unat (fd_offset (g_fd_table s ! fd)) + length data < 2147483648"
      using assms(4) file_chain_small [OF s(2,6)] by linarith
    then have "unat (of_nat (unat (fd_offset (g_fd_table s ! fd)) + length data) :: 32 word) =
        unat (fd_offset (g_fd_table s ! fd)) + length data"
      by (simp only: unat_of_nat) simp
    then show ?thesis using True assms(4) by (simp add: t(2) grown_def f(2))
  next
    case False
    then show ?thesis using s(7) by (auto simp: t(2) grown_def f(2))
  qed
  ultimately show ?thesis
    using assms(3) w(1) f t(1) by (simp add: open_file_def)
qed

lemma wrote_nothing:
  assumes "good_host h" "open_file s fd xs"
    "unat (fd_offset (g_fd_table s ! fd)) \<le> length xs * g_block_size s"
  shows "wrote h fd xs [] s s"
proof -
  note s = open_fileD [OF assms(2)]
  have "pwrite (file_bytes h s xs) (unat (fd_offset (g_fd_table s ! fd))) [] = file_bytes h s xs"
    using assms(3) length_file_bytes [OF assms(1) s(2,6)] by (simp add: pwrite_def)
  then show ?thesis using s(2,4,5) by (simp add: wrote_def Let_def grown_def)
qed

text \<open>The image does not depend on the tables.\<close>

lemma tables_irrelevant [simp]:
  "geom (s\<lparr>g_fd_table := x\<rparr>) = geom s" "geom (s\<lparr>g_sysfile_table := y\<rparr>) = geom s"
  "image_blocks (s\<lparr>g_fd_table := x\<rparr>) = image_blocks s"
  "image_blocks (s\<lparr>g_sysfile_table := y\<rparr>) = image_blocks s"
  "fat_blocks (s\<lparr>g_fd_table := x\<rparr>) = fat_blocks s"
  "fat_blocks (s\<lparr>g_sysfile_table := y\<rparr>) = fat_blocks s"
  "fat_entries (s\<lparr>g_fd_table := x\<rparr>) = fat_entries s"
  "fat_entries (s\<lparr>g_sysfile_table := y\<rparr>) = fat_entries s"
  "fat_get (s\<lparr>g_fd_table := x\<rparr>) = fat_get s" "fat_get (s\<lparr>g_sysfile_table := y\<rparr>) = fat_get s"
  "read_block h (s\<lparr>g_fd_table := x\<rparr>) = read_block h s"
  "read_block h (s\<lparr>g_sysfile_table := y\<rparr>) = read_block h s"
  by (auto simp: geom_def fat_blocks_def fat_entries_def image_blocks_def fat_get_def read_block_def)

lemma tables_irrelevant_fat [simp]:
  "fat_list (s\<lparr>g_fd_table := x\<rparr>) = fat_list s" "fat_list (s\<lparr>g_sysfile_table := y\<rparr>) = fat_list s"
  by (simp_all add: store_contents_def)

lemma tables_irrelevant_dir [simp]:
  "dir_entries (s\<lparr>g_fd_table := x\<rparr>) = dir_entries s" "dir_entries (s\<lparr>g_sysfile_table := y\<rparr>) = dir_entries s"
  "block_entries h (s\<lparr>g_fd_table := x\<rparr>) = block_entries h s"
  "block_entries h (s\<lparr>g_sysfile_table := y\<rparr>) = block_entries h s"
  "find_chain h (s\<lparr>g_fd_table := x\<rparr>) n bs = find_chain h s n bs"
  "find_chain h (s\<lparr>g_sysfile_table := y\<rparr>) n bs = find_chain h s n bs"
  "cwd_dir h (s\<lparr>g_fd_table := x\<rparr>) bs = cwd_dir h s bs"
  "cwd_dir h (s\<lparr>g_sysfile_table := y\<rparr>) bs = cwd_dir h s bs"
proof -
  show d: "dir_entries (s\<lparr>g_fd_table := x\<rparr>) = dir_entries s" for s x
    by (rule ext) (simp add: dir_entries_def entries_per_block_def)
  show e: "dir_entries (s\<lparr>g_sysfile_table := y\<rparr>) = dir_entries s" for s y
    by (rule ext) (simp add: dir_entries_def entries_per_block_def)
  show b: "block_entries h (s\<lparr>g_fd_table := x\<rparr>) = block_entries h s"
    "block_entries h (s\<lparr>g_sysfile_table := y\<rparr>) = block_entries h s"
    by (rule ext, simp add: block_entries_def d e)+
  show "find_chain h (s\<lparr>g_fd_table := x\<rparr>) n bs = find_chain h s n bs"
    "find_chain h (s\<lparr>g_sysfile_table := y\<rparr>) n bs = find_chain h s n bs"
    by (induction bs) (simp_all add: b split: option.split)
  show "cwd_dir h (s\<lparr>g_fd_table := x\<rparr>) bs = cwd_dir h s bs"
    "cwd_dir h (s\<lparr>g_sysfile_table := y\<rparr>) bs = cwd_dir h s bs"
    by (simp_all add: cwd_dir_def dir_ok_def dir_chain_def chain_entries_def b)
qed

lemma tables_irrelevant_map [simp]:
  "dir_map h (s\<lparr>g_fd_table := x\<rparr>) = dir_map h s" "dir_map h (s\<lparr>g_sysfile_table := y\<rparr>) = dir_map h s"
  by (intro ext, simp add: dir_map_def)+

text \<open>One block of the file is written.\<close>

lemma file_block_written:
  assumes "good_host h" "geom s" "file_chain s fb xs" "k < length xs" "length buf = g_block_size s"
    "write_block h buf (unat (xs ! k)) s = (True, s1)"
  shows "geom s1" "image_blocks s1 = image_blocks s" "fat_list s1 = fat_list s"
    "file_bytes h s1 xs = concat ((map (\<lambda>b. the (read_block h s (unat b))) xs)[k := buf])"
    "\<forall>c < image_blocks s. c \<notin> unat ` set xs \<longrightarrow> read_block h s1 c = read_block h s c"
proof -
  have b: "unat (xs ! k) < image_blocks s" "fat_blocks s \<le> unat (xs ! k)"
    using assms(3,4) by (simp_all add: file_chain_def)
  have put: "put_block h (unat (xs ! k)) buf s = Some s1" using assms(6) by (simp add: put_block_def)
  note pres = blk.put_preserves [OF conjI [OF assms(1,2)] b(1) assms(5) put]
  have get: "read_block h s1 c = (if c = unat (xs ! k) then Some buf else read_block h s c)"
    if "c < image_blocks s" for c
    using blk.get_put [OF conjI [OF assms(1,2)] b(1) assms(5) put that] by simp
  show "geom s1" "image_blocks s1 = image_blocks s" using pres by simp_all
  show "fat_list s1 = fat_list s" by (rule write_block_keeps_fat [OF assms(2) b(2,1) assms(5,6)])
  have dist: "distinct xs" using chain_distinct assms(3) by (auto simp: file_chain_def)
  have "map (\<lambda>b. the (read_block h s1 (unat b))) xs = (map (\<lambda>b. the (read_block h s (unat b))) xs)[k := buf]"
  proof (rule nth_equalityI)
    fix j assume "j < length (map (\<lambda>b. the (read_block h s1 (unat b))) xs)"
    then have j: "j < length xs" by simp
    then have "unat (xs ! j) < image_blocks s" using assms(3) by (simp add: file_chain_def)
    moreover have "unat (xs ! j) = unat (xs ! k) \<longleftrightarrow> j = k"
      using nth_eq_iff_index_eq [OF dist j assms(4)] by (auto dest: unsigned_word_eqI)
    ultimately show "map (\<lambda>b. the (read_block h s1 (unat b))) xs ! j =
        (map (\<lambda>b. the (read_block h s (unat b))) xs)[k := buf] ! j"
      using get j by (simp add: nth_list_update)
  qed simp
  then show "file_bytes h s1 xs = concat ((map (\<lambda>b. the (read_block h s (unat b))) xs)[k := buf])"
    by (simp add: file_bytes_def)
  show "\<forall>c < image_blocks s. c \<notin> unat ` set xs \<longrightarrow> read_block h s1 c = read_block h s c"
    using get assms(4) by auto
qed

lemma wrote_chunk:
  assumes "good_host h" "open_file s fd xs"
  defines "off \<equiv> unat (fd_offset (g_fd_table s ! fd))"
  defines "k \<equiv> off div g_block_size s" and "r \<equiv> off mod g_block_size s"
  assumes "off < length xs * g_block_size s" "r + length data \<le> g_block_size s" "data \<noteq> []"
    "read_block h s (unat (xs ! k)) = Some blk"
    "write_block h (pwrite blk r data) (unat (xs ! k)) s = (True, s1)"
  shows "wrote h fd xs data s (advance h fd (length data) s1)"
proof -
  note s = open_fileD [OF assms(2)]
  let ?fd = "g_fd_table s ! fd" and ?sf = "fd_file s fd" and ?c = "length data"
  have bs: "0 < g_block_size s" using geom_block_size [OF s(2)] by simp
  have k: "k < length xs" using assms(6) bs by (simp add: k_def div_less_iff_less_mult)
  have blk: "length blk = g_block_size s" by (rule read_block_length [OF assms(9)])
  have len: "length (pwrite blk r data) = g_block_size s"
    using blk assms(7) by (simp add: length_pwrite)
  note w = file_block_written [OF assms(1) s(2,6) k len assms(10)]
  have s1: "s1 = s\<lparr>g_img := g_img s1\<rparr>"
    using write_block_same_but_img [OF assms(10)] by (simp only: same_but_img_def)
  have t1: "g_fd_table s1 = g_fd_table s" "g_sysfile_table s1 = g_sysfile_table s"
    using same_but_img_fields(7,8) [OF write_block_same_but_img [OF assms(10)]] by simp_all
  have "k * g_block_size s + r = off" by (simp add: k_def r_def)
  then have bytes: "file_bytes h s1 xs = pwrite (file_bytes h s xs) off data"
    using pwrite_concat_block [OF file_blocks_length [OF assms(1) s(2,6)], of k r data] k assms(7,9) w(4)
    by (simp add: file_bytes_def)
  have "off + ?c < 2147483648"
  proof -
    have "Suc k * g_block_size s \<le> length xs * g_block_size s" using k by (intro mult_le_mono1) simp
    then show ?thesis
      using \<open>k * g_block_size s + r = off\<close> assms(7) file_chain_small [OF s(2,6)] by simp
  qed
  then have small: "unat (fd_offset ?fd + of_nat ?c) = off + ?c"
    using unat_add_small [of "fd_offset ?fd" ?c] by (simp add: off_def)
  have word: "fd_offset ?fd + of_nat ?c = of_nat (off + ?c)" by (simp add: off_def)
  have adv: "advance h fd ?c s1 = s\<lparr>g_img := g_img s1,
      g_fd_table := (g_fd_table s)[fd := ?fd\<lparr>fd_offset := fd_offset ?fd + of_nat ?c\<rparr>],
      g_sysfile_table := (g_sysfile_table s)[fd_sysfile_index ?fd := grown h off data ?sf]\<rparr>"
    using assms(8) small word s(5)
    by (subst s1) (simp add: advance_def Let_def set_fd_def set_sysfile_def grown_def fd_file_def
        word_less_nat_alt t1)
  have rb: "read_block h (advance h fd ?c s1) c = read_block h s1 c" for c
    unfolding adv by (subst (2) s1) simp
  have same: "geom (advance h fd ?c s1)" "image_blocks (advance h fd ?c s1) = image_blocks s"
    "fat_list (advance h fd ?c s1) = fat_list s"
    "file_bytes h (advance h fd ?c s1) xs = file_bytes h s1 xs"
  proof -
    let ?s = "s\<lparr>g_img := g_img s1\<rparr>"
    have "geom ?s" "image_blocks ?s = image_blocks s" "fat_list ?s = fat_list s" using w(1-3) s1 by simp_all
    then show "geom (advance h fd ?c s1)" "image_blocks (advance h fd ?c s1) = image_blocks s"
      "fat_list (advance h fd ?c s1) = fat_list s"
      unfolding adv by simp_all
    show "file_bytes h (advance h fd ?c s1) xs = file_bytes h s1 xs"
      by (simp add: file_bytes_def rb)
  qed
  show ?thesis
    unfolding wrote_def Let_def
    using adv same bytes w(5) rb by (simp add: off_def fd_file_def)
qed

lemma grown_grown:
  assumes "off + length a + length b < 2147483648" "a \<noteq> []"
  shows "grown h (off + length a) b (grown h off a sf) = grown h off (a @ b) sf"
proof -
  have "unat (of_nat (off + length a) :: 32 word) = off + length a"
    using assms(1) by (simp only: unat_of_nat) simp
  then show ?thesis using assms(2) by (cases sf) (auto simp: grown_def)
qed

lemma wrote_trans:
  assumes "wrote h fd xs a s s'" "wrote h fd xs b s' s''" "good_host h" "open_file s fd xs" "a \<noteq> []"
    "unat (fd_offset (g_fd_table s ! fd)) + length a + length b \<le> length xs * g_block_size s"
  shows "wrote h fd xs (a @ b) s s''"
proof -
  note s = open_fileD [OF assms(4)] and t = wrote_tables [OF assms(1,4)]
  let ?fd = "g_fd_table s ! fd" and ?i = "fd_sysfile_index (g_fd_table s ! fd)"
  let ?off = "unat (fd_offset (g_fd_table s ! fd))"
  have total: "?off + length a + length b < 2147483648"
    using assms(6) file_chain_small [OF s(2,6)] by linarith
  then have off': "unat (fd_offset ?fd + of_nat (length a)) = ?off + length a"
    using unat_add_small [of "fd_offset ?fd" "length a"] by simp
  have e1: "s' = s\<lparr>g_img := g_img s', g_fd_table := (g_fd_table s)[fd := ?fd\<lparr>fd_offset := fd_offset ?fd + of_nat (length a)\<rparr>],
      g_sysfile_table := (g_sysfile_table s)[?i := grown h ?off a (g_sysfile_table s ! ?i)]\<rparr>"
    using assms(1) by (simp only: wrote_def Let_def)
  have e2: "s'' = s'\<lparr>g_img := g_img s'',
      g_fd_table := (g_fd_table s')[fd := (g_fd_table s' ! fd)\<lparr>fd_offset := fd_offset (g_fd_table s' ! fd) + of_nat (length b)\<rparr>],
      g_sysfile_table := (g_sysfile_table s')[fd_sysfile_index (g_fd_table s' ! fd) :=
        grown h (unat (fd_offset (g_fd_table s' ! fd))) b (fd_file s' fd)]\<rparr>"
    using assms(2) by (simp only: wrote_def Let_def fd_file_def)
  have tabs: "g_fd_table s' = (g_fd_table s)[fd := ?fd\<lparr>fd_offset := fd_offset ?fd + of_nat (length a)\<rparr>]"
    "g_sysfile_table s' = (g_sysfile_table s)[?i := grown h ?off a (g_sysfile_table s ! ?i)]"
    using arg_cong [OF e1, of g_fd_table] arg_cong [OF e1, of g_sysfile_table] by simp_all
  have gg: "grown h (?off + length a) b (grown h ?off a (fd_file s fd)) = grown h ?off (a @ b) (fd_file s fd)"
    by (rule grown_grown [OF total assms(5)])
  have eq0: "s'' = s'\<lparr>g_img := g_img s'', g_fd_table := (g_fd_table s)[fd := ?fd\<lparr>fd_offset := fd_offset ?fd + of_nat (length (a @ b))\<rparr>],
      g_sysfile_table := (g_sysfile_table s)[?i := grown h ?off (a @ b) (g_sysfile_table s ! ?i)]\<rparr>"
    using gg s(4,5) by (subst e2) (simp add: tabs t(2) off' add.assoc fd_file_def [symmetric])
  obtain x y z where "s' = s\<lparr>g_img := x, g_fd_table := y, g_sysfile_table := z\<rparr>"
    using e1 by blast
  with eq0 have eq: "s'' = s\<lparr>g_img := g_img s'', g_fd_table := (g_fd_table s)[fd := ?fd\<lparr>fd_offset := fd_offset ?fd + of_nat (length (a @ b))\<rparr>],
      g_sysfile_table := (g_sysfile_table s)[?i := grown h ?off (a @ b) (g_sysfile_table s ! ?i)]\<rparr>"
    by simp
  have "?off \<le> length (file_bytes h s xs)"
    using assms(6) length_file_bytes [OF assms(3) s(2,6)] by simp
  then have bytes: "file_bytes h s'' xs = pwrite (file_bytes h s xs) ?off (a @ b)"
    using assms(1,2) pwrite_pwrite_adjacent [of ?off "file_bytes h s xs" a b]
    by (simp add: wrote_def Let_def t off')
  show ?thesis
    unfolding wrote_def Let_def using eq bytes assms(1,2) by (simp add: wrote_def Let_def)
qed

text \<open>
  The loop writes up to the end of the last allocated block and stops there: at that offset
  \<open>locate_block_in_chain\<close> reports the end mark as if it were a block, and reading it fails.
\<close>

lemma write_loop_file:
  assumes "good_host h" "open_file s fd xs" "fat_entries s < 0x10000 - fat_blocks s"
    "t \<le> nat n" "nat n \<le> length buf" "unat (fd_offset (g_fd_table s ! fd)) \<le> length xs * g_block_size s"
  defines "m \<equiv> min (nat n - t) (length xs * g_block_size s - unat (fd_offset (g_fd_table s ! fd)))"
  shows "\<exists>s'. write_loop h fd buf n t s = Some (t + m, s') \<and> wrote h fd xs (pread buf t m) s s'"
  using assms(2-6) unfolding m_def
proof (induction "nat n - t" arbitrary: s t rule: less_induct)
  case less
  note s = open_fileD [OF less.prems(1)]
  let ?off = "unat (fd_offset (g_fd_table s ! fd))" and ?bs = "g_block_size s" and ?rem = "nat n - t"
  let ?cap = "length xs * ?bs"
  show ?case
  proof (cases "int t < n")
    case False
    then have "?rem = 0" by simp
    moreover have "write_loop h fd buf n t s = Some (t, s)" using False by (subst write_loop.simps) simp
    ultimately show ?thesis using wrote_nothing [OF assms(1) less.prems(1,5)] by (simp add: pread_def)
  next
    case True
    have rem: "0 < ?rem" "nat (n - int t) = ?rem" using True by auto
    note loc = locate_file [OF s(2,6) less.prems(5)]
    show ?thesis
    proof (cases "?off < ?cap")
      case False
      then have cap: "?cap - ?off = 0" by simp
      have "read_block h s (unat FAT_EOC) = None" by (rule eoc_not_readable [OF s(2) less.prems(2)])
      then have "write_loop h fd buf n t s = Some (t, s)"
        using True loc(1) False
        by (subst write_loop.simps) (simp add: write_target_def fd_file_def [symmetric] Let_def)
      then show ?thesis using wrote_nothing [OF assms(1) less.prems(1,5)] cap by (simp add: pread_def)
    next
      case off: True
      let ?k = "?off div ?bs" and ?r = "?off mod ?bs"
      define c where "c = min (?bs - ?r) ?rem"
      have bs: "0 < ?bs" using geom_block_size [OF s(2)] by simp
      have "?r < ?bs" "c \<le> ?bs - ?r" using bs by (simp_all add: c_def)
      then have c: "0 < c" "c \<le> ?rem" "?r + c \<le> ?bs" using rem(1) unfolding c_def by linarith+
      have k: "?k < length xs" using loc(2) off by simp
      obtain blk where blk: "read_block h s (unat (xs ! ?k)) = Some blk"
        using file_block [OF assms(1) s(2,6) k] by auto
      let ?data = "pread buf t c"
      have len: "length ?data = c" using c(2) less.prems(4) rem(1) by (simp add: length_pread)
      have ne: "?data \<noteq> []" using len c(1) by auto
      obtain s1 where w: "write_block h (pwrite blk ?r ?data) (unat (xs ! ?k)) s = (True, s1)"
        using write_block_eq [OF assms(1) s(2)] by auto
      let ?s2 = "advance h fd c s1"
      have fits: "?off + c \<le> ?cap"
      proof -
        have "Suc ?k * ?bs \<le> ?cap" using k by (intro mult_le_mono1) simp
        moreover have "?off = ?k * ?bs + ?r" by simp
        ultimately show ?thesis using c(3) unfolding mult_Suc by linarith
      qed
      have wr: "wrote h fd xs ?data s ?s2"
        using wrote_chunk [OF assms(1) less.prems(1) off _ ne blk w] c(3) by (simp add: len)
      have of2: "open_file ?s2 fd xs"
        using wrote_open_file [OF assms(1) wr less.prems(1)] fits by (simp add: len)
      have "?off + c < 2147483648" using fits file_chain_small [OF s(2,6)] by linarith
      then have off2: "unat (fd_offset (g_fd_table ?s2 ! fd)) = ?off + c"
        using wrote_tables(1) [OF wr less.prems(1)] unat_add_small [of "fd_offset (g_fd_table s ! fd)" c]
        by (simp add: len)
      note f2 = wrote_fields [OF wr]
      have step: "write_loop h fd buf n t s = write_loop h fd buf n (t + c) ?s2"
        using True loc(1) off blk w rem
        by (subst write_loop.simps) (simp add: write_target_def fd_file_def [symmetric] c_def Let_def)
      have dec: "nat n - (t + c) < ?rem" using c(1) rem(1) by linarith
      have "\<exists>s'. write_loop h fd buf n (t + c) ?s2 =
          Some ((t + c) + min (nat n - (t + c)) (length xs * g_block_size ?s2 - unat (fd_offset (g_fd_table ?s2 ! fd))), s') \<and>
        wrote h fd xs (pread buf (t + c) (min (nat n - (t + c))
          (length xs * g_block_size ?s2 - unat (fd_offset (g_fd_table ?s2 ! fd))))) ?s2 s'"
        using c(2) fits less.prems(2,3,4) rem
        by (intro less.hyps [OF dec of2]) (simp_all add: f2 off2)
      then obtain s' where s': "write_loop h fd buf n (t + c) ?s2 =
          Some ((t + c) + min (nat n - (t + c)) (?cap - (?off + c)), s')"
        "wrote h fd xs (pread buf (t + c) (min (nat n - (t + c)) (?cap - (?off + c)))) ?s2 s'"
        by (auto simp: f2 off2)
      define m2 where "m2 = min (nat n - (t + c)) (?cap - (?off + c))"
      have m: "min ?rem (?cap - ?off) = c + m2" using c(2) fits unfolding m2_def by linarith
      have "?off + length ?data + length (pread buf (t + c) m2) \<le> ?cap"
      proof -
        have "length (pread buf (t + c) m2) \<le> ?cap - (?off + c)" by (simp add: length_pread m2_def)
        then show ?thesis using fits unfolding len by linarith
      qed
      then have "wrote h fd xs (?data @ pread buf (t + c) m2) s s'"
        using wrote_trans [OF wr _ assms(1) less.prems(1) ne] s'(2) by (simp add: m2_def)
      then show ?thesis
        using step s'(1) m unfolding m2_def [symmetric] by (simp add: pread_adjacent add.assoc)
    qed
  qed
qed

subsection \<open>The descriptor operations on an open file\<close>

lemma write_open_file:
  assumes "good_host h" "open_file s fd xs" "\<not> HAS_READ (fd_mode (g_fd_table s ! fd))"
    "fat_entries s < 0x10000 - fat_blocks s" "0 \<le> n" "nat n \<le> length buf"
    "unat (fd_offset (g_fd_table s ! fd)) \<le> length xs * g_block_size s"
  defines "m \<equiv> min (nat n) (length xs * g_block_size s - unat (fd_offset (g_fd_table s ! fd)))"
  shows "\<exists>s'. k_write h (int fd) buf n s = Some (int m, s') \<and> wrote h fd xs (take m buf) s s'"
proof -
  note s = open_fileD [OF assms(2)]
  obtain s' where s': "write_loop h fd buf n 0 s = Some (0 + m, s')" "wrote h fd xs (pread buf 0 m) s s'"
    using write_loop_file [OF assms(1,2,4) _ assms(6,7), of 0] by (auto simp: m_def)
  then show ?thesis
    using s(1,3) assms(1,3) by (simp add: k_write_def pread_def)
qed

lemma lseek_open_file:
  assumes "open_file s fd xs" "0 \<le> pos"
  shows "k_lseek (int fd) pos F_SEEK_SET s =
    (pos, set_fd fd ((g_fd_table s ! fd)\<lparr>fd_offset := word_of_int pos\<rparr>) s)"
  using open_fileD(1,3) [OF assms(1)] assms(2)
  by (simp add: k_lseek_def lseek_target_def)

lemma open_file_seek:
  assumes "open_file s fd xs"
  shows "open_file (set_fd fd ((g_fd_table s ! fd)\<lparr>fd_offset := off\<rparr>) s) fd xs"
    "fd_file (set_fd fd ((g_fd_table s ! fd)\<lparr>fd_offset := off\<rparr>) s) fd = fd_file s fd"
    "file_bytes h (set_fd fd ((g_fd_table s ! fd)\<lparr>fd_offset := off\<rparr>) s) xs = file_bytes h s xs"
  using assms by (auto simp: open_file_def set_fd_def fd_file_def file_chain_def file_bytes_def)

lemma grown_size:
  assumes "off + length data < 2147483648" "data \<noteq> []"
  shows "off + length data \<le> unat (sf_size (grown h off data sf))"
proof -
  have "unat (of_nat (off + length data) :: 32 word) = off + length data"
    using assms(1) by (simp only: unat_of_nat) simp
  then show ?thesis using assms(2) by (auto simp: grown_def)
qed

text \<open>Bytes written are read back after a seek to where they were written.\<close>

lemma write_seek_read:
  assumes "good_host h" "open_file s fd xs" "\<not> HAS_READ (fd_mode (g_fd_table s ! fd))"
    "\<not> HAS_WRITE (fd_mode (g_fd_table s ! fd))" "fat_entries s < 0x10000 - fat_blocks s"
    "data \<noteq> []" "unat (fd_offset (g_fd_table s ! fd)) + length data \<le> length xs * g_block_size s"
  shows "\<exists>s1 s2 s3. k_write h (int fd) data (int (length data)) s = Some (int (length data), s1) \<and>
    k_lseek (int fd) (int (unat (fd_offset (g_fd_table s ! fd)))) F_SEEK_SET s1 =
      (int (unat (fd_offset (g_fd_table s ! fd))), s2) \<and>
    k_read h (int fd) (int (length data)) s2 = Some (int (length data), data, s3)"
proof -
  note s = open_fileD [OF assms(2)]
  let ?off = "unat (fd_offset (g_fd_table s ! fd))"
  have fit: "?off \<le> length xs * g_block_size s" "?off + length data < 2147483648"
    using assms(7) file_chain_small [OF s(2,6)] by linarith+
  have "min (nat (int (length data))) (length xs * g_block_size s - ?off) = length data"
    using assms(7) by linarith
  then obtain s1 where w: "k_write h (int fd) data (int (length data)) s = Some (int (length data), s1)"
    "wrote h fd xs data s s1"
    using write_open_file [OF assms(1-3,5) _ _ fit(1), of "int (length data)" data] by auto
  note t = wrote_tables [OF w(2) assms(2)]
  have o1: "open_file s1 fd xs" by (rule wrote_open_file [OF assms(1) w(2) assms(2,7)])
  define s2 where "s2 = set_fd fd ((g_fd_table s1 ! fd)\<lparr>fd_offset := fd_offset (g_fd_table s ! fd)\<rparr>) s1"
  have seek: "k_lseek (int fd) (int ?off) F_SEEK_SET s1 = (int ?off, s2)"
    using lseek_open_file [OF o1, of "int ?off"] by (simp add: s2_def)
  note o2 = open_file_seek [OF o1, where off = "fd_offset (g_fd_table s ! fd)", folded s2_def]
  have fd2: "fd_offset (g_fd_table s2 ! fd) = fd_offset (g_fd_table s ! fd)"
    "fd_mode (g_fd_table s2 ! fd) = fd_mode (g_fd_table s ! fd)"
    using open_fileD(4) [OF o1] t(1) by (simp_all add: s2_def set_fd_def)
  have "?off + length data \<le> unat (sf_size (fd_file s2 fd))"
    using grown_size [OF fit(2) assms(6)] by (simp add: o2(2) t(2))
  then have m: "min (nat (int (length data))) (unat (sf_size (fd_file s2 fd)) - ?off) = length data"
    by linarith
  have bytes: "file_bytes h s2 xs = pwrite (file_bytes h s xs) ?off data"
    using w(2) by (simp add: o2(3) wrote_def Let_def)
  have "k_read h (int fd) (int (length data)) s2 = Some (int (length data),
      pread (file_bytes h s2 xs) ?off (length data),
      set_fd fd ((g_fd_table s2 ! fd)\<lparr>fd_offset := fd_offset (g_fd_table s ! fd) + of_nat (length data)\<rparr>) s2)"
    using read_open_file [OF assms(1) o2(1), of "int (length data)"] assms(4) m
    by (simp add: fd2)
  then have "k_read h (int fd) (int (length data)) s2 = Some (int (length data), data,
      set_fd fd ((g_fd_table s2 ! fd)\<lparr>fd_offset := fd_offset (g_fd_table s ! fd) + of_nat (length data)\<rparr>) s2)"
    by (simp add: bytes pread_pwrite_same)
  then show ?thesis using w(1) seek by blast
qed

subsection \<open>Opening a new file\<close>

lemma create_new_file:
  assumes "good_host h" "cwd_dir h s bs" "plain_name p" "dir_map h s bs p = None" "HAS_CREATE mode"
    "find_idx (\<lambda>f. \<not> sf_in_use f) (g_sysfile_table s) = Some j"
  shows "(\<exists>s'. k_open_create h p (zero_resolved\<lparr>r_parent := g_cwd_block s\<rparr>) mode s = Some (Inl PennFatErr_NOSPACE, s')) \<and>
      \<not> two_free s \<or>
    (\<exists>n s' bs' b i. 2 \<le> n \<and> n < fat_entries s \<and> fat_list s ! n = FAT_FREE \<and>
      k_open_create h p (zero_resolved\<lparr>r_parent := g_cwd_block s\<rparr>) mode s = Some (Inr (j, 0),
        set_sysfile j \<lparr>sf_ref_count = 1, sf_in_use = True, sf_first_block = of_nat n, sf_size = 0,
          sf_mtime = h_now h, sf_dir_index = pseudo_inode b i\<rparr> s') \<and>
      same_but_img s s' \<and> cwd_dir h s' bs' \<and>
      dir_map h s' bs' = (dir_map h s bs)(p \<mapsto> new_file_entry h p n))"
proof -
  note s = cwd_dirD [OF assms(2)] and p = plain_nameD [OF assms(3)]
  obtain r s1 where alloc: "allocate_free_block s = Some (r, s1)"
    using allocate_total [OF s(2)] by auto
  show ?thesis
  proof (cases r)
    case None
    then show ?thesis
      using alloc assms(5) s(5) p allocate_None [OF s(2)] no_free_at_all [of s]
      by (simp add: k_open_create_def zero_resolved_def chain_end_def)
  next
    case (Some n)
    note al = allocate_Some [OF s(2) alloc [unfolded Some]] and ef = allocate_effect [OF s(2) alloc [unfolded Some]]
    note d1 = dir_ok_alloc [OF s(2-4) alloc [unfolded Some]]
    let ?e = "new_file_entry h p n"
    have e: "live ?e" "dname ?e = p" using live_named [OF assms(3)] by auto
    have fb: "fat_blocks s1 = 1" using same_but_img_fields(11) [OF ef(4)] s(3) by simp
    have fresh: "dir_map h s1 bs (dname ?e) = None" using d1(2) e(2) assms(4) by simp
    have run: "k_open_create h p (zero_resolved\<lparr>r_parent := g_cwd_block s\<rparr>) mode s =
      do { (err, s2) \<leftarrow> add_dirent_to_dir h (g_cwd_block s) ?e s1;
           if err \<noteq> PennFatErr_OK then do { s3 \<leftarrow> fat_set n FAT_FREE s2; Some (Inl err, s3) }
           else k_open_enter_new h p n s2 }"
      using alloc Some assms(5) s(5) p by (simp add: k_open_create_def zero_resolved_def chain_end_def)
    consider (full) "add_dirent_to_dir h (g_cwd_block s) ?e s1 = Some (PennFatErr_NOSPACE, s1)"
        "\<forall>i. 2 \<le> i \<and> i < fat_entries s1 \<longrightarrow> fat_list s1 ! i \<noteq> FAT_FREE"
      | (ok) s2 bs' where "add_dirent_to_dir h (g_cwd_block s) ?e s1 = Some (PennFatErr_OK, s2)"
        "same_but_img s1 s2" "geom s2" "dir_ok h s2 (g_cwd_block s) bs'"
        "dir_map h s2 bs' = (dir_map h s1 bs)(p \<mapsto> ?e)"
      using dir_entry_added [OF assms(1) ef(1) fb d1(1) wf_new_file e(1) fresh] e(2) by auto
    then show ?thesis
    proof cases
      case full
      then show ?thesis
        using run fat_undo [OF s(2) alloc [unfolded Some]] no_free_after [OF s(2) alloc [unfolded Some]]
        by auto
    next
      case ok
      have same: "same_but_img s s2" by (rule same_but_img_trans [OF ef(4) ok(2)])
      note f = same_but_img_fields [OF same]
      have cwd: "cwd_dir h s2 bs'" by (rule cwd_dir_changed [OF assms(2) same ok(3,4)])
      obtain b i where found: "find_chain h s2 p bs' = Some (?e, b, i)"
        using fun_cong [OF ok(5), of p] by (auto simp: dir_map_def)
      have "resolve_path h s2 p = Some (PennFatErr_OK, entry_resolved (g_cwd_block s2) (?e, b, i))"
        using resolve_plain_found [OF assms(1) ok(3) assms(3) cwd_dirD(4) [OF cwd] found]
        by (simp add: new_file_entry_def)
      then have "k_open_enter_new h p n s2 = Some (Inr (j, 0),
        set_sysfile j \<lparr>sf_ref_count = 1, sf_in_use = True, sf_first_block = of_nat n, sf_size = 0,
          sf_mtime = h_now h, sf_dir_index = pseudo_inode b (int i)\<rparr> s2)"
        using assms(6) by (simp add: k_open_enter_new_def entry_resolved_def
            create_sysfile_entry_from_resolved_def f new_file_entry_def)
      then show ?thesis
        using run ok(1,5) same cwd al(1-3) d1(2) by (intro disjI2) auto
    qed
  qed
qed

end
