(* ===== verification/TableInv.thy ===== *)
theory TableInv
  imports FileProps
begin

text \<open>
  The invariant of the descriptor table and the system-wide file table, and the step relation of the
  whole file system: whatever sequence of calls is made, on whatever image and with whatever host
  failures, the reference count of every open file is the number of descriptors that refer to it.
\<close>

subsection \<open>Operations that leave the tables alone\<close>

named_theorems tabs_kept "operations that leave the descriptor table and the file table as they are"

definition tabs :: "fs \<Rightarrow> fd_entry list \<times> system_file list" where
  "tabs s = (g_fd_table s, g_sysfile_table s)"

lemma tabs_simps [simp]:
  "tabs (s\<lparr>g_img := a\<rparr>) = tabs s" "tabs (s\<lparr>g_cwd_block := c\<rparr>) = tabs s"
  "tabs (s\<lparr>g_fs_fd := d\<rparr>) = tabs s" "tabs (s\<lparr>g_mounted := e\<rparr>) = tabs s"
  "tabs (s\<lparr>g_fat := f\<rparr>) = tabs s" "tabs (s\<lparr>g_root_dir := g\<rparr>) = tabs s"
  "tabs (s\<lparr>host_files := i\<rparr>) = tabs s" "tabs (s\<lparr>g_block_size := j\<rparr>) = tabs s"
  "tabs (s\<lparr>g_superblock := k\<rparr>) = tabs s"
  by (simp_all add: tabs_def)

lemma write_block_tabs [simp]: "tabs (snd (write_block h buf b s)) = tabs s"
  by (simp add: write_block_def Let_def)

lemma fat_set_tabs [tabs_kept]: "fat_set i v s = Some s' \<Longrightarrow> tabs s' = tabs s"
  by (auto simp: fat_set_def split: if_split_asm)

lemmas unfold_step = bind_Some Let_def case_prod_unfold

lemmas split_step = if_split_asm option.split_asm sum.split_asm

lemma allocate_tabs [tabs_kept]: "allocate_free_block s = Some x \<Longrightarrow> tabs (snd x) = tabs s"
  by (auto simp: allocate_free_block_def unfold_step dest!: fat_set_tabs split: split_step)

lemma free_chain_loop_tabs: "free_chain_loop b s = Some s' \<Longrightarrow> tabs s' = tabs s"
  by (erule free_chain_loop.raw_induct [rotated])
     (auto simp: bind_Some dest!: fat_set_tabs split: if_split_asm)

lemma free_block_chain_tabs [tabs_kept]: "free_block_chain b s = Some s' \<Longrightarrow> tabs s' = tabs s"
  by (auto simp: free_block_chain_def dest: free_chain_loop_tabs split: if_split_asm)

lemma write_dirent_tabs [simp]: "tabs (snd (write_dirent h b i e s)) = tabs s"
  by (simp add: write_dirent_def Let_def case_prod_unfold split: option.split)

lemma put_slot_tabs [simp]: "tabs (snd (put_slot h b i e s)) = tabs s"
  by (simp add: put_slot_def Let_def case_prod_unfold split: option.split)

lemma writeback_tabs [simp]: "tabs (writeback_dirent h f s) = tabs s"
  by (simp add: writeback_dirent_def Let_def split: sum.split)

lemma extend_dir_tabs [tabs_kept]: "extend_dir h d s = Some x \<Longrightarrow> tabs (snd x) = tabs s"
  by (auto simp: extend_dir_def unfold_step dest!: tabs_kept split: split_step)

lemma add_dirent_tabs [tabs_kept]:
  assumes "add_dirent_to_dir h d e s = Some x"
  shows "tabs (snd x) = tabs s"
proof (cases "d = FAT_FREE \<or> d = FAT_EOC \<or> \<not> h_malloc h Site_add_dirent")
  case True
  then show ?thesis using assms by (auto simp: add_dirent_to_dir_def split: if_split_asm)
next
  case False
  then obtain r where r: "slot_loop h s d = Some r"
    using assms by (auto simp: add_dirent_to_dir_def bind_Some)
  show ?thesis
  proof (cases r)
    case (Inl err)
    then show ?thesis using assms False r by (auto simp: add_dirent_to_dir_def)
  next
    case (Inr slot)
    then show ?thesis
    proof (cases slot)
      case None
      then obtain y s1 where e: "extend_dir h d s = Some (y, s1)"
        using assms False r Inr by (auto simp: add_dirent_to_dir_def bind_Some)
      then show ?thesis using assms False r Inr None extend_dir_tabs [OF e]
        by (cases y) (auto simp: add_dirent_to_dir_def)
    next
      case (Some bi)
      then show ?thesis using assms False r Inr
        by (cases bi) (auto simp: add_dirent_to_dir_def)
    qed
  qed
qed

lemma touch_tabs [tabs_kept]: "k_touch h p s = Some x \<Longrightarrow> tabs (snd x) = tabs s"
  by (auto simp: k_touch_def unfold_step dest!: tabs_kept split: split_step)

lemma chmod_tabs [tabs_kept]: "k_chmod h p perm s = Some x \<Longrightarrow> tabs (snd x) = tabs s"
  by (auto simp: k_chmod_def unfold_step dest!: tabs_kept split: split_step)

lemma chdir_tabs [tabs_kept]: "k_chdir h p s = Some x \<Longrightarrow> tabs (snd x) = tabs s"
  by (auto simp: k_chdir_def unfold_step dest!: tabs_kept split: split_step)

lemma symlink_store_tabs [tabs_kept]: "symlink_store h t l p b s = Some x \<Longrightarrow> tabs (snd x) = tabs s"
  by (auto simp: symlink_store_def unfold_step dest!: tabs_kept split: split_step)

lemma symlink_tabs [tabs_kept]: "k_symlink h t l s = Some x \<Longrightarrow> tabs (snd x) = tabs s"
  by (auto simp: k_symlink_def unfold_step dest!: tabs_kept split: split_step)

lemma mkdir_store_tabs [tabs_kept]: "mkdir_store h n p b s = Some x \<Longrightarrow> tabs (snd x) = tabs s"
  by (auto simp: mkdir_store_def unfold_step dest!: tabs_kept split: split_step)

lemma mkdir_tabs [tabs_kept]: "k_mkdir h p s = Some x \<Longrightarrow> tabs (snd x) = tabs s"
  by (auto simp: k_mkdir_def unfold_step dest!: tabs_kept split: split_step)

lemma rmdir_tabs [tabs_kept]: "k_rmdir h p s = Some x \<Longrightarrow> tabs (snd x) = tabs s"
  by (auto simp: k_rmdir_def unfold_step dest!: tabs_kept split: split_step)

lemma truncate_tabs [tabs_kept]: "truncate_entry h r s = Some x \<Longrightarrow> tabs (snd x) = tabs s"
  by (auto simp: truncate_entry_def unfold_step dest!: tabs_kept split: split_step)

lemma rename_move_tabs [tabs_kept]: "rename_move h n old new s = Some x \<Longrightarrow> tabs (snd x) = tabs s"
  by (auto simp: rename_move_def unfold_step dest!: tabs_kept split: split_step)

subsection \<open>The reference counts\<close>

definition refers :: "nat \<Rightarrow> fd_entry \<Rightarrow> bool" where
  "refers i f \<longleftrightarrow> fd_in_use f \<and> fd_sysfile_index f = i"

definition fd_refs :: "fd_entry list \<Rightarrow> nat \<Rightarrow> nat" where
  "fd_refs fds i = length (filter (refers i) fds)"

text \<open>
  \<open>counts extra fds sys\<close>: the count of every file is the number of descriptors that refer to it plus
  \<open>extra\<close>, the references held in the middle of an operation; an unused entry has none.
\<close>

definition counts :: "(nat \<Rightarrow> nat) \<Rightarrow> fd_entry list \<times> system_file list \<Rightarrow> bool" where
  "counts extra t \<longleftrightarrow> (case t of (fds, sys) \<Rightarrow>
     length fds = MAX_FD \<and> length sys = MAX_SYSTEM_FILES \<and>
     (\<forall>f\<in>set fds. fd_in_use f \<longrightarrow> fd_sysfile_index f < MAX_SYSTEM_FILES) \<and>
     (\<forall>i<MAX_SYSTEM_FILES.
        if sf_in_use (sys ! i)
        then sf_ref_count (sys ! i) = int (fd_refs fds i + extra i) \<and> 0 < fd_refs fds i + extra i
        else fd_refs fds i + extra i = 0))"

abbreviation one_ref :: "nat \<Rightarrow> nat \<Rightarrow> nat" where
  "one_ref j \<equiv> (\<lambda>i. if i = j then 1 else 0)"

definition tables_ok :: "fs \<Rightarrow> bool" where
  "tables_ok s \<longleftrightarrow> counts (\<lambda>_. 0) (tabs s)"

lemma fd_refs_update:
  assumes "k < length fds"
  shows "fd_refs (fds[k := f]) i + (if refers i (fds ! k) then 1 else 0) =
    fd_refs fds i + (if refers i f then 1 else 0)"
  using filter_update(1) [OF assms, of "refers i" f] filter_update(2) [OF assms, of "refers i"]
  by (simp add: fd_refs_def)

lemma counts_sys_update:
  assumes "counts extra (fds, sys)" "j < MAX_SYSTEM_FILES"
    "\<And>i. i \<noteq> j \<Longrightarrow> extra' i = extra i"
    "if sf_in_use f then sf_ref_count f = int (fd_refs fds j + extra' j) \<and> 0 < fd_refs fds j + extra' j
     else fd_refs fds j + extra' j = 0"
  shows "counts extra' (fds, sys[j := f])"
  using assms by (auto simp: counts_def nth_list_update)

lemma counts_fds_update:
  assumes "counts extra (fds, sys)" "fd_in_use f \<longrightarrow> fd_sysfile_index f < MAX_SYSTEM_FILES"
    "\<And>i. fd_refs (fds[k := f]) i + extra' i = fd_refs fds i + extra i"
  shows "counts extra' (fds[k := f], sys)"
proof -
  have "\<forall>x\<in>set (fds[k := f]). fd_in_use x \<longrightarrow> fd_sysfile_index x < MAX_SYSTEM_FILES"
    using assms(1,2) set_update_subset_insert [of fds k f] by (auto simp: counts_def)
  then show ?thesis using assms(1) by (simp only: counts_def prod.case length_list_update assms(3)) blast
qed

lemma increment_counts:
  assumes "tables_ok s" "find_and_increment_sysfile n s = (Some j, s')"
  shows "counts (one_ref j) (tabs s')" "j < MAX_SYSTEM_FILES"
proof -
  let ?f = "g_sysfile_table s ! j"
  have c: "counts (\<lambda>_. 0) (g_fd_table s, g_sysfile_table s)"
    using assms(1) by (simp add: tables_ok_def tabs_def)
  have j: "find_idx (\<lambda>f. sf_in_use f \<and> sf_dir_index f = n) (g_sysfile_table s) = Some j"
    and s': "s' = set_sysfile j (?f\<lparr>sf_ref_count := sf_ref_count ?f + 1\<rparr>) s"
    using assms(2) by (auto simp: find_and_increment_sysfile_def Let_def split: option.split_asm)
  have inside: "j < length (g_sysfile_table s)" "sf_in_use ?f"
    using find_idx_SomeD(1,2) [OF j] by auto
  show lt: "j < MAX_SYSTEM_FILES" using c inside(1) by (simp add: counts_def)
  have "sf_ref_count ?f = int (fd_refs (g_fd_table s) j)"
    using c lt inside(2) by (simp add: counts_def)
  then show "counts (one_ref j) (tabs s')"
    using counts_sys_update [OF c lt, of "one_ref j"] inside(2)
    by (simp add: s' set_sysfile_def tabs_def)
qed

lemma create_counts:
  assumes "tables_ok s" "create_sysfile_entry_from_resolved e n s = (Some j, s')"
  shows "counts (one_ref j) (tabs s')" "j < MAX_SYSTEM_FILES"
proof -
  have c: "counts (\<lambda>_. 0) (g_fd_table s, g_sysfile_table s)"
    using assms(1) by (simp add: tables_ok_def tabs_def)
  obtain f where j: "find_idx (\<lambda>f. \<not> sf_in_use f) (g_sysfile_table s) = Some j"
    and s': "s' = set_sysfile j f s" "sf_in_use f" "sf_ref_count f = 1"
    using assms(2) by (auto simp: create_sysfile_entry_from_resolved_def split: option.split_asm)
  have inside: "j < length (g_sysfile_table s)" "\<not> sf_in_use (g_sysfile_table s ! j)"
    using find_idx_SomeD(1,2) [OF j] by auto
  show lt: "j < MAX_SYSTEM_FILES" using c inside(1) by (simp add: counts_def)
  have "fd_refs (g_fd_table s) j = 0" using c lt inside(2) by (auto simp: counts_def)
  then show "counts (one_ref j) (tabs s')"
    using counts_sys_update [OF c lt, of "one_ref j" f] s'(2,3)
    by (simp add: s'(1) set_sysfile_def tabs_def)
qed

lemma lookup_misses_counts:
  "find_and_increment_sysfile n s = (None, s') \<Longrightarrow> s' = s"
  "create_sysfile_entry_from_resolved e n s = (None, s') \<Longrightarrow> s' = s"
  by (auto simp: find_and_increment_sysfile_def create_sysfile_entry_from_resolved_def Let_def
      split: option.split_asm)

text \<open>A held reference is dropped by \<open>release_sysfile_entry\<close>, or handed over to a descriptor.\<close>

lemma release_counts:
  assumes "counts (one_ref j) (tabs s)" "j < MAX_SYSTEM_FILES"
  shows "tables_ok (release_sysfile_entry h j s)"
proof -
  let ?f = "g_sysfile_table s ! j" and ?r = "fd_refs (g_fd_table s) j"
  have c: "counts (one_ref j) (g_fd_table s, g_sysfile_table s)" using assms(1) by (simp add: tabs_def)
  have use: "sf_in_use ?f" and cnt: "sf_ref_count ?f = int ?r + 1"
    using c assms(2) by (auto simp: counts_def split: if_split_asm)
  let ?f1 = "?f\<lparr>sf_ref_count := sf_ref_count ?f - 1\<rparr>"
  show ?thesis
  proof (cases "?r = 0")
    case False
    have "counts (\<lambda>_. 0) (g_fd_table s, (g_sysfile_table s)[j := ?f1])"
      using counts_sys_update [OF c assms(2), of "\<lambda>_. 0" ?f1] use cnt False by simp
    then show ?thesis
      using assms(2) use cnt False
      by (simp add: tables_ok_def release_sysfile_entry_def tabs_def set_sysfile_def Let_def)
  next
    case True
    let ?w = "writeback_dirent h ?f1 (set_sysfile j ?f1 s)"
    have w: "g_fd_table ?w = g_fd_table s" "g_sysfile_table ?w = (g_sysfile_table s)[j := ?f1]"
      using writeback_tabs [of h ?f1 "set_sysfile j ?f1 s"] by (simp_all add: tabs_def set_sysfile_def)
    have "counts (\<lambda>_. 0) (g_fd_table s, (g_sysfile_table s)[j := zero_sysfile])"
      using counts_sys_update [OF c assms(2), of "\<lambda>_. 0" zero_sysfile] True
      by (simp add: zero_sysfile_def)
    moreover have "tabs (release_sysfile_entry h j s) = (g_fd_table s, (g_sysfile_table s)[j := zero_sysfile])"
      using assms(2) use cnt True w
      by (simp add: release_sysfile_entry_def Let_def) (simp add: tabs_def set_sysfile_def)
    ultimately show ?thesis by (simp add: tables_ok_def)
  qed
qed

lemma assign_counts:
  assumes "counts (one_ref j) (tabs s)" "j < MAX_SYSTEM_FILES"
  shows "tables_ok (snd (assign_fd h mode j sz s))"
proof (cases "find_idx (\<lambda>f. \<not> fd_in_use f) (g_fd_table s)")
  case None
  then show ?thesis using release_counts [OF assms] by (simp add: assign_fd_def)
next
  case (Some k)
  note k = find_idx_SomeD(1,2) [OF Some]
  let ?f = "\<lparr>fd_in_use = True, fd_sysfile_index = j, fd_mode = mode,
    fd_offset = (if HAS_APPEND mode then sz else 0)\<rparr>"
  have c: "counts (one_ref j) (g_fd_table s, g_sysfile_table s)" using assms(1) by (simp add: tabs_def)
  have refs: "fd_refs ((g_fd_table s)[k := ?f]) i = fd_refs (g_fd_table s) i + one_ref j i" for i
    using fd_refs_update [OF k(1), of ?f i] k(2) by (auto simp: refers_def)
  have "counts (\<lambda>_. 0) ((g_fd_table s)[k := ?f], g_sysfile_table s)"
    by (rule counts_fds_update [OF c]) (simp_all add: refs assms(2))
  then show ?thesis
    using Some by (simp add: assign_fd_def tables_ok_def tabs_def set_fd_def)
qed

lemma close_fd_counts:
  assumes "tables_ok s" "k < length (g_fd_table s)" "fd_in_use (g_fd_table s ! k)"
  defines "j \<equiv> fd_sysfile_index (g_fd_table s ! k)"
  shows "counts (one_ref j) (tabs (set_fd k ((g_fd_table s ! k)\<lparr>fd_in_use := False\<rparr>) s))"
    "j < MAX_SYSTEM_FILES"
proof -
  let ?f = "(g_fd_table s ! k)\<lparr>fd_in_use := False\<rparr>"
  have c: "counts (\<lambda>_. 0) (g_fd_table s, g_sysfile_table s)"
    using assms(1) by (simp add: tables_ok_def tabs_def)
  show lt: "j < MAX_SYSTEM_FILES"
    using c assms(2,3) nth_mem [OF assms(2)] by (auto simp: counts_def j_def)
  have refs: "fd_refs ((g_fd_table s)[k := ?f]) i + one_ref j i = fd_refs (g_fd_table s) i" for i
    using fd_refs_update [OF assms(2), of ?f i] assms(3) by (auto simp: refers_def j_def)
  have "counts (one_ref j) ((g_fd_table s)[k := ?f], g_sysfile_table s)"
    by (rule counts_fds_update [OF c]) (simp_all add: refs)
  then show "counts (one_ref j) (tabs (set_fd k ?f s))"
    by (simp add: tabs_def set_fd_def)
qed

subsection \<open>Every operation keeps the counts\<close>

lemma tables_ok_tabs: "tabs s' = tabs s \<Longrightarrow> tables_ok s' = tables_ok s"
  by (simp add: tables_ok_def)

lemma tables_okD:
  assumes "tables_ok s"
  shows "length (g_fd_table s) = MAX_FD" "length (g_sysfile_table s) = MAX_SYSTEM_FILES"
    "\<And>fd. \<not> bad_fd fd s \<Longrightarrow> nat fd < length (g_fd_table s) \<and> fd_in_use (g_fd_table s ! nat fd)"
  using assms by (auto simp: tables_ok_def tabs_def counts_def bad_fd_def)

lemma enter_sysfile_counts:
  assumes "tables_ok s" "enter_sysfile e n s = (r, s')"
  shows "case r of Inl _ \<Rightarrow> tables_ok s' | Inr j \<Rightarrow> counts (one_ref j) (tabs s') \<and> j < MAX_SYSTEM_FILES"
proof (cases "find_and_increment_sysfile n s")
  case (Pair a s1)
  show ?thesis
  proof (cases a)
    case (Some j)
    then show ?thesis using assms Pair increment_counts [OF assms(1)] by (auto simp: enter_sysfile_def)
  next
    case None
    then have s1: "s1 = s" using Pair lookup_misses_counts(1) by simp
    obtain b s2 where c: "create_sysfile_entry_from_resolved e n s = (b, s2)" by fastforce
    show ?thesis
      using assms Pair None s1 c create_counts [OF assms(1)] lookup_misses_counts(2) [of e n s]
      by (cases b) (auto simp: enter_sysfile_def)
  qed
qed

definition open_result_ok :: "(PennFatErr + nat \<times> 32 word) \<times> fs \<Rightarrow> bool" where
  "open_result_ok x = (case x of (r, s') \<Rightarrow>
     (case r of Inl _ \<Rightarrow> tables_ok s' | Inr (j, _) \<Rightarrow> counts (one_ref j) (tabs s') \<and> j < MAX_SYSTEM_FILES))"

lemma open_result_simps [simp]:
  "open_result_ok (Inl e, s) = tables_ok s"
  "open_result_ok (Inr (j, sz), s) \<longleftrightarrow> counts (one_ref j) (tabs s) \<and> j < MAX_SYSTEM_FILES"
  by (simp_all add: open_result_ok_def)

lemma enter_result:
  assumes "tables_ok s"
  shows "open_result_ok (case enter_sysfile e n s of (y, s2) \<Rightarrow> (map_sum id (\<lambda>i. (i, sz)) y, s2))"
  using enter_sysfile_counts [OF assms surjective_pairing [of "enter_sysfile e n s"]]
  by (cases "enter_sysfile e n s"; cases "fst (enter_sysfile e n s)") auto

lemma tables_ok_step:
  "allocate_free_block s = Some (r, s') \<Longrightarrow> tables_ok s \<Longrightarrow> tables_ok s'"
  "add_dirent_to_dir h d e s = Some (a, s') \<Longrightarrow> tables_ok s \<Longrightarrow> tables_ok s'"
  "fat_set i v s = Some s' \<Longrightarrow> tables_ok s \<Longrightarrow> tables_ok s'"
  "free_block_chain b s = Some s' \<Longrightarrow> tables_ok s \<Longrightarrow> tables_ok s'"
  "truncate_entry h q s = Some (x, s') \<Longrightarrow> tables_ok s \<Longrightarrow> tables_ok s'"
  "tables_ok (snd (write_dirent h b j e s)) = tables_ok s"
  using allocate_tabs [of s "(r, s')"] add_dirent_tabs [of h d e s "(a, s')"] fat_set_tabs [of i v s s']
    free_block_chain_tabs [of b s s'] truncate_tabs [of h q s "(x, s')"]
  by (simp_all add: tables_ok_tabs [of s' s] tables_ok_tabs [of "snd (write_dirent h b j e s)" s])

lemma open_existing_counts:
  assumes "tables_ok s"
  shows "ensures open_result_ok (k_open_existing h r mode s)"
  using assms tables_ok_step(5) enter_result
  by (auto simp: k_open_existing_def case_prod_unfold Let_def split: sum.split dest: tables_ok_step(5))

lemma enter_new_counts:
  assumes "tables_ok s"
  shows "ensures open_result_ok (k_open_enter_new h p n s)"
proof -
  have "ensures open_result_ok (case create_sysfile_entry_from_resolved (r_entry c) i s of
      (Some i, s1) \<Rightarrow> Some (Inr (i, de_size (r_entry c)), s1)
    | (None, s1) \<Rightarrow>
        let (_, s2) = write_dirent h b j deleted_dirent s1 in
        do { s3 \<leftarrow> free_block_chain (of_nat n) s2; Some (Inl PennFatErr_OUTOFMEM, s3) })" for c i b j
  proof (cases "create_sysfile_entry_from_resolved (r_entry c) i s")
    case (Pair a s1)
    then show ?thesis
      using create_counts [OF assms, of "r_entry c" i] lookup_misses_counts(2) [of "r_entry c" i s] assms
      by (cases a) (auto simp: case_prod_unfold tables_ok_step(6) dest: tables_ok_step(4))
  qed
  then show ?thesis using assms by (auto simp: k_open_enter_new_def)
qed

lemma open_create_counts:
  assumes "tables_ok s"
  shows "ensures open_result_ok (k_open_create h p r mode s)"
  using assms enter_new_counts
  by (auto simp: k_open_create_def Let_def split: option.split dest: tables_ok_step(1-3))

lemma open_tables_ok:
  assumes "tables_ok s"
  shows "ensures (\<lambda>x. tables_ok (snd x)) (k_open h p mode s)"
  using assms assign_counts ensuresD [OF open_existing_counts [OF assms]] ensuresD [OF open_create_counts [OF assms]]
  by (fastforce simp: k_open_def split: option.split sum.split)

lemma bad_fdD: "\<not> bad_fd fd s \<Longrightarrow> 0 \<le> fd \<and> nat fd < MAX_FD \<and> fd_in_use (g_fd_table s ! nat fd)"
  by (auto simp: bad_fd_def)

lemma close_tables_ok:
  assumes "tables_ok s"
  shows "tables_ok (snd (k_close h fd s))"
proof (cases "\<not> g_mounted s \<or> bad_fd fd s")
  case True
  then show ?thesis using assms by (auto simp: k_close_def)
next
  case False
  then have k: "nat fd < length (g_fd_table s)" "fd_in_use (g_fd_table s ! nat fd)"
    using tables_okD(3) [OF assms] by auto
  note c = close_fd_counts [OF assms k]
  show ?thesis using False release_counts [OF c] by (simp add: k_close_def Let_def)
qed

text \<open>A change of an offset, or of a size, does not touch the counts.\<close>

lemma set_offset_counts:
  assumes "tables_ok s" "k < length (g_fd_table s)"
  shows "tables_ok (set_fd k ((g_fd_table s ! k)\<lparr>fd_offset := off\<rparr>) s)"
proof -
  let ?f = "(g_fd_table s ! k)\<lparr>fd_offset := off\<rparr>"
  have c: "counts (\<lambda>_. 0) (g_fd_table s, g_sysfile_table s)"
    using assms(1) by (simp add: tables_ok_def tabs_def)
  have "counts (\<lambda>_. 0) ((g_fd_table s)[k := ?f], g_sysfile_table s)"
  proof (rule counts_fds_update [OF c])
    show "fd_in_use ?f \<longrightarrow> fd_sysfile_index ?f < MAX_SYSTEM_FILES"
      using c nth_mem [OF assms(2)] by (auto simp: counts_def)
    show "fd_refs ((g_fd_table s)[k := ?f]) i + 0 = fd_refs (g_fd_table s) i + 0" for i
      using fd_refs_update [OF assms(2), of ?f i] by (simp add: refers_def)
  qed
  then show ?thesis by (simp add: tables_ok_def tabs_def set_fd_def)
qed

lemma set_size_counts:
  assumes "tables_ok s" "i < MAX_SYSTEM_FILES"
  shows "tables_ok (set_sysfile i ((g_sysfile_table s ! i)\<lparr>sf_size := n, sf_mtime := m\<rparr>) s)"
proof -
  have c: "counts (\<lambda>_. 0) (g_fd_table s, g_sysfile_table s)"
    using assms(1) by (simp add: tables_ok_def tabs_def)
  have "counts (\<lambda>_. 0) (g_fd_table s, (g_sysfile_table s)[i := (g_sysfile_table s ! i)\<lparr>sf_size := n, sf_mtime := m\<rparr>])"
    using c assms(2) by (intro counts_sys_update [OF c assms(2)]) (auto simp: counts_def)
  then show ?thesis by (simp add: tables_ok_def tabs_def set_sysfile_def)
qed

lemma fd_index_bound: "tables_ok s \<Longrightarrow> k < MAX_FD \<Longrightarrow> fd_in_use (g_fd_table s ! k) \<Longrightarrow>
    fd_sysfile_index (g_fd_table s ! k) < MAX_SYSTEM_FILES"
  by (auto simp: tables_ok_def tabs_def counts_def)

lemma read_tables_ok:
  assumes "tables_ok s"
  shows "ensures (\<lambda>x. tables_ok (snd (snd x))) (k_read h fd n s)"
  using assms tables_okD(3) [OF assms, of fd] set_offset_counts [OF assms]
  by (auto simp: k_read_def Let_def)

lemma lseek_tables_ok:
  assumes "tables_ok s"
  shows "tables_ok (snd (k_lseek fd off whence s))"
  using assms tables_okD(3) [OF assms, of fd] set_offset_counts [OF assms]
  by (auto simp: k_lseek_def Let_def split: option.split)

lemma advance_tables_ok:
  assumes "tables_ok s" "k < MAX_FD" "fd_in_use (g_fd_table s ! k)"
  shows "tables_ok (advance h k c s)" "fd_in_use (g_fd_table (advance h k c s) ! k)"
proof -
  have k: "k < length (g_fd_table s)" using assms tables_okD(1) by simp
  note i = fd_index_bound [OF assms]
  let ?s1 = "set_fd k ((g_fd_table s ! k)\<lparr>fd_offset := fd_offset (g_fd_table s ! k) + of_nat c\<rparr>) s"
  have s1: "tables_ok ?s1" by (rule set_offset_counts [OF assms(1) k])
  have sys: "g_sysfile_table ?s1 = g_sysfile_table s" by (simp add: set_fd_def)
  show "tables_ok (advance h k c s)"
    using s1 set_size_counts [OF s1 i, unfolded sys] by (simp add: advance_def Let_def)
  show "fd_in_use (g_fd_table (advance h k c s) ! k)"
    using k assms(3) by (simp add: advance_def Let_def set_fd_def set_sysfile_def)
qed

lemma write_target_tabs: "write_target fb off s = Some x \<Longrightarrow> tabs (snd x) = tabs s"
proof -
  have "ensures (\<lambda>x. tabs (snd x) = tabs s) (write_target fb off s)"
    by (auto simp: write_target_def split: option.split dest!: allocate_tabs fat_set_tabs)
  then show "write_target fb off s = Some x \<Longrightarrow> tabs (snd x) = tabs s" by (rule ensuresD)
qed

lemma write_loop_tables_ok:
  assumes "write_loop h k buf n t s = Some x" "tables_ok s" "k < MAX_FD" "fd_in_use (g_fd_table s ! k)"
  shows "tables_ok (snd x)"
proof -
  have "tables_ok s \<longrightarrow> k < MAX_FD \<longrightarrow> fd_in_use (g_fd_table s ! k) \<longrightarrow> tables_ok (snd x)"
    using assms(1)
  proof (rule write_loop.raw_induct [rotated], goal_cases)
    case (1 rec h k buf n t s x)
    have "ensures (\<lambda>x. tables_ok (snd x))
      (if int t < n
       then let fdesc = g_fd_table s ! k; sf = g_sysfile_table s ! fd_sysfile_index fdesc in
         do { (t', s1) \<leftarrow> write_target (sf_first_block sf) (fd_offset fdesc) s;
           case t' of None \<Rightarrow> Some (t, s1)
           | Some (block_num, offset_in_block) \<Rightarrow>
             (case read_block h s1 (unat block_num) of None \<Rightarrow> Some (t, s1)
              | Some block_buf \<Rightarrow>
                let remain = nat (n - int t);
                    chunk = min (g_block_size s1 - offset_in_block) remain;
                    new_buf = pwrite block_buf offset_in_block (pread buf t chunk);
                    w = write_block h new_buf (unat block_num) s1 in
                if \<not> fst w then Some (t, snd w)
                else rec h k buf n (t + chunk) (advance h k chunk (snd w))) }
       else Some (t, s))"
      if ok: "tables_ok s" "k < MAX_FD" "fd_in_use (g_fd_table s ! k)"
    proof -
      have fd: "g_fd_table s1 = g_fd_table s" if "tabs s1 = tabs s" for s1
        using that by (simp add: tabs_def)
      have rec: "ensures (\<lambda>x. tables_ok (snd x)) (rec h k buf n t' (advance h k c (snd (write_block h nb b s1))))"
        if same: "tabs s1 = tabs s" for t' c nb b s1
      proof (rule ensuresI)
        let ?w = "snd (write_block h nb b s1)"
        have w: "tabs ?w = tabs s" using same by simp
        have "tables_ok (advance h k c ?w)" "fd_in_use (g_fd_table (advance h k c ?w) ! k)"
          using advance_tables_ok [of ?w k h c] ok tables_ok_tabs [OF w] fd [OF w] by auto
        then show "rec h k buf n t' (advance h k c ?w) = Some x \<Longrightarrow> tables_ok (snd x)" for x
          using 1(1) ok(2) by blast
      qed
      show ?thesis
        using ok(1) rec tables_ok_tabs write_target_tabs
        by (fastforce simp: Let_def tables_ok_def split: option.split)
    qed
    note body = this
    show ?case
    proof (intro impI)
      assume ok: "tables_ok s" "k < MAX_FD" "fd_in_use (g_fd_table s ! k)"
      show "tables_ok (snd x)" by (rule ensuresD [OF body [OF ok] 1(2)])
    qed
  qed
  then show ?thesis using assms(2-4) by blast
qed

lemma write_tables_ok:
  assumes "tables_ok s"
  shows "ensures (\<lambda>x. tables_ok (snd x)) (k_write h fd buf n s)"
  using assms bad_fdD [of fd s]
  by (auto simp: k_write_def dest!: write_loop_tables_ok)

lemma counts_positive:
  assumes "tables_ok s"
  shows "\<forall>f\<in>set (g_sysfile_table s). sf_in_use f \<longrightarrow> 1 \<le> sf_ref_count f"
proof
  fix f assume "f \<in> set (g_sysfile_table s)"
  then obtain i where "i < MAX_SYSTEM_FILES" "f = g_sysfile_table s ! i"
    using tables_okD(2) [OF assms] by (auto simp: in_set_conv_nth)
  then show "sf_in_use f \<longrightarrow> 1 \<le> sf_ref_count f"
    using assms by (auto simp: tables_ok_def tabs_def counts_def)
qed

lemma busy_check_tables:
  assumes "tables_ok s"
  shows "busy_check n s = (open_inode s n, s)"
  using busy_check_open [OF _ counts_positive [OF assms]] busy_check_closed
  by (cases "open_inode s n") auto

lemma unlink_tables_ok:
  assumes "tables_ok s"
  shows "ensures (\<lambda>x. tables_ok (snd x)) (k_unlink h p s)"
  using assms tables_ok_step(4,6)
  by (auto simp: k_unlink_def busy_check_tables [OF assms] Let_def split: option.split)

lemma other_tables_ok:
  assumes "tables_ok s"
  shows "ensures (\<lambda>x. tables_ok (snd x)) (k_touch h p s)"
    "ensures (\<lambda>x. tables_ok (snd x)) (k_chmod h p perm s)"
    "ensures (\<lambda>x. tables_ok (snd x)) (k_chdir h p s)"
    "ensures (\<lambda>x. tables_ok (snd x)) (k_symlink h q p s)"
    "ensures (\<lambda>x. tables_ok (snd x)) (k_mkdir h p s)"
    "ensures (\<lambda>x. tables_ok (snd x)) (k_rmdir h p s)"
  using assms touch_tabs chmod_tabs chdir_tabs symlink_tabs mkdir_tabs rmdir_tabs
  by (auto intro!: ensuresI simp: tables_ok_def)

lemma ensures_intros:
  "(c \<Longrightarrow> ensures P a) \<Longrightarrow> (\<not> c \<Longrightarrow> ensures P b) \<Longrightarrow> ensures P (if c then a else b)"
  "(\<And>x. m = Some x \<Longrightarrow> ensures P (f x)) \<Longrightarrow> ensures P (Option.bind m f)"
  "(\<And>u v. p = (u, v) \<Longrightarrow> ensures P (g u v)) \<Longrightarrow> ensures P (case p of (u, v) \<Rightarrow> g u v)"
  "P y \<Longrightarrow> ensures P (Some y)"
  by (auto simp: ensures_def bind_Some split: prod.split_asm)

lemma rename_tables_ok:
  assumes "tables_ok s"
  shows "ensures (\<lambda>x. tables_ok (snd x)) (k_rename h p q s)"
proof -
  have clear: "ensures (\<lambda>x. tables_ok (snd x)) (rename_clear h np old new s)" for np old new
    using assms unlink_tables_ok [OF assms] other_tables_ok(6) [OF assms]
    by (auto simp: rename_clear_def)
  have move: "tables_ok s1 \<Longrightarrow> ensures (\<lambda>x. tables_ok (snd x)) (rename_move h nf old new s1)" for nf old new s1
    by (auto intro!: ensuresI simp: tables_ok_def dest!: rename_move_tabs)
  show ?thesis
    unfolding k_rename_def Let_def
    by (intro ensures_intros) (auto simp: assms dest!: ensuresD [OF clear] intro!: move)
qed

lemma fresh_counts: "counts (\<lambda>_. 0) (replicate MAX_FD zero_fd, replicate MAX_SYSTEM_FILES zero_sysfile)"
  by (auto simp: counts_def fd_refs_def refers_def zero_fd_def zero_sysfile_def)

lemma init_tables_ok: "tables_ok init_fs"
  using fresh_counts by (simp add: tables_ok_def tabs_def init_fs_def)

lemma mount_tables_ok:
  assumes "tables_ok s"
  shows "tables_ok (snd (k_mount h nm s))" "tables_ok (snd (k_mkfs h nm nb cfg s))"
proof -
  have "tables_ok (snd (mount_map h w s1))" if "tabs s1 = tabs s" for w s1
    using assms that fresh_counts
    by (auto simp: mount_map_def Let_def tables_ok_def) (simp add: tabs_def)
  then show "tables_ok (snd (k_mount h nm s))"
    using assms by (auto simp: k_mount_def Let_def tables_ok_def split: option.split)
  show "tables_ok (snd (k_mkfs h nm nb cfg s))"
    using assms by (auto simp: k_mkfs_def Let_def put_file_def tables_ok_def)
qed

lemma close_all_tables_ok:
  assumes "tables_ok s"
  shows "tables_ok (close_all h s)"
proof -
  have "tables_ok (fold (\<lambda>fd s. if fd_in_use (g_fd_table s ! fd) then snd (k_close h (int fd) s) else s) fds s)"
    if "tables_ok s" for fds s
    using that by (induction fds arbitrary: s) (simp_all add: close_tables_ok)
  then show ?thesis using assms by (simp add: close_all_def)
qed

lemma close_image_tabs [simp]: "tabs (close_image s) = tabs s"
  by (simp add: close_image_def put_file_def split: option.split)

lemma unmount_tables_ok:
  assumes "tables_ok s"
  shows "ensures (\<lambda>x. tables_ok (snd x)) (k_unmount h s)"
proof -
  have c: "counts (\<lambda>_. 0) (tabs (close_all h s))"
    using close_all_tables_ok [OF assms] by (simp add: tables_ok_def)
  show ?thesis
    using assms c by (auto simp: k_unmount_def Let_def tables_ok_def)
qed

subsection \<open>The step relation of the file system\<close>

inductive fs_step :: "fs \<Rightarrow> fs \<Rightarrow> bool" where
  step_mkfs: "fs_step s (snd (k_mkfs h nm nb cfg s))"
| step_mount: "fs_step s (snd (k_mount h nm s))"
| step_unmount: "k_unmount h s = Some (r, s') \<Longrightarrow> fs_step s s'"
| step_open: "k_open h p mode s = Some (fd, s') \<Longrightarrow> fs_step s s'"
| step_close: "fs_step s (snd (k_close h fd s))"
| step_read: "k_read h fd n s = Some (m, data, s') \<Longrightarrow> fs_step s s'"
| step_write: "k_write h fd buf n s = Some (m, s') \<Longrightarrow> fs_step s s'"
| step_lseek: "fs_step s (snd (k_lseek fd off whence s))"
| step_unlink: "k_unlink h p s = Some (r, s') \<Longrightarrow> fs_step s s'"
| step_touch: "k_touch h p s = Some (r, s') \<Longrightarrow> fs_step s s'"
| step_chmod: "k_chmod h p perm s = Some (r, s') \<Longrightarrow> fs_step s s'"
| step_chdir: "k_chdir h p s = Some (r, s') \<Longrightarrow> fs_step s s'"
| step_symlink: "k_symlink h q p s = Some (r, s') \<Longrightarrow> fs_step s s'"
| step_mkdir: "k_mkdir h p s = Some (r, s') \<Longrightarrow> fs_step s s'"
| step_rmdir: "k_rmdir h p s = Some (r, s') \<Longrightarrow> fs_step s s'"
| step_rename: "k_rename h p q s = Some (r, s') \<Longrightarrow> fs_step s s'"

inductive fs_reach :: "fs \<Rightarrow> bool" where
  reach_init: "fs_reach init_fs"
| reach_step: "fs_reach s \<Longrightarrow> fs_step s s' \<Longrightarrow> fs_reach s'"

inductive_cases fs_step_cases: "fs_step s s'"

lemma step_tables_ok:
  assumes "fs_step s s'" "tables_ok s"
  shows "tables_ok s'"
  using assms(1)
proof cases
  case step_rename
  then show ?thesis using ensuresD [OF rename_tables_ok [OF assms(2)]] by force
next
  case step_open
  then show ?thesis using ensuresD [OF open_tables_ok [OF assms(2)]] by force
next
  case step_read
  then show ?thesis using ensuresD [OF read_tables_ok [OF assms(2)]] by force
next
  case step_write
  then show ?thesis using ensuresD [OF write_tables_ok [OF assms(2)]] by force
next
  case step_unlink
  then show ?thesis using ensuresD [OF unlink_tables_ok [OF assms(2)]] by force
next
  case step_unmount
  then show ?thesis using ensuresD [OF unmount_tables_ok [OF assms(2)]] by force
next
  case step_touch
  then show ?thesis using ensuresD [OF other_tables_ok(1) [OF assms(2)]] by force
next
  case step_chmod
  then show ?thesis using ensuresD [OF other_tables_ok(2) [OF assms(2)]] by force
next
  case step_chdir
  then show ?thesis using ensuresD [OF other_tables_ok(3) [OF assms(2)]] by force
next
  case step_symlink
  then show ?thesis using ensuresD [OF other_tables_ok(4) [OF assms(2)]] by force
next
  case step_mkdir
  then show ?thesis using ensuresD [OF other_tables_ok(5) [OF assms(2)]] by force
next
  case step_rmdir
  then show ?thesis using ensuresD [OF other_tables_ok(6) [OF assms(2)]] by force
qed (use mount_tables_ok [OF assms(2)] close_tables_ok [OF assms(2)] lseek_tables_ok [OF assms(2)] in simp_all)

lemma reach_tables_ok: "fs_reach s \<Longrightarrow> tables_ok s"
  by (induction rule: fs_reach.induct) (auto intro: init_tables_ok step_tables_ok)

end
