(* ===== verification/Examples.thy ===== *)
theory Examples
  imports TableInv
begin

text \<open>
  Concrete states for the witnesses of the file system's properties: a fresh image with one FAT block
  of 256 bytes on which one file was made with \<open>k_touch\<close> or with \<open>k_open\<close>.
\<close>

subsection \<open>One file on the fresh image\<close>

text \<open>The first file gets block 2 and the first slot of the root directory.\<close>

definition file_added :: "string \<Rightarrow> fs \<Rightarrow> fs \<Rightarrow> bool" where
  "file_added p s1 s2 \<longleftrightarrow>
     allocate_free_block fresh_fs = Some (Some 2, s1) \<and>
     add_dirent_to_dir (host_at 7) 1 (new_file_entry (host_at 7) p 2) s1 = Some (PennFatErr_OK, s2) \<and>
     same_but_img fresh_fs s2 \<and> cwd_dir (host_at 7) s2 [1] \<and>
     find_chain (host_at 7) s2 p [1] = Some (new_file_entry (host_at 7) p 2, 1, 0) \<and>
     dir_map (host_at 7) s2 [1] = [p \<mapsto> new_file_entry (host_at 7) p 2] \<and>
     fat_list s2 = (mkfs_fat_array 1 0 128)[2 := FAT_EOC] \<and> fat_closed (fat_list s2)"

lemma fresh_allocates: "\<exists>s1. allocate_free_block fresh_fs = Some (Some 2, s1)"
proof -
  obtain r s1 where a: "allocate_free_block fresh_fs = Some (r, s1)"
    using allocate_total [OF geom_fresh_fs] by auto
  have two: "fat_list fresh_fs ! 2 = FAT_FREE"
    by (simp add: fresh_fs_fat mkfs_fat_array_def)
  show ?thesis
  proof (cases r)
    case None
    then show ?thesis using allocate_None(2) [OF geom_fresh_fs, of s1 2] a two by (simp add: fresh_fs_fat)
  next
    case (Some n)
    have "\<not> 2 < n" using allocate_Some(4) [OF geom_fresh_fs a [unfolded Some], of 2] two by auto
    then show ?thesis using allocate_Some(1) [OF geom_fresh_fs a [unfolded Some]] a Some by auto
  qed
qed

lemma fresh_file_added:
  assumes "plain_name p"
  shows "\<exists>s1 s2. file_added p s1 s2"
proof -
  let ?h = "host_at 7" and ?e = "new_file_entry (host_at 7) p 2"
  obtain s1 where a: "allocate_free_block fresh_fs = Some (Some 2, s1)" using fresh_allocates by auto
  note ef = allocate_effect [OF geom_fresh_fs a]
  have d0: "cwd_dir ?h fresh_fs [1]" "dir_map ?h fresh_fs [1] = Map.empty" by simp_all
  note s = cwd_dirD [OF d0(1)]
  have cwd: "g_cwd_block fresh_fs = 1" by (simp add: fresh_fs_def mounted_fresh_def made_fs_def put_file_def init_fs_def)
  note d1 = dir_ok_alloc [OF s(2,3,4) a]
  have fb: "fat_blocks s1 = 1" using same_but_img_fields(11) [OF ef(4)] s(3) by simp
  have e: "live ?e" "dname ?e = p" using live_named [OF assms] by auto
  have free: "slot_free (block_entries ?h s1 1 ! 0)"
  proof -
    have "read_block ?h fresh_fs 1 = Some (replicate (g_block_size fresh_fs) NUL)"
      using fresh_block [of ?h 1 0 1 "''d''" made_fs] fat_blocks_inside(1) [OF geom_fresh_fs] s(3)
      by (simp add: fresh_fs_def) (simp add: mounted_fresh_def)
    then have "block_entries ?h s1 1 = replicate (entries_per_block fresh_fs) zero_dirent"
      using ef(5) [of 1 ?h] s(3) dir_entries_zeros [OF geom_fresh_fs]
        dir_entries_same [OF same_but_img_fields(3) [OF ef(4)]] by (simp add: block_entries_def)
    then show ?thesis using entries_per_block_double(2) [OF geom_fresh_fs] by (simp add: slot_free_def)
  qed
  have "0 < entries_per_block s1" using entries_per_block_double(2) [OF ef(1)] by simp
  then have "find_idx slot_free (block_entries ?h s1 1) = Some 0"
    using free by (simp add: find_idx_Some)
  then have sl: "slot_chain ?h s1 [1] = Some (1, 0)" by simp
  obtain s2 where s2: "add_dirent_to_dir ?h 1 ?e s1 = Some (PennFatErr_OK, s2)" "entry_changed ?h s1 1 0 ?e s2"
    "dir_ok ?h s2 1 [1]" "dir_map ?h s2 [1] = [p \<mapsto> ?e]"
    using dir_entry_added_in_chain [OF good_host_at ef(1) fb _ wf_new_file e(1) _ sl, where d = 1] d1 d0(2) e(2) cwd
    by auto
  have same: "same_but_img fresh_fs s2" "geom s2"
    using same_but_img_trans [OF ef(4)] s2(2) by (auto simp: entry_changed_def)
  have fat: "fat_list s2 = (mkfs_fat_array 1 0 128)[2 := FAT_EOC]"
    using s2(2) fb by (simp add: entry_changed_def ef(3) fresh_fs_fat)
  have found: "find_chain ?h s2 p [1] = Some (?e, 1, 0)"
  proof -
    have "block_entries ?h s2 1 ! 0 = ?e"
      using s2(2) \<open>0 < entries_per_block s1\<close> by (simp add: entry_changed_def)
    then obtain i where i: "scan_name p (block_entries ?h s2 1) = Some i"
      using fun_cong [OF s2(4), of p] by (auto simp: dir_map_def split: option.split_asm)
    have "i = 0"
      using i \<open>block_entries ?h s2 1 ! 0 = ?e\<close> e \<open>0 < entries_per_block s1\<close>
        length_block_entries [of ?h s2 1] entries_per_block_double(2) [OF same(2)]
      by (cases "block_entries ?h s2 1") (auto simp: live_def)
    then show ?thesis using i \<open>block_entries ?h s2 1 ! 0 = ?e\<close> by simp
  qed
  have "fat_closed (fat_list s2)"
    using fat_closed_set [OF fat_closed_fresh, of FAT_EOC 2] by (simp add: fat fresh_fs_fat)
  then have "file_added p s1 s2"
    using a s2 same cwd_dir_changed [OF d0(1) same] cwd fat found by (simp add: file_added_def)
  then show ?thesis by blast
qed

definition touched_fs :: fs where
  "touched_fs = snd (the (k_touch (host_at 7) (Some ''f'') fresh_fs))"

lemma plain_f [simp]: "plain_name ''f''" "plain_name ''g''"
  by (simp_all add: plain_name_def)

lemma fresh_fs_fields [simp]:
  "g_mounted fresh_fs" "g_cwd_block fresh_fs = 1"
  "g_fd_table fresh_fs = replicate MAX_FD zero_fd"
  "g_sysfile_table fresh_fs = replicate MAX_SYSTEM_FILES zero_sysfile"
  "g_root_dir fresh_fs = replicate 256 NUL" "g_fs_fd fresh_fs = Some ''d''"
  by (simp_all add: fresh_fs_def mounted_fresh_def made_fs_def put_file_def init_fs_def block_sizes_def)

lemma resolve_fresh:
  "plain_name p \<Longrightarrow> resolve_path (host_at 7) fresh_fs p = Some (PennFatErr_OK, zero_resolved\<lparr>r_parent := 1\<rparr>)"
  using resolve_plain_absent [of "host_at 7" fresh_fs p "[1]"] cwd_dirD [of "host_at 7" fresh_fs "[1]"] by simp

lemma touched_added: "\<exists>s1. file_added ''f'' s1 touched_fs"
proof -
  obtain s1 s2 where fa: "file_added ''f'' s1 s2" using fresh_file_added [of "''f''"] by auto
  have fn: "get_filename_from_path ''f'' = ''f''" using plain_nameD(10) [OF plain_f(1)] .
  have "k_touch (host_at 7) (Some ''f'') fresh_fs = Some (PennFatErr_OK, s2)"
    using fa resolve_fresh [OF plain_f(1)]
    by (simp add: k_touch_def file_added_def fn zero_resolved_def FAT_FREE_def FAT_EOC_def)
  then show ?thesis using fa by (auto simp: touched_fs_def)
qed

lemma touched_fs_facts:
  "cwd_dir (host_at 7) touched_fs [1]"
  "find_chain (host_at 7) touched_fs ''f'' [1] = Some (new_file_entry (host_at 7) ''f'' 2, 1, 0)"
  "dir_map (host_at 7) touched_fs [1] = [''f'' \<mapsto> new_file_entry (host_at 7) ''f'' 2]"
  "fat_list touched_fs = (mkfs_fat_array 1 0 128)[2 := FAT_EOC]" "fat_closed (fat_list touched_fs)"
  "same_but_img fresh_fs touched_fs"
  using touched_added by (auto simp: file_added_def)

definition opened_fs :: fs where
  "opened_fs = snd (the (k_open (host_at 7) (Some ''f'') 9 fresh_fs))"

lemma opened_fs_facts:
  "\<exists>s1 s2. file_added ''f'' s1 s2 \<and>
    k_open (host_at 7) (Some ''f'') 9 fresh_fs = Some (0, opened_fs) \<and>
    opened_fs = s2\<lparr>
      g_sysfile_table := (replicate MAX_SYSTEM_FILES zero_sysfile)[0 :=
        \<lparr>sf_ref_count = 1, sf_in_use = True, sf_first_block = 2, sf_size = 0, sf_mtime = 7,
         sf_dir_index = pseudo_inode 1 0\<rparr>],
      g_fd_table := (replicate MAX_FD zero_fd)[0 :=
        \<lparr>fd_in_use = True, fd_sysfile_index = 0, fd_mode = 9, fd_offset = 0\<rparr>]\<rparr>"
proof -
  obtain s1 s2 where fa: "file_added ''f'' s1 s2" using fresh_file_added [of "''f''"] by auto
  have fn: "get_filename_from_path ''f'' = ''f''" using plain_nameD(10) [OF plain_f(1)] .
  have mode: "HAS_CREATE 9" "is_valid_mode 9" "HAS_APPEND 9" by (simp_all add: mode_defs)
  have same: "same_but_img fresh_fs s2" using fa by (simp add: file_added_def)
  note f = same_but_img_fields [OF same]
  have cwd: "cwd_dir (host_at 7) s2 [1]" using fa by (simp add: file_added_def)
  have res: "resolve_path (host_at 7) s2 ''f'' =
      Some (PennFatErr_OK, entry_resolved 1 (new_file_entry (host_at 7) ''f'' 2, 1, 0))"
    using resolve_plain_found [of "host_at 7" s2 "''f''" "[1]"] cwd_dirD [OF cwd] fa f(9)
    by (simp add: file_added_def new_file_entry_def)
  have slot: "find_idx (\<lambda>f. \<not> sf_in_use f) (g_sysfile_table s2) = Some 0"
    "find_idx (\<lambda>f. \<not> fd_in_use f) (g_fd_table s2) = Some 0"
    by (simp_all add: f MAX_SYSTEM_FILES_def MAX_FD_def zero_sysfile_def zero_fd_def find_idx_Some)
  have "k_open (host_at 7) (Some ''f'') 9 fresh_fs = Some (0, s2\<lparr>
      g_sysfile_table := (replicate MAX_SYSTEM_FILES zero_sysfile)[0 :=
        \<lparr>sf_ref_count = 1, sf_in_use = True, sf_first_block = 2, sf_size = 0, sf_mtime = 7,
         sf_dir_index = pseudo_inode 1 0\<rparr>],
      g_fd_table := (replicate MAX_FD zero_fd)[0 :=
        \<lparr>fd_in_use = True, fd_sysfile_index = 0, fd_mode = 9, fd_offset = 0\<rparr>]\<rparr>)"
    using fa resolve_fresh [OF plain_f(1)] mode res slot
    by (simp add: k_open_def k_open_create_def k_open_enter_new_def file_added_def fn zero_resolved_def
        FAT_FREE_def FAT_EOC_def entry_resolved_def create_sysfile_entry_from_resolved_def assign_fd_def
        set_fd_def set_sysfile_def f new_file_entry_def zero_dirent_def)
  then show ?thesis using fa by (auto simp: opened_fs_def)
qed

end
