(* ===== verification/FsTheorems.thy ===== *)
theory FsTheorems
  imports Examples
begin

text \<open>
  The properties of the file system, each with an application to a concrete state.
\<close>

lemma opened_fs_open: "open_file opened_fs 0 [2]" and
  opened_fs_fd: "fd_mode (g_fd_table opened_fs ! 0) = 9" "fd_offset (g_fd_table opened_fs ! 0) = 0"
    "sf_size (fd_file opened_fs 0) = 0" and
  opened_fs_used: "sf_in_use (g_sysfile_table opened_fs ! 0)" and
  opened_fs_sizes: "fat_entries opened_fs = 128" "fat_blocks opened_fs = 1" "g_block_size opened_fs = 256"
proof -
  obtain s1 s2 where fa: "file_added ''f'' s1 s2" and o: "opened_fs = s2\<lparr>
      g_sysfile_table := (replicate MAX_SYSTEM_FILES zero_sysfile)[0 :=
        \<lparr>sf_ref_count = 1, sf_in_use = True, sf_first_block = 2, sf_size = 0, sf_mtime = 7,
         sf_dir_index = pseudo_inode 1 0\<rparr>],
      g_fd_table := (replicate MAX_FD zero_fd)[0 :=
        \<lparr>fd_in_use = True, fd_sysfile_index = 0, fd_mode = 9, fd_offset = 0\<rparr>]\<rparr>"
    using opened_fs_facts by auto
  have same: "same_but_img fresh_fs s2" "cwd_dir (host_at 7) s2 [1]"
    "fat_list s2 = (mkfs_fat_array 1 0 128)[2 := FAT_EOC]" using fa by (simp_all add: file_added_def)
  note f = same_but_img_fields [OF same(1)] and c = cwd_dirD [OF same(2)]
  have fe: "fat_entries s2 = 128" "g_block_size s2 = 256"
    using f fresh_fs_fat(1) by (simp_all add: fresh_fs_def mounted_fresh_def block_sizes_def)
  have ib: "image_blocks s2 = 128" using image_blocks_eq [OF c(2)] fe c(3) by simp
  have pos: "0 < MAX_FD" "0 < MAX_SYSTEM_FILES" by (simp_all add: MAX_FD_def MAX_SYSTEM_FILES_def)
  show "open_file opened_fs 0 [2]"
    using c(1,2,3) fe ib pos same(3)
    by (simp add: open_file_def o fd_file_def file_chain_def chain_end_def FAT_EOC_def FAT_FREE_def)
  show "fd_mode (g_fd_table opened_fs ! 0) = 9" "fd_offset (g_fd_table opened_fs ! 0) = 0"
    "sf_size (fd_file opened_fs 0) = 0"
    using pos by (simp_all add: o fd_file_def)
  show "sf_in_use (g_sysfile_table opened_fs ! 0)" using pos by (simp add: o)
  show "fat_entries opened_fs = 128" "fat_blocks opened_fs = 1" "g_block_size opened_fs = 256"
    using fe c(3) by (simp_all add: o)
qed

lemma in_use_refs:
  assumes "tables_ok s" "i < MAX_SYSTEM_FILES"
  shows "sf_in_use (g_sysfile_table s ! i) \<longleftrightarrow> 0 < fd_refs (g_fd_table s) i"
  using assms by (auto simp: tables_ok_def tabs_def counts_def split: if_split_asm)

section \<open>Properties of the file system\<close>

subsection \<open>Tables\<close>

text \<open>
  C3 (invariant). In every state that any sequence of file-system calls reaches from the initial one,
  with any host failures, every used entry of the system-wide file table counts
  exactly the descriptors that refer to it, no descriptor refers to an unused entry, and the tables
  keep their sizes.
\<close>

theorem reference_counts_exact:
  assumes "fs_reach s"
  shows "length (g_fd_table s) = MAX_FD \<and> length (g_sysfile_table s) = MAX_SYSTEM_FILES \<and>
    (\<forall>k<MAX_FD. fd_in_use (g_fd_table s ! k) \<longrightarrow> fd_sysfile_index (g_fd_table s ! k) < MAX_SYSTEM_FILES) \<and>
    (\<forall>i<MAX_SYSTEM_FILES. let r = card {k. k < MAX_FD \<and> fd_in_use (g_fd_table s ! k) \<and> fd_sysfile_index (g_fd_table s ! k) = i}
      in (sf_in_use (g_sysfile_table s ! i) \<longleftrightarrow> 0 < r) \<and>
         (sf_in_use (g_sysfile_table s ! i) \<longrightarrow> sf_ref_count (g_sysfile_table s ! i) = int r))"
proof -
  note ok = reach_tables_ok [OF assms]
  have len: "length (g_fd_table s) = MAX_FD" "length (g_sysfile_table s) = MAX_SYSTEM_FILES"
    using tables_okD [OF ok] by auto
  have "card {k. k < MAX_FD \<and> fd_in_use (g_fd_table s ! k) \<and> fd_sysfile_index (g_fd_table s ! k) = i} =
      fd_refs (g_fd_table s) i" for i
    by (simp add: fd_refs_def refers_def length_filter_conv_card len(1))
  then show ?thesis
    using ok len nth_mem [of _ "g_fd_table s"]
    by (auto simp: tables_ok_def tabs_def counts_def Let_def split: if_split_asm)
qed

lemma fs_reach_fresh: "fs_reach fresh_fs"
proof -
  have "fs_reach (snd (k_mkfs (host_at 7) ''d'' 1 0 init_fs))"
    by (rule reach_step [OF reach_init step_mkfs])
  then have "fs_reach made_fs" by (simp add: fresh_fs_made)
  then have "fs_reach (snd (k_mount (host_at 7) ''d'' made_fs))" by (rule reach_step [OF _ step_mount])
  then show ?thesis by (simp add: fresh_fs_made)
qed

lemma fs_reach_opened: "fs_reach opened_fs"
  using opened_fs_facts by (auto intro: reach_step [OF fs_reach_fresh step_open])

theorem reference_counts_exact_witness:
  "sf_ref_count (g_sysfile_table opened_fs ! 0) =
    int (card {k. k < MAX_FD \<and> fd_in_use (g_fd_table opened_fs ! k) \<and> fd_sysfile_index (g_fd_table opened_fs ! k) = 0})"
  using reference_counts_exact [OF fs_reach_opened] opened_fs_used by (auto simp: Let_def MAX_SYSTEM_FILES_def)

text \<open>
  The guard \<open>bad_fd\<close> of the descriptor operations is enough: in every reachable state a
  descriptor that passes it refers to an entry in use inside of the system-wide file table, so
  \<open>k_read\<close>, \<open>k_write\<close>, \<open>k_lseek\<close> and \<open>k_close\<close> never index the table out of bounds.
\<close>

theorem checked_descriptor_refers:
  assumes "fs_reach s" "\<not> bad_fd fd s"
  shows "fd_sysfile_index (g_fd_table s ! nat fd) < MAX_SYSTEM_FILES \<and>
    sf_in_use (g_sysfile_table s ! fd_sysfile_index (g_fd_table s ! nat fd))"
proof -
  note ok = reach_tables_ok [OF assms(1)]
  let ?i = "fd_sysfile_index (g_fd_table s ! nat fd)"
  have k: "nat fd < length (g_fd_table s)" "fd_in_use (g_fd_table s ! nat fd)"
    using tables_okD(3) [OF ok assms(2)] by auto
  have "g_fd_table s ! nat fd \<in> set (filter (refers ?i) (g_fd_table s))"
    using k by (simp add: refers_def)
  then have "0 < fd_refs (g_fd_table s) ?i"
    unfolding fd_refs_def by (cases "filter (refers ?i) (g_fd_table s)") auto
  moreover have "?i < MAX_SYSTEM_FILES"
    using fd_index_bound [OF ok _ k(2)] bad_fdD [OF assms(2)] by simp
  ultimately show ?thesis using in_use_refs [OF ok] by simp
qed

theorem checked_descriptor_refers_witness:
  "\<not> bad_fd 0 opened_fs \<and> sf_in_use (g_sysfile_table opened_fs ! fd_sysfile_index (g_fd_table opened_fs ! 0))"
  using checked_descriptor_refers [OF fs_reach_opened, of 0] open_fileD(3) [OF opened_fs_open] by simp

subsection \<open>Files\<close>

text \<open>
  C4 (roundtrip). What \<open>k_write\<close> stored is what \<open>k_read\<close> returns after \<open>k_lseek\<close> back to the
  old offset, for any data that fits into the blocks the file has and a descriptor whose mode
  forbids neither (the kernel refuses \<open>k_read\<close> on \<open>F_WRITE\<close> and \<open>k_write\<close> on \<open>F_READ\<close> descriptors).
\<close>

theorem write_lseek_read:
  assumes "good_host h" "open_file s fd xs" "\<not> HAS_READ (fd_mode (g_fd_table s ! fd))"
    "\<not> HAS_WRITE (fd_mode (g_fd_table s ! fd))" "fat_entries s < 0x10000 - fat_blocks s" "data \<noteq> []"
    "unat (fd_offset (g_fd_table s ! fd)) + length data \<le> length xs * g_block_size s"
  shows "\<exists>s1 s2 s3. k_write h (int fd) data (int (length data)) s = Some (int (length data), s1) \<and>
    k_lseek (int fd) (int (unat (fd_offset (g_fd_table s ! fd)))) F_SEEK_SET s1 =
      (int (unat (fd_offset (g_fd_table s ! fd))), s2) \<and>
    k_read h (int fd) (int (length data)) s2 = Some (int (length data), data, s3)"
  using assms by (rule write_seek_read)

theorem write_lseek_read_witness:
  "\<exists>s1 s2 s3. k_write (host_at 7) 0 ''abc'' 3 opened_fs = Some (3, s1) \<and>
    k_lseek 0 0 F_SEEK_SET s1 = (0, s2) \<and> k_read (host_at 7) 0 3 s2 = Some (3, ''abc'', s3)"
  using write_lseek_read [of "host_at 7" opened_fs 0 "[2]" "''abc''"] opened_fs_open
  by (simp add: opened_fs_fd opened_fs_sizes mode_defs)

text \<open>
  \<open>k_write\<close> stores the bytes up to the end of the last allocated block at the
  descriptor's offset, returns their number, moves the offset behind them and sets the size and the
  time if the file grew; the FAT, every other block, every other table entry and every other field
  are as before. It does not allocate a block at the end of the chain: a longer write is cut off
  there, because the walk reports the end mark as a block.
\<close>

theorem k_write_stores:
  assumes "good_host h" "open_file s fd xs" "\<not> HAS_READ (fd_mode (g_fd_table s ! fd))"
    "fat_entries s < 0x10000 - fat_blocks s" "0 \<le> n" "nat n \<le> length buf"
    "unat (fd_offset (g_fd_table s ! fd)) \<le> length xs * g_block_size s"
  shows "let m = min (nat n) (length xs * g_block_size s - unat (fd_offset (g_fd_table s ! fd))) in
    \<exists>s'. k_write h (int fd) buf n s = Some (int m, s') \<and> wrote h fd xs (take m buf) s s'"
  using write_open_file [OF assms] by (simp add: Let_def)

theorem k_write_stores_witness:
  "\<exists>s'. k_write (host_at 7) 0 (replicate 600 CHR ''x'') 600 opened_fs = Some (256, s') \<and>
    wrote (host_at 7) 0 [2] (replicate 256 CHR ''x'') opened_fs s'"
  using k_write_stores [of "host_at 7" opened_fs 0 "[2]" 600 "replicate 600 CHR ''x''"] opened_fs_open
  by (simp add: opened_fs_fd opened_fs_sizes mode_defs Let_def take_replicate)

text \<open>
  \<open>k_read\<close> returns the bytes of the file from the offset on, at most up to its
  size, and changes nothing but the descriptor's offset.
\<close>

theorem k_read_returns:
  assumes "good_host h" "open_file s fd xs" "\<not> HAS_WRITE (fd_mode (g_fd_table s ! fd))" "0 \<le> n"
  shows "let off = fd_offset (g_fd_table s ! fd);
             m = min (nat n) (unat (sf_size (fd_file s fd)) - unat off) in
    k_read h (int fd) n s = Some (int m, pread (file_bytes h s xs) (unat off) m,
      set_fd fd ((g_fd_table s ! fd)\<lparr>fd_offset := off + of_nat m\<rparr>) s)"
  using read_open_file [OF assms] by (simp add: Let_def)

theorem k_read_returns_witness:
  "\<exists>s'. k_read (host_at 7) 0 5 opened_fs = Some (0, [], s')"
  using k_read_returns [of "host_at 7" opened_fs 0 "[2]" 5] opened_fs_open
  by (simp add: opened_fs_fd mode_defs Let_def pread_def)

subsection \<open>Names\<close>

text \<open>
  C6 (functional). Seen as a map from names to entries, \<open>k_touch\<close> of a name that is not in the
  working directory adds exactly that name, with an empty regular file whose first block was free;
  or it reports \<open>NOSPACE\<close> and leaves the map and the FAT as they were, and then fewer than two blocks
  were free. Nothing but the image changes.
\<close>

theorem k_touch_new_name:
  assumes "good_host h" "cwd_dir h s bs" "plain_name p" "dir_map h s bs p = None"
  shows "\<exists>err s'. k_touch h (Some p) s = Some (err, s') \<and> same_but_img s s' \<and>
    (err = PennFatErr_OK \<and>
       (\<exists>n bs'. 2 \<le> n \<and> n < fat_entries s \<and> fat_list s ! n = FAT_FREE \<and> cwd_dir h s' bs' \<and>
         dir_map h s' bs' = (dir_map h s bs)(p \<mapsto> new_file_entry h p n)) \<or>
     err = PennFatErr_NOSPACE \<and> cwd_dir h s' bs \<and> dir_map h s' bs = dir_map h s bs \<and>
       fat_list s' = fat_list s \<and> \<not> two_free s)"
  using assms by (rule touch_new)

lemma touched_two_free: "two_free touched_fs"
proof -
  have "fat_entries touched_fs = 128"
    using same_but_img_fields(12) [OF touched_fs_facts(6)] fresh_fs_fat(1) by simp
  then show ?thesis
    unfolding two_free_def
    by (intro exI [of _ 3] exI [of _ 4]) (simp add: touched_fs_facts(4) mkfs_fat_array_def)
qed

theorem k_touch_new_name_witness:
  "\<exists>s' n bs'. k_touch (host_at 9) (Some ''g'') touched_fs = Some (PennFatErr_OK, s') \<and>
    dir_map (host_at 9) s' bs' ''g'' = Some (new_file_entry (host_at 9) ''g'' n) \<and>
    dir_map (host_at 9) s' bs' ''f'' = Some (new_file_entry (host_at 7) ''f'' 2)"
proof -
  have host: "read_block (host_at 9) s b = read_block (host_at 7) s b" for s b
    by (simp add: read_block_def host_at_def)
  have bl: "block_entries (host_at 9) touched_fs b = block_entries (host_at 7) touched_fs b" for b
    by (simp add: block_entries_def host)
  have cwd: "cwd_dir (host_at 9) touched_fs [1]"
    using touched_fs_facts(1) by (simp add: cwd_dir_def dir_ok_def chain_entries_def bl)
  have map: "dir_map (host_at 9) touched_fs [1] = dir_map (host_at 7) touched_fs [1]"
    by (rule ext) (simp add: dir_map_def bl split: option.split)
  have none: "dir_map (host_at 9) touched_fs [1] ''g'' = None" by (simp add: map touched_fs_facts(3))
  obtain s' n bs' where "k_touch (host_at 9) (Some ''g'') touched_fs = Some (PennFatErr_OK, s')"
    "dir_map (host_at 9) s' bs' = [''f'' \<mapsto> new_file_entry (host_at 7) ''f'' 2, ''g'' \<mapsto> new_file_entry (host_at 9) ''g'' n]"
    using k_touch_new_name [OF good_host_at cwd plain_f(2) none] touched_two_free
    by (auto simp: map touched_fs_facts(3))
  then show ?thesis by (intro exI [of _ s'] exI [of _ n] exI [of _ bs']) simp
qed

text \<open>
  C7 (functional). \<open>k_unlink\<close> of a regular file that is not open removes exactly its name from the
  directory map and frees exactly the blocks of its chain.
\<close>

theorem k_unlink_closed_file:
  assumes "good_host h" "cwd_dir h s bs" "plain_name p" "find_chain h s p bs = Some (e, b, i)"
    "de_type e \<noteq> 2" "de_type e \<noteq> 4" "\<not> open_inode s (pseudo_inode b (int i))"
    "fat_closed (fat_list s)" "chain (fat_list s) (de_first_block e) xs" "set xs \<inter> set bs = {}"
  shows "\<exists>s'. k_unlink h (Some p) s = Some (PennFatErr_OK, s') \<and> same_but_img s s' \<and> cwd_dir h s' bs \<and>
    dir_map h s' bs = (dir_map h s bs)(p := None) \<and>
    (\<forall>n < fat_entries s. fat_list s' ! n = (if of_nat n \<in> set xs then FAT_FREE else fat_list s ! n))"
  using unlink_closed [OF assms] by blast

lemma touched_closed: "\<not> open_inode touched_fs n"
  using same_but_img_fields(7) [OF touched_fs_facts(6)]
  by (simp add: open_inode_def) (simp add: zero_sysfile_def)

theorem k_unlink_closed_file_witness:
  "\<exists>s'. k_unlink (host_at 7) (Some ''f'') touched_fs = Some (PennFatErr_OK, s') \<and>
    dir_map (host_at 7) s' [1] ''f'' = None \<and> fat_list s' ! 2 = FAT_FREE"
proof -
  have "chain (fat_list touched_fs) (de_first_block (new_file_entry (host_at 7) ''f'' 2)) [2]"
    by (simp add: touched_fs_facts(4) new_file_entry_def chain_end_def FAT_EOC_def FAT_FREE_def)
  moreover have "fat_entries touched_fs = 128"
    using same_but_img_fields(12) [OF touched_fs_facts(6)] fresh_fs_fat(1) by simp
  ultimately show ?thesis
    using k_unlink_closed_file [OF good_host_at touched_fs_facts(1) plain_f(1) touched_fs_facts(2), of "[2]"]
      touched_closed touched_fs_facts(3,5)
    by (auto simp: new_file_entry_def fun_upd_def)
qed

text \<open>
  C8 (error). In every reachable state \<open>k_unlink\<close> refuses a file that some descriptor has open: it
  returns \<open>BUSY\<close> and the state is as it was.
\<close>

theorem k_unlink_open_file:
  assumes "fs_reach s" "g_mounted s" "p \<notin> {[], ''/'', ''.'', ''..''}"
    "resolve_path h s p = Some (PennFatErr_OK, r)" "r_found r" "\<not> r_is_root r" "de_type (r_entry r) \<noteq> 2"
    "open_inode s (pseudo_inode (r_entry_block r) (r_entry_index r))"
  shows "k_unlink h (Some p) s = Some (PennFatErr_BUSY, s)"
  using assms busy_check_tables [OF reach_tables_ok [OF assms(1)]] by (simp add: k_unlink_def)

theorem k_unlink_open_file_witness:
  "k_unlink (host_at 7) (Some ''f'') opened_fs = Some (PennFatErr_BUSY, opened_fs)"
proof -
  obtain s1 s2 where fa: "file_added ''f'' s1 s2" and o: "opened_fs = s2\<lparr>
      g_sysfile_table := (replicate MAX_SYSTEM_FILES zero_sysfile)[0 :=
        \<lparr>sf_ref_count = 1, sf_in_use = True, sf_first_block = 2, sf_size = 0, sf_mtime = 7,
         sf_dir_index = pseudo_inode 1 0\<rparr>],
      g_fd_table := (replicate MAX_FD zero_fd)[0 :=
        \<lparr>fd_in_use = True, fd_sysfile_index = 0, fd_mode = 9, fd_offset = 0\<rparr>]\<rparr>"
    using opened_fs_facts by auto
  have cwd: "cwd_dir (host_at 7) opened_fs [1]" and
    found: "find_chain (host_at 7) opened_fs ''f'' [1] = Some (new_file_entry (host_at 7) ''f'' 2, 1, 0)"
    using fa by (simp_all add: o file_added_def del: find_chain.simps)
  have "g_cwd_block opened_fs = 1"
    using fa same_but_img_fields(9) [of fresh_fs s2] by (simp add: o file_added_def)
  then have res: "resolve_path (host_at 7) opened_fs ''f'' =
      Some (PennFatErr_OK, entry_resolved 1 (new_file_entry (host_at 7) ''f'' 2, 1, 0))"
    using resolve_plain_found [OF good_host_at cwd_dirD(2) [OF cwd] plain_f(1) cwd_dirD(4) [OF cwd] found]
    by (simp add: new_file_entry_def)
  have "open_inode opened_fs (pseudo_inode 1 0)"
    by (auto simp: open_inode_def o MAX_SYSTEM_FILES_def intro!: bexI set_update_memI)
  then show ?thesis
    using k_unlink_open_file [OF fs_reach_opened cwd_dirD(1) [OF cwd] _ res]
    by (simp add: entry_resolved_def new_file_entry_def)
qed

text \<open>
  C9 (functional). Within the working directory \<open>k_rename\<close> to a new name moves the entry, with its
  blocks, size, type and permissions, from the old name to the new one, and no other name changes;
  or the directory is full, \<open>NOSPACE\<close> is returned and the state is as it was.
\<close>

theorem k_rename_new_name:
  assumes "good_host h" "cwd_dir h s bs" "plain_name p" "plain_name q" "p \<noteq> q"
    "find_chain h s p bs = Some (e, b, i)" "de_type e \<noteq> 4" "dir_map h s bs q = None"
  shows "\<exists>err s' bs'. k_rename h (Some p) (Some q) s = Some (err, s') \<and> same_but_img s s' \<and>
    cwd_dir h s' bs' \<and>
    (err = PennFatErr_OK \<and> dir_map h s' bs' =
       (dir_map h s bs)(q \<mapsto> e\<lparr>de_name := name_field q, de_mtime := h_now h\<rparr>, p := None) \<or>
     err = PennFatErr_NOSPACE \<and> s' = s \<and> bs' = bs \<and>
       (\<forall>i. 2 \<le> i \<and> i < fat_entries s \<longrightarrow> fat_list s ! i \<noteq> FAT_FREE))"
  using assms by (rule rename_new)

theorem k_rename_new_name_witness:
  "\<exists>s' bs'. k_rename (host_at 7) (Some ''f'') (Some ''g'') touched_fs = Some (PennFatErr_OK, s') \<and>
    dir_map (host_at 7) s' bs' = [''g'' \<mapsto> new_file_entry (host_at 7) ''g'' 2]"
proof -
  have e: "(new_file_entry (host_at 7) ''f'' 2)\<lparr>de_name := name_field ''g'', de_mtime := h_now (host_at 7)\<rparr> =
      new_file_entry (host_at 7) ''g'' 2"
    by (simp add: new_file_entry_def)
  have free: "\<not> (\<forall>i. 2 \<le> i \<and> i < fat_entries touched_fs \<longrightarrow> fat_list touched_fs ! i \<noteq> FAT_FREE)"
    using touched_two_free by (auto simp: two_free_def)
  have ty: "de_type (new_file_entry (host_at 7) ''f'' 2) \<noteq> 4" by (simp add: new_file_entry_def)
  have none: "dir_map (host_at 7) touched_fs [1] ''g'' = None" by (simp add: touched_fs_facts(3))
  obtain s' bs' where r: "k_rename (host_at 7) (Some ''f'') (Some ''g'') touched_fs = Some (PennFatErr_OK, s')"
    "dir_map (host_at 7) s' bs' = (dir_map (host_at 7) touched_fs [1])(''g'' \<mapsto>
      new_file_entry (host_at 7) ''g'' 2, ''f'' := None)"
    using k_rename_new_name [OF good_host_at touched_fs_facts(1) plain_f _ touched_fs_facts(2) ty none] free
    by (auto simp only: e)
  have "dir_map (host_at 7) s' bs' = [''g'' \<mapsto> new_file_entry (host_at 7) ''g'' 2]"
    by (rule ext) (simp add: r(2) touched_fs_facts(3))
  then show ?thesis using r(1) by blast
qed

text \<open>
  \<open>k_chmod\<close> to a permission the header accepts changes the permission and the time
  of exactly that entry.
\<close>

theorem k_chmod_changes_permission:
  assumes "good_host h" "cwd_dir h s bs" "plain_name p" "find_chain h s p bs = Some (e, b, i)"
    "de_type e \<noteq> 4" "VALID_PERM perm"
  shows "\<exists>s'. k_chmod h (Some p) perm s = Some (PennFatErr_OK, s') \<and> same_but_img s s' \<and> cwd_dir h s' bs \<and>
    fat_list s' = fat_list s \<and>
    dir_map h s' bs = (dir_map h s bs)(p \<mapsto> e\<lparr>de_perm := perm, de_mtime := h_now h\<rparr>)"
  using assms by (rule chmod_found)

theorem k_chmod_changes_permission_witness:
  "\<exists>s'. k_chmod (host_at 7) (Some ''f'') 5 touched_fs = Some (PennFatErr_OK, s') \<and>
    fat_list s' = fat_list touched_fs \<and>
    map_option de_perm (dir_map (host_at 7) s' [1] ''f'') = Some 5"
proof -
  have ok: "VALID_PERM 5" "de_type (new_file_entry (host_at 7) ''f'' 2) \<noteq> 4"
    by (simp_all add: perm_defs new_file_entry_def)
  show ?thesis
    using k_chmod_changes_permission [OF good_host_at touched_fs_facts(1) plain_f(1) touched_fs_facts(2) ok(2,1)]
    by auto
qed

text \<open>
  C11 (equivalence). \<open>find_entry_in_dir\<close> finds the first live entry of that name in the order in which
  \<open>k_ls\<close> lists them, so a name resolves if and only if it is listed.
\<close>

theorem find_is_lookup_in_listing:
  assumes "good_host h" "cwd_dir h s bs"
  shows "\<exists>r out. find_entry_in_dir h s (g_cwd_block s) name = Some (Inr r) \<and>
    k_ls h None s = Some (PennFatErr_OK, out) \<and>
    map_option fst r = List.find (\<lambda>e. dname e = name) (map fst out) \<and>
    (r \<noteq> None \<longleftrightarrow> name \<in> dname ` set (map fst out))"
proof -
  note s = cwd_dirD [OF assms(2)]
  show ?thesis
    using find_entry_dir_map(1) [OF assms(1) s(2,4), of name] ls_cwd [OF assms]
      find_chain_live [of h s name bs] find_chain_None [of h s name bs]
    by (intro exI [of _ "find_chain h s name bs"]
        exI [of _ "map (\<lambda>e. (e, link_target h s e)) (chain_entries h s bs)"]) (simp add: comp_def)
qed

theorem find_is_lookup_in_listing_witness:
  "\<exists>r out. find_entry_in_dir (host_at 7) touched_fs 1 ''f'' = Some (Inr r) \<and>
    k_ls (host_at 7) None touched_fs = Some (PennFatErr_OK, out) \<and> ''f'' \<in> dname ` set (map fst out)"
proof -
  have cwd: "g_cwd_block touched_fs = 1" using same_but_img_fields(9) [OF touched_fs_facts(6)] by simp
  have "find_entry_in_dir (host_at 7) touched_fs 1 ''f'' =
      Some (Inr (Some (new_file_entry (host_at 7) ''f'' 2, 1, 0)))"
    using find_entry_dir_map(1) [of "host_at 7" touched_fs 1 "[1]" "''f''"] cwd_dirD [OF touched_fs_facts(1)]
      touched_fs_facts(2) cwd by simp
  then show ?thesis
    using find_is_lookup_in_listing [OF good_host_at touched_fs_facts(1), of "''f''"] cwd by auto
qed

subsection \<open>The FAT\<close>

text \<open>
  C12 (termination). \<open>free_block_chain\<close> returns on every FAT whose links stay inside of it, cyclic chains
  included, and afterwards exactly the entries linked from the start are free; every other entry and
  every block behind the FAT region is as before.
\<close>

theorem free_block_chain_frees:
  assumes "geom s" "fat_closed (fat_list s)" "chain_end b \<or> unat b < fat_entries s"
  shows "\<exists>s'. free_block_chain b s = Some s' \<and> same_but_img s s' \<and> geom s' \<and>
    (\<forall>i < fat_entries s. fat_list s' ! i = (if linked (fat_list s) b (of_nat i) then FAT_FREE else fat_list s ! i)) \<and>
    (\<forall>h c. fat_blocks s \<le> c \<longrightarrow> read_block h s' c = read_block h s c)"
  using free_block_chain_spec [OF assms] by (auto simp: nth_freed)

theorem free_block_chain_frees_witness:
  "\<exists>s'. free_block_chain 2 touched_fs = Some s' \<and> fat_list s' ! 2 = FAT_FREE \<and> fat_list s' ! 1 = FAT_EOC"
proof -
  note c = cwd_dirD [OF touched_fs_facts(1)]
  have fe: "fat_entries touched_fs = 128"
    using same_but_img_fields(12) [OF touched_fs_facts(6)] fresh_fs_fat(1) by simp
  have ch: "chain (fat_list touched_fs) 2 [2]"
    by (simp add: touched_fs_facts(4) chain_end_def FAT_EOC_def FAT_FREE_def)
  show ?thesis
    using free_block_chain_frees [OF c(2) touched_fs_facts(5), of 2] linked_chain [OF ch] fe
    by (auto simp: touched_fs_facts(4) mkfs_fat_array_def)
qed

text \<open>
  C13 (functional). \<open>allocate_free_block\<close> takes the least free entry from 2 on and marks it as the end
  of a chain; it fails exactly when there is none, and then nothing changes.
\<close>

theorem allocate_takes_least_free:
  assumes "geom s"
  shows "\<exists>r s'. allocate_free_block s = Some (r, s') \<and> same_but_img s s' \<and>
    (case r of
       None \<Rightarrow> s' = s \<and> (\<forall>i. 2 \<le> i \<and> i < fat_entries s \<longrightarrow> fat_list s ! i \<noteq> FAT_FREE)
     | Some b \<Rightarrow> 2 \<le> b \<and> b < fat_entries s \<and> fat_list s ! b = FAT_FREE \<and>
         (\<forall>i. 2 \<le> i \<and> i < b \<longrightarrow> fat_list s ! i \<noteq> FAT_FREE) \<and> fat_list s' = (fat_list s)[b := FAT_EOC])"
proof -
  obtain r s' where a: "allocate_free_block s = Some (r, s')" using allocate_total [OF assms] by auto
  show ?thesis
  proof (cases r)
    case None
    then show ?thesis using a allocate_None [OF assms] by auto
  next
    case (Some b)
    show ?thesis
      using a Some allocate_Some [OF assms a [unfolded Some]] allocate_effect(3,4) [OF assms a [unfolded Some]]
      by auto
  qed
qed

theorem allocate_takes_least_free_witness: "\<exists>s'. allocate_free_block fresh_fs = Some (Some 2, s')"
proof -
  have two: "fat_list fresh_fs ! 2 = FAT_FREE" "fat_entries fresh_fs = 128"
    by (simp_all add: fresh_fs_fat mkfs_fat_array_def)
  obtain r s' where a: "allocate_free_block fresh_fs = Some (r, s')" and
    spec: "case r of
       None \<Rightarrow> s' = fresh_fs \<and> (\<forall>i. 2 \<le> i \<and> i < fat_entries fresh_fs \<longrightarrow> fat_list fresh_fs ! i \<noteq> FAT_FREE)
     | Some b \<Rightarrow> 2 \<le> b \<and> b < fat_entries fresh_fs \<and> fat_list fresh_fs ! b = FAT_FREE \<and>
         (\<forall>i. 2 \<le> i \<and> i < b \<longrightarrow> fat_list fresh_fs ! i \<noteq> FAT_FREE) \<and>
         fat_list s' = (fat_list fresh_fs)[b := FAT_EOC]"
    using allocate_takes_least_free [OF geom_fresh_fs] by blast
  show ?thesis
  proof (cases r)
    case None
    then show ?thesis using spec two by simp
  next
    case (Some b)
    then have "\<not> 2 < b" "2 \<le> b" using spec two(1) by auto
    then show ?thesis using Some a by auto
  qed
qed

text \<open>
  \<open>locate_block_in_chain\<close> on a file whose blocks are \<open>xs\<close>: the block that holds the
  offset, with the offset in it. At the end of the last block it does not report an error but the end
  mark \<open>0xFFFF\<close> as a block number; only further out does it fail.
\<close>

theorem locate_block_of_chain:
  assumes "geom s" "chain (fat_list s) b xs" "xs \<noteq> []"
  shows "locate_block_in_chain s b offset =
    (let k = unat offset div g_block_size s; r = unat offset mod g_block_size s in
     Some (if k < length xs then Some (xs ! k, r)
           else if k = length xs then Some (0xFFFF, r) else None))"
  using locate_chain [OF assms, of offset] by (simp only: FAT_EOC_def)

theorem locate_block_of_chain_witness:
  "locate_block_in_chain touched_fs 2 256 = Some (Some (0xFFFF, 0))"
proof -
  have ch: "chain (fat_list touched_fs) 2 [2]"
    by (simp add: touched_fs_facts(4) chain_end_def FAT_EOC_def FAT_FREE_def)
  have "g_block_size touched_fs = 256"
    using same_but_img_fields(3) [OF touched_fs_facts(6)]
    by (simp add: fresh_fs_def mounted_fresh_def block_sizes_def)
  then show ?thesis
    using locate_block_of_chain [OF cwd_dirD(2) [OF touched_fs_facts(1)] ch] by simp
qed

text \<open>
  The 64 bytes of a directory entry and its fields determine each other: decoding what
  was encoded gives the entry back, and encoding what was decoded gives the bytes back.
\<close>

theorem dirent_encoding_roundtrip:
  assumes "wf_dirent e" "length bs = 64"
  shows "dec_dirent (enc_dirent e) = e \<and> length (enc_dirent e) = 64 \<and> enc_dirent (dec_dirent bs) = bs"
  using assms by (simp add: dec_enc_dirent enc_dec_dirent)

theorem dirent_encoding_roundtrip_witness:
  "dec_dirent (enc_dirent (new_file_entry (host_at 7) ''f'' 2)) = new_file_entry (host_at 7) ''f'' 2"
  using dirent_encoding_roundtrip [of "new_file_entry (host_at 7) ''f'' 2" "replicate 64 NUL"] by simp

text \<open>
  On a directory block of the image \<open>write_dirent\<close> is the update of one entry of an
  array and \<open>read_dirent\<close> reads it: the other entries, every other block and, behind the FAT region,
  the FAT are untouched.
\<close>

theorem write_dirent_updates_slot:
  assumes "good_host h" "geom s" "dir_block_ok s b" "i < entries_per_block s" "wf_dirent e"
  shows "\<exists>s'. write_dirent h b (int i) e s = (PennFatErr_OK, s') \<and>
    (\<forall>j < entries_per_block s. read_dirent h s' b (int j) =
       (if j = i then Inr e else read_dirent h s b (int j))) \<and>
    (\<forall>c < image_blocks s. c \<noteq> unat b \<longrightarrow> read_block h s' c = read_block h s c) \<and>
    (fat_blocks s \<le> unat b \<longrightarrow> fat_list s' = fat_list s)"
proof -
  obtain s' where s': "write_dirent h b (int i) e s = (PennFatErr_OK, s')" "entry_changed h s b i e s'"
    using write_dirent_changed [OF assms] by auto
  have "geom s'" "dir_block_ok s' b" "entries_per_block s' = entries_per_block s"
    using s'(2) assms(3) by (auto simp: entry_changed_def dir_block_ok_def dest: entries_per_block_same)
  then have "read_dirent h s' b (int j) = (if j = i then Inr e else read_dirent h s b (int j))"
    if "j < entries_per_block s" for j
    using that s'(2) assms by (simp add: read_dirent_eq entry_changed_def)
  then show ?thesis using s' by (auto simp: entry_changed_def)
qed

theorem write_dirent_updates_slot_witness:
  "\<exists>s'. write_dirent (host_at 7) 1 0 deleted_dirent touched_fs = (PennFatErr_OK, s') \<and>
    read_dirent (host_at 7) s' 1 0 = Inr deleted_dirent"
proof -
  note c = cwd_dirD [OF touched_fs_facts(1)]
  have "dir_block_ok touched_fs 1" using dir_chain_block [of touched_fs _ "[1]" 1] c(4) by (auto simp: dir_ok_def)
  moreover have "0 < entries_per_block touched_fs" using entries_per_block_double(2) [OF c(2)] by simp
  ultimately show ?thesis
    using write_dirent_updates_slot [OF good_host_at c(2), of 1 0 deleted_dirent] by fastforce
qed

subsection \<open>Making, mounting and unmounting\<close>

text \<open>
  C5 (roundtrip). For every number of FAT blocks and every block size that \<open>k_mkfs\<close> accepts, the image
  it writes is mounted by \<open>k_mount\<close> with the same parameters: the FAT holds the superblock, the
  end mark of the root directory and free entries, every block behind it is zero, all descriptors and
  system-wide entries are free, and the image has the geometry the other theorems ask for.
\<close>

theorem mkfs_mount_roundtrip:
  assumes "good_host h" "\<not> g_mounted s" "1 \<le> nb" "nb \<le> 32" "cfg \<le> 4"
  shows "\<exists>s1 s2. k_mkfs h name (int nb) (int cfg) s = (PennFatErr_SUCCESS, s1) \<and>
    k_mount h name s1 = (PennFatErr_SUCCESS, s2) \<and> g_mounted s2 \<and> geom s2 \<and>
    g_block_size s2 = block_sizes ! cfg \<and> fat_blocks s2 = nb \<and>
    (\<forall>i. 1 \<le> i \<and> i < fat_entries s2 \<longrightarrow> fat_list s2 ! i = (if i = 1 then FAT_EOC else FAT_FREE)) \<and>
    (\<forall>b. nb \<le> b \<and> b < image_blocks s2 \<longrightarrow> read_block h s2 b = Some (replicate (g_block_size s2) NUL)) \<and>
    (\<forall>f\<in>set (g_fd_table s2). \<not> fd_in_use f) \<and> (\<forall>f\<in>set (g_sysfile_table s2). \<not> sf_in_use f)"
proof -
  let ?s1 = "put_file name (mkfs_image nb cfg) s" and ?s2 = "mounted_fresh name nb cfg (put_file name (mkfs_image nb cfg) s)"
  have m: "k_mount h name ?s1 = (PennFatErr_SUCCESS, ?s2)"
    using assms by (intro mount_fresh) (simp_all add: put_file_def)
  note g = geom_mounted_fresh [OF assms(3-5), of name ?s1]
  have bs: "g_mounted ?s2" "g_block_size ?s2 = block_sizes ! cfg"
    "g_fd_table ?s2 = replicate MAX_FD zero_fd" "g_sysfile_table ?s2 = replicate MAX_SYSTEM_FILES zero_sysfile"
    by (simp_all add: mounted_fresh_def)
  show ?thesis
    using mkfs_good [OF assms, of name] m g bs fresh_fat [OF assms(3-5)] fresh_block [OF assms(1,3-5)]
    by (intro exI [of _ ?s1] exI [of _ ?s2]) (simp add: zero_fd_def zero_sysfile_def)
qed

theorem mkfs_mount_roundtrip_witness:
  "\<exists>s1 s2. k_mkfs (host_at 7) ''disk'' 32 4 init_fs = (PennFatErr_SUCCESS, s1) \<and>
    k_mount (host_at 7) ''disk'' s1 = (PennFatErr_SUCCESS, s2) \<and> g_block_size s2 = 4096 \<and> fat_blocks s2 = 32"
  using mkfs_mount_roundtrip [of "host_at 7" init_fs 32 4 "''disk''"]
  by (auto simp: init_fs_def block_sizes_def)

text \<open>
  \<open>k_mkfs\<close> rejects every number of FAT blocks outside of 1 to 32 and every block size
  configuration outside of 0 to 4 before it touches the host file, and refuses to run on a mounted
  file system.
\<close>

theorem mkfs_rejects:
  "(g_mounted s \<longrightarrow> k_mkfs h name nb cfg s = (PennFatErr_UNEXPCMD, s)) \<and>
   (\<not> g_mounted s \<and> (nb < 1 \<or> nb > 32 \<or> cfg < 0 \<or> cfg > 4) \<longrightarrow> k_mkfs h name nb cfg s = (PennFatErr_INVAD, s))"
  by (simp add: k_mkfs_def)

theorem mkfs_rejects_witness:
  "k_mkfs (host_at 7) ''d'' 33 0 init_fs = (PennFatErr_INVAD, init_fs) \<and>
   k_mkfs (host_at 7) ''d'' 1 0 fresh_fs = (PennFatErr_UNEXPCMD, fresh_fs)"
  using mkfs_rejects [of init_fs "host_at 7" "''d''" 33 0] mkfs_rejects [of fresh_fs "host_at 7" "''d''" 1 0]
  by (simp add: init_fs_def)

lemma close_all_root:
  "g_root_dir (close_all h s) = g_root_dir s" "g_fs_fd (close_all h s) = g_fs_fd s"
  "g_block_size (close_all h s) = g_block_size s"
proof -
  have wd: "g_root_dir (snd (write_dirent h b i e s)) = g_root_dir s \<and>
      g_fs_fd (snd (write_dirent h b i e s)) = g_fs_fd s \<and>
      g_block_size (snd (write_dirent h b i e s)) = g_block_size s" for b i e s
    by (simp add: write_dirent_def write_block_def Let_def case_prod_unfold split: option.split)
  have step: "g_root_dir (snd (k_close h fd s)) = g_root_dir s \<and> g_fs_fd (snd (k_close h fd s)) = g_fs_fd s \<and>
      g_block_size (snd (k_close h fd s)) = g_block_size s" for fd s
    by (simp add: k_close_def release_sysfile_entry_def writeback_dirent_def set_fd_def set_sysfile_def Let_def wd
        split: sum.split)
  have "g_root_dir (fold (\<lambda>fd s. if fd_in_use (g_fd_table s ! fd) then snd (k_close h (int fd) s) else s) fds s) = g_root_dir s \<and>
      g_fs_fd (fold (\<lambda>fd s. if fd_in_use (g_fd_table s ! fd) then snd (k_close h (int fd) s) else s) fds s) = g_fs_fd s \<and>
      g_block_size (fold (\<lambda>fd s. if fd_in_use (g_fd_table s ! fd) then snd (k_close h (int fd) s) else s) fds s) = g_block_size s"
    for fds s
    by (induction fds arbitrary: s) (simp_all add: step)
  then show "g_root_dir (close_all h s) = g_root_dir s" "g_fs_fd (close_all h s) = g_fs_fd s"
    "g_block_size (close_all h s) = g_block_size s"
    by (simp_all add: close_all_def)
qed

text \<open>
  \<open>k_unmount\<close> writes the copy of the root block that \<open>k_mount\<close> took over the block behind
  the FAT region of the saved image, whatever was stored there since. With one FAT block that block is
  the root directory, so every change of it since the mount is lost.
\<close>

theorem unmount_restores_old_root:
  assumes "good_host h" "g_mounted s" "g_fs_fd s = Some name" "fat_get s 0 = Some w"
    "length (g_root_dir s) = g_block_size s"
  shows "\<exists>s' img. k_unmount h s = Some (PennFatErr_SUCCESS, s') \<and> \<not> g_mounted s' \<and>
    host_files s' name = Some img \<and>
    pread img (super_blocks w * g_block_size s) (g_block_size s) = g_root_dir s"
  using assms
  by (simp add: k_unmount_def close_image_def put_file_def Let_def close_all_root pread_pwrite_same)

theorem unmount_restores_old_root_witness:
  "\<exists>s' img. k_unmount (host_at 7) touched_fs = Some (PennFatErr_SUCCESS, s') \<and>
    host_files s' ''d'' = Some img \<and> pread img 256 256 = replicate 256 NUL"
proof -
  note f = same_but_img_fields [OF touched_fs_facts(6)] and c = cwd_dirD [OF touched_fs_facts(1)]
  have bs: "g_block_size touched_fs = 256" by (simp add: f(3) fresh_fs_def mounted_fresh_def block_sizes_def)
  have fe: "fat_entries touched_fs = 128" using f(12) fresh_fs_fat(1) by simp
  have "fat_get touched_fs 0 = Some (super_word 1 0)"
    using fat.get_contents [OF c(2), of 0] fe
    by (simp add: touched_fs_facts(4) mkfs_fat_array_def super_word_def)
  moreover have "super_blocks (super_word 1 0) = 1" by (rule super_word_fields) simp_all
  ultimately show ?thesis
    using unmount_restores_old_root [of "host_at 7" touched_fs "''d''" "super_word 1 0"] f bs by auto
qed

subsection \<open>Errors\<close>

text \<open>
  Without a mounted file system every operation that needs one returns \<open>NOT_MOUNTED\<close> and
  leaves the state as it is.
\<close>

theorem not_mounted_refused:
  assumes "\<not> g_mounted s"
  shows "k_open h p mode s = Some (-2, s) \<and> k_read h fd n s = Some (-2, [], s) \<and>
    k_write h fd buf n s = Some (-2, s) \<and> k_close h fd s = (-2, s) \<and> k_lseek fd off whence s = (-2, s) \<and>
    k_unlink h p s = Some (PennFatErr_NOT_MOUNTED, s) \<and> k_touch h p s = Some (PennFatErr_NOT_MOUNTED, s) \<and>
    k_chmod h p perm s = Some (PennFatErr_NOT_MOUNTED, s) \<and> k_chdir h p s = Some (PennFatErr_NOT_MOUNTED, s) \<and>
    k_symlink h q p s = Some (PennFatErr_NOT_MOUNTED, s) \<and> k_mkdir h p s = Some (PennFatErr_NOT_MOUNTED, s) \<and>
    k_rmdir h p s = Some (PennFatErr_NOT_MOUNTED, s) \<and> k_rename h p q s = Some (PennFatErr_NOT_MOUNTED, s) \<and>
    k_unmount h s = Some (PennFatErr_NOT_MOUNTED, s) \<and> k_ls h p s = Some (PennFatErr_NOT_MOUNTED, []) \<and>
    k_getcwd h sz s = Some (PennFatErr_NOT_MOUNTED, None)"
  using assms
  by (simp add: k_open_def k_read_def k_write_def k_close_def k_lseek_def k_unlink_def k_touch_def
      k_chmod_def k_chdir_def k_symlink_def k_mkdir_def k_rmdir_def k_rename_def k_unmount_def
      k_ls_def k_getcwd_def)

theorem not_mounted_refused_witness:
  "k_touch (host_at 7) (Some ''f'') init_fs = Some (PennFatErr_NOT_MOUNTED, init_fs)"
  using not_mounted_refused [of init_fs] by (simp add: init_fs_def)

text \<open>
  \<open>k_lseek\<close> on a descriptor in use: the target is counted from the start, the offset or
  the size; a negative target or an unknown \<open>whence\<close> is refused without a change, any other becomes
  the offset, also beyond the end of the file.
\<close>

theorem k_lseek_moves:
  assumes "g_mounted s" "\<not> bad_fd fd s"
  shows "let fdesc = g_fd_table s ! nat fd; sf = g_sysfile_table s ! fd_sysfile_index fdesc;
             target = (if whence = 0 then Some off
                       else if whence = 1 then Some (int32 (sint (fd_offset fdesc) + off))
                       else if whence = 2 then Some (int32 (sint (sf_size sf) + off)) else None) in
    k_lseek fd off whence s =
      (case target of
         None \<Rightarrow> (err_code PennFatErr_INVAD, s)
       | Some t \<Rightarrow> if t < 0 then (err_code PennFatErr_INVAD, s)
                  else (t, set_fd (nat fd) (fdesc\<lparr>fd_offset := word_of_int t\<rparr>) s))"
  using assms
  by (simp add: k_lseek_def lseek_target_def F_SEEK_SET_def F_SEEK_CUR_def F_SEEK_END_def Let_def)

theorem k_lseek_moves_witness: "k_lseek 0 (-1) 0 opened_fs = (-3, opened_fs)"
  using k_lseek_moves [OF open_fileD(1,3) [OF opened_fs_open], of 0 "-1"] by (simp add: Let_def)

text \<open>
  The permissions that \<open>VALID_PERM\<close>, and so \<open>k_chmod\<close>, accepts are exactly
  0, 1, 2, 5, 6 and 7: execute-only is accepted and read-only, 4, is refused, although the comment
  of the header lists 4 as valid and not 1.
\<close>

theorem valid_permissions: "VALID_PERM perm \<longleftrightarrow> perm \<in> {0, 1, 2, 5, 6, 7}"
  by (simp add: perm_defs)

text \<open>
  The message that \<open>PennFatErr_toErrString\<close> gives for a code: right for the codes from
  -12 down, one too far for the codes from -1 to -10, because the enum has no code -11 while the table
  has no gap. So the message of \<open>INTERNAL\<close> is ''Success''.
\<close>

theorem error_messages_shifted:
  "PennFatErr_toErrString (err_code e) =
    (case e of
       PennFatErr_SUCCESS \<Rightarrow> ''Success'' | PennFatErr_INTERNAL \<Rightarrow> ''Success''
     | PennFatErr_NOT_MOUNTED \<Rightarrow> ''Internal error'' | PennFatErr_INVAD \<Rightarrow> ''File system not mounted''
     | PennFatErr_EXISTS \<Rightarrow> ''Invalid argument'' | PennFatErr_PERM \<Rightarrow> ''File existance error''
     | PennFatErr_INUSE \<Rightarrow> ''Permission denied'' | PennFatErr_NOSPACE \<Rightarrow> ''File in use''
     | PennFatErr_OUTOFMEM \<Rightarrow> ''No space left on device'' | PennFatErr_UNEXPCMD \<Rightarrow> ''Out of memory''
     | PennFatErr_NOTEMPTY \<Rightarrow> ''Unexpected command'' | PennFatErr_NOTDIR \<Rightarrow> ''Not a directory''
     | PennFatErr_ISDIR \<Rightarrow> ''Is a directory'' | PennFatErr_IO \<Rightarrow> ''I/O error''
     | PennFatErr_BUSY \<Rightarrow> ''Resource busy'' | PennFatErr_NOT_IMPL \<Rightarrow> ''Not implemented''
     | PennFatErr_RANGE \<Rightarrow> ''Range error'' | PennFatErr_DUMMY \<Rightarrow> ''Dummy error'')"
  by (cases e) (simp_all add: err_string_defs)

subsection \<open>Opening and paths\<close>

text \<open>
  C10 (functional). \<open>k_open\<close> of a new name with the create flag returns the least unused descriptor,
  which refers to the least unused entry of the system-wide file table; that entry counts one
  reference and names the entry just added to the directory, an empty file at a block that was free.
  If there is no space the map is not touched by a descriptor: a negative code is returned.
\<close>

theorem k_open_creates:
  assumes "good_host h" "cwd_dir h s bs" "plain_name p" "dir_map h s bs p = None"
    "is_valid_mode mode" "HAS_CREATE mode"
    "find_idx (\<lambda>f. \<not> sf_in_use f) (g_sysfile_table s) = Some j"
    "find_idx (\<lambda>f. \<not> fd_in_use f) (g_fd_table s) = Some k"
  shows "(\<exists>s'. k_open h (Some p) mode s = Some (-7, s')) \<and> \<not> two_free s \<or>
    (\<exists>n s' bs' b i. k_open h (Some p) mode s = Some (int k, s') \<and>
       2 \<le> n \<and> n < fat_entries s \<and> fat_list s ! n = FAT_FREE \<and> cwd_dir h s' bs' \<and>
       dir_map h s' bs' = (dir_map h s bs)(p \<mapsto> new_file_entry h p n) \<and>
       g_fd_table s' = (g_fd_table s)[k := \<lparr>fd_in_use = True, fd_sysfile_index = j, fd_mode = mode, fd_offset = 0\<rparr>] \<and>
       g_sysfile_table s' = (g_sysfile_table s)[j := \<lparr>sf_ref_count = 1, sf_in_use = True,
         sf_first_block = of_nat n, sf_size = 0, sf_mtime = h_now h, sf_dir_index = pseudo_inode b i\<rparr>])"
proof -
  note s = cwd_dirD [OF assms(2)] and p = plain_nameD [OF assms(3)]
  have res: "resolve_path h s p = Some (PennFatErr_OK, zero_resolved\<lparr>r_parent := g_cwd_block s\<rparr>)"
    by (rule resolve_plain_absent [OF assms(1) s(2) assms(3) s(4) assms(4)])
  have run: "k_open h (Some p) mode s =
      do { (x, s1) \<leftarrow> k_open_create h p (zero_resolved\<lparr>r_parent := g_cwd_block s\<rparr>) mode s;
           case x of Inl e \<Rightarrow> Some (err_code e, s1)
           | Inr (sys_idx, sz) \<Rightarrow> Some (assign_fd h mode sys_idx sz s1) }"
    using s(1) p(1) assms(5) res by (simp add: k_open_def zero_resolved_def)
  from create_new_file [OF assms(1-4,6,7)] show ?thesis
  proof (elim disjE exE conjE)
    fix s' assume "k_open_create h p (zero_resolved\<lparr>r_parent := g_cwd_block s\<rparr>) mode s =
      Some (Inl PennFatErr_NOSPACE, s')" "\<not> two_free s"
    then show ?thesis using run by simp
  next
    fix n s' bs' b i
    assume c: "k_open_create h p (zero_resolved\<lparr>r_parent := g_cwd_block s\<rparr>) mode s = Some (Inr (j, 0),
        set_sysfile j \<lparr>sf_ref_count = 1, sf_in_use = True, sf_first_block = of_nat n, sf_size = 0,
          sf_mtime = h_now h, sf_dir_index = pseudo_inode b i\<rparr> s')"
      and rest: "2 \<le> n" "n < fat_entries s" "fat_list s ! n = FAT_FREE" "same_but_img s s'" "cwd_dir h s' bs'"
      "dir_map h s' bs' = (dir_map h s bs)(p \<mapsto> new_file_entry h p n)"
    note f = same_but_img_fields(7,8) [OF rest(4)]
    let ?t = "s'\<lparr>g_sysfile_table := (g_sysfile_table s)[j := \<lparr>sf_ref_count = 1, sf_in_use = True,
         sf_first_block = of_nat n, sf_size = 0, sf_mtime = h_now h, sf_dir_index = pseudo_inode b i\<rparr>],
       g_fd_table := (g_fd_table s)[k := \<lparr>fd_in_use = True, fd_sysfile_index = j, fd_mode = mode, fd_offset = 0\<rparr>]\<rparr>"
    have "dir_map h ?t bs' = dir_map h s' bs'" by (rule ext) (simp add: dir_map_def)
    moreover have "k_open h (Some p) mode s = Some (int k, ?t)"
      using run c assms(8) by (simp add: assign_fd_def set_sysfile_def set_fd_def f)
    ultimately show ?thesis
      using rest by (intro disjI2 exI [of _ n] exI [of _ ?t] exI [of _ bs'] exI [of _ b] exI [of _ i]) simp
  qed
qed

theorem k_open_creates_witness:
  "\<exists>s'. k_open (host_at 7) (Some ''f'') 9 fresh_fs = Some (0, s') \<and> fd_sysfile_index (g_fd_table s' ! 0) = 0 \<and>
    sf_ref_count (g_sysfile_table s' ! 0) = 1"
proof -
  have two: "two_free fresh_fs"
    unfolding two_free_def
    by (intro exI [of _ 3] exI [of _ 4]) (simp add: fresh_fs_fat mkfs_fat_array_def)
  have slot: "find_idx (\<lambda>f. \<not> sf_in_use f) (g_sysfile_table fresh_fs) = Some 0"
    "find_idx (\<lambda>f. \<not> fd_in_use f) (g_fd_table fresh_fs) = Some 0"
    by (simp_all add: MAX_SYSTEM_FILES_def MAX_FD_def zero_sysfile_def zero_fd_def find_idx_Some)
  have d: "cwd_dir (host_at 7) fresh_fs [1]" "dir_map (host_at 7) fresh_fs [1] ''f'' = None" by simp_all
  show ?thesis
    using k_open_creates [OF good_host_at d(1) plain_f(1) d(2) _ _ slot, of 9] two
    by (auto simp: mode_defs MAX_FD_def MAX_SYSTEM_FILES_def)
qed

definition getcwd_result :: "PennFatErr + string \<times> nat \<Rightarrow> bool" where
  "getcwd_result r \<longleftrightarrow> (case r of Inl e \<Rightarrow> e = PennFatErr_IO | Inr (p, _) \<Rightarrow> p = [] \<or> hd p = CHR ''/'')"

lemma getcwd_loop_path:
  assumes "path = [] \<or> hd path = CHR ''/''"
  shows "ensures getcwd_result (getcwd_loop k h s d path)"
  using assms
proof (induction k arbitrary: d path)
  case 0
  then show ?case by (simp add: getcwd_result_def)
next
  case (Suc k)
  then show ?case
    by (auto simp: getcwd_result_def PATH_MAX_def split: sum.split option.split)
qed

text \<open>
  Whatever \<open>k_getcwd\<close> leaves in a buffer of \<open>sz\<close> bytes fits into it with its
  terminator, when there is room for a terminator and one character; and on success it is an
  absolute path.
\<close>

theorem k_getcwd_fits:
  assumes "k_getcwd h sz s = Some (err, Some path)" "2 \<le> sz"
  shows "length path < sz \<and> (err = PennFatErr_OK \<longrightarrow> path \<noteq> [] \<and> hd path = CHR ''/'')"
proof (cases "\<not> g_mounted s \<or> g_cwd_block s = 1")
  case True
  then show ?thesis using assms by (auto simp: k_getcwd_def split: if_split_asm)
next
  case False
  then obtain r where r: "getcwd_loop 64 h s (g_cwd_block s) [] = Some r"
    using assms by (auto simp: k_getcwd_def bind_Some)
  have "getcwd_result r" using ensuresD [OF getcwd_loop_path r] by simp
  then show ?thesis
    using assms r False
    by (cases r) (auto simp: k_getcwd_def getcwd_result_def split: if_split_asm)
qed

theorem k_getcwd_fits_witness: "k_getcwd (host_at 7) 2 fresh_fs = Some (PennFatErr_OK, Some ''/'') \<and> length ''/'' < (2::nat)"
proof -
  have "k_getcwd (host_at 7) 2 fresh_fs = Some (PennFatErr_OK, Some ''/'')" by (simp add: k_getcwd_def)
  then show ?thesis using k_getcwd_fits [of "host_at 7" 2 fresh_fs] by simp
qed

text \<open>
  C14 (safety). Block numbers count from the start of the image, and directory operations address the
  root directory as block 1. With two or more FAT blocks that block lies inside of the FAT: writing
  the first entry of the root directory stores the first two characters of its name into FAT entry
  \<open>block size / 2\<close>.
\<close>

theorem root_entry_overwrites_fat:
  assumes "good_host h" "geom s" "2 \<le> fat_blocks s" "wf_dirent e"
  shows "\<exists>s'. write_dirent h 1 0 e s = (PennFatErr_OK, s') \<and>
    fat_list s' ! (g_block_size s div 2) = of_nat (le_val (take 2 (de_name e)))"
proof -
  let ?bs = "g_block_size s"
  have ib: "1 < image_blocks s" using fat_blocks_inside(1) [OF assms(2)] assms(3) by simp
  have ok: "dir_block_ok s 1" using ib by (simp add: dir_block_ok_def chain_end_def FAT_EOC_def FAT_FREE_def)
  have n: "0 < entries_per_block s" using entries_per_block_double(2) [OF assms(2)] by simp
  obtain s' where s': "write_dirent h 1 0 e s = (PennFatErr_OK, s')" "entry_changed h s 1 0 e s'"
    using write_dirent_changed [OF assms(1,2) ok n assms(4)] by auto
  have g: "geom s'" and same: "same_but_img s s'" using s'(2) by (simp_all add: entry_changed_def)
  note f = same_but_img_fields [OF same]
  have "2 * ?bs \<le> fat_blocks s * ?bs" using assms(3) by (intro mult_le_mono1)
  moreover have "even ?bs" using assms(2) by (auto elim: block_size_cases)
  ultimately have i: "?bs div 2 < fat_entries s" "2 * (?bs div 2) = ?bs"
    using fat_entries_double [OF assms(2)] geom_block_size [OF assms(2)] by auto
  obtain blk where blk: "read_block h s 1 = Some blk" "length blk = ?bs"
    using blk.get_inside [of h s 1] ib assms(1,2) read_block_length by blast
  have img: "g_img s' = pwrite (g_img s) ?bs (pwrite blk 0 (enc_dirent e))"
    using s'(1) blk(1) n write_block_eq [OF assms(1,2), of "pwrite blk 0 (enc_dirent e)" 1]
      assms(1) by (auto simp: write_dirent_def FAT_FREE_def FAT_EOC_def)
  have len: "length (enc_dirent e) = 64" using assms(4) by simp
  have "pread (g_img s') (?bs + 0) 2 = pread (pwrite blk 0 (enc_dirent e)) 0 2"
    unfolding img using blk(2) len by (intro pread_pwrite_inside) (simp add: length_pwrite)
  also have "\<dots> = pread (enc_dirent e) 0 2"
    using pread_pwrite_inside [of 0 2 "enc_dirent e" blk 0] len by simp
  also have "\<dots> = take 2 (de_name e)"
    using assms(4) by (simp add: pread_def enc_dirent_def wf_dirent_def)
  finally have "pread (g_img s') (2 * (?bs div 2)) 2 = take 2 (de_name e)" by (simp add: i(2))
  then have "fat_list s' ! (?bs div 2) = of_nat (le_val (take 2 (de_name e)))"
    using i(1) fat_get_eq [OF g, of "?bs div 2"] f(12) by (simp add: nth_store_contents)
  then show ?thesis using s'(1) by blast
qed

theorem root_entry_overwrites_fat_witness:
  "\<exists>s'. write_dirent (host_at 7) 1 0 (new_file_entry (host_at 7) ''AB'' 2) (mounted_fresh ''d'' 2 0 init_fs) =
      (PennFatErr_OK, s') \<and> fat_list s' ! 128 = 0x4241"
proof -
  have g: "geom (mounted_fresh ''d'' 2 0 init_fs)" "fat_blocks (mounted_fresh ''d'' 2 0 init_fs) = 2"
    by (rule geom_mounted_fresh; simp)+
  have "g_block_size (mounted_fresh ''d'' 2 0 init_fs) = 256"
    by (simp add: mounted_fresh_def block_sizes_def)
  moreover have "le_val (take 2 (name_field ''AB'')) = 0x4241"
    by (simp add: name_field_def numeral_2_eq_2)
  ultimately show ?thesis
    using root_entry_overwrites_fat [OF good_host_at g(1), of "new_file_entry (host_at 7) ''AB'' 2" 7] g(2)
    by simp
qed

end
