(* ===== verification/ShellParser.thy ===== *)
theory ShellParser
  imports Prelude
begin

text \<open>
  The command line parser of the shell, \<open>src/util/parser.c\<close> and \<open>src/util/parser.h\<close>. The code walks
  over the line twice with a pointer into it: once to check the tokens and count the arguments, once
  to store them. A pointer with its end is modelled by the rest of the line that it denotes, so
  \<open>skip_word\<close> and \<open>skip_space\<close> are \<open>dropWhile\<close>, and a string that the second pass stores with a NUL
  at its end is the \<open>takeWhile\<close> in front of it. \<open>first_step\<close> and \<open>second_step\<close> are one iteration of
  the two loops. The two allocations that may fail are the arguments \<open>calloc_ok\<close> and \<open>realloc_ok\<close>.
\<close>

section \<open>The data\<close>

datatype parser_err =
    SYSTEM_ERROR | UNEXPECTED_FILE_INPUT | UNEXPECTED_FILE_OUTPUT | UNEXPECTED_PIPELINE
  | UNEXPECTED_AMPERSAND | EXPECT_INPUT_FILENAME | EXPECT_OUTPUT_FILENAME | EXPECT_COMMANDS

fun parser_code :: "parser_err \<Rightarrow> int" where
  "parser_code SYSTEM_ERROR = -1"
| "parser_code UNEXPECTED_FILE_INPUT = 1"
| "parser_code UNEXPECTED_FILE_OUTPUT = 2"
| "parser_code UNEXPECTED_PIPELINE = 3"
| "parser_code UNEXPECTED_AMPERSAND = 4"
| "parser_code EXPECT_INPUT_FILENAME = 5"
| "parser_code EXPECT_OUTPUT_FILENAME = 6"
| "parser_code EXPECT_COMMANDS = 7"

text \<open>What \<open>print_parser_errcode\<close> prints for a code, without the line end.\<close>

definition print_parser_errcode :: "int \<Rightarrow> string" where
  "print_parser_errcode err_code =
    (if err_code = 1 then ''UNEXPECTED INPUT REDIRECTION TO A FILE''
     else if err_code = 2 then ''UNEXPECTED OUTPUT REDIRECTION TO A FILE''
     else if err_code = 3 then ''UNEXPECTED PIPE''
     else if err_code = 4 then ''UNEXPECTED AMPERESAND''
     else if err_code = 5 then ''COULD NOT FINE FILENAME FOR INPUT REDIRECTION '' @ [CHR 0x22, CHR 0x3C, CHR 0x22]
     else if err_code = 6 then ''COULD NOT FIND FILENAME FOR OUTPUT REDIRECTION '' @ [CHR 0x22, CHR 0x3C, CHR 0x22]
     else if err_code = 7 then ''COULD NOT FIND ANY COMMANDS OR ARGS''
     else [])"

record parsed_command =
  is_background :: bool
  is_file_append :: bool
  stdin_file :: "string option"
  stdout_file :: "string option"
  commands :: "string list list"

definition no_command :: parsed_command where
  "no_command = \<lparr>is_background = False, is_file_append = False, stdin_file = None, stdout_file = None,
     commands = []\<rparr>"

section \<open>Characters and words\<close>

text \<open>\<open>isspace\<close> in the C locale.\<close>

definition is_space :: "char \<Rightarrow> bool" where
  "is_space c \<longleftrightarrow> c = CHR '' '' \<or> c = CHR 0x09 \<or> c = CHR 0x0A \<or> c = CHR 0x0B \<or> c = CHR 0x0C \<or> c = CHR 0x0D"

definition word_char :: "char \<Rightarrow> bool" where
  "word_char c \<longleftrightarrow> c \<noteq> CHR ''<'' \<and> c \<noteq> CHR ''>'' \<and> c \<noteq> CHR ''|'' \<and> c \<noteq> CHR ''&'' \<and> \<not> is_space c"

definition skip_word :: "string \<Rightarrow> string" where "skip_word cur = dropWhile word_char cur"
definition skip_space :: "string \<Rightarrow> string" where "skip_space cur = dropWhile is_space cur"

text \<open>\<open>while (start < end && isspace(end[-1])) --end\<close>\<close>

definition trim_end :: "string \<Rightarrow> string" where "trim_end s = rev (dropWhile is_space (rev s))"

lemma skip_length [simp]:
  "length (skip_word s) \<le> length s" "length (skip_space s) \<le> length s"
  by (simp_all add: skip_word_def skip_space_def length_dropWhile_le)

section \<open>The first pass: checking the tokens\<close>

record scan =
  has_token_last :: bool
  has_file_input :: bool
  has_file_output :: bool
  file_append :: bool
  num_commands :: nat
  total_strings :: nat

definition scan0 :: scan where
  "scan0 = \<lparr>has_token_last = False, has_file_input = False, has_file_output = False, file_append = False,
     num_commands = 0, total_strings = 0\<rparr>"

text \<open>
  The cases \<open>'<'\<close> and \<open>'>'\<close> share the test that a file name follows: \<open>file_follows\<close> is the rest of
  the line behind it.
\<close>

definition file_follows :: "string \<Rightarrow> string option" where
  "file_follows cs = (let cur = skip_space cs; skipped = skip_word cur in
     if skipped = cur then None else Some skipped)"

definition input_step :: "string \<Rightarrow> scan \<Rightarrow> parser_err + string \<times> scan" where
  "input_step cs st =
    (if num_commands st > 0 \<or> has_file_input st then Inl UNEXPECTED_FILE_INPUT
     else case file_follows cs of
       None \<Rightarrow> Inl EXPECT_INPUT_FILENAME
     | Some cur \<Rightarrow> Inr (cur, st\<lparr>has_file_input := True\<rparr>))"

definition output_step :: "string \<Rightarrow> scan \<Rightarrow> parser_err + string \<times> scan" where
  "output_step cs st =
    (if has_file_output st then Inl UNEXPECTED_FILE_OUTPUT
     else let twice = (cs \<noteq> [] \<and> hd cs = CHR ''>'');
              st' = (if twice then st\<lparr>file_append := True\<rparr> else st)
          in case file_follows (if twice then tl cs else cs) of
               None \<Rightarrow> Inl EXPECT_OUTPUT_FILENAME
             | Some cur \<Rightarrow> Inr (cur, st'\<lparr>has_file_output := True\<rparr>))"

definition pipe_step :: "string \<Rightarrow> scan \<Rightarrow> parser_err + string \<times> scan" where
  "pipe_step cs st =
    (if has_file_output st then Inl UNEXPECTED_FILE_OUTPUT
     else if \<not> has_token_last st then Inl UNEXPECTED_PIPELINE
     else Inr (cs, st\<lparr>has_token_last := False, num_commands := num_commands st + 1\<rparr>))"

definition word_step :: "string \<Rightarrow> scan \<Rightarrow> parser_err + string \<times> scan" where
  "word_step cur st =
    Inr (skip_word cur, st\<lparr>has_token_last := True, total_strings := total_strings st + 1\<rparr>)"

fun first_step :: "string \<Rightarrow> scan \<Rightarrow> parser_err + string \<times> scan" where
  "first_step [] st = Inr ([], st)"
| "first_step (c # cs) st =
    (if c = CHR ''&'' then Inl UNEXPECTED_AMPERSAND
     else if c = CHR ''<'' then input_step cs st
     else if c = CHR ''>'' then output_step cs st
     else if c = CHR ''|'' then pipe_step cs st
     else word_step (c # cs) st)"

lemma file_follows_length: "file_follows cs = Some r \<Longrightarrow> length r \<le> length cs"
  by (auto simp: file_follows_def Let_def split: if_splits intro: order_trans [OF skip_length(1) skip_length(2)])

lemma word_or_space: "\<lbrakk>c \<noteq> CHR ''<''; c \<noteq> CHR ''>''; c \<noteq> CHR ''|''; c \<noteq> CHR ''&''\<rbrakk> \<Longrightarrow> word_char c \<or> is_space c"
  by (simp add: word_char_def)

lemma skip_both_length:
  assumes "word_char c \<or> is_space c"
  shows "length (skip_space (skip_word (c # cs))) \<le> length cs"
proof (cases "word_char c")
  case True
  then have "skip_word (c # cs) = skip_word cs" by (simp add: skip_word_def)
  then show ?thesis by (simp add: order_trans [OF skip_length(2) skip_length(1)])
next
  case False
  then have "skip_space (skip_word (c # cs)) = skip_space cs"
    using assms by (simp add: skip_word_def skip_space_def)
  then show ?thesis by simp
qed

lemma skip_space_le: "length r \<le> n \<Longrightarrow> length (skip_space r) \<le> n"
  using order_trans skip_length(2) by blast

lemma first_step_length:
  assumes "first_step (c # cs) st = Inr (r, st')"
  shows "length (skip_space r) \<le> length cs"
proof (cases "c = CHR ''<'' \<or> c = CHR ''>'' \<or> c = CHR ''|'' \<or> c = CHR ''&''")
  case True
  then show ?thesis
    using assms
    by (auto simp: input_step_def output_step_def pipe_step_def Let_def
        split: if_splits option.splits intro!: skip_space_le dest!: file_follows_length)
next
  case False
  then show ?thesis
    using assms skip_both_length [of c cs] by (auto simp: word_step_def word_char_def)
qed

function first_pass :: "string \<Rightarrow> scan \<Rightarrow> parser_err + scan" where
  "first_pass cur st =
    (if cur = [] then Inr st
     else case first_step cur st of
       Inl e \<Rightarrow> Inl e
     | Inr (r, st') \<Rightarrow> first_pass (skip_space r) st')"
  by pat_completeness auto
termination
proof (relation "measure (length \<circ> fst)")
  fix cur st x r st'
  assume "cur \<noteq> []" and x: "first_step cur st = Inr x" and "(r, st') = x"
  then show "((skip_space r, st'), cur, st) \<in> measure (length \<circ> fst)"
    by (cases cur) (auto simp: le_imp_less_Suc dest!: first_step_length simp del: first_step.simps)
qed simp

declare first_pass.simps [simp del]

section \<open>The second pass: storing the tokens\<close>

text \<open>
  The argument vectors that are complete, the one that is being filled, and the two file names. On a
  line that the first pass has not checked the loop need not end (it does not step over \<open>&\<close>), so
  the result is an option.
\<close>

record stored =
  st_done :: "string list list"
  st_argv :: "string list"
  st_in :: "string option"
  st_out :: "string option"

definition stored0 :: stored where
  "stored0 = \<lparr>st_done = [], st_argv = [], st_in = None, st_out = None\<rparr>"

definition token :: "string \<Rightarrow> string" where "token cur = takeWhile word_char cur"

fun second_step :: "bool \<Rightarrow> string \<Rightarrow> stored \<Rightarrow> string \<times> stored" where
  "second_step app [] st = ([], st)"
| "second_step app (c # cs) st =
    (if c = CHR ''<'' then
       let cur = skip_space cs in (skip_word cur, st\<lparr>st_in := Some (token cur)\<rparr>)
     else if c = CHR ''>'' then
       let cur = skip_space (if app then drop 1 cs else cs) in (skip_word cur, st\<lparr>st_out := Some (token cur)\<rparr>)
     else if c = CHR ''|'' then
       (cs, st\<lparr>st_done := st_done st @ [st_argv st], st_argv := []\<rparr>)
     else (skip_word (c # cs), st\<lparr>st_argv := st_argv st @ [token (c # cs)]\<rparr>))"

partial_function (option) second_pass :: "bool \<Rightarrow> string \<Rightarrow> stored \<Rightarrow> stored option" where
  "second_pass app cur st =
    (if cur = [] then Some st
     else let (r, st') = second_step app cur st in second_pass app (skip_space r) st')"

section \<open>The parser\<close>

text \<open>
  \<open>logical_line\<close> is the line between \<open>start\<close> and \<open>end\<close> once the comment and the white space around it
  are gone. A trailing \<open>&\<close> is taken off, and overwritten by a blank in the buffer of the caller; the
  second component of the result of \<open>parse_command\<close> is that buffer.
\<close>

definition uncommented :: "string \<Rightarrow> string" where
  "uncommented cmd_line = takeWhile (\<lambda>c. c \<noteq> CHR ''#'') cmd_line"

definition logical_line :: "string \<Rightarrow> string" where
  "logical_line cmd_line = trim_end (skip_space (uncommented cmd_line))"

definition ends_in_amp :: "string \<Rightarrow> bool" where
  "ends_in_amp s \<longleftrightarrow> s \<noteq> [] \<and> last s = CHR ''&''"

definition without_amp :: "string \<Rightarrow> string" where
  "without_amp s = (if ends_in_amp s then trim_end (butlast s) else s)"

definition blank_amp :: "string \<Rightarrow> string" where
  "blank_amp cmd_line =
    (let s = logical_line cmd_line in
     if ends_in_amp s
     then cmd_line[length (takeWhile is_space (uncommented cmd_line)) + length s - 1 := CHR '' '']
     else cmd_line)"

definition store_command :: "bool \<Rightarrow> bool \<Rightarrow> string \<Rightarrow> parsed_command option" where
  "store_command bg app s =
    do {
      st \<leftarrow> second_pass app s stored0;
      Some \<lparr>is_background = bg, is_file_append = app, stdin_file = st_in st, stdout_file = st_out st,
        commands = st_done st @ [st_argv st]\<rparr>
    }"

definition parse_line :: "bool \<Rightarrow> bool \<Rightarrow> string \<Rightarrow> (parser_err + parsed_command) option" where
  "parse_line realloc_ok bg s =
    (case first_pass s scan0 of
       Inl e \<Rightarrow> Some (Inl e)
     | Inr st \<Rightarrow>
         if total_strings st = 0 then
           if bg \<or> has_file_input st \<or> has_file_output st then Some (Inl EXPECT_COMMANDS)
           else Some (Inr (no_command\<lparr>is_file_append := file_append st\<rparr>))
         else if \<not> has_token_last st then Some (Inl UNEXPECTED_PIPELINE)
         else if \<not> realloc_ok then Some (Inl SYSTEM_ERROR)
         else map_option Inr (store_command bg (file_append st) s))"

definition parse_command :: "bool \<Rightarrow> bool \<Rightarrow> string \<Rightarrow> ((parser_err + parsed_command) \<times> string) option" where
  "parse_command calloc_ok realloc_ok cmd_line =
    (let s = logical_line cmd_line in
     if \<not> calloc_ok then Some (Inl SYSTEM_ERROR, cmd_line)
     else if s = [] then Some (Inr no_command, cmd_line)
     else map_option (\<lambda>r. (r, blank_amp cmd_line))
            (parse_line realloc_ok (ends_in_amp s) (without_amp s)))"

text \<open>\<open>print_parsed_command\<close>: what it writes, with the newline of \<open>puts\<close>.\<close>

definition print_stage :: "parsed_command \<Rightarrow> nat \<Rightarrow> string" where
  "print_stage p i =
    concat (map (\<lambda>a. a @ '' '') (commands p ! i)) @
    (case stdin_file p of Some f \<Rightarrow> if i = 0 then ''< '' @ f @ '' '' else [] | None \<Rightarrow> []) @
    (if i = length (commands p) - 1
     then (case stdout_file p of
             Some f \<Rightarrow> (if is_file_append p then ''>> '' else ''> '') @ f @ '' ''
           | None \<Rightarrow> [])
     else ''| '')"

definition print_parsed_command :: "parsed_command \<Rightarrow> string" where
  "print_parsed_command p =
    concat (map (print_stage p) [0..<length (commands p)]) @
    (if is_background p then ''&'' else []) @ [CHR 0x0A]"

section \<open>What a successful parse has stored\<close>

definition wf_word :: "string \<Rightarrow> bool" where
  "wf_word w \<longleftrightarrow> w \<noteq> [] \<and> (\<forall>c\<in>set w. word_char c \<and> c \<noteq> CHR ''#'' \<and> c \<noteq> NUL)"

definition wf_command :: "parsed_command \<Rightarrow> bool" where
  "wf_command p \<longleftrightarrow> commands p \<noteq> [] \<and> (\<forall>argv\<in>set (commands p). argv \<noteq> [] \<and> (\<forall>w\<in>set argv. wf_word w)) \<and>
     pred_option wf_word (stdin_file p) \<and> pred_option wf_word (stdout_file p) \<and>
     (is_file_append p \<longrightarrow> stdout_file p \<noteq> None)"

definition clean :: "string \<Rightarrow> bool" where
  "clean s \<longleftrightarrow> (\<forall>c\<in>set s. c \<noteq> CHR ''#'' \<and> c \<noteq> NUL)"

definition stored_ok :: "scan \<Rightarrow> stored \<Rightarrow> bool" where
  "stored_ok st sp \<longleftrightarrow>
     (has_token_last st \<longleftrightarrow> st_argv sp \<noteq> []) \<and>
     (has_file_input st \<longleftrightarrow> st_in sp \<noteq> None) \<and> (has_file_output st \<longleftrightarrow> st_out sp \<noteq> None) \<and>
     (file_append st \<longrightarrow> has_file_output st) \<and>
     (total_strings st = 0 \<longleftrightarrow> st_done sp = [] \<and> st_argv sp = []) \<and>
     num_commands st = length (st_done sp) \<and>
     (\<forall>argv\<in>set (st_done sp). argv \<noteq> [] \<and> (\<forall>w\<in>set argv. wf_word w)) \<and>
     (\<forall>w\<in>set (st_argv sp). wf_word w) \<and> pred_option wf_word (st_in sp) \<and> pred_option wf_word (st_out sp)"

lemma clean_mono: "\<lbrakk>clean s; set t \<subseteq> set s\<rbrakk> \<Longrightarrow> clean t"
  unfolding clean_def by blast

lemma clean_drop [simp]:
  "clean s \<Longrightarrow> clean (skip_word s)" "clean s \<Longrightarrow> clean (skip_space s)" "clean s \<Longrightarrow> clean (tl s)"
  by (erule clean_mono; fastforce simp: skip_word_def skip_space_def dest: set_dropWhileD intro: list.set_sel(2))+

lemma clean_Cons [simp]: "clean (c # s) \<longleftrightarrow> c \<noteq> CHR ''#'' \<and> c \<noteq> NUL \<and> clean s"
  by (auto simp: clean_def)

lemma token_wf:
  assumes "clean s" "skip_word s \<noteq> s"
  shows "wf_word (token s)"
proof -
  obtain c cs where s: "s = c # cs" using assms(2) by (cases s) (auto simp: skip_word_def)
  then have "word_char c" using assms(2) by (auto simp: skip_word_def split: if_splits)
  then show ?thesis
    using assms(1) by (auto simp: wf_word_def token_def s clean_def dest: set_takeWhileD)
qed

lemma file_follows_SomeD:
  assumes "file_follows cs = Some r" "clean cs"
  shows "r = skip_word (skip_space cs) \<and> wf_word (token (skip_space cs)) \<and> clean r"
  using assms by (auto simp: file_follows_def Let_def split: if_splits intro: token_wf)

lemma first_step_keeps:
  assumes "first_step cur st = Inr (r, st1)" "has_file_output st"
  shows "has_file_output st1 \<and> file_append st1 = file_append st"
  using assms
  by (cases cur) (auto simp: input_step_def output_step_def pipe_step_def word_step_def
      split: if_splits option.splits)

lemma first_pass_append:
  "\<lbrakk>first_pass cur st = Inr st'; has_file_output st\<rbrakk> \<Longrightarrow> file_append st' = file_append st"
proof (induction cur st rule: first_pass.induct)
  case (1 cur st)
  show ?case
  proof (cases "cur = []")
    case True
    then show ?thesis using "1.prems" by (simp add: first_pass.simps)
  next
    case False
    then obtain r st1 where step: "first_step cur st = Inr (r, st1)"
      and rest: "first_pass (skip_space r) st1 = Inr st'"
      using "1.prems"(1) by (subst (asm) first_pass.simps) (auto split: sum.splits)
    show ?thesis
      using "1.IH" [OF False step refl rest] first_step_keeps [OF step "1.prems"(2)] by simp
  qed
qed

lemma lock_step:
  assumes step: "first_step cur st = Inr (r, st1)" and ok: "stored_ok st sp" and cl: "clean cur"
    and ne: "cur \<noteq> []" "\<not> is_space (hd cur)"
    and app: "has_file_output st1 \<Longrightarrow> app = file_append st1"
  shows "\<exists>sp1. second_step app cur sp = (r, sp1) \<and> stored_ok st1 sp1 \<and> clean r"
proof -
  obtain c cs where cur: "cur = c # cs" using ne by (cases cur) auto
  have cs: "clean cs" "clean (c # cs)" using cl by (simp_all add: cur)
  consider "c = CHR ''<''" | "c = CHR ''>''" | "c = CHR ''|''"
    | "c \<noteq> CHR ''<''" "c \<noteq> CHR ''>''" "c \<noteq> CHR ''|''" by blast
  then show ?thesis
  proof cases
    case 1
    then obtain r' where "file_follows cs = Some r'" "r = r'" "st1 = st\<lparr>has_file_input := True\<rparr>"
      using step by (auto simp: cur input_step_def split: if_splits option.splits)
    then show ?thesis
      using 1 ok file_follows_SomeD [of cs r'] cs by (auto simp: cur stored_ok_def Let_def)
  next
    case 2
    define twice where "twice \<longleftrightarrow> cs \<noteq> [] \<and> hd cs = CHR ''>''"
    have no: "\<not> has_file_output st" using step 2 by (auto simp: cur output_step_def)
    then have na: "\<not> file_append st" using ok by (auto simp: stored_ok_def)
    obtain r' where r': "file_follows (if twice then tl cs else cs) = Some r'" "r = r'"
      "st1 = (if twice then st\<lparr>file_append := True\<rparr> else st)\<lparr>has_file_output := True\<rparr>"
      using step 2 no by (auto simp: cur output_step_def twice_def Let_def split: option.splits if_splits)
    have "app = twice" using app na r'(3) by auto
    moreover have "clean (if twice then tl cs else cs)" using cs by simp
    ultimately show ?thesis
      using 2 ok file_follows_SomeD [OF r'(1)] na r'(2,3)
      by (auto simp: cur stored_ok_def Let_def drop_Suc)
  next
    case 3
    then show ?thesis
      using step ok cs by (auto simp: cur pipe_step_def stored_ok_def split: if_splits)
  next
    case 4
    then have amp: "c \<noteq> CHR ''&''" using step by (auto simp: cur)
    then have "word_char c" using 4 ne(2) by (simp add: cur word_char_def)
    then have "length (skip_word (c # cs)) \<le> length cs"
      using skip_length(1) [of cs] by (simp add: skip_word_def)
    then have "skip_word (c # cs) \<noteq> c # cs" by (metis impossible_Cons)
    then have w: "wf_word (token (c # cs))" using token_wf cs(2) by blast
    have r: "r = skip_word (c # cs)"
      "st1 = st\<lparr>has_token_last := True, total_strings := total_strings st + 1\<rparr>"
      using step 4 amp by (simp_all add: cur word_step_def)
    have "second_step app cur sp = (r, sp\<lparr>st_argv := st_argv sp @ [token (c # cs)]\<rparr>)"
      using 4 by (simp add: cur r)
    moreover have "stored_ok st1 (sp\<lparr>st_argv := st_argv sp @ [token (c # cs)]\<rparr>)"
      using ok w by (auto simp: stored_ok_def r(2))
    ultimately show ?thesis using clean_drop(1) [OF cs(2)] r(1) by blast
  qed
qed

lemma skip_space_hd: "skip_space s = [] \<or> \<not> is_space (hd (skip_space s))"
  by (metis hd_dropWhile skip_space_def)

lemma passes_agree:
  "\<lbrakk>first_pass cur st = Inr st'; stored_ok st sp; clean cur; cur = [] \<or> \<not> is_space (hd cur);
    app = file_append st'\<rbrakk> \<Longrightarrow> \<exists>sp'. second_pass app cur sp = Some sp' \<and> stored_ok st' sp'"
proof (induction cur st arbitrary: sp rule: first_pass.induct)
  case (1 cur st)
  show ?case
  proof (cases "cur = []")
    case True
    then show ?thesis using "1.prems" by (simp add: first_pass.simps second_pass.simps)
  next
    case False
    then obtain r st1 where step: "first_step cur st = Inr (r, st1)"
      and rest: "first_pass (skip_space r) st1 = Inr st'"
      using "1.prems"(1) by (subst (asm) first_pass.simps) (auto split: sum.splits)
    obtain sp1 where sp1: "second_step app cur sp = (r, sp1)" "stored_ok st1 sp1" "clean r"
      using lock_step [OF step "1.prems"(2,3) False, of app] "1.prems"(4,5) False
        first_pass_append [OF rest] by auto
    show ?thesis
      using "1.IH" [OF False step refl rest sp1(2) _ skip_space_hd "1.prems"(5)] sp1 False
      by (subst second_pass.simps) simp
  qed
qed


lemma trim_end_prefix: "\<exists>t. s = trim_end s @ t"
  by (metis trim_end_def rev_append rev_rev_ident takeWhile_dropWhile_id)

lemma trim_end_hd: "trim_end s \<noteq> [] \<Longrightarrow> hd (trim_end s) = hd s"
  by (metis trim_end_prefix hd_append2)

lemma clean_trim_end [simp]: "clean s \<Longrightarrow> clean (trim_end s)"
  by (erule clean_mono) (metis trim_end_prefix set_append Un_upper1)

lemma butlast_hd: "butlast s \<noteq> [] \<Longrightarrow> hd (butlast s) = hd s"
  by (cases s) (auto split: if_splits)

lemma clean_butlast [simp]: "clean s \<Longrightarrow> clean (butlast s)"
  by (erule clean_mono) (auto dest: in_set_butlastD)

lemma clean_logical_line: "cstring line \<Longrightarrow> clean (logical_line line)"
  unfolding logical_line_def uncommented_def
  by (intro clean_trim_end clean_drop(2)) (auto simp: clean_def cstring_def dest: set_takeWhileD)

lemma logical_line_hd: "logical_line line = [] \<or> \<not> is_space (hd (logical_line line))"
  by (metis logical_line_def trim_end_hd skip_space_hd trim_end_prefix append_is_Nil_conv)

lemma clean_without_amp: "clean s \<Longrightarrow> clean (without_amp s)"
  by (simp add: without_amp_def)

lemma without_amp_hd:
  assumes "s = [] \<or> \<not> is_space (hd s)"
  shows "without_amp s = [] \<or> \<not> is_space (hd (without_amp s))"
proof (cases "ends_in_amp s \<and> trim_end (butlast s) \<noteq> []")
  case True
  then have "hd (without_amp s) = hd s"
    using trim_end_hd [of "butlast s"] butlast_hd [of s] trim_end_prefix [of "butlast s"]
    by (fastforce simp: without_amp_def)
  then show ?thesis using assms True by (auto simp: ends_in_amp_def)
next
  case False
  then show ?thesis using assms by (auto simp: without_amp_def)
qed

lemma parse_line_returns:
  assumes cl: "clean s" and hd: "s = [] \<or> \<not> is_space (hd s)"
  shows "\<exists>r. parse_line mem bg s = Some r \<and> (\<forall>p. r = Inr p \<longrightarrow> p = no_command \<or> wf_command p)"
proof (cases "first_pass s scan0")
  case (Inl e)
  then show ?thesis by (simp add: parse_line_def)
next
  case (Inr st)
  have "stored_ok scan0 stored0" by (simp add: stored_ok_def scan0_def stored0_def)
  from passes_agree [OF Inr this cl hd refl] obtain sp where
    sp: "second_pass (file_append st) s stored0 = Some sp" "stored_ok st sp" by blast
  show ?thesis
  proof (cases "total_strings st = 0")
    case True
    have "no_command\<lparr>is_file_append := False\<rparr> = no_command" by (simp add: no_command_def)
    then show ?thesis using True Inr sp(2) by (auto simp: parse_line_def stored_ok_def)
  next
    case False
    then show ?thesis
      using Inr sp by (auto simp: parse_line_def store_command_def stored_ok_def wf_command_def)
  qed
qed

lemma parse_command_returns:
  assumes "cstring line"
  shows "\<exists>r buf. parse_command mem1 mem2 line = Some (r, buf) \<and>
    (\<forall>p. r = Inr p \<longrightarrow> p = no_command \<or> wf_command p)"
proof -
  let ?s = "logical_line line"
  obtain r where "parse_line mem2 (ends_in_amp ?s) (without_amp ?s) = Some r"
    "\<forall>p. r = Inr p \<longrightarrow> p = no_command \<or> wf_command p"
    using parse_line_returns [OF clean_without_amp [OF clean_logical_line [OF assms]]
        without_amp_hd [OF logical_line_hd]] by blast
  then show ?thesis by (auto simp: parse_command_def Let_def)
qed

section \<open>Reading back what is printed\<close>

text \<open>A printed command is a sequence of items, each with a blank behind it.\<close>

datatype item = Word string | In_file string | Out_file bool string | Pipe

fun show_item :: "item \<Rightarrow> string" where
  "show_item (Word w) = w"
| "show_item (In_file f) = ''< '' @ f"
| "show_item (Out_file app f) = (if app then ''>> '' else ''> '') @ f"
| "show_item Pipe = ''|''"

fun show_items :: "item list \<Rightarrow> string" where
  "show_items [] = []"
| "show_items [i] = show_item i"
| "show_items (i # j # is) = show_item i @ CHR '' '' # show_items (j # is)"

fun wf_item :: "item \<Rightarrow> bool" where
  "wf_item (Word w) = wf_word w"
| "wf_item (In_file f) = wf_word f"
| "wf_item (Out_file app f) = wf_word f"
| "wf_item Pipe = True"

definition tail_ok :: "string \<Rightarrow> bool" where
  "tail_ok t \<longleftrightarrow> (t = [] \<or> hd t = CHR '' '')"

lemma space_facts [simp]: "is_space CHR '' ''" "\<not> word_char CHR '' ''"
  by (simp_all add: is_space_def word_char_def)

lemma wf_word_ne: "wf_word w \<Longrightarrow> w \<noteq> []"
  by (simp add: wf_word_def)

lemma wf_word_skip:
  assumes "wf_word w" "tail_ok t"
  shows "skip_word (w @ t) = t" "token (w @ t) = w" "skip_space (w @ t) = w @ t"
proof -
  have all: "\<forall>c\<in>set w. word_char c" using assms(1) by (simp add: wf_word_def)
  have t: "dropWhile word_char t = t" "takeWhile word_char t = []"
    using assms(2) by (cases t; auto simp: tail_ok_def)+
  show "skip_word (w @ t) = t" using all t by (simp add: skip_word_def dropWhile_append2)
  show "token (w @ t) = w" using all t by (simp add: token_def takeWhile_append2)
  obtain c cs where "w = c # cs" using wf_word_ne [OF assms(1)] by (cases w) auto
  then show "skip_space (w @ t) = w @ t" using all by (auto simp: skip_space_def word_char_def)
qed

lemma skip_blank [simp]: "skip_space (CHR '' '' # s) = skip_space s"
  by (simp add: skip_space_def)

lemma file_follows_word: "\<lbrakk>wf_word f; tail_ok t\<rbrakk> \<Longrightarrow> file_follows (CHR '' '' # f @ t) = Some t"
  using wf_word_skip [of f t] wf_word_ne [of f] by (auto simp: file_follows_def Let_def)

text \<open>What the two passes make of one item, when the first pass accepts it.\<close>

fun accepts :: "scan \<Rightarrow> item \<Rightarrow> bool" where
  "accepts st (Word w) = True"
| "accepts st (In_file f) = (num_commands st = 0 \<and> \<not> has_file_input st)"
| "accepts st (Out_file app f) = (\<not> has_file_output st)"
| "accepts st Pipe = (\<not> has_file_output st \<and> has_token_last st)"

fun scan_item :: "item \<Rightarrow> scan \<Rightarrow> scan" where
  "scan_item (Word w) st = st\<lparr>has_token_last := True, total_strings := total_strings st + 1\<rparr>"
| "scan_item (In_file f) st = st\<lparr>has_file_input := True\<rparr>"
| "scan_item (Out_file app f) st = (if app then st\<lparr>file_append := True\<rparr> else st)\<lparr>has_file_output := True\<rparr>"
| "scan_item Pipe st = st\<lparr>has_token_last := False, num_commands := num_commands st + 1\<rparr>"

fun store_item :: "item \<Rightarrow> stored \<Rightarrow> stored" where
  "store_item (Word w) sp = sp\<lparr>st_argv := st_argv sp @ [w]\<rparr>"
| "store_item (In_file f) sp = sp\<lparr>st_in := Some f\<rparr>"
| "store_item (Out_file app f) sp = sp\<lparr>st_out := Some f\<rparr>"
| "store_item Pipe sp = sp\<lparr>st_done := st_done sp @ [st_argv sp], st_argv := []\<rparr>"

fun accepts_all :: "scan \<Rightarrow> item list \<Rightarrow> bool" where
  "accepts_all st [] = True"
| "accepts_all st (i # is) = (accepts st i \<and> accepts_all (scan_item i st) is)"

fun same_mode :: "bool \<Rightarrow> item \<Rightarrow> bool" where
  "same_mode app (Out_file app' f) = (app' = app)"
| "same_mode app _ = True"

lemma wf_word_Cons:
  assumes "wf_word w"
  obtains c cs where "w = c # cs" "word_char c" "c \<noteq> CHR ''#''" "c \<noteq> NUL"
  using assms by (cases w) (auto simp: wf_word_def)

lemma word_char_not [simp]:
  "\<not> word_char CHR ''<''" "\<not> word_char CHR ''>''" "\<not> word_char CHR ''|''" "\<not> word_char CHR ''&''"
  by (simp_all add: word_char_def)

lemma first_step_item:
  assumes wf: "wf_item i" and t: "tail_ok t" and ok: "accepts st i"
  shows "first_step (show_item i @ t) st = Inr (t, scan_item i st)"
proof (cases i)
  case (Word w)
  then have w: "wf_word w" using wf by simp
  then obtain c cs where c: "w = c # cs" "word_char c" by (rule wf_word_Cons)
  then have "c \<noteq> CHR ''&''" "c \<noteq> CHR ''<''" "c \<noteq> CHR ''>''" "c \<noteq> CHR ''|''" by auto
  then show ?thesis using Word wf_word_skip(1) [OF w t] by (simp add: c word_step_def)
next
  case (In_file f)
  then show ?thesis using wf ok t by (simp add: input_step_def file_follows_word)
next
  case (Out_file app f)
  then have "hd (CHR '' '' # f @ t) \<noteq> CHR ''>''" by simp
  then show ?thesis using Out_file wf ok t by (simp add: output_step_def file_follows_word Let_def)
next
  case Pipe
  then show ?thesis using ok by (simp add: pipe_step_def)
qed

lemma second_step_item:
  assumes wf: "wf_item i" and t: "tail_ok t" and m: "same_mode app i"
  shows "second_step app (show_item i @ t) sp = (t, store_item i sp)"
proof (cases i)
  case (Word w)
  then have w: "wf_word w" using wf by simp
  then obtain c cs where c: "w = c # cs" "word_char c" by (rule wf_word_Cons)
  then have "c \<noteq> CHR ''<''" "c \<noteq> CHR ''>''" "c \<noteq> CHR ''|''" by auto
  then show ?thesis using Word wf_word_skip(1,2) [OF w t] by (simp add: c)
next
  case (In_file f)
  then show ?thesis using wf wf_word_skip [of f t] t by (simp add: Let_def)
next
  case (Out_file app' f)
  then show ?thesis using wf m wf_word_skip [of f t] t by (auto simp: Let_def)
next
  case Pipe
  then show ?thesis by simp
qed

lemma show_item_ne: "wf_item i \<Longrightarrow> show_item i \<noteq> [] \<and> \<not> is_space (hd (show_item i))"
  by (cases i) (auto simp: is_space_def word_char_def elim!: wf_word_Cons)

lemma show_items_Cons:
  "show_items (i # is) = show_item i @ (if is = [] then [] else CHR '' '' # show_items is)"
  by (cases "is") auto

lemma show_items_hd:
  assumes "list_all wf_item is" "is \<noteq> []"
  shows "show_items is \<noteq> [] \<and> \<not> is_space (hd (show_items is))"
  using assms show_item_ne [of "hd is"] by (cases "is") (auto simp: show_items_Cons)

lemma skip_space_items: "list_all wf_item is \<Longrightarrow> skip_space (show_items is) = show_items is"
  using show_items_hd [of "is"] by (cases "show_items is"; cases "is = []") (auto simp: skip_space_def)

lemma items_tail:
  assumes "list_all wf_item is"
  shows "tail_ok (if is = [] then [] else CHR '' '' # show_items is)"
    "skip_space (if is = [] then [] else CHR '' '' # show_items is) = show_items is"
  using skip_space_items [OF assms] by (auto simp: tail_ok_def skip_space_def)

lemma first_pass_items:
  "\<lbrakk>list_all wf_item is; accepts_all st is\<rbrakk> \<Longrightarrow> first_pass (show_items is) st = Inr (fold scan_item is st)"
proof (induction "is" arbitrary: st)
  case Nil
  then show ?case by (simp add: first_pass.simps)
next
  case (Cons i "is")
  then show ?case
    using show_item_ne [of i] first_step_item [of i _ st] items_tail [of "is"]
    by (subst first_pass.simps) (simp add: show_items_Cons)
qed

lemma second_pass_items:
  "\<lbrakk>list_all wf_item is; list_all (same_mode app) is\<rbrakk>
    \<Longrightarrow> second_pass app (show_items is) sp = Some (fold store_item is sp)"
proof (induction "is" arbitrary: sp)
  case Nil
  then show ?case by (simp add: second_pass.simps)
next
  case (Cons i "is")
  then show ?case
    using show_item_ne [of i] second_step_item [of i _ app sp] items_tail [of "is"]
    by (subst second_pass.simps) (simp add: show_items_Cons)
qed

text \<open>The items of a command.\<close>

fun pipeline :: "item list \<Rightarrow> string list list \<Rightarrow> item list" where
  "pipeline out [] = out"
| "pipeline out (argv # rest) = Pipe # map Word argv @ pipeline out rest"

definition out_items :: "parsed_command \<Rightarrow> item list" where
  "out_items p = (case stdout_file p of Some f \<Rightarrow> [Out_file (is_file_append p) f] | None \<Rightarrow> [])"

definition in_items :: "parsed_command \<Rightarrow> item list" where
  "in_items p = (case stdin_file p of Some f \<Rightarrow> [In_file f] | None \<Rightarrow> [])"

definition items :: "parsed_command \<Rightarrow> item list" where
  "items p = map Word (hd (commands p)) @ in_items p @ pipeline (out_items p) (tl (commands p))"

definition blanked :: "item list \<Rightarrow> string" where
  "blanked is = concat (map (\<lambda>i. show_item i @ '' '') is)"

lemma blanked_simps [simp]:
  "blanked [] = []" "blanked (i # is) = show_item i @ CHR '' '' # blanked is"
  "blanked (is @ js) = blanked is @ blanked js"
  by (simp_all add: blanked_def)

lemma blanked_show: "is \<noteq> [] \<Longrightarrow> blanked is = show_items is @ '' ''"
  by (induction "is") (auto simp: show_items_Cons)

lemma blanked_words: "blanked (map Word ws) = concat (map (\<lambda>a. a @ '' '') ws)"
  by (induction ws) auto

lemma print_stage_blanked:
  "print_stage p i = blanked (map Word (commands p ! i)) @
     (if i = 0 then blanked (in_items p) else []) @
     (if i = length (commands p) - 1 then blanked (out_items p) else ''| '')"
  by (simp add: print_stage_def blanked_words in_items_def out_items_def split: option.split)

lemma print_rest:
  assumes "0 < k" "k \<le> length (commands p)"
  shows "(if k < length (commands p) then ''| '' else blanked (out_items p)) @
      concat (map (print_stage p) [k..<length (commands p)]) =
    blanked (pipeline (out_items p) (drop k (commands p)))"
  using assms
proof (induction "length (commands p) - k" arbitrary: k)
  case 0
  then show ?case by simp
next
  case (Suc m)
  then have k: "k < length (commands p)" by simp
  have ih: "(if Suc k < length (commands p) then ''| '' else blanked (out_items p)) @
      concat (map (print_stage p) [Suc k..<length (commands p)]) =
    blanked (pipeline (out_items p) (drop (Suc k) (commands p)))"
    using Suc k by (intro Suc(1)) auto
  show ?case
    using k Suc.prems(1)
    by (auto simp: upt_conv_Cons [OF k] Cons_nth_drop_Suc [OF k, symmetric] print_stage_blanked ih [symmetric])
qed

lemma print_items:
  assumes "commands p \<noteq> []"
  shows "print_parsed_command p =
    blanked (items p) @ (if is_background p then ''&'' else []) @ [CHR 0x0A]"
proof -
  have len: "0 < length (commands p)" using assms by simp
  show ?thesis
    using print_rest [of 1 p] len assms
    by (auto simp: print_parsed_command_def upt_conv_Cons [OF len] print_stage_blanked items_def
        hd_conv_nth drop_Suc split: if_splits)
qed

lemma items_wf:
  assumes "wf_command p"
  shows "list_all wf_item (items p)" "items p \<noteq> []" "list_all (same_mode (is_file_append p)) (items p)"
proof -
  obtain argv rest where c: "commands p = argv # rest" using assms by (cases "commands p") (auto simp: wf_command_def)
  have words: "list_all wf_item (map Word ws) \<and> list_all (same_mode b) (map Word ws)"
    if "\<forall>w\<in>set ws. wf_word w" for ws b
    using that by (auto simp: list_all_iff)
  have pipe: "list_all wf_item (pipeline out cs) \<and> list_all (same_mode b) (pipeline out cs)"
    if "\<forall>argv\<in>set cs. \<forall>w\<in>set argv. wf_word w" "list_all wf_item out" "list_all (same_mode b) out" for out cs b
    using that by (induction cs) (auto simp: words)
  have io: "list_all wf_item (in_items p)" "list_all (same_mode b) (in_items p)"
    "list_all wf_item (out_items p)" "list_all (same_mode (is_file_append p)) (out_items p)" for b
    using assms by (auto simp: in_items_def out_items_def wf_command_def split: option.split)
  show "list_all wf_item (items p)" "list_all (same_mode (is_file_append p)) (items p)" "items p \<noteq> []"
    using assms io words [of argv] pipe [of rest "out_items p"]
    by (auto simp: items_def c wf_command_def)
qed

lemma fold_words:
  "fold store_item (map Word ws) sp = sp\<lparr>st_argv := st_argv sp @ ws\<rparr>"
  "accepts_all st (map Word ws)"
  by (induction ws arbitrary: sp st) auto

lemma scan_words:
  "fold scan_item (map Word ws) st =
     st\<lparr>has_token_last := has_token_last st \<or> ws \<noteq> [], total_strings := total_strings st + length ws\<rparr>"
  by (induction ws arbitrary: st) auto

lemma accepts_all_append [simp]:
  "accepts_all st (is @ js) \<longleftrightarrow> accepts_all st is \<and> accepts_all (fold scan_item is st) js"
  by (induction "is" arbitrary: st) auto

lemma pipeline_stored:
  "fold store_item (pipeline out cs) sp =
    fold store_item out (case rev cs of [] \<Rightarrow> sp
      | l # ls \<Rightarrow> sp\<lparr>st_done := st_done sp @ st_argv sp # rev ls, st_argv := l\<rparr>)"
proof (induction cs arbitrary: sp)
  case Nil
  then show ?case by simp
next
  case (Cons argv cs)
  then show ?case
    by (cases cs rule: rev_cases) (auto simp: fold_words)
qed

lemma pipeline_scanned:
  assumes "\<forall>argv\<in>set cs. argv \<noteq> []" "has_token_last st" "\<not> has_file_output st"
  shows "accepts_all st (pipeline out cs) \<longleftrightarrow> accepts_all (fold scan_item (pipeline [] cs) st) out" and
    "fold scan_item (pipeline out cs) st = fold scan_item out (fold scan_item (pipeline [] cs) st)" and
    "has_token_last (fold scan_item (pipeline [] cs) st)"
    "has_file_output (fold scan_item (pipeline [] cs) st) = has_file_output st"
    "file_append (fold scan_item (pipeline [] cs) st) = file_append st"
    "total_strings (fold scan_item (pipeline [] cs) st) = total_strings st + length (concat cs)"
  using assms by (induction cs arbitrary: st) (auto simp: fold_words scan_words)

lemma trim_end_spaces:
  assumes "s \<noteq> []" "\<not> is_space (last s)" "\<forall>c\<in>set t. is_space c"
  shows "trim_end (s @ t) = s"
proof -
  have "dropWhile is_space (rev t @ rev s) = rev s"
    using assms by (subst dropWhile_append2) (auto simp: hd_rev [symmetric] dropWhile_eq_self_iff)
  then show ?thesis by (simp add: trim_end_def)
qed

lemma show_item_last:
  assumes "wf_item i"
  shows "\<not> is_space (last (show_item i)) \<and> last (show_item i) \<noteq> CHR ''&''"
proof -
  have w: "w \<noteq> [] \<and> \<not> is_space (last w) \<and> last w \<noteq> CHR ''&''" if "wf_word w" for w
    using that last_in_set [of w] by (auto simp: wf_word_def word_char_def)
  show ?thesis
    using assms w by (cases i) (auto simp: is_space_def)
qed

lemma show_items_last:
  assumes "list_all wf_item is" "is \<noteq> []"
  shows "\<not> is_space (last (show_items is)) \<and> last (show_items is) \<noteq> CHR ''&''"
  using assms
proof (induction "is")
  case (Cons i "is")
  then show ?case
    using show_item_last [of i] show_item_ne [of i] show_items_hd [of "is"]
    by (auto simp: show_items_Cons)
qed simp

lemma show_items_clean:
  assumes "list_all wf_item is"
  shows "CHR ''#'' \<notin> set (show_items is)"
  using assms
proof (induction "is")
  case (Cons i "is")
  then have "CHR ''#'' \<notin> set (show_item i)" by (cases i) (auto simp: wf_word_def)
  then show ?case using Cons by (simp add: show_items_Cons)
qed simp

lemma logical_line_print:
  assumes "wf_command p"
  shows "logical_line (print_parsed_command p) =
      show_items (items p) @ (if is_background p then '' &'' else [])"
    "ends_in_amp (logical_line (print_parsed_command p)) = is_background p"
    "without_amp (logical_line (print_parsed_command p)) = show_items (items p)"
proof -
  note wf = items_wf [OF assms]
  let ?s = "show_items (items p)"
  note hd = show_items_hd [OF wf(1,2)] and lst = show_items_last [OF wf(1,2)]
  let ?l = "print_parsed_command p"
  have l: "?l = ?s @ '' '' @ (if is_background p then ''&'' else []) @ [CHR 0x0A]"
    using print_items [of p] assms by (simp add: blanked_show [OF wf(2)] wf_command_def)
  have "uncommented ?l = ?l"
    using show_items_clean [OF wf(1)] by (auto simp: uncommented_def l takeWhile_eq_all_conv)
  moreover have "skip_space ?l = ?l"
    using hd by (cases ?s) (auto simp: l skip_space_def)
  moreover have "trim_end ?l = ?s @ (if is_background p then '' &'' else [])"
    using trim_end_spaces [of ?s "'' '' @ [CHR 0x0A]"] trim_end_spaces [of "?s @ '' &''" "[CHR 0x0A]"] hd lst
    by (simp add: l is_space_def)
  ultimately show ll: "logical_line ?l = ?s @ (if is_background p then '' &'' else [])"
    by (simp add: logical_line_def)
  show amp: "ends_in_amp (logical_line ?l) = is_background p"
    using hd lst by (simp add: ll ends_in_amp_def)
  show "without_amp (logical_line ?l) = ?s"
    using hd lst trim_end_spaces [of ?s "'' ''"] unfolding without_amp_def amp
    by (simp add: ll butlast_append)
qed

lemma parse_line_print:
  assumes "wf_command p"
  shows "parse_line True (is_background p) (show_items (items p)) = Some (Inr p)"
proof -
  note wf = items_wf [OF assms]
  obtain argv rest where c: "commands p = argv # rest" "argv \<noteq> []" "\<forall>a\<in>set rest. a \<noteq> []"
    using assms by (cases "commands p") (auto simp: wf_command_def)
  have app: "stdout_file p = None \<Longrightarrow> \<not> is_file_append p" using assms by (auto simp: wf_command_def)
  let ?st = "fold scan_item (map Word argv @ in_items p) scan0"
  have st: "has_token_last ?st" "\<not> has_file_output ?st" "\<not> file_append ?st" "0 < total_strings ?st"
    using c(2) by (auto simp: scan_words scan0_def in_items_def split: option.split)
  note pl = pipeline_scanned [OF c(3) st(1,2)]
  have "accepts_all scan0 (map Word argv @ in_items p)"
    by (auto simp: fold_words scan_words in_items_def scan0_def split: option.split)
  moreover have "accepts_all ?st (pipeline (out_items p) rest)"
    using pl(4) st(2) by (subst pl(1)) (auto simp: out_items_def split: option.split simp del: fold_append)
  ultimately have acc: "accepts_all scan0 (items p)" by (simp add: items_def c(1))
  let ?f = "fold scan_item (items p) scan0"
  have f: "?f = fold scan_item (out_items p) (fold scan_item (pipeline [] rest) ?st)"
    unfolding pl(2) [symmetric] by (simp add: items_def c(1))
  have "0 < total_strings ?f \<and> has_token_last ?f \<and> file_append ?f = is_file_append p"
    using pl(3,5,6) st app by (auto simp: f out_items_def split: option.split)
  moreover have "fold store_item (items p) stored0 = \<lparr>st_done = butlast (commands p),
      st_argv = last (commands p), st_in = stdin_file p, st_out = stdout_file p\<rparr>"
    by (cases rest rule: rev_cases; cases "stdin_file p"; cases "stdout_file p")
      (auto simp: items_def c(1) fold_words in_items_def out_items_def pipeline_stored stored0_def)
  ultimately show ?thesis
    using first_pass_items [OF wf(1) acc] second_pass_items [OF wf(1,3), of stored0] c(1)
    by (simp add: parse_line_def store_command_def)
qed

lemma parse_print:
  assumes "wf_command p"
  shows "\<exists>buf. parse_command True True (print_parsed_command p) = Some (Inr p, buf)"
proof -
  note l = logical_line_print [OF assms]
  have "logical_line (print_parsed_command p) \<noteq> []"
    using show_items_hd [OF items_wf(1,2) [OF assms]] by (simp add: l(1))
  then show ?thesis
    using parse_line_print [OF assms] l(2,3) by (simp add: parse_command_def)
qed

end
