(* ===== verification/ShellTheorems.thy ===== *)
theory ShellTheorems
  imports ShellParser
begin

text \<open>The properties of the parser of command lines.\<close>

text \<open>C23 (type). Parsing returns on every command line. When it succeeds, the result is the empty command, or a command whose
  pipeline has at least one stage, whose stages have at least one word, and whose words and file names
  are non-empty and free of the characters that separate words; it appends only to a file that it names.\<close>

theorem parse_returns_well_formed:
  assumes "cstring line"
  shows "\<exists>r buf. parse_command mem1 mem2 line = Some (r, buf) \<and>
    (\<forall>p. r = Inr p \<longrightarrow> p = no_command \<or> wf_command p)"
  by (rule parse_command_returns [OF assms])

lemma parse_returns_well_formed_witness:
  "\<exists>r buf. parse_command True True ''cat < in.txt | wc >> out &'' = Some (r, buf)"
proof -
  have "cstring ''cat < in.txt | wc >> out &''" by (simp add: cstring_def)
  then show ?thesis using parse_returns_well_formed by blast
qed

text \<open>C24 (roundtrip). Printing a well-formed command and parsing the line gives the command back:
  its pipeline, its redirections, whether it appends, and whether it runs in the background.\<close>

theorem parse_of_print:
  assumes "wf_command p"
  shows "\<exists>buf. parse_command True True (print_parsed_command p) = Some (Inr p, buf)"
  by (rule parse_print [OF assms])

lemma parse_of_print_witness:
  "\<exists>buf. parse_command True True (''cat a.txt < in | wc >> out &'' @ [CHR 0x0A]) =
     Some (Inr \<lparr>is_background = True, is_file_append = True, stdin_file = Some ''in'', stdout_file = Some ''out'',
       commands = [[''cat'', ''a.txt''], [''wc'']]\<rparr>, buf)"
proof -
  let ?p = "\<lparr>is_background = True, is_file_append = True, stdin_file = Some ''in'', stdout_file = Some ''out'',
       commands = [[''cat'', ''a.txt''], [''wc'']]\<rparr>"
  have "print_parsed_command ?p = ''cat a.txt < in | wc >> out &'' @ [CHR 0x0A]" by code_simp
  moreover have "list_all wf_word [''in'', ''out'', ''cat'', ''a.txt'', ''wc'']" by code_simp
  then have "wf_command ?p" by (simp add: wf_command_def)
  ultimately show ?thesis using parse_of_print [of ?p] by simp
qed

end
