(* ===== verification/VecOps.thy ===== *)
theory VecOps
  imports Prelude
begin

text \<open>
  The two growing arrays of pointers: \<open>pcb_vec_t\<close> of \<open>src/kernel/pcb_vec.c\<close>, which holds the process
  table, and \<open>Vec\<close> of \<open>src/util/Vec.c\<close>. Both have the same fields, so they share the record
  \<open>vec\<close>: the allocated cells, the number of them in use, the capacity, and whether an element
  destructor is installed. Cells that \<open>malloc\<close> and \<open>realloc\<close> hand out are not initialised: what is in
  them is the argument \<open>m_junk\<close>, and whether an allocation of a number of bytes succeeds is \<open>m_ok\<close>.

  A panic ends the program; it is the left side of the result, with its message. The destructor is
  called on elements; the operations that call it return the list of the elements destroyed, in
  order. \<open>size_t\<close> is \<open>nat\<close>: a capacity that does not fit into 64 bits has no allocation.
\<close>

subsection \<open>The data\<close>

record 'a mem =
  m_ok :: "nat \<Rightarrow> bool"
  m_junk :: "nat \<Rightarrow> 'a"

record 'a vec =
  v_data :: "'a list"
  v_length :: nat
  v_capacity :: nat
  v_dtor :: bool

definition PTR_SIZE :: nat where "PTR_SIZE = 8"
definition SIZE_T_MAX :: nat where "SIZE_T_MAX = 2 ^ 64 - 1"

definition vec_elems :: "'a vec \<Rightarrow> 'a list" where
  "vec_elems v = take (v_length v) (v_data v)"

definition vec_ok :: "'a vec \<Rightarrow> bool" where
  "vec_ok v \<longleftrightarrow> v_length v \<le> v_capacity v \<and> length (v_data v) = v_capacity v"

text \<open>What \<open>realloc\<close> does to the cells.\<close>

definition realloc_cells :: "'a mem \<Rightarrow> nat \<Rightarrow> 'a list \<Rightarrow> 'a list" where
  "realloc_cells m n d = take n d @ map (m_junk m) [length d..<n]"

text \<open>The loops that make room for an element and close the gap of one.\<close>

fun shift_up :: "nat \<Rightarrow> nat \<Rightarrow> 'a list \<Rightarrow> 'a list" where
  "shift_up index 0 d = d"
| "shift_up index (Suc i) d = (if index \<le> i then shift_up index i (d[Suc i := d ! i]) else d)"

function shift_down :: "nat \<Rightarrow> nat \<Rightarrow> 'a list \<Rightarrow> 'a list" where
  "shift_down i n d = (if i < n then shift_down (Suc i) n (d[i := d ! Suc i]) else d)"
  by pat_completeness auto
termination by (relation "measure (\<lambda>(i, n, _). n - i)") auto

declare shift_down.simps [simp del]

subsection \<open>pcb_vec.c\<close>

definition pcb_vec_new :: "'a mem \<Rightarrow> 'a \<Rightarrow> nat \<Rightarrow> bool \<Rightarrow> string + 'a vec" where
  "pcb_vec_new m null initial_capacity dtor =
    (if initial_capacity = 0 then Inr \<lparr>v_data = [], v_length = 0, v_capacity = 0, v_dtor = dtor\<rparr>
     else if m_ok m (initial_capacity * PTR_SIZE)
     then Inr \<lparr>v_data = replicate initial_capacity null, v_length = 0, v_capacity = initial_capacity,
       v_dtor = dtor\<rparr>
     else Inl ''pcb_vec_new(): Memory allocation (calloc) failed.'')"

definition pcb_vec_clear :: "'a vec \<Rightarrow> 'a list \<times> 'a vec" where
  "pcb_vec_clear v = (if v_dtor v then vec_elems v else [], v\<lparr>v_length := 0\<rparr>)"

definition pcb_vec_destroy :: "'a vec \<Rightarrow> 'a list \<times> 'a vec" where
  "pcb_vec_destroy v =
    (let (gone, v1) = pcb_vec_clear v in (gone, v1\<lparr>v_data := [], v_capacity := 0\<rparr>))"

definition pcb_vec_resize :: "'a mem \<Rightarrow> nat \<Rightarrow> 'a vec \<Rightarrow> string + 'a vec" where
  "pcb_vec_resize m new_capacity v =
    (if new_capacity \<le> v_length v then Inr v
     else if m_ok m (new_capacity * PTR_SIZE)
     then Inr (v\<lparr>v_data := realloc_cells m new_capacity (v_data v), v_capacity := new_capacity\<rparr>)
     else Inl ''pcb_vec_resize(): Resize (realloc) failed.'')"

definition pcb_vec_adjust :: "'a mem \<Rightarrow> 'a vec \<Rightarrow> string + 'a vec" where
  "pcb_vec_adjust m v =
    (if v_capacity v = 0 then pcb_vec_resize m 1 v
     else if v_length v = v_capacity v then pcb_vec_resize m (2 * v_capacity v) v
     else Inr v)"

definition pcb_vec_push_back :: "'a mem \<Rightarrow> 'a \<Rightarrow> 'a vec \<Rightarrow> string + 'a vec" where
  "pcb_vec_push_back m new_ele v =
    (case pcb_vec_adjust m v of
       Inl e \<Rightarrow> Inl e
     | Inr v1 \<Rightarrow> Inr (v1\<lparr>v_data := (v_data v1)[v_length v1 := new_ele], v_length := v_length v1 + 1\<rparr>))"

definition pcb_vec_pop_back :: "'a \<Rightarrow> 'a vec \<Rightarrow> 'a \<times> 'a vec" where
  "pcb_vec_pop_back null v =
    (if v_length v = 0 then (null, v)
     else let i = v_length v - 1 in
       (v_data v ! i, v\<lparr>v_data := (v_data v)[i := null], v_length := i\<rparr>))"

definition pcb_vec_get :: "nat \<Rightarrow> 'a vec \<Rightarrow> string + 'a" where
  "pcb_vec_get index v =
    (if v_length v \<le> index then Inl ''pcb_vec_get(): Index value out of range (>= vec_len)!''
     else Inr (v_data v ! index))"

definition pcb_vec_set :: "nat \<Rightarrow> 'a \<Rightarrow> 'a vec \<Rightarrow> string + 'a list \<times> 'a vec" where
  "pcb_vec_set index new_ele v =
    (if v_length v \<le> index then Inl ''pcb_vec_set(): Index value out of range (>= vec_len)!''
     else Inr (if v_dtor v then [v_data v ! index] else [], v\<lparr>v_data := (v_data v)[index := new_ele]\<rparr>))"

definition pcb_vec_insert :: "'a mem \<Rightarrow> nat \<Rightarrow> 'a \<Rightarrow> 'a vec \<Rightarrow> string + 'a vec" where
  "pcb_vec_insert m index new_ele v =
    (if v_length v < index then Inl ''pcb_vec_insert(): Index value out of range (> vec_len)!''
     else case pcb_vec_adjust m v of
       Inl e \<Rightarrow> Inl e
     | Inr v1 \<Rightarrow> Inr (v1\<lparr>v_data := (shift_up index (v_length v1) (v_data v1))[index := new_ele],
         v_length := v_length v1 + 1\<rparr>))"

definition pcb_vec_erase :: "nat \<Rightarrow> bool \<Rightarrow> 'a vec \<Rightarrow> string + 'a list \<times> 'a vec" where
  "pcb_vec_erase index is_destroy v =
    (if v_length v \<le> index then Inl ''pcb_vec_erase(): Index value out of range (>= vec_len)!''
     else Inr (if v_dtor v \<and> is_destroy then [v_data v ! index] else [],
       v\<lparr>v_data := shift_down index (v_length v - 1) (v_data v), v_length := v_length v - 1\<rparr>))"

definition pcb_vec_seek_index_by_pcb :: "'a \<Rightarrow> 'a vec \<Rightarrow> int" where
  "pcb_vec_seek_index_by_pcb target v =
    (if v_length v = 0 then -1
     else case find_idx (\<lambda>x. x = target) (vec_elems v) of Some i \<Rightarrow> int i | None \<Rightarrow> -2)"

definition pcb_vec_remove_by_pcb :: "'a \<Rightarrow> 'a vec \<Rightarrow> string + int \<times> 'a vec" where
  "pcb_vec_remove_by_pcb target v =
    (let index = pcb_vec_seek_index_by_pcb target v in
     if index < 0 then Inr (-1, v)
     else case pcb_vec_erase (nat index) False v of
       Inl e \<Rightarrow> Inl e
     | Inr (_, v1) \<Rightarrow> Inr (0, v1))"

subsection \<open>Vec.c\<close>

definition vec_new :: "'a mem \<Rightarrow> nat \<Rightarrow> bool \<Rightarrow> string + 'a vec" where
  "vec_new m initial_capacity dtor =
    (if initial_capacity = 0 then Inr \<lparr>v_data = [], v_length = 0, v_capacity = 0, v_dtor = dtor\<rparr>
     else if m_ok m (initial_capacity * PTR_SIZE)
     then Inr \<lparr>v_data = map (m_junk m) [0..<initial_capacity], v_length = 0,
       v_capacity = initial_capacity, v_dtor = dtor\<rparr>
     else Inl ''Error with malloc in vec_new'')"

definition vec_get :: "nat \<Rightarrow> 'a vec \<Rightarrow> string + 'a" where
  "vec_get index v =
    (if v_length v \<le> index then Inl ''Index out of bound in vec_get'' else Inr (v_data v ! index))"

definition vec_resize :: "'a mem \<Rightarrow> nat \<Rightarrow> 'a vec \<Rightarrow> string + 'a vec" where
  "vec_resize m new_capacity v =
    (if new_capacity \<le> v_length v then Inr v
     else if m_ok m (new_capacity * PTR_SIZE)
     then Inr (v\<lparr>v_data := realloc_cells m new_capacity (v_data v), v_capacity := new_capacity\<rparr>)
     else Inl ''Error with realloc when resizing vec'')"

text \<open>The loop that doubles the capacity.\<close>

function double_capacity :: "nat \<Rightarrow> nat \<Rightarrow> nat" where
  "double_capacity min_new cap =
    (if 0 < cap \<and> cap < min_new \<and> cap \<le> SIZE_T_MAX div 2 then double_capacity min_new (cap * 2) else cap)"
  by pat_completeness auto
termination by (relation "measure (\<lambda>(min_new, cap). min_new - cap)") auto

declare double_capacity.simps [simp del]

definition vec_ensure_or_double_capacity :: "'a mem \<Rightarrow> nat \<Rightarrow> 'a vec \<Rightarrow> string + 'a vec" where
  "vec_ensure_or_double_capacity m min_capacity v =
    (let min_new = (if min_capacity = 0 then v_length v + 1 else min_capacity);
         new_capacity = double_capacity min_new (if v_capacity v = 0 then 1 else v_capacity v)
     in vec_resize m (if new_capacity < min_new then min_new else new_capacity) v)"

text \<open>
  \<open>size_t\<close> subtraction wraps below zero. The loop that clears unused cells runs up to the smaller of
  two such indices; past the end of the cells it writes outside of the allocation: \<^const>\<open>None\<close>.
\<close>

definition size_pred :: "nat \<Rightarrow> nat" where
  "size_pred n = (n + SIZE_T_MAX) mod (SIZE_T_MAX + 1)"

definition vec_initialize_unused_capacity :: "'a \<Rightarrow> nat \<Rightarrow> 'a vec \<Rightarrow> 'a vec option" where
  "vec_initialize_unused_capacity null up_to v =
    (let last = (if up_to < size_pred (v_capacity v) then up_to else size_pred (v_capacity v)) in
     if last < v_length v then Some v
     else if length (v_data v) \<le> last then None
     else Some (v\<lparr>v_data := map (\<lambda>i. if v_length v \<le> i \<and> i \<le> last then null else v_data v ! i)
                   [0..<length (v_data v)]\<rparr>))"

definition vec_resize_and_clean :: "'a mem \<Rightarrow> 'a \<Rightarrow> nat \<Rightarrow> 'a vec \<Rightarrow> (string + 'a vec) option" where
  "vec_resize_and_clean m null new_capacity v =
    (case vec_resize m new_capacity v of
       Inl e \<Rightarrow> Some (Inl e)
     | Inr v1 \<Rightarrow> map_option Inr (vec_initialize_unused_capacity null (size_pred new_capacity) v1))"

definition vec_push_back :: "'a mem \<Rightarrow> 'a \<Rightarrow> 'a vec \<Rightarrow> string + 'a vec" where
  "vec_push_back m new_ele v =
    (case vec_ensure_or_double_capacity m 0 v of
       Inl e \<Rightarrow> Inl e
     | Inr v1 \<Rightarrow> Inr (v1\<lparr>v_data := (v_data v1)[v_length v1 := new_ele], v_length := v_length v1 + 1\<rparr>))"

definition vec_pop_back :: "'a vec \<Rightarrow> bool \<times> 'a vec" where
  "vec_pop_back v = (if v_length v = 0 then (False, v) else (True, v\<lparr>v_length := v_length v - 1\<rparr>))"

definition vec_insert :: "'a mem \<Rightarrow> nat \<Rightarrow> 'a \<Rightarrow> 'a vec \<Rightarrow> string + 'a vec" where
  "vec_insert m index new_ele v =
    (if v_length v < index then Inl ''Index out of bound in vec_insert''
     else if index = v_length v then vec_push_back m new_ele v
     else case vec_ensure_or_double_capacity m 0 v of
       Inl e \<Rightarrow> Inl e
     | Inr v1 \<Rightarrow> Inr (v1\<lparr>v_data := (shift_up index (v_length v) (v_data v1))[index := new_ele],
         v_length := v_length v1 + 1\<rparr>))"

definition vec_erase :: "nat \<Rightarrow> 'a vec \<Rightarrow> string + 'a list \<times> 'a vec" where
  "vec_erase index v =
    (if v_length v \<le> index then Inl ''Index out of bound in vec_erase''
     else Inr (if v_dtor v then [v_data v ! index] else [],
       v\<lparr>v_data := shift_down index (v_length v - 1) (v_data v), v_length := v_length v - 1\<rparr>))"

definition vec_set_helper ::
  "'a mem \<Rightarrow> 'a \<Rightarrow> nat \<Rightarrow> 'a \<Rightarrow> bool \<Rightarrow> 'a vec \<Rightarrow> (string + 'a list \<times> 'a vec) option" where
  "vec_set_helper m null index new_ele force_set v =
    (if v_length v \<le> index then
       if \<not> force_set then Some (Inl ''Index out of bound in vec_set'')
       else case vec_ensure_or_double_capacity m (index + 1) v of
         Inl e \<Rightarrow> Some (Inl e)
       | Inr v1 \<Rightarrow>
           map_option (\<lambda>v2. Inr ([], v2\<lparr>v_data := (v_data v2)[index := new_ele], v_length := index + 1\<rparr>))
             (vec_initialize_unused_capacity null (size_pred index) v1)
     else Some (Inr (if v_dtor v then [v_data v ! index] else [],
            v\<lparr>v_data := (v_data v)[index := new_ele]\<rparr>)))"

definition vec_set :: "'a mem \<Rightarrow> 'a \<Rightarrow> nat \<Rightarrow> 'a \<Rightarrow> 'a vec \<Rightarrow> (string + 'a list \<times> 'a vec) option" where
  "vec_set m null index new_ele v = vec_set_helper m null index new_ele False v"

definition vec_set_force :: "'a mem \<Rightarrow> 'a \<Rightarrow> nat \<Rightarrow> 'a \<Rightarrow> 'a vec \<Rightarrow> (string + 'a list \<times> 'a vec) option" where
  "vec_set_force m null index new_ele v = vec_set_helper m null index new_ele True v"

definition vec_clear :: "'a vec \<Rightarrow> 'a list \<times> 'a vec" where
  "vec_clear v = (if v_dtor v then vec_elems v else [], v\<lparr>v_length := 0\<rparr>)"

definition vec_destroy :: "'a vec \<Rightarrow> 'a list \<times> 'a vec" where
  "vec_destroy v = (let (gone, v1) = vec_clear v in (gone, v1\<lparr>v_data := [], v_capacity := 0\<rparr>))"

subsection \<open>The loops as list operations\<close>

lemma length_shift_up [simp]: "length (shift_up i n d) = length d"
  by (induction i n d rule: shift_up.induct) auto

lemma shift_up_nth:
  assumes "n < length d" "k < length d"
  shows "shift_up i n d ! k = (if i < k \<and> k \<le> n then d ! (k - 1) else d ! k)"
  using assms
proof (induction i n d rule: shift_up.induct)
  case (2 i n d)
  then show ?case
    by (cases "i \<le> n") (auto simp: nth_list_update)
qed auto

lemma shift_up_take:
  assumes "i \<le> n" "n < length d"
  shows "take (Suc n) ((shift_up i n d)[i := x]) = take i d @ x # drop i (take n d)"
proof (rule nth_equalityI)
  fix k
  assume "k < length (take (Suc n) ((shift_up i n d)[i := x]))"
  then have "k < Suc n" by simp
  then show "take (Suc n) ((shift_up i n d)[i := x]) ! k = (take i d @ x # drop i (take n d)) ! k"
    using assms by (auto simp: nth_append nth_list_update shift_up_nth nth_Cons' min_absorb2)
qed (use assms in simp)

lemma length_shift_down [simp]: "length (shift_down i n d) = length d"
  by (induction i n d rule: shift_down.induct) (subst shift_down.simps, simp)

lemma shift_down_nth:
  assumes "n < length d" "k < length d"
  shows "shift_down i n d ! k = (if i \<le> k \<and> k < n then d ! Suc k else d ! k)"
  using assms
proof (induction i n d rule: shift_down.induct)
  case (1 i n d)
  show ?case
  proof (cases "i < n")
    case True
    then have "shift_down i n d ! k = (if Suc i \<le> k \<and> k < n then d[i := d ! Suc i] ! Suc k else d[i := d ! Suc i] ! k)"
      using 1 by (subst shift_down.simps) simp
    then show ?thesis using True 1(2,3) by (auto simp: nth_list_update)
  next
    case False
    then show ?thesis by (subst shift_down.simps) auto
  qed
qed

lemma shift_down_take:
  assumes "i \<le> n" "n < length d"
  shows "take n (shift_down i n d) = take i d @ drop (Suc i) (take (Suc n) d)"
proof (rule nth_equalityI)
  fix k
  assume "k < length (take n (shift_down i n d))"
  then have "k < n" by simp
  then show "take n (shift_down i n d) ! k = (take i d @ drop (Suc i) (take (Suc n) d)) ! k"
    using assms by (auto simp: nth_append shift_down_nth min_absorb2)
qed (use assms in simp)

lemma realloc_cells [simp]:
  "length (realloc_cells m n d) = n"
  "k \<le> n \<Longrightarrow> k \<le> length d \<Longrightarrow> take k (realloc_cells m n d) = take k d"
  by (auto simp: realloc_cells_def min_def)

lemma length_vec_elems [simp]: "vec_ok v \<Longrightarrow> length (vec_elems v) = v_length v"
  by (auto simp: vec_ok_def vec_elems_def)

lemma nth_vec_elems [simp]: "i < v_length v \<Longrightarrow> vec_elems v ! i = v_data v ! i"
  by (simp add: vec_elems_def)

text \<open>\<open>grown v v'\<close>: \<open>v'\<close> is \<open>v\<close> with room for one more element.\<close>

definition roomier :: "'a vec \<Rightarrow> 'a vec \<Rightarrow> bool" where
  "roomier v v' \<longleftrightarrow> vec_ok v' \<and> v_length v' = v_length v \<and> v_length v < v_capacity v' \<and>
     take (v_length v) (v_data v') = take (v_length v) (v_data v) \<and> v_dtor v' = v_dtor v"

lemma roomier_elems: "roomier v v' \<Longrightarrow> vec_elems v' = vec_elems v"
  by (simp add: roomier_def vec_elems_def)

lemma resize_roomier:
  assumes "vec_ok v" "v_length v < n" "pcb_vec_resize m n v = Inr v'"
  shows "roomier v v'"
  using assms by (auto simp: pcb_vec_resize_def roomier_def vec_ok_def split: if_splits)

lemma vec_resize_same: "vec_resize m n v = Inr v' \<longleftrightarrow> pcb_vec_resize m n v = Inr v'"
  by (auto simp: vec_resize_def pcb_vec_resize_def)

lemma adjust_roomier:
  assumes "vec_ok v" "pcb_vec_adjust m v = Inr v'"
  shows "roomier v v'"
proof -
  consider "v_capacity v = 0" "pcb_vec_resize m 1 v = Inr v'"
    | "0 < v_capacity v" "v_length v = v_capacity v" "pcb_vec_resize m (2 * v_capacity v) v = Inr v'"
    | "v' = v" "v_length v \<noteq> v_capacity v"
    using assms(2) by (auto simp: pcb_vec_adjust_def split: if_splits)
  then show ?thesis
  proof cases
    case 1
    then show ?thesis using assms(1) by (intro resize_roomier [OF assms(1) _ 1(2)]) (simp add: vec_ok_def)
  next
    case 2
    then show ?thesis by (intro resize_roomier [OF assms(1) _ 2(3)]) simp
  next
    case 3
    then show ?thesis using assms(1) by (auto simp: vec_ok_def roomier_def)
  qed
qed

lemma double_capacity_ge: "cap \<le> double_capacity n cap"
proof (induction n cap rule: double_capacity.induct)
  case (1 n cap)
  then show ?case by (subst double_capacity.simps) auto
qed

lemma ensure_roomier:
  assumes "vec_ok v" "vec_ensure_or_double_capacity m c v = Inr v'" "c = 0 \<or> v_length v < c"
  shows "roomier v v'" "c \<le> v_capacity v'"
proof -
  define n where "n = (if c = 0 then v_length v + 1 else c)"
  define k where "k = double_capacity n (if v_capacity v = 0 then 1 else v_capacity v)"
  have "pcb_vec_resize m (max n k) v = Inr v'"
    using assms(2) by (auto simp: vec_ensure_or_double_capacity_def Let_def vec_resize_same
        n_def [symmetric] k_def [symmetric] max_def split: if_splits)
  moreover have "v_length v < max n k" using assms(3) by (auto simp: n_def)
  ultimately show "roomier v v'" "c \<le> v_capacity v'"
    using resize_roomier [OF assms(1)] by (auto simp: pcb_vec_resize_def n_def split: if_splits)
qed

lemma roomier_insert:
  assumes "roomier v v'" "i \<le> v_length v"
  shows "vec_elems (v'\<lparr>v_data := (shift_up i (v_length v') (v_data v'))[i := x], v_length := Suc (v_length v')\<rparr>) =
      take i (vec_elems v) @ x # drop i (vec_elems v)"
    "vec_ok (v'\<lparr>v_data := (shift_up i (v_length v') (v_data v'))[i := x], v_length := Suc (v_length v')\<rparr>)"
proof -
  have len: "v_length v' = v_length v" "v_length v < length (v_data v')" using assms(1) by (auto simp: roomier_def vec_ok_def)
  have e: "take (v_length v) (v_data v') = take (v_length v) (v_data v)" using assms(1) by (simp add: roomier_def)
  then have "take i (take (v_length v) (v_data v')) = take i (take (v_length v) (v_data v))" by simp
  then have i: "take i (v_data v') = take i (v_data v)" using assms(2) by (simp add: min_absorb1)
  show "vec_elems (v'\<lparr>v_data := (shift_up i (v_length v') (v_data v'))[i := x], v_length := Suc (v_length v')\<rparr>) =
      take i (vec_elems v) @ x # drop i (vec_elems v)"
    using shift_up_take [of i "v_length v" "v_data v'" x] len assms(2) by (simp add: vec_elems_def e i min_absorb1)
  show "vec_ok (v'\<lparr>v_data := (shift_up i (v_length v') (v_data v'))[i := x], v_length := Suc (v_length v')\<rparr>)"
    using assms(1) by (auto simp: roomier_def vec_ok_def)
qed

lemma roomier_push:
  assumes "roomier v v'"
  shows "vec_elems (v'\<lparr>v_data := (v_data v')[v_length v' := x], v_length := Suc (v_length v')\<rparr>) = vec_elems v @ [x]"
    "vec_ok (v'\<lparr>v_data := (v_data v')[v_length v' := x], v_length := Suc (v_length v')\<rparr>)"
proof -
  have "shift_up n n d = d" for n and d :: "'a list" by (cases n) auto
  then show "vec_elems (v'\<lparr>v_data := (v_data v')[v_length v' := x], v_length := Suc (v_length v')\<rparr>) = vec_elems v @ [x]"
    "vec_ok (v'\<lparr>v_data := (v_data v')[v_length v' := x], v_length := Suc (v_length v')\<rparr>)"
    using roomier_insert [OF assms, of "v_length v" x] assms
    by (simp_all add: roomier_def vec_elems_def vec_ok_def)
qed

lemma erase_elems:
  assumes "vec_ok v" "i < v_length v"
  shows "vec_elems (v\<lparr>v_data := shift_down i (v_length v - Suc 0) (v_data v), v_length := v_length v - Suc 0\<rparr>) =
      take i (vec_elems v) @ drop (Suc i) (vec_elems v)"
    "vec_ok (v\<lparr>v_data := shift_down i (v_length v - Suc 0) (v_data v), v_length := v_length v - Suc 0\<rparr>)"
  using assms shift_down_take [of i "v_length v - 1" "v_data v"]
  by (auto simp: vec_elems_def vec_ok_def min_def)

subsection \<open>The contract of a growing array\<close>

text \<open>
  What the users of the two vectors rely on, in terms of the list of the elements in use. Adding an
  element may fail, and never does when every allocation succeeds (\<open>roomy\<close>).
\<close>

locale growing_array =
  fixes elems :: "'v \<Rightarrow> 'a list"
    and inv :: "'v \<Rightarrow> bool"
    and roomy :: bool
    and get :: "nat \<Rightarrow> 'v \<Rightarrow> string + 'a"
    and push :: "'a \<Rightarrow> 'v \<Rightarrow> string + 'v"
    and insert :: "nat \<Rightarrow> 'a \<Rightarrow> 'v \<Rightarrow> string + 'v"
    and erase :: "nat \<Rightarrow> 'v \<Rightarrow> string + 'v"
  assumes get_in: "inv v \<Longrightarrow> i < length (elems v) \<Longrightarrow> get i v = Inr (elems v ! i)"
    and get_out: "inv v \<Longrightarrow> length (elems v) \<le> i \<Longrightarrow> \<exists>e. get i v = Inl e"
    and push_adds: "inv v \<Longrightarrow> push x v = Inr v' \<Longrightarrow> inv v' \<and> elems v' = elems v @ [x]"
    and push_total: "inv v \<Longrightarrow> roomy \<Longrightarrow> \<exists>v'. push x v = Inr v'"
    and insert_adds: "inv v \<Longrightarrow> insert i x v = Inr v' \<Longrightarrow>
      i \<le> length (elems v) \<and> inv v' \<and> elems v' = take i (elems v) @ x # drop i (elems v)"
    and insert_total: "inv v \<Longrightarrow> roomy \<Longrightarrow> i \<le> length (elems v) \<Longrightarrow> \<exists>v'. insert i x v = Inr v'"
    and erase_in: "inv v \<Longrightarrow> i < length (elems v) \<Longrightarrow>
      \<exists>v'. erase i v = Inr v' \<and> inv v' \<and> elems v' = take i (elems v) @ drop (Suc i) (elems v)"
    and erase_out: "inv v \<Longrightarrow> length (elems v) \<le> i \<Longrightarrow> \<exists>e. erase i v = Inl e"
begin

lemma insert_at_end:
  assumes "inv v" "insert (length (elems v)) x v = Inr v1" "push x v = Inr v2"
  shows "elems v1 = elems v2"
  using insert_adds [OF assms(1,2)] push_adds [OF assms(1,3)] by simp

lemma erase_insert:
  assumes "inv v" "insert i x v = Inr v1"
  shows "\<exists>v2. erase i v1 = Inr v2 \<and> inv v2 \<and> elems v2 = elems v"
  using insert_adds [OF assms] erase_in [of v1 i] by (auto simp: min_absorb2)

lemma get_insert:
  assumes "inv v" "insert i x v = Inr v1" "j \<le> length (elems v)"
  shows "get j v1 = Inr (if j < i then elems v ! j else if j = i then x else elems v ! (j - 1))"
  using insert_adds [OF assms(1,2)] get_in [of v1 j] assms(3)
  by (auto simp: nth_append nth_Cons' min_absorb2)

lemma push_all:
  assumes "inv v" "roomy"
  shows "\<exists>v'. fold (\<lambda>x r. case r of Inl e \<Rightarrow> Inl e | Inr u \<Rightarrow> push x u) xs (Inr v) = Inr v' \<and>
    inv v' \<and> elems v' = elems v @ xs"
  using assms(1)
proof (induction xs arbitrary: v)
  case (Cons x xs)
  obtain v1 where "push x v = Inr v1" using push_total [OF Cons.prems assms(2)] by blast
  then show ?case using push_adds [OF Cons.prems, of x v1] Cons.IH [of v1] by auto
qed simp

end

lemma pcb_resize_total: "\<forall>n. m_ok m n \<Longrightarrow> pcb_vec_resize m n v \<noteq> Inl e"
  by (simp add: pcb_vec_resize_def)

lemma pcb_adjust_total: "\<forall>n. m_ok m n \<Longrightarrow> pcb_vec_adjust m v \<noteq> Inl e"
  by (simp add: pcb_vec_adjust_def pcb_resize_total)

lemma ensure_total: "\<forall>n. m_ok m n \<Longrightarrow> vec_ensure_or_double_capacity m c v \<noteq> Inl e"
  by (simp add: vec_ensure_or_double_capacity_def Let_def vec_resize_def)

text \<open>\<open>pcb_vec_erase\<close> as \<open>pcb_vec_remove_by_pcb\<close> calls it, and \<open>vec_erase\<close>, without the list of what they destroy.\<close>

definition pcb_vec_drop :: "nat \<Rightarrow> 'a vec \<Rightarrow> string + 'a vec" where
  "pcb_vec_drop index v = map_sum id snd (pcb_vec_erase index False v)"

definition vec_drop :: "nat \<Rightarrow> 'a vec \<Rightarrow> string + 'a vec" where
  "vec_drop index v = map_sum id snd (vec_erase index v)"

interpretation pcb_vec: growing_array vec_elems vec_ok "\<forall>n. m_ok m n" pcb_vec_get
    "pcb_vec_push_back m" "pcb_vec_insert m" pcb_vec_drop for m
proof (unfold_locales, goal_cases)
  case (3 v x v')
  then show ?case
    by (auto simp: pcb_vec_push_back_def roomier_push dest!: adjust_roomier split: sum.splits)
next
  case (5 v i x v')
  then show ?case
    by (auto simp: pcb_vec_insert_def roomier_insert dest!: adjust_roomier split: if_splits sum.splits)
qed (auto simp: pcb_vec_get_def pcb_vec_push_back_def pcb_vec_insert_def pcb_vec_drop_def pcb_vec_erase_def
    erase_elems pcb_adjust_total split: sum.splits)

interpretation c_vec: growing_array vec_elems vec_ok "\<forall>n. m_ok m n" vec_get
    "vec_push_back m" "vec_insert m" vec_drop for m
proof (unfold_locales, goal_cases)
  case (3 v x v')
  then show ?case
    by (auto simp: vec_push_back_def roomier_push dest!: ensure_roomier(1) split: sum.splits)
next
  case (5 v i x v')
  then show ?case
  proof (cases "i = v_length v")
    case True
    then show ?thesis
      using 5 by (auto simp: vec_insert_def vec_push_back_def roomier_push
          dest!: ensure_roomier(1) split: if_splits sum.splits)
  next
    case False
    then obtain v1 where v1: "vec_ensure_or_double_capacity m 0 v = Inr v1"
      "v' = v1\<lparr>v_data := (shift_up i (v_length v) (v_data v1))[i := x], v_length := Suc (v_length v1)\<rparr>"
      "i < v_length v"
      using 5(2) by (auto simp: vec_insert_def split: if_splits sum.splits)
    have r: "roomier v v1" using ensure_roomier(1) [OF 5(1) v1(1)] by simp
    then have "v_length v1 = v_length v" by (simp add: roomier_def)
    then show ?thesis
      using roomier_insert [OF r, of i x] v1(2,3) 5(1) by simp
  qed
qed (auto simp: vec_get_def vec_push_back_def vec_insert_def vec_drop_def vec_erase_def
    erase_elems ensure_total split: sum.splits)

subsection \<open>Removing an element, and storing past the end\<close>

lemma find_idx_remove1:
  "find_idx (\<lambda>y. y = x) xs = Some i \<Longrightarrow> take i xs @ drop (Suc i) xs = remove1 x xs"
  by (induction xs arbitrary: i) (auto split: if_splits)

lemma pcb_vec_remove:
  assumes "vec_ok v"
  shows "x \<notin> set (vec_elems v) \<Longrightarrow> pcb_vec_remove_by_pcb x v = Inr (-1, v)"
    "x \<in> set (vec_elems v) \<Longrightarrow> \<exists>v'. pcb_vec_remove_by_pcb x v = Inr (0, v') \<and> vec_ok v' \<and>
      vec_elems v' = remove1 x (vec_elems v)"
proof -
  assume "x \<notin> set (vec_elems v)"
  then have "find_idx (\<lambda>y. y = x) (vec_elems v) = None" by (auto simp: find_idx_None)
  then show "pcb_vec_remove_by_pcb x v = Inr (-1, v)"
    by (simp add: pcb_vec_remove_by_pcb_def pcb_vec_seek_index_by_pcb_def)
next
  assume x: "x \<in> set (vec_elems v)"
  then obtain i where i: "find_idx (\<lambda>y. y = x) (vec_elems v) = Some i"
    using find_idx_ex [OF x, of "\<lambda>y. y = x"] by auto
  have "0 < length (vec_elems v)" using x by (cases "vec_elems v") auto
  then have len: "i < length (vec_elems v)" "v_length v \<noteq> 0"
    using find_idx_SomeD(1) [OF i] assms by auto
  obtain v' where v': "pcb_vec_drop i v = Inr v'" "vec_ok v'"
    "vec_elems v' = take i (vec_elems v) @ drop (Suc i) (vec_elems v)"
    using pcb_vec.erase_in [OF assms len(1)] by blast
  then obtain gone where "pcb_vec_erase i False v = Inr (gone, v')"
    by (auto simp: pcb_vec_drop_def pcb_vec_erase_def split: if_splits)
  then show "\<exists>v'. pcb_vec_remove_by_pcb x v = Inr (0, v') \<and> vec_ok v' \<and>
      vec_elems v' = remove1 x (vec_elems v)"
    using v'(2,3) find_idx_remove1 [OF i] len(2)
    by (simp add: pcb_vec_remove_by_pcb_def pcb_vec_seek_index_by_pcb_def i)
qed

lemma double_capacity_le: "cap \<le> SIZE_T_MAX \<Longrightarrow> double_capacity n cap \<le> SIZE_T_MAX"
proof (induction n cap rule: double_capacity.induct)
  case (1 n cap)
  then show ?case by (subst double_capacity.simps) auto
qed

lemma size_pred: "0 < n \<Longrightarrow> n \<le> SIZE_T_MAX \<Longrightarrow> size_pred n = n - 1" "size_pred 0 = SIZE_T_MAX"
proof -
  assume n: "0 < n" "n \<le> SIZE_T_MAX"
  then have "(n + SIZE_T_MAX) mod (SIZE_T_MAX + 1) = (n - 1 + (SIZE_T_MAX + 1)) mod (SIZE_T_MAX + 1)" by simp
  also have "\<dots> = n - 1" using n by (subst mod_add_self2) (intro mod_less, simp)
  finally show "size_pred n = n - 1" by (simp add: size_pred_def)
qed (simp add: size_pred_def)

lemma ensure_capacity_le:
  assumes "vec_ensure_or_double_capacity m c v = Inr v'" "v_capacity v \<le> SIZE_T_MAX"
    "c \<le> SIZE_T_MAX" "v_length v < SIZE_T_MAX"
  shows "v_capacity v' \<le> SIZE_T_MAX"
proof -
  have "double_capacity n (if v_capacity v = 0 then 1 else v_capacity v) \<le> SIZE_T_MAX" for n
    using assms(2) by (intro double_capacity_le) (simp add: SIZE_T_MAX_def)
  then show ?thesis
    using assms by (auto simp: vec_ensure_or_double_capacity_def vec_resize_def Let_def split: if_splits)
qed

lemma set_force_beyond:
  assumes v: "vec_ok v" "v_capacity v \<le> SIZE_T_MAX" and m: "\<forall>n. m_ok m n"
    and i: "v_length v \<le> index" "index < SIZE_T_MAX"
  shows "\<exists>v'. vec_set_force m null index x v = Some (Inr ([], v')) \<and> vec_ok v' \<and>
    vec_elems v' = vec_elems v @ replicate (index - v_length v) null @ [x]"
proof -
  obtain v1 where e: "vec_ensure_or_double_capacity m (index + 1) v = Inr v1"
    using ensure_total [OF m, of "index + 1" v] by (cases "vec_ensure_or_double_capacity m (index + 1) v") auto
  have r: "roomier v v1" "index < v_capacity v1" using ensure_roomier [OF v(1) e] i(1) by auto
  have cap: "size_pred (v_capacity v1) = v_capacity v1 - 1"
    using ensure_capacity_le [OF e v(2)] i r(2) by (intro size_pred(1)) auto
  define last where "last = (if size_pred index < size_pred (v_capacity v1) then size_pred index else size_pred (v_capacity v1))"
  have last: "last < v_capacity v1" "0 < index \<Longrightarrow> last = index - 1" "index = 0 \<Longrightarrow> v_length v = 0"
    using size_pred i r(2) cap by (auto simp: last_def SIZE_T_MAX_def)
  define d where "d = (if last < v_length v1 then v_data v1
    else map (\<lambda>k. if v_length v1 \<le> k \<and> k \<le> last then null else v_data v1 ! k) [0..<length (v_data v1)])"
  have f: "v_length v1 = v_length v" "length (v_data v1) = v_capacity v1"
    "take (v_length v) (v_data v1) = take (v_length v) (v_data v)"
    using r(1) by (auto simp: roomier_def vec_ok_def)
  have len: "length d = v_capacity v1" by (simp add: d_def f)
  have set: "vec_set_force m null index x v = Some (Inr ([], v1\<lparr>v_data := d[index := x], v_length := index + 1\<rparr>))"
    using e i(1) last(1) f(2) by (auto simp: vec_set_force_def vec_set_helper_def
        vec_initialize_unused_capacity_def Let_def last_def [symmetric] d_def)
  have old: "v_data v1 ! k = v_data v ! k" if "k < v_length v" for k
    using f(3) that by (metis nth_take)
  have len1: "length (take (v_length v) (v_data v)) = v_length v" using v(1) by (simp add: vec_ok_def)
  have "take (Suc index) (d[index := x]) = take (v_length v) (v_data v) @ replicate (index - v_length v) null @ [x]"
  proof (rule nth_equalityI)
    show "length (take (Suc index) (d[index := x])) =
        length (take (v_length v) (v_data v) @ replicate (index - v_length v) null @ [x])"
      using len1 i(1) r(2) len by simp
  next
    fix k
    assume "k < length (take (Suc index) (d[index := x]))"
    then have "k \<le> index" by simp
    then show "take (Suc index) (d[index := x]) ! k =
        (take (v_length v) (v_data v) @ replicate (index - v_length v) null @ [x]) ! k"
      using v(1) i(1) r(2) len old last f(1,2)
      by (auto simp: nth_append nth_list_update d_def vec_ok_def nth_Cons' min_absorb1 min_absorb2)
  qed
  then show ?thesis
    using set r len by (auto simp: vec_elems_def vec_ok_def)
qed

end
