(* ===== verification/Pcb.thy ===== *)
theory Pcb
  imports VecOps
begin

text \<open>
  Process control blocks: \<open>src/kernel/PCB.h\<close>, \<open>src/kernel/PCB.c\<close> and the search functions of
  \<open>src/kernel/pcb_vec.c\<close>. PCBs live in a heap, a partial map from addresses; a \<open>pcb_t*\<close> is an
  optional address, \<^const>\<open>None\<close> being \<open>NULL\<close>. Access to an address that is not allocated makes the
  result \<^const>\<open>None\<close>. The queues link PCBs through \<open>next_pcb_ptr\<close>, the process table holds their
  addresses.
\<close>

subsection \<open>The data\<close>

datatype thrd_status_t = THRD_RUNNING | THRD_STOPPED | THRD_BLOCKED | THRD_ZOMBIE | THRD_REAPED

text \<open>\<open>k_signal_t\<close> of \<open>kernel_definition.h\<close>; the signal fields of a PCB hold 0 when there is none.\<close>

definition P_SIGSTOP :: int where "P_SIGSTOP = 1"
definition P_SIGCONT :: int where "P_SIGCONT = 2"
definition P_SIGTERM :: int where "P_SIGTERM = 3"

definition NUM_CHILDREN_MAX :: nat where "NUM_CHILDREN_MAX = 128"

type_synonym paddr = nat

record pcb =
  thrd :: nat
  pid :: int
  pgid :: int
  ppid :: int
  priority_level :: int
  command :: "string option"
  num_child_pids :: nat
  child_pids :: "int list"
  next_pcb_ptr :: "paddr option"
  status :: thrd_status_t
  pre_status :: thrd_status_t
  exit_code :: int
  term_signal :: int
  stop_signal :: int
  cont_signal :: int
  errno :: int
  sleep_stamp :: "32 word"
  sleep_length :: "32 word"
  fds :: "nat option"

type_synonym heap = "paddr \<Rightarrow> pcb option"

text \<open>An update of the PCB at an address that is allocated.\<close>

definition upd_pcb :: "paddr \<Rightarrow> (pcb \<Rightarrow> pcb) \<Rightarrow> heap \<Rightarrow> heap option" where
  "upd_pcb a f h = map_option (\<lambda>p. h(a \<mapsto> f p)) (h a)"

lemma upd_pcb_simps [simp]:
  "h a = Some p \<Longrightarrow> upd_pcb a f h = Some (h(a \<mapsto> f p))" "h a = None \<Longrightarrow> upd_pcb a f h = None"
  by (simp_all add: upd_pcb_def)

lemma upd_pcb_Some: "upd_pcb a f h = Some h' \<longleftrightarrow> (\<exists>p. h a = Some p \<and> h' = h(a \<mapsto> f p))"
  by (auto simp: upd_pcb_def)

subsection \<open>Looking up the process table\<close>

fun seek_pcb :: "(pcb \<Rightarrow> bool) \<Rightarrow> heap \<Rightarrow> paddr list \<Rightarrow> paddr option option" where
  "seek_pcb P h [] = Some None"
| "seek_pcb P h (a # as) = do { p \<leftarrow> h a; if P p then Some (Some a) else seek_pcb P h as }"

definition pcb_vec_seek_pcb_by_pid :: "heap \<Rightarrow> paddr vec \<Rightarrow> int \<Rightarrow> paddr option option" where
  "pcb_vec_seek_pcb_by_pid h v target_pid = seek_pcb (\<lambda>p. pid p = target_pid) h (vec_elems v)"

definition pcb_vec_seek_pcb_by_thrd :: "heap \<Rightarrow> paddr vec \<Rightarrow> nat \<Rightarrow> paddr option option" where
  "pcb_vec_seek_pcb_by_thrd h v t = seek_pcb (\<lambda>p. thrd p = t) h (vec_elems v)"

lemma seek_pcb_total:
  "(\<And>a. a \<in> set as \<Longrightarrow> h a \<noteq> None) \<Longrightarrow> seek_pcb P h as = Some (List.find (\<lambda>a. P (the (h a))) as)"
proof (induction as)
  case (Cons a as)
  then obtain p where "h a = Some p" by fastforce
  then show ?case using Cons by simp
qed simp

subsection \<open>Children\<close>

definition pcb_add_child_pid :: "int \<Rightarrow> pcb \<Rightarrow> int \<times> pcb" where
  "pcb_add_child_pid cpid p =
    (if num_child_pids p = NUM_CHILDREN_MAX then (-1, p)
     else (0, p\<lparr>child_pids := (child_pids p)[num_child_pids p := cpid],
               num_child_pids := num_child_pids p + 1\<rparr>))"

definition pcb_remove_child_pid :: "int \<Rightarrow> pcb \<Rightarrow> int \<times> pcb" where
  "pcb_remove_child_pid cpid p =
    (let n = num_child_pids p in
     if n = 0 then (-1, p)
     else case find_idx (\<lambda>c. c = cpid) (take n (child_pids p)) of
       None \<Rightarrow> (-1, p)
     | Some i \<Rightarrow> (0, p\<lparr>child_pids := (shift_down i (n - 1) (child_pids p))[n - 1 := -1],
                       num_child_pids := n - 1\<rparr>))"

definition children :: "pcb \<Rightarrow> int list" where
  "children p = take (num_child_pids p) (child_pids p)"

definition children_ok :: "pcb \<Rightarrow> bool" where
  "children_ok p \<longleftrightarrow> length (child_pids p) = NUM_CHILDREN_MAX \<and> num_child_pids p \<le> NUM_CHILDREN_MAX"

lemma add_child:
  assumes "children_ok p" "num_child_pids p < NUM_CHILDREN_MAX"
  shows "fst (pcb_add_child_pid c p) = 0" "children (snd (pcb_add_child_pid c p)) = children p @ [c]"
    "children_ok (snd (pcb_add_child_pid c p))"
  using assms by (auto simp: pcb_add_child_pid_def children_def children_ok_def take_Suc_conv_app_nth)

lemma remove_child:
  assumes "children_ok p"
  shows "fst (pcb_remove_child_pid c p) = (if c \<in> set (children p) then 0 else -1)"
    "children (snd (pcb_remove_child_pid c p)) = remove1 c (children p)"
    "children_ok (snd (pcb_remove_child_pid c p))"
proof -
  let ?n = "num_child_pids p"
  have "fst (pcb_remove_child_pid c p) = (if c \<in> set (children p) then 0 else -1) \<and>
    children (snd (pcb_remove_child_pid c p)) = remove1 c (children p) \<and>
    children_ok (snd (pcb_remove_child_pid c p))"
  proof (cases "find_idx (\<lambda>x. x = c) (children p)")
    case None
    then have "c \<notin> set (children p)" by (auto simp: find_idx_None)
    then show ?thesis
      using None assms by (simp add: pcb_remove_child_pid_def Let_def remove1_idem children_def [symmetric])
  next
    case (Some i)
    have len: "length (children p) = ?n" using assms by (simp add: children_def children_ok_def)
    have i: "i < ?n" "children p ! i = c" using find_idx_SomeD(1,2) [OF Some] len by auto
    then have mem: "c \<in> set (children p)" using len by (metis nth_mem)
    have "?n - 1 < length (child_pids p)" "i \<le> ?n - 1" "Suc (?n - 1) = ?n"
      using i assms by (auto simp: children_ok_def)
    then have "take (?n - 1) (shift_down i (?n - 1) (child_pids p)) = remove1 c (children p)"
      using shift_down_take [of i "?n - 1" "child_pids p"] find_idx_remove1 [OF Some]
      by (simp add: children_def)
    moreover have "pcb_remove_child_pid c p = (0, p\<lparr>child_pids := (shift_down i (?n - 1) (child_pids p))[?n - 1 := -1],
                       num_child_pids := ?n - 1\<rparr>)"
      using i(1) Some by (simp add: pcb_remove_child_pid_def Let_def children_def)
    moreover have "?n - 1 \<le> NUM_CHILDREN_MAX" using assms by (auto simp: children_ok_def)
    ultimately show ?thesis
      using mem assms by (simp add: children_ok_def children_def)
  qed
  then show "fst (pcb_remove_child_pid c p) = (if c \<in> set (children p) then 0 else -1)"
    "children (snd (pcb_remove_child_pid c p)) = remove1 c (children p)"
    "children_ok (snd (pcb_remove_child_pid c p))" by blast+
qed

subsection \<open>Creating and destroying PCBs\<close>

definition new_pcb :: "int \<Rightarrow> int \<Rightarrow> int \<Rightarrow> pcb" where
  "new_pcb npid parent prio = \<lparr>thrd = 0, pid = npid, pgid = npid, ppid = parent, priority_level = prio,
     command = None, num_child_pids = 0, child_pids = replicate NUM_CHILDREN_MAX (-1),
     next_pcb_ptr = None, status = THRD_STOPPED, pre_status = THRD_STOPPED, exit_code = -1,
     term_signal = 0, stop_signal = 0, cont_signal = 0, errno = 0, sleep_stamp = 0, sleep_length = 0,
     fds = None\<rparr>"

text \<open>
  \<open>calloc\<close> yields the address \<open>new\<close>, or fails. The result is the return value, the heap and, when the
  value is 0, the pointer stored in \<open>*result_pcb\<close>. When the parent has no room for another child the
  new block stays allocated and is lost.
\<close>

definition pcb_init_empty ::
  "paddr option \<Rightarrow> paddr option \<Rightarrow> int \<Rightarrow> int \<Rightarrow> heap \<Rightarrow> (int \<times> paddr option \<times> heap) option" where
  "pcb_init_empty new parent prio npid h =
    (case new of
       None \<Rightarrow> Some (-1, None, h)
     | Some a \<Rightarrow>
         (case parent of
            None \<Rightarrow> Some (0, Some a, h(a \<mapsto> new_pcb npid 0 prio))
          | Some q \<Rightarrow> do {
              pq \<leftarrow> h q;
              let (r, pq') = pcb_add_child_pid npid pq;
              let h' = h(q \<mapsto> pq', a \<mapsto> new_pcb npid (pid pq) prio);
              if r = -1 then Some (-1, None, h') else Some (0, Some a, h') }))"

definition pcb_init ::
  "nat \<Rightarrow> paddr option \<Rightarrow> paddr option \<Rightarrow> int \<Rightarrow> int \<Rightarrow> string option \<Rightarrow> heap \<Rightarrow>
   (int \<times> paddr option \<times> heap) option" where
  "pcb_init thread new parent prio npid cmd h =
    do { (r, res, h1) \<leftarrow> pcb_init_empty new parent prio npid h;
         if r = -1 then Some (-1, res, h1)
         else do { a \<leftarrow> res;
                   h2 \<leftarrow> upd_pcb a (\<lambda>p. p\<lparr>thrd := thread, command := cmd, status := THRD_RUNNING\<rparr>) h1;
                   Some (0, res, h2) } }"

definition pcb_destroy :: "paddr \<Rightarrow> heap \<Rightarrow> heap" where
  "pcb_destroy a h = h(a := None)"

definition pcb_disconnect_parent :: "paddr vec \<Rightarrow> paddr \<Rightarrow> heap \<Rightarrow> heap option" where
  "pcb_disconnect_parent v self h =
    do { p \<leftarrow> h self;
         par \<leftarrow> pcb_vec_seek_pcb_by_pid h v (ppid p);
         case par of None \<Rightarrow> Some h
         | Some q \<Rightarrow> upd_pcb q (\<lambda>pq. snd (pcb_remove_child_pid (pid p) pq)) h }"

text \<open>The loop over the children; \<open>i\<close> runs over the array, \<open>left\<close> entries remain.\<close>

fun disconnect_loop :: "paddr vec \<Rightarrow> paddr \<Rightarrow> nat \<Rightarrow> nat \<Rightarrow> heap \<Rightarrow> heap option" where
  "disconnect_loop v self 0 i h = Some h"
| "disconnect_loop v self (Suc left) i h =
    do { p \<leftarrow> h self;
         c \<leftarrow> pcb_vec_seek_pcb_by_pid h v (child_pids p ! i);
         h1 \<leftarrow> (case c of None \<Rightarrow> Some h | Some a \<Rightarrow> upd_pcb a (\<lambda>p. p\<lparr>ppid := 1\<rparr>) h);
         h2 \<leftarrow> upd_pcb self (\<lambda>p. p\<lparr>child_pids := (child_pids p)[i := -1]\<rparr>) h1;
         disconnect_loop v self left (Suc i) h2 }"

definition pcb_disconnect_child :: "paddr vec \<Rightarrow> paddr \<Rightarrow> heap \<Rightarrow> heap option" where
  "pcb_disconnect_child v self h =
    do { p \<leftarrow> h self;
         h1 \<leftarrow> disconnect_loop v self (num_child_pids p) 0 h;
         upd_pcb self (\<lambda>p. p\<lparr>num_child_pids := 0\<rparr>) h1 }"

subsection \<open>Status\<close>

definition is_thrd_status_changed :: "pcb \<Rightarrow> bool" where
  "is_thrd_status_changed p =
    (if status p = THRD_STOPPED \<or> status p = THRD_ZOMBIE then status p = pre_status p
     else pre_status p = THRD_STOPPED \<and> cont_signal p = P_SIGCONT)"

definition reset_pcb_status_signal :: "pcb \<Rightarrow> pcb" where
  "reset_pcb_status_signal p = p\<lparr>pre_status := status p, exit_code := 0, term_signal := 0,
     stop_signal := 0, cont_signal := 0\<rparr>"

end
