(* ===== verification/PcbQueue.thy ===== *)
theory PcbQueue
  imports Pcb
begin

text \<open>
  The queues of the scheduler, \<open>src/kernel/pcb_queue.c\<close>, and \<open>pcb_in_queue\<close> of
  \<open>src/kernel/kernel_syscall.c\<close>: singly linked lists threaded through the PCBs. An operation takes the
  heap and the queue structure and is \<^const>\<open>None\<close> when it follows a dangling pointer or does not return. The
  queues are global variables, so the \<open>NULL\<close> tests of \<open>self_ptr\<close> have no case here. \<open>queue_list\<close> says which
  list a queue structure represents; the lemmas relate the operations to a list.
\<close>

subsection \<open>The data\<close>

datatype queue_type_t =
    QUEUE_PRIORITY_0 | QUEUE_PRIORITY_1 | QUEUE_PRIORITY_2 | QUEUE_BLOCKED | QUEUE_STOPPED | QUEUE_ZOMBIE

record pcb_queue =
  q_type :: queue_type_t
  q_head_ptr :: "paddr option"
  q_end_ptr :: "paddr option"
  q_length :: nat

definition pcb_queue_init :: "queue_type_t \<Rightarrow> pcb_queue" where
  "pcb_queue_init t = \<lparr>q_type = t, q_head_ptr = None, q_end_ptr = None, q_length = 0\<rparr>"

definition queue_is_empty :: "pcb_queue \<Rightarrow> bool" where "queue_is_empty q \<longleftrightarrow> q_length q = 0"

subsection \<open>The operations\<close>

definition pcb_queue_pop :: "heap \<Rightarrow> pcb_queue \<Rightarrow> (paddr option \<times> heap \<times> pcb_queue) option" where
  "pcb_queue_pop h q =
    (if queue_is_empty q then Some (None, h, q)
     else do {
       a \<leftarrow> q_head_ptr q;
       p \<leftarrow> h a;
       Some (Some a, h(a \<mapsto> p\<lparr>next_pcb_ptr := None\<rparr>),
         q\<lparr>q_head_ptr := next_pcb_ptr p, q_end_ptr := (if q_length q = 1 then None else q_end_ptr q),
           q_length := q_length q - 1\<rparr>) })"

partial_function (option) in_queue_loop :: "heap \<Rightarrow> paddr \<Rightarrow> paddr option \<Rightarrow> bool option" where
  "in_queue_loop h a cur =
    (case cur of
       None \<Rightarrow> Some False
     | Some c \<Rightarrow> if c = a then Some True else do { p \<leftarrow> h c; in_queue_loop h a (next_pcb_ptr p) })"

declare in_queue_loop.simps [code]

definition pcb_in_queue :: "heap \<Rightarrow> paddr \<Rightarrow> pcb_queue \<Rightarrow> bool option" where
  "pcb_in_queue h a q = in_queue_loop h a (q_head_ptr q)"

text \<open>
  The first component tells whether \<open>SIGPTHD\<close> stays blocked: the operation disables interrupts at its
  start and enables them at its end, but not on the early return for a PCB that is queued already.
\<close>

definition pcb_queue_push :: "paddr \<Rightarrow> heap \<Rightarrow> pcb_queue \<Rightarrow> (bool \<times> heap \<times> pcb_queue) option" where
  "pcb_queue_push a h q =
    do {
      present \<leftarrow> pcb_in_queue h a q;
      if present then Some (True, h, q)
      else do {
        h1 \<leftarrow> (if queue_is_empty q then Some h
              else do { e \<leftarrow> q_end_ptr q; upd_pcb e (\<lambda>p. p\<lparr>next_pcb_ptr := Some a\<rparr>) h });
        Some (False, h1, q\<lparr>q_head_ptr := (if queue_is_empty q then Some a else q_head_ptr q),
          q_end_ptr := Some a, q_length := q_length q + 1\<rparr>) } }"

partial_function (option) pcb_queue_destroy :: "heap \<Rightarrow> pcb_queue \<Rightarrow> (heap \<times> pcb_queue) option" where
  "pcb_queue_destroy h q =
    (if queue_is_empty q then Some (h, q)
     else do { (_, h1, q1) \<leftarrow> pcb_queue_pop h q; pcb_queue_destroy h1 q1 })"

declare pcb_queue_destroy.simps [code]

text \<open>The walk to the PCB whose successor has the pid; it yields both, or nothing at the end.\<close>

partial_function (option) find_pred_loop :: "heap \<Rightarrow> int \<Rightarrow> paddr \<Rightarrow> (paddr \<times> paddr) option option" where
  "find_pred_loop h target cur =
    do { p \<leftarrow> h cur;
         case next_pcb_ptr p of
           None \<Rightarrow> Some None
         | Some nx \<Rightarrow> do { n \<leftarrow> h nx;
             if pid n = target then Some (Some (cur, nx)) else find_pred_loop h target nx } }"

declare find_pred_loop.simps [code]

definition unlink_next :: "paddr \<Rightarrow> paddr \<Rightarrow> heap \<Rightarrow> pcb_queue \<Rightarrow> (paddr option \<times> heap \<times> pcb_queue) option" where
  "unlink_next cur nx h q =
    do {
      n \<leftarrow> h nx;
      h1 \<leftarrow> upd_pcb cur (\<lambda>p. p\<lparr>next_pcb_ptr := next_pcb_ptr n\<rparr>) h;
      h2 \<leftarrow> upd_pcb nx (\<lambda>p. p\<lparr>next_pcb_ptr := None\<rparr>) h1;
      Some (Some nx, h2, q\<lparr>q_end_ptr := (if Some nx = q_end_ptr q then Some cur else q_end_ptr q),
        q_length := q_length q - 1\<rparr>) }"

definition pcb_queue_pop_by_pid ::
  "int \<Rightarrow> heap \<Rightarrow> pcb_queue \<Rightarrow> (paddr option \<times> heap \<times> pcb_queue) option" where
  "pcb_queue_pop_by_pid target h q =
    (if queue_is_empty q then Some (None, h, q)
     else do {
       a \<leftarrow> q_head_ptr q;
       p \<leftarrow> h a;
       if pid p = target then pcb_queue_pop h q
       else do {
         r \<leftarrow> find_pred_loop h target a;
         case r of None \<Rightarrow> Some (None, h, q) | Some (cur, nx) \<Rightarrow> unlink_next cur nx h q } })"

subsection \<open>The list a queue represents\<close>

fun linked_pcbs :: "heap \<Rightarrow> paddr option \<Rightarrow> paddr list \<Rightarrow> bool" where
  "linked_pcbs h p [] \<longleftrightarrow> p = None"
| "linked_pcbs h p (a # as) \<longleftrightarrow> p = Some a \<and> (\<exists>x. h a = Some x \<and> linked_pcbs h (next_pcb_ptr x) as)"

lemma linked_pcbs_code [code]:
  "linked_pcbs h p [] \<longleftrightarrow> p = None"
  "linked_pcbs h p (a # as) \<longleftrightarrow>
    (case h a of None \<Rightarrow> False | Some x \<Rightarrow> p = Some a \<and> linked_pcbs h (next_pcb_ptr x) as)"
  by (auto split: option.split)

definition queue_list :: "heap \<Rightarrow> pcb_queue \<Rightarrow> paddr list \<Rightarrow> bool" where
  "queue_list h q as \<longleftrightarrow> linked_pcbs h (q_head_ptr q) as \<and> distinct as \<and> q_length q = length as \<and>
     q_end_ptr q = (if as = [] then None else Some (last as))"

text \<open>Pids and everything else of the PCBs but their links.\<close>

definition same_pcbs :: "heap \<Rightarrow> heap \<Rightarrow> bool" where
  "same_pcbs h h' \<longleftrightarrow> (\<forall>a. map_option (\<lambda>p. p\<lparr>next_pcb_ptr := None\<rparr>) (h' a) =
     map_option (\<lambda>p. p\<lparr>next_pcb_ptr := None\<rparr>) (h a))"

lemma linked_frame: "\<lbrakk>linked_pcbs h p as; a \<notin> set as\<rbrakk> \<Longrightarrow> linked_pcbs (h(a \<mapsto> x)) p as"
  by (induction as arbitrary: p) auto

lemma linked_drop: "\<lbrakk>linked_pcbs h p as; a \<notin> set as\<rbrakk> \<Longrightarrow> linked_pcbs (h(a := None)) p as"
  by (induction as arbitrary: p) auto

lemma linked_alloc: "linked_pcbs h p as \<Longrightarrow> a \<in> set as \<Longrightarrow> \<exists>x. h a = Some x"
  by (induction as arbitrary: p) auto

lemma linked_append:
  "linked_pcbs h p (as @ [e]) \<Longrightarrow> \<exists>x. h e = Some x \<and> next_pcb_ptr x = None"
  by (induction as arbitrary: p) auto

lemma linked_snoc:
  assumes "linked_pcbs h p (as @ [e])" "e \<notin> set as" "a \<noteq> e" "a \<notin> set as" "h e = Some x"
    "h a = Some y" "next_pcb_ptr y = None"
  shows "linked_pcbs (h(e \<mapsto> x\<lparr>next_pcb_ptr := Some a\<rparr>)) p (as @ [e, a])"
  using assms by (induction as arbitrary: p) (auto simp: linked_frame)

lemma in_queue_loop_linked: "linked_pcbs h p as \<Longrightarrow> in_queue_loop h a p = Some (a \<in> set as)"
proof (induction as arbitrary: p)
  case Nil
  then show ?case by (subst in_queue_loop.simps) simp
next
  case (Cons b as)
  then show ?case by (subst in_queue_loop.simps) auto
qed

lemma pcb_in_queue_list: "queue_list h q as \<Longrightarrow> pcb_in_queue h a q = Some (a \<in> set as)"
  by (simp add: pcb_in_queue_def queue_list_def in_queue_loop_linked)

lemma linked_tail: "linked_pcbs h p (pre @ a # as) \<Longrightarrow> linked_pcbs h (Some a) (a # as)"
  by (induction pre arbitrary: p) auto

lemma linked_unique: "linked_pcbs h p as \<Longrightarrow> linked_pcbs h p bs \<Longrightarrow> as = bs"
proof (induction as arbitrary: p bs)
  case Nil
  then show ?case by (cases bs) auto
next
  case (Cons a as)
  then show ?case by (cases bs) auto
qed

lemma queue_list_unique: "queue_list h q as \<Longrightarrow> queue_list h q bs \<Longrightarrow> as = bs"
  using linked_unique by (auto simp: queue_list_def)

lemma init_list [simp]: "queue_list h (pcb_queue_init t) []"
  by (simp add: queue_list_def pcb_queue_init_def)

lemma same_pcbs_refl [simp]: "same_pcbs h h"
  by (simp add: same_pcbs_def)

lemma same_pcbs_trans: "same_pcbs h h1 \<Longrightarrow> same_pcbs h1 h2 \<Longrightarrow> same_pcbs h h2"
  by (simp add: same_pcbs_def)

lemma same_pcbs_link [simp]: "h a = Some p \<Longrightarrow> same_pcbs h (h(a \<mapsto> p\<lparr>next_pcb_ptr := n\<rparr>))"
  by (simp add: same_pcbs_def)

lemma same_pcbs_SomeD: "same_pcbs h h' \<Longrightarrow> h a = Some p \<Longrightarrow> \<exists>n. h' a = Some (p\<lparr>next_pcb_ptr := n\<rparr>)"
proof -
  assume "same_pcbs h h'" "h a = Some p"
  then obtain z where z: "h' a = Some z" "z\<lparr>next_pcb_ptr := None\<rparr> = p\<lparr>next_pcb_ptr := None\<rparr>"
    unfolding same_pcbs_def by (fastforce dest: spec [of _ a])
  have "z = (z\<lparr>next_pcb_ptr := None\<rparr>)\<lparr>next_pcb_ptr := next_pcb_ptr z\<rparr>" by simp
  then have "h' a = Some (p\<lparr>next_pcb_ptr := next_pcb_ptr z\<rparr>)" using z(1) unfolding z(2) by simp
  then show "\<exists>n. h' a = Some (p\<lparr>next_pcb_ptr := n\<rparr>)" ..
qed

subsection \<open>The operations on the list\<close>

text \<open>A PCB may enter a queue when it is allocated and not linked anywhere.\<close>

definition unlinked :: "heap \<Rightarrow> paddr \<Rightarrow> bool" where
  "unlinked h a \<longleftrightarrow> (\<exists>p. h a = Some p \<and> next_pcb_ptr p = None)"

lemma pop_empty: "queue_list h q [] \<Longrightarrow> pcb_queue_pop h q = Some (None, h, q)"
  by (simp add: pcb_queue_pop_def queue_list_def queue_is_empty_def)

lemma pop_list:
  assumes "queue_list h q (a # as)"
  shows "\<exists>h' q'. pcb_queue_pop h q = Some (Some a, h', q') \<and> queue_list h' q' as \<and> same_pcbs h h' \<and>
    unlinked h' a \<and> (\<forall>b. b \<noteq> a \<longrightarrow> h' b = h b)"
proof -
  obtain p where p: "h a = Some p" "linked_pcbs h (next_pcb_ptr p) as" "q_head_ptr q = Some a"
    using assms by (auto simp: queue_list_def)
  then show ?thesis
    using assms by (auto simp: pcb_queue_pop_def queue_list_def queue_is_empty_def unlinked_def linked_frame)
qed

lemma push_present: "queue_list h q as \<Longrightarrow> a \<in> set as \<Longrightarrow> pcb_queue_push a h q = Some (True, h, q)"
  by (simp add: pcb_queue_push_def pcb_in_queue_list)

lemma push_list:
  assumes q: "queue_list h q as" and a: "a \<notin> set as" "unlinked h a"
  shows "\<exists>h' q'. pcb_queue_push a h q = Some (False, h', q') \<and> queue_list h' q' (as @ [a]) \<and>
    same_pcbs h h' \<and> unlinked h' a \<and> (\<forall>b. b \<notin> set as \<longrightarrow> h' b = h b)"
proof (cases as rule: rev_cases)
  case Nil
  then show ?thesis
    using assms pcb_in_queue_list [OF q, of a]
    by (auto simp: pcb_queue_push_def queue_list_def queue_is_empty_def unlinked_def)
next
  case (snoc bs e)
  obtain y where y: "h a = Some y" "next_pcb_ptr y = None" using a(2) by (auto simp: unlinked_def)
  obtain x where x: "h e = Some x" using q snoc linked_append [of h _ bs e] by (auto simp: queue_list_def)
  have ne: "a \<noteq> e" "a \<notin> set bs" "e \<notin> set bs" using a(1) q snoc by (auto simp: queue_list_def)
  have "linked_pcbs (h(e \<mapsto> x\<lparr>next_pcb_ptr := Some a\<rparr>)) (q_head_ptr q) (bs @ [e, a])"
    using linked_snoc [of h "q_head_ptr q" bs e a x y] q snoc ne x y by (simp add: queue_list_def)
  then show ?thesis
    using q snoc ne x y a
    by (auto simp: pcb_queue_push_def pcb_in_queue_list [OF q] queue_list_def queue_is_empty_def unlinked_def)
qed

lemma find_pred_none:
  "linked_pcbs h (Some c) (c # as) \<Longrightarrow> \<forall>a\<in>set as. pid (the (h a)) \<noteq> t \<Longrightarrow> find_pred_loop h t c = Some None"
proof (induction as arbitrary: c)
  case Nil
  then show ?case by (subst find_pred_loop.simps) auto
next
  case (Cons a as)
  then show ?case by (subst find_pred_loop.simps) auto
qed

lemma find_pred_some:
  assumes "linked_pcbs h (Some c) (c # pre @ nx # post)" "\<forall>a\<in>set pre. pid (the (h a)) \<noteq> t"
    "pid (the (h nx)) = t"
  shows "find_pred_loop h t c = Some (Some (last (c # pre), nx))"
  using assms
proof (induction pre arbitrary: c)
  case Nil
  then show ?case by (subst find_pred_loop.simps) auto
next
  case (Cons a as)
  then show ?case by (subst find_pred_loop.simps) auto
qed

lemma linked_unlink:
  assumes "linked_pcbs h p (pre @ c # nx # post)" "distinct (pre @ c # nx # post)"
    "h c = Some x" "h nx = Some y"
  shows "linked_pcbs (h(c \<mapsto> x\<lparr>next_pcb_ptr := next_pcb_ptr y\<rparr>, nx \<mapsto> y\<lparr>next_pcb_ptr := None\<rparr>)) p (pre @ c # post)"
  using assms by (induction pre arbitrary: p) (auto simp: linked_frame)

lemma unlink_list:
  assumes q: "queue_list h q (pre @ c # nx # post)"
  shows "\<exists>h' q'. unlink_next c nx h q = Some (Some nx, h', q') \<and> queue_list h' q' (pre @ c # post) \<and>
    same_pcbs h h' \<and> unlinked h' nx \<and> (\<forall>b. b \<notin> set (pre @ c # nx # post) \<longrightarrow> h' b = h b)"
proof -
  have l: "linked_pcbs h (q_head_ptr q) (pre @ c # nx # post)" and d: "distinct (pre @ c # nx # post)"
    using q by (auto simp: queue_list_def)
  obtain x y where xy: "h c = Some x" "h nx = Some y"
    using linked_alloc [OF l, of c] linked_alloc [OF l, of nx] by auto
  have "same_pcbs h (h(c \<mapsto> x\<lparr>next_pcb_ptr := next_pcb_ptr y\<rparr>))" using xy by simp
  moreover have "same_pcbs (h(c \<mapsto> x\<lparr>next_pcb_ptr := next_pcb_ptr y\<rparr>))
      (h(c \<mapsto> x\<lparr>next_pcb_ptr := next_pcb_ptr y\<rparr>, nx \<mapsto> y\<lparr>next_pcb_ptr := None\<rparr>))"
    using xy d by (intro same_pcbs_link) auto
  ultimately have same: "same_pcbs h (h(c \<mapsto> x\<lparr>next_pcb_ptr := next_pcb_ptr y\<rparr>, nx \<mapsto> y\<lparr>next_pcb_ptr := None\<rparr>))"
    by (rule same_pcbs_trans)
  show ?thesis
    using q d xy linked_unlink [OF l d xy] same
    by (cases post rule: rev_cases) (auto simp: unlink_next_def queue_list_def unlinked_def)
qed

text \<open>The first PCB of a list with a pid.\<close>

definition with_pid :: "heap \<Rightarrow> int \<Rightarrow> paddr list \<Rightarrow> paddr option" where
  "with_pid h t as = List.find (\<lambda>a. pid (the (h a)) = t) as"

lemma find_split:
  "List.find P xs = Some x \<Longrightarrow> \<exists>pre post. xs = pre @ x # post \<and> (\<forall>a\<in>set pre. \<not> P a) \<and> P x"
proof (induction xs)
  case (Cons y ys)
  show ?case
  proof (cases "P y")
    case True
    then show ?thesis using Cons.prems by (intro exI [of _ "[]"] exI [of _ ys]) auto
  next
    case False
    then obtain pre post where "ys = pre @ x # post" "\<forall>a\<in>set pre. \<not> P a" "P x" using Cons by auto
    then show ?thesis using False by (intro exI [of _ "y # pre"] exI [of _ post]) auto
  qed
qed simp

lemma pop_by_pid_list:
  fixes h t as
  defines "hit \<equiv> with_pid h t as"
  assumes q: "queue_list h q as"
  shows "\<exists>h' q'. pcb_queue_pop_by_pid t h q = Some (hit, h', q') \<and> same_pcbs h h' \<and>
    queue_list h' q' (case hit of None \<Rightarrow> as | Some a \<Rightarrow> remove1 a as) \<and>
    (\<forall>a. hit = Some a \<longrightarrow> unlinked h' a) \<and> (\<forall>b. b \<notin> set as \<longrightarrow> h' b = h b)"
proof (cases as)
  case Nil
  then show ?thesis using q by (simp add: hit_def with_pid_def pcb_queue_pop_by_pid_def queue_list_def queue_is_empty_def)
next
  case (Cons c cs)
  then have ne: "\<not> queue_is_empty q" "q_head_ptr q = Some c" "linked_pcbs h (Some c) (c # cs)"
    using q by (auto simp: queue_list_def queue_is_empty_def)
  obtain p where p: "h c = Some p" using ne(3) by auto
  show ?thesis
  proof (cases "pid p = t")
    case True
    then show ?thesis
      using pop_list [of h q c cs] q Cons ne p by (auto simp: hit_def with_pid_def pcb_queue_pop_by_pid_def)
  next
    case False
    show ?thesis
    proof (cases "hit")
      case None
      then have "\<forall>a\<in>set cs. pid (the (h a)) \<noteq> t" using None [unfolded hit_def with_pid_def find_None_iff] Cons by auto
      then show ?thesis
        using find_pred_none [OF ne(3)] ne p False q None
        by (auto simp: pcb_queue_pop_by_pid_def)
    next
      case (Some nx)
      then obtain pre post where cs: "cs = pre @ nx # post" "\<forall>a\<in>set pre. pid (the (h a)) \<noteq> t" "pid (the (h nx)) = t"
        using find_split [of "\<lambda>a. pid (the (h a)) = t" cs nx] Cons p False by (auto simp: hit_def with_pid_def)
      obtain front where fr: "c # pre = front @ [last (c # pre)]" by (metis append_butlast_last_id list.distinct(1))
      let ?e = "last (c # pre)"
      have as: "as = front @ ?e # nx # post" using Cons cs(1) fr by simp
      have d: "distinct as" using q by (simp add: queue_list_def)
      have "remove1 nx as = front @ ?e # post" using d unfolding as by (auto simp: remove1_append)
      then show ?thesis
        using find_pred_some [of h c pre nx post t] cs ne p False unlink_list [of h q front ?e nx post] q as Some
        by (auto simp: pcb_queue_pop_by_pid_def)
    qed
  qed
qed


lemma destroy_list:
  "queue_list h q as \<Longrightarrow> \<exists>h' q'. pcb_queue_destroy h q = Some (h', q') \<and> queue_list h' q' [] \<and> same_pcbs h h'"
proof (induction as arbitrary: h q)
  case Nil
  then show ?case
    by (subst pcb_queue_destroy.simps) (auto simp: queue_is_empty_def queue_list_def)
next
  case (Cons a as)
  obtain h1 q1 where s: "pcb_queue_pop h q = Some (Some a, h1, q1)" "queue_list h1 q1 as" "same_pcbs h h1"
    using pop_list [OF Cons.prems] by blast
  moreover have "\<not> queue_is_empty q" using Cons.prems by (simp add: queue_is_empty_def queue_list_def)
  ultimately show ?case
    using Cons.IH [OF s(2)] same_pcbs_trans by (subst pcb_queue_destroy.simps) fastforce
qed

text \<open>
  A PCB whose link is not \<open>NULL\<close> brings the PCBs behind it along: the queue's length no longer counts
  the PCBs that are reached from its head.
\<close>

lemma push_linked:
  assumes q: "queue_list h q (as @ [e])" and a: "linked_pcbs h (Some a) (a # bs)" "a \<notin> set (as @ [e])"
    "set (a # bs) \<inter> set (as @ [e]) = {}"
  shows "\<exists>h' q'. pcb_queue_push a h q = Some (False, h', q') \<and>
    linked_pcbs h' (q_head_ptr q') (as @ [e] @ a # bs) \<and> q_length q' = length as + 2"
proof -
  obtain x where x: "h e = Some x" using q linked_append [of h _ as e] by (auto simp: queue_list_def)
  let ?h = "h(e \<mapsto> x\<lparr>next_pcb_ptr := Some a\<rparr>)"
  have "linked_pcbs ?h (Some a) (a # bs)" using a by (intro linked_frame) auto
  moreover have "e \<notin> set as" using q by (simp add: queue_list_def)
  ultimately have "linked_pcbs h p (as @ [e]) \<Longrightarrow> linked_pcbs ?h p (as @ e # a # bs)" for p
    using x by (induction as arbitrary: p) auto
  then show ?thesis
    using q x a(2) by (auto simp: pcb_queue_push_def pcb_in_queue_list [OF q] queue_list_def queue_is_empty_def)
qed

section \<open>The contract of a queue, and turns taken in it\<close>

text \<open>
  What the scheduler relies on: a state \<open>s\<close> represents a list, elements leave at its front and enter at
  its back. \<open>takes_turns\<close> is the round robin over such a queue: the front element is served and queued
  again.
\<close>

fun takes_turns :: "('s \<Rightarrow> ('a option \<times> 's) option) \<Rightarrow> ('a \<Rightarrow> 's \<Rightarrow> 's option) \<Rightarrow> nat \<Rightarrow> 's \<Rightarrow> ('a list \<times> 's) option" where
  "takes_turns pop push 0 s = Some ([], s)"
| "takes_turns pop push (Suc n) s =
    do { (r, s1) \<leftarrow> pop s;
         case r of None \<Rightarrow> Some ([], s1)
         | Some x \<Rightarrow> do { s2 \<leftarrow> push x s1;
                         (xs, s3) \<leftarrow> takes_turns pop push n s2;
                         Some (x # xs, s3) } }"

locale fifo_queue =
  fixes rep :: "'s \<Rightarrow> 'a list \<Rightarrow> bool"
    and loose :: "'s \<Rightarrow> 'a \<Rightarrow> bool"
    and pop :: "'s \<Rightarrow> ('a option \<times> 's) option"
    and push :: "'a \<Rightarrow> 's \<Rightarrow> 's option"
  assumes rep_distinct: "rep s xs \<Longrightarrow> distinct xs"
    and pop_none: "rep s [] \<Longrightarrow> \<exists>s'. pop s = Some (None, s') \<and> rep s' []"
    and pop_some: "rep s (x # xs) \<Longrightarrow> \<exists>s'. pop s = Some (Some x, s') \<and> rep s' xs \<and> loose s' x"
    and push_new: "rep s xs \<Longrightarrow> x \<notin> set xs \<Longrightarrow> loose s x \<Longrightarrow> \<exists>s'. push x s = Some s' \<and> rep s' (xs @ [x])"
    and push_old: "rep s xs \<Longrightarrow> x \<in> set xs \<Longrightarrow> push x s = Some s"
begin

lemma one_turn:
  assumes "rep s (x # xs)"
  shows "\<exists>s1 s2. pop s = Some (Some x, s1) \<and> push x s1 = Some s2 \<and> rep s2 (xs @ [x])"
  using pop_some [OF assms] push_new [of _ xs x] rep_distinct [OF assms] by fastforce

lemma turns:
  assumes "rep s xs" "n \<le> length xs"
  shows "\<exists>s'. takes_turns pop push n s = Some (take n xs, s') \<and> rep s' (drop n xs @ take n xs)"
  using assms
proof (induction n arbitrary: s xs)
  case (Suc n)
  then obtain x ys where xs: "xs = x # ys" by (cases xs) auto
  obtain s1 s2 where s: "pop s = Some (Some x, s1)" "push x s1 = Some s2" "rep s2 (ys @ [x])"
    using one_turn Suc.prems(1) xs by blast
  have n: "n \<le> length ys" using Suc.prems(2) xs by simp
  then obtain s3 where "takes_turns pop push n s2 = Some (take n (ys @ [x]), s3)"
    "rep s3 (drop n (ys @ [x]) @ take n (ys @ [x]))"
    using Suc.IH [OF s(3)] by auto
  then show ?case using s xs n by auto
qed simp

lemma full_round:
  assumes "rep s xs"
  shows "\<exists>s'. takes_turns pop push (length xs) s = Some (xs, s') \<and> rep s' xs"
  using turns [OF assms, of "length xs"] by simp

end

definition queue_pop :: "heap \<times> pcb_queue \<Rightarrow> (paddr option \<times> heap \<times> pcb_queue) option" where
  "queue_pop s = pcb_queue_pop (fst s) (snd s)"

definition queue_push :: "paddr \<Rightarrow> heap \<times> pcb_queue \<Rightarrow> (heap \<times> pcb_queue) option" where
  "queue_push a s = map_option snd (pcb_queue_push a (fst s) (snd s))"

interpretation pcb_fifo: fifo_queue "\<lambda>s. queue_list (fst s) (snd s)" "\<lambda>s. unlinked (fst s)" queue_pop queue_push
proof (unfold_locales, goal_cases)
  case (3 s x xs)
  then show ?case using pop_list [of "fst s" "snd s" x xs] by (auto simp: queue_pop_def)
next
  case (4 s xs x)
  then show ?case using push_list [of "fst s" "snd s" xs x] by (auto simp: queue_push_def)
qed (auto simp: queue_list_def queue_pop_def queue_push_def pop_empty push_present
    dest: pop_empty push_present simp: pcb_queue_pop_def queue_is_empty_def)

end
