(* ===== verification/ProcOps.thy ===== *)
theory ProcOps
  imports PcbQueue
begin

text \<open>
  The process calls of the kernel, \<open>src/kernel/kernel_syscall.c\<close> and \<open>src/kernel/kernel_fn.c\<close>, on the
  global state. A panic ends PennOS: the left side of the result, with its message. A call that blocks
  is split where it blocks, as other threads run in between: \<open>k_waitpid\<close> at \<open>spthread_join\<close> and
  \<open>spthread_suspend_self\<close>, \<open>k_sleep\<close> at \<open>spthread_suspend_self\<close>.

  The threads themselves are the interface \<open>spthread.h\<close>: a call of it is recorded in \<open>k_trace\<close> with the
  thread handle. \<open>k_masked\<close> tells whether the calling thread has \<open>SIGPTHD\<close> blocked
  (\<open>spthread_disable_interrupts_self\<close>). What the host decides are arguments: the handle of the calling
  thread \<open>me\<close>, the address \<open>calloc\<close> returns, the vector's allocations, and the handle that
  \<open>spthread_create\<close> yields. Lines written to the log have no effect on the state and are left out.
\<close>

subsection \<open>The state\<close>

datatype thread_call = Suspend nat | Continue nat | Cancel nat | Join nat | Suspend_self | Exit_self

record kernel =
  k_heap :: heap
  k_queues :: "pcb_queue list"
  k_vec :: "paddr vec"
  k_clock :: "32 word"
  k_errno :: int
  k_done :: bool
  k_masked :: bool
  k_trace :: "thread_call list"
  k_pid_count :: int

definition NUM_PRIORITY_QUEUES :: nat where "NUM_PRIORITY_QUEUES = 3"
definition P_ECHILD :: int where "P_ECHILD = 2"
definition INIT_PID :: int where "INIT_PID = 1"

abbreviation table :: "kernel \<Rightarrow> paddr list" where "table k \<equiv> vec_elems (k_vec k)"

definition call_thread :: "thread_call list \<Rightarrow> kernel \<Rightarrow> kernel" where
  "call_thread cs k = k\<lparr>k_trace := k_trace k @ cs\<rparr>"

definition upd_proc :: "paddr \<Rightarrow> (pcb \<Rightarrow> pcb) \<Rightarrow> kernel \<Rightarrow> kernel option" where
  "upd_proc a f k = map_option (\<lambda>h. k\<lparr>k_heap := h\<rparr>) (upd_pcb a f (k_heap k))"

text \<open>The queue array; an index outside of it is not an element.\<close>

definition queue_at :: "int \<Rightarrow> kernel \<Rightarrow> pcb_queue option" where
  "queue_at prio k = (if 0 \<le> prio \<and> nat prio < length (k_queues k) then Some (k_queues k ! nat prio) else None)"

definition set_queue :: "int \<Rightarrow> heap \<Rightarrow> pcb_queue \<Rightarrow> kernel \<Rightarrow> kernel" where
  "set_queue prio h q k = k\<lparr>k_heap := h, k_queues := (k_queues k)[nat prio := q]\<rparr>"

definition enqueue :: "int \<Rightarrow> paddr \<Rightarrow> kernel \<Rightarrow> kernel option" where
  "enqueue prio a k =
    do { q \<leftarrow> queue_at prio k;
         (masked, h, q') \<leftarrow> pcb_queue_push a (k_heap k) q;
         Some ((set_queue prio h q' k)\<lparr>k_masked := masked\<rparr>) }"

definition dequeue :: "int \<Rightarrow> kernel \<Rightarrow> (paddr option \<times> kernel) option" where
  "dequeue prio k =
    do { q \<leftarrow> queue_at prio k;
         (r, h, q') \<leftarrow> pcb_queue_pop (k_heap k) q;
         Some (r, set_queue prio h q' k) }"

definition dequeue_pid :: "int \<Rightarrow> int \<Rightarrow> kernel \<Rightarrow> (paddr option \<times> kernel) option" where
  "dequeue_pid prio target k =
    do { q \<leftarrow> queue_at prio k;
         (r, h, q') \<leftarrow> pcb_queue_pop_by_pid target (k_heap k) q;
         Some (r, set_queue prio h q' k) }"

subsection \<open>Processes and pids\<close>

definition k_get_self_pcb :: "nat \<Rightarrow> kernel \<Rightarrow> paddr option option" where
  "k_get_self_pcb me k = pcb_vec_seek_pcb_by_thrd (k_heap k) (k_vec k) me"

definition k_get_pid :: "paddr option \<Rightarrow> kernel \<Rightarrow> int option" where
  "k_get_pid a k = (case a of None \<Rightarrow> Some (-1) | Some b \<Rightarrow> map_option pid (k_heap k b))"

partial_function (option) free_pid_loop :: "heap \<Rightarrow> paddr list \<Rightarrow> int \<Rightarrow> int option" where
  "free_pid_loop h as candidate =
    do { used \<leftarrow> seek_pcb (\<lambda>p. pid p = candidate) h as;
         if used = None then Some candidate else free_pid_loop h as (candidate + 1) }"

declare free_pid_loop.simps [code]

definition get_next_free_pid :: "kernel \<Rightarrow> int option" where
  "get_next_free_pid k = free_pid_loop (k_heap k) (table k) 3"

definition k_register_pcb :: "paddr mem \<Rightarrow> paddr option \<Rightarrow> kernel \<Rightarrow> string + kernel" where
  "k_register_pcb m a k =
    (case a of
       None \<Rightarrow> Inr k
     | Some b \<Rightarrow> map_sum id (\<lambda>v. k\<lparr>k_vec := v\<rparr>) (pcb_vec_push_back m b (k_vec k)))"

definition k_proc_create ::
  "paddr mem \<Rightarrow> paddr option \<Rightarrow> paddr option \<Rightarrow> int \<Rightarrow> kernel \<Rightarrow> (string + paddr \<times> kernel) option" where
  "k_proc_create m new parent prio k =
    do { newpid \<leftarrow> get_next_free_pid k;
         (r, res, h) \<leftarrow> pcb_init_empty new parent prio newpid (k_heap k);
         if r = -1 then Some (Inl ''pcb_init_empty failed!'')
         else do { a \<leftarrow> res;
           Some (case k_register_pcb m (Some a) (k\<lparr>k_heap := h, k_masked := False\<rparr>) of
                   Inl e \<Rightarrow> Inl e | Inr k1 \<Rightarrow> Inr (a, k1)) } }"

definition k_proc_cleanup :: "paddr option \<Rightarrow> kernel \<Rightarrow> string + int \<times> kernel" where
  "k_proc_cleanup a k =
    (case a of
       None \<Rightarrow> Inr (-1, k)
     | Some b \<Rightarrow>
         (case pcb_vec_remove_by_pcb b (k_vec k) of
            Inl e \<Rightarrow> Inl e
          | Inr (_, v) \<Rightarrow> Inr (0, k\<lparr>k_vec := v, k_heap := pcb_destroy b (k_heap k)\<rparr>)))"

text \<open>
  Naming a process: the init process has a fixed name; otherwise the argument vector, when there is
  one, gives it if its first string is shorter than 1024 bytes.
\<close>

definition looks_like_cstring :: "string option \<Rightarrow> bool" where
  "looks_like_cstring s = (case s of None \<Rightarrow> False | Some t \<Rightarrow> length t < 1024)"

definition process_name :: "int \<Rightarrow> string option list option \<Rightarrow> string" where
  "process_name p argv =
    (if p = INIT_PID then ''INIT''
     else case argv of
       Some (s # _) \<Rightarrow> if looks_like_cstring s then the s else ''ps''
     | _ \<Rightarrow> ''ps'')"

text \<open>
  \<open>set_routine_and_run_helper\<close> as \<open>k_set_routine_and_run\<close> calls it, with \<open>wrap_exit\<close> set; its case for
  \<open>spawn_entry_wrapper_kernel\<close> is never reached. \<open>wrap_ok\<close>: \<open>malloc\<close> yields the block for the wrapper's
  arguments; \<open>has_func\<close>: the routine is not \<open>NULL\<close>; \<open>created\<close>: the thread, if one could be created;
  \<open>argv\<close>: what \<open>real_arg\<close> of the argument points to.
\<close>

definition k_set_routine_and_run ::
  "bool \<Rightarrow> nat option \<Rightarrow> paddr option \<Rightarrow> bool \<Rightarrow> string option list option \<Rightarrow> kernel \<Rightarrow>
   (string + int \<times> kernel) option" where
  "k_set_routine_and_run wrap_ok created proc has_func argv k =
    (case proc of
       None \<Rightarrow> Some (Inr (-2, k))
     | Some a \<Rightarrow>
         if \<not> has_func then Some (Inr (-2, k))
         else if \<not> wrap_ok then Some (Inl ''wrap_routine_exit_args: malloc failed'')
         else case created of
           None \<Rightarrow> do { k1 \<leftarrow> upd_proc a (\<lambda>p. p\<lparr>status := THRD_ZOMBIE\<rparr>) k; Some (Inr (-1, k1)) }
         | Some t \<Rightarrow> do {
             k1 \<leftarrow> upd_proc a (\<lambda>p. p\<lparr>thrd := t, command := Some (process_name (pid p) argv),
                                  status := THRD_RUNNING\<rparr>) k;
             p \<leftarrow> k_heap k1 a;
             k2 \<leftarrow> enqueue (priority_level p) a k1;
             Some (Inr (0, k2\<lparr>k_masked := False\<rparr>)) })"

subsection \<open>Waiting\<close>

datatype wait_step = Returned int | Joining paddr paddr

text \<open>Up to the call of \<open>spthread_join\<close>; \<open>Joining child self\<close> when it is reached.\<close>

definition k_waitpid_enter :: "nat \<Rightarrow> int \<Rightarrow> bool \<Rightarrow> kernel \<Rightarrow> (string + wait_step \<times> kernel) option" where
  "k_waitpid_enter me target nohang k =
    (if target \<le> 0 then Some (Inl ''Not ready for pid = -1 or -pgid'')
     else do {
       self \<leftarrow> k_get_self_pcb me k;
       case self of
         None \<Rightarrow> Some (Inr (Returned (-1), k))
       | Some s \<Rightarrow> do {
           ps \<leftarrow> k_heap k s;
           child \<leftarrow> seek_pcb (\<lambda>p. ppid p = pid ps \<and> pid p = target) (k_heap k) (table k);
           case child of
             None \<Rightarrow> Some (Inr (Returned (-1), k\<lparr>k_errno := P_ECHILD\<rparr>))
           | Some c \<Rightarrow> do {
               pc \<leftarrow> k_heap k c;
               if status pc \<noteq> THRD_ZOMBIE \<and> nohang then Some (Inr (Returned 0, k))
               else do {
                 k1 \<leftarrow> upd_proc s (\<lambda>p. p\<lparr>status := THRD_BLOCKED\<rparr>) k;
                 Some (Inr (Joining c s, call_thread [Join (thrd pc)] (k1\<lparr>k_masked := False\<rparr>))) } } } })"

text \<open>
  After the join: the caller runs again, and suspends itself when the scheduler has taken it out of
  its queue.
\<close>

definition k_waitpid_joined :: "paddr \<Rightarrow> kernel \<Rightarrow> kernel option" where
  "k_waitpid_joined s k =
    do { k1 \<leftarrow> upd_proc s (\<lambda>p. p\<lparr>status := THRD_RUNNING\<rparr>) (k\<lparr>k_masked := True\<rparr>);
         ps \<leftarrow> k_heap k1 s;
         q \<leftarrow> queue_at (priority_level ps) k1;
         present \<leftarrow> pcb_in_queue (k_heap k1) s q;
         Some ((if present then k1 else call_thread [Suspend_self] k1)\<lparr>k_masked := False\<rparr>) }"

text \<open>The rest: the child is marked and its status handed out when \<open>wstatus\<close> is not \<open>NULL\<close>.\<close>

definition k_waitpid_reap :: "paddr \<Rightarrow> bool \<Rightarrow> kernel \<Rightarrow> (string + (int \<times> int option) \<times> kernel) option" where
  "k_waitpid_reap c want k =
    do { pc \<leftarrow> k_heap k c;
         if status pc \<noteq> THRD_ZOMBIE then Some (Inl ''The child thread being reaped is not a zombie?!'')
         else do {
           k1 \<leftarrow> upd_proc c (\<lambda>p. p\<lparr>status := THRD_REAPED\<rparr>) k;
           if \<not> want then Some (Inr ((pid pc, None), k1))
           else if term_signal pc = 0 then Some (Inr ((pid pc, Some (exit_code pc * 256)), k1))
           else if term_signal pc \<noteq> P_SIGTERM then Some (Inl ''Thread was terminated but not by P_SIGTERM!'')
           else Some (Inr ((pid pc, Some (term_signal pc)), k1)) } }"

text \<open>
  The macros of \<open>kernel_definition.h\<close> that take a wait status apart; a mask of the low \<open>n\<close> bits is
  \<open>take_bit n\<close>.
\<close>

definition P_WIFEXITED :: "int \<Rightarrow> bool" where "P_WIFEXITED w \<longleftrightarrow> take_bit 7 w = 0"
definition P_WEXITSTATUS :: "int \<Rightarrow> int" where "P_WEXITSTATUS w = take_bit 8 (drop_bit 8 w)"
definition P_WIFSIGNALED :: "int \<Rightarrow> bool" where
  "P_WIFSIGNALED w \<longleftrightarrow> take_bit 7 w \<noteq> 0 \<and> take_bit 7 w \<noteq> 0x7F"
definition P_WTERMSIG :: "int \<Rightarrow> int" where "P_WTERMSIG w = take_bit 7 w"
definition P_WIFSTOPPED :: "int \<Rightarrow> bool" where "P_WIFSTOPPED w \<longleftrightarrow> take_bit 8 w = 0x7F"
definition P_WSTOPSIG :: "int \<Rightarrow> int" where "P_WSTOPSIG w = take_bit 8 (drop_bit 8 w)"
definition P_WIFCONTINUED :: "int \<Rightarrow> bool" where "P_WIFCONTINUED w \<longleftrightarrow> w = 0xFFFF"

subsection \<open>Signals\<close>

text \<open>
  A process that has been waited for is in the table until the next scan, with a thread that is joined. \<open>P_SIGTERM\<close> is not
  refused there: the trace then has calls on the handle of a joined thread, which SpThread counts as a use of freed memory.
\<close>

definition k_kill :: "int \<Rightarrow> int \<Rightarrow> kernel \<Rightarrow> (int \<times> kernel) option" where
  "k_kill target sig k =
    do { found \<leftarrow> pcb_vec_seek_pcb_by_pid (k_heap k) (k_vec k) target;
         case found of
           None \<Rightarrow> Some (-1, k)
         | Some a \<Rightarrow> do {
             p \<leftarrow> k_heap k a;
             if sig = P_SIGSTOP then
               if status p = THRD_RUNNING then do {
                 k1 \<leftarrow> upd_proc a (\<lambda>p. p\<lparr>status := THRD_STOPPED, stop_signal := P_SIGSTOP\<rparr>)
                        (call_thread [Suspend (thrd p)] k);
                 Some (0, k1\<lparr>k_masked := False\<rparr>) }
               else Some (0, k)
             else if sig = P_SIGCONT then
               if status p = THRD_STOPPED then do {
                 k1 \<leftarrow> upd_proc a (\<lambda>p. p\<lparr>status := THRD_RUNNING, cont_signal := P_SIGCONT\<rparr>) k;
                 Some (0, k1\<lparr>k_masked := False\<rparr>) }
               else Some (0, k)
             else if sig = P_SIGTERM then
               if status p \<noteq> THRD_ZOMBIE then do {
                 k1 \<leftarrow> upd_proc a (\<lambda>p. p\<lparr>status := THRD_ZOMBIE, term_signal := P_SIGTERM, exit_code := 1\<rparr>)
                        (call_thread [Cancel (thrd p), Continue (thrd p), Suspend (thrd p)] k);
                 h \<leftarrow> pcb_disconnect_child (k_vec k1) a (k_heap k1);
                 Some (0, k1\<lparr>k_heap := h, k_masked := False\<rparr>) }
               else Some (0, k)
             else Some (0, k) } }"

definition k_exit :: "nat \<Rightarrow> kernel \<Rightarrow> kernel option" where
  "k_exit me k =
    do { self \<leftarrow> k_get_self_pcb me k;
         case self of
           None \<Rightarrow> Some (call_thread [Exit_self] k)
         | Some s \<Rightarrow> do {
             k1 \<leftarrow> upd_proc s (\<lambda>p. p\<lparr>status := THRD_ZOMBIE, term_signal := 0, exit_code := 0\<rparr>) k;
             h \<leftarrow> pcb_disconnect_child (k_vec k1) s (k_heap k1);
             Some (call_thread [Exit_self] (k1\<lparr>k_heap := h, k_masked := False\<rparr>)) } }"

subsection \<open>Sleeping and priorities\<close>

definition k_sleep_enter :: "nat \<Rightarrow> 32 word \<Rightarrow> kernel \<Rightarrow> (paddr \<times> kernel) option" where
  "k_sleep_enter me secs k =
    do { self \<leftarrow> k_get_self_pcb me k;
         s \<leftarrow> self;
         k1 \<leftarrow> upd_proc s (\<lambda>p. p\<lparr>sleep_stamp := k_clock k, sleep_length := secs * 10,
                              status := THRD_BLOCKED\<rparr>) k;
         Some (s, call_thread [Suspend_self] (k1\<lparr>k_masked := False\<rparr>)) }"

definition k_sleep_leave :: "paddr \<Rightarrow> kernel \<Rightarrow> kernel option" where
  "k_sleep_leave s k = upd_proc s (\<lambda>p. p\<lparr>sleep_stamp := 0, sleep_length := 0\<rparr>) k"

definition k_nice :: "int \<Rightarrow> int \<Rightarrow> kernel \<Rightarrow> (int \<times> kernel) option" where
  "k_nice target new_priority k =
    (if new_priority < 0 \<or> int NUM_PRIORITY_QUEUES \<le> new_priority then Some (-1, k)
     else do {
       found \<leftarrow> pcb_vec_seek_pcb_by_pid (k_heap k) (k_vec k) target;
       case found of
         None \<Rightarrow> Some (-1, k)
       | Some a \<Rightarrow> do { k1 \<leftarrow> upd_proc a (\<lambda>p. p\<lparr>priority_level := new_priority\<rparr>) k; Some (0, k1) } })"

definition k_tcsetpid :: "int \<Rightarrow> int" where "k_tcsetpid p = -1"
definition k_pipe :: int where "k_pipe = -1"

subsection \<open>Listing processes\<close>

definition status_str :: "thrd_status_t \<Rightarrow> string" where
  "status_str s = (case s of THRD_RUNNING \<Rightarrow> ''R'' | THRD_STOPPED \<Rightarrow> ''S'' | THRD_BLOCKED \<Rightarrow> ''B''
     | THRD_ZOMBIE \<Rightarrow> ''Z'' | THRD_REAPED \<Rightarrow> ''T'')"

type_synonym ps_row = "int \<times> int \<times> int \<times> string \<times> string option"

definition pcb_info_single_line :: "pcb \<Rightarrow> ps_row" where
  "pcb_info_single_line p = (pid p, ppid p, priority_level p, status_str (status p), command p)"

text \<open>The rows of \<open>k_printprocess\<close>.\<close>

fun k_printprocess_rows :: "heap \<Rightarrow> paddr list \<Rightarrow> ps_row list option" where
  "k_printprocess_rows h [] = Some []"
| "k_printprocess_rows h (a # as) =
    do { p \<leftarrow> h a;
         rows \<leftarrow> k_printprocess_rows h as;
         Some (if status p \<noteq> THRD_REAPED then pcb_info_single_line p # rows else rows) }"

definition k_printprocess :: "kernel \<Rightarrow> ps_row list option" where
  "k_printprocess k = k_printprocess_rows (k_heap k) (table k)"

subsection \<open>Start and end\<close>

text \<open>\<open>pennos_kernel\<close> up to the scheduler: the queues, the table and the init process.\<close>

definition kernel_start :: kernel where
  "kernel_start = \<lparr>k_heap = Map.empty,
     k_queues = [pcb_queue_init QUEUE_PRIORITY_0, pcb_queue_init QUEUE_PRIORITY_1, pcb_queue_init QUEUE_PRIORITY_2],
     k_vec = \<lparr>v_data = [], v_length = 0, v_capacity = 0, v_dtor = True\<rparr>,
     k_clock = 0, k_errno = 0, k_done = False, k_masked = False, k_trace = [], k_pid_count = 1\<rparr>"

text \<open>Setting up a first process: init without a parent, the shell with init as its parent.\<close>

definition start_process ::
  "paddr mem \<Rightarrow> nat \<Rightarrow> paddr option \<Rightarrow> paddr option \<Rightarrow> string \<Rightarrow> kernel \<Rightarrow> (string + kernel) option" where
  "start_process m t new parent name k =
    do { (r, res, h) \<leftarrow> pcb_init t new parent 0 (k_pid_count k) (Some name) (k_heap k);
         if r = -1 then Some (Inl ''pcb_init() failed!'')
         else do {
           a \<leftarrow> res;
           case k_register_pcb m (Some a) (k\<lparr>k_heap := h, k_pid_count := k_pid_count k + 1\<rparr>) of
             Inl e \<Rightarrow> Some (Inl e)
           | Inr k1 \<Rightarrow> do { k2 \<leftarrow> enqueue 0 a k1; Some (Inr k2) } } }"

definition cancel_and_join_pcb :: "paddr \<Rightarrow> kernel \<Rightarrow> kernel option" where
  "cancel_and_join_pcb a k =
    do { p \<leftarrow> k_heap k a;
         Some (call_thread [Cancel (thrd p), Continue (thrd p), Suspend (thrd p), Join (thrd p)] k) }"

text \<open>The clean-up of \<open>thrd_init_fn\<close>: every process but init and shell that is not reaped.\<close>

fun cleanup_loop :: "paddr list \<Rightarrow> kernel \<Rightarrow> kernel option" where
  "cleanup_loop [] k = Some k"
| "cleanup_loop (a # as) k =
    do { p \<leftarrow> k_heap k a;
         k1 \<leftarrow> (if status p \<noteq> THRD_REAPED then cancel_and_join_pcb a k else Some k);
         cleanup_loop as k1 }"

definition init_cleanup :: "kernel \<Rightarrow> kernel option" where
  "init_cleanup k = cleanup_loop (drop 2 (table k)) k"

end
