(* ===== verification/Sched.thy ===== *)
theory Sched
  imports ProcOps
begin

text \<open>
  The scheduler, \<open>src/kernel/scheduler.c\<close>: one pass of its \<open>for\<close> loop is one quantum slot. A slot first
  scans the process table, then looks for a runnable process in the queue that the pattern names, lets
  it run until the next timer tick (\<open>sigsuspend\<close>, where other threads change the state), and puts it
  back into its queue. Slots of queues without a runnable process take no time.
\<close>

subsection \<open>The pattern\<close>

definition queue_pick_pattern :: "nat list" where
  "queue_pick_pattern = [0, 1, 0, 2, 1, 0, 1, 0, 2, 0, 1, 0, 2, 0, 1, 0, 1, 0, 2]"

definition QUEUE_PICK_PATTERN_LENGTH :: nat where "QUEUE_PICK_PATTERN_LENGTH = 19"

subsection \<open>The scan of the process table\<close>

definition time_is_up :: "kernel \<Rightarrow> pcb \<Rightarrow> bool" where
  "time_is_up k p \<longleftrightarrow> sleep_length p \<le> k_clock k - sleep_stamp p"

text \<open>One iteration of the loop; the flag tells whether the entry was removed from the table.\<close>

definition scan_entry :: "paddr \<Rightarrow> kernel \<Rightarrow> (string + bool \<times> kernel) option" where
  "scan_entry a k =
    do { p \<leftarrow> k_heap k a;
         if status p = THRD_RUNNING then do {
           q \<leftarrow> queue_at (priority_level p) k;
           present \<leftarrow> pcb_in_queue (k_heap k) a q;
           if present then Some (Inr (False, k))
           else do { k1 \<leftarrow> enqueue (priority_level p) a k; Some (Inr (False, k1)) } }
         else if status p = THRD_BLOCKED \<and> sleep_stamp p \<noteq> 0 then
           if time_is_up k p then do {
             k1 \<leftarrow> upd_proc a (\<lambda>p. p\<lparr>status := THRD_RUNNING\<rparr>) k;
             k2 \<leftarrow> enqueue (priority_level p) a k1;
             Some (Inr (False, k2)) }
           else Some (Inr (False, k))
         else if status p = THRD_REAPED then do {
           (_, k1) \<leftarrow> dequeue_pid (priority_level p) (pid p) k;
           Some (case pcb_vec_remove_by_pcb a (k_vec k1) of
                   Inl e \<Rightarrow> Inl e
                 | Inr (_, v) \<Rightarrow> Inr (True, k1\<lparr>k_vec := v, k_heap := pcb_destroy a (k_heap k1)\<rparr>)) }
         else Some (Inr (False, k)) }"

partial_function (option) scan_loop :: "nat \<Rightarrow> kernel \<Rightarrow> (string + kernel) option" where
  "scan_loop i k =
    (if v_length (k_vec k) \<le> i then Some (Inr k)
     else do {
       r \<leftarrow> scan_entry (v_data (k_vec k) ! i) k;
       case r of
         Inl e \<Rightarrow> Some (Inl e)
       | Inr (removed, k1) \<Rightarrow> scan_loop (if removed then i else Suc i) k1 })"

declare scan_loop.simps [code]

definition scan_table :: "kernel \<Rightarrow> (string + kernel) option" where
  "scan_table k =
    do { r \<leftarrow> scan_loop 0 (k\<lparr>k_masked := True\<rparr>);
         Some (map_sum id (\<lambda>k1. k1\<lparr>k_masked := False\<rparr>) r) }"

subsection \<open>Picking a process\<close>

text \<open>
  The walk over a queue: PCBs that are not runnable are taken out, the first runnable one is the
  result. The successor is read before the PCB is taken out.
\<close>

partial_function (option) pick_loop :: "nat \<Rightarrow> paddr option \<Rightarrow> kernel \<Rightarrow> (paddr option \<times> kernel) option" where
  "pick_loop i cur k =
    (case cur of
       None \<Rightarrow> Some (None, k)
     | Some a \<Rightarrow> do {
         p \<leftarrow> k_heap k a;
         if status p = THRD_RUNNING then Some (Some a, k)
         else do { (_, k1) \<leftarrow> dequeue_pid (int i) (pid p) k; pick_loop i (next_pcb_ptr p) k1 } })"

declare pick_loop.simps [code]

definition pick_process :: "nat \<Rightarrow> kernel \<Rightarrow> (paddr option \<times> kernel) option" where
  "pick_process i k = do { q \<leftarrow> queue_at (int i) k; pick_loop i (q_head_ptr q) k }"

subsection \<open>The quantum\<close>

definition all_queues_empty :: "kernel \<Rightarrow> bool" where
  "all_queues_empty k \<longleftrightarrow> list_all queue_is_empty (k_queues k)"

definition tick :: "kernel \<Rightarrow> kernel" where
  "tick k = k\<lparr>k_clock := k_clock k + 1\<rparr>"

datatype slot_start = Stop | Idle | Skip | Runs paddr

text \<open>Everything up to \<open>sigsuspend\<close>; the queue is the one that the pattern names.\<close>

definition slot_begin :: "nat \<Rightarrow> kernel \<Rightarrow> (string + slot_start \<times> kernel) option" where
  "slot_begin i k =
    do { r \<leftarrow> scan_table k;
         case r of
           Inl e \<Rightarrow> Some (Inl e)
         | Inr k1 \<Rightarrow>
             if k_done k1 then Some (Inr (Stop, k1))
             else if all_queues_empty k1 then Some (Inr (Idle, tick k1))
             else do {
               (run, k2) \<leftarrow> pick_process (queue_pick_pattern ! i) k1;
               case run of
                 None \<Rightarrow> Some (Inr (Skip, k2\<lparr>k_masked := False\<rparr>))
               | Some a \<Rightarrow> do {
                   p \<leftarrow> k_heap k2 a;
                   Some (Inr (Runs a, tick (call_thread [Continue (thrd p)] (k2\<lparr>k_masked := False\<rparr>)))) } } }"

text \<open>
  After the tick: the front of the queue leaves it, and the process that ran goes back, if it is still
  runnable or its sleep is over; a reaped one is destroyed.
\<close>

definition slot_end :: "nat \<Rightarrow> paddr \<Rightarrow> kernel \<Rightarrow> (string + kernel) option" where
  "slot_end i run k =
    do { (popped, k1) \<leftarrow> dequeue (int (queue_pick_pattern ! i)) (k\<lparr>k_masked := True\<rparr>);
         if popped = None then Some (Inr k1)
         else do {
           p \<leftarrow> k_heap k1 run;
           if status p = THRD_RUNNING then do {
             k2 \<leftarrow> enqueue (priority_level p) run (call_thread [Suspend (thrd p)] k1);
             Some (Inr (k2\<lparr>k_masked := False\<rparr>)) }
           else if status p = THRD_BLOCKED \<and> sleep_stamp p \<noteq> 0 then
             if time_is_up k1 p then do {
               k2 \<leftarrow> upd_proc run (\<lambda>p. p\<lparr>status := THRD_RUNNING\<rparr>) k1;
               k3 \<leftarrow> enqueue (priority_level p) run k2;
               Some (Inr (k3\<lparr>k_masked := False\<rparr>)) }
             else Some (Inr (k1\<lparr>k_masked := False\<rparr>))
           else if status p = THRD_REAPED then
             Some (case pcb_vec_remove_by_pcb run (k_vec k1) of
                     Inl e \<Rightarrow> Inl e
                   | Inr (_, v) \<Rightarrow> Inr (k1\<lparr>k_vec := v, k_heap := pcb_destroy run (k_heap k1), k_masked := False\<rparr>))
           else Some (Inr (k1\<lparr>k_masked := False\<rparr>)) } }"

end
