(* ===== verification/ProcInv.thy ===== *)
theory ProcInv
  imports Sched
begin

text \<open>
  The invariant of the process table: its entries are allocated and distinct, no two processes have the
  same pid, and every PCB's array of children keeps its shape. \<open>kept\<close> collects what all calls but those
  that add or remove entries do: the table stays, the pids stay. The lemmas take the calls one by one,
  in terms of \<open>ensures\<close>, since a call may not return. The runs are in ProcRuns.
\<close>

subsection \<open>The invariant\<close>

definition pid_at :: "heap \<Rightarrow> paddr \<Rightarrow> int" where "pid_at h a = pid (the (h a))"

definition kids_ok :: "heap \<Rightarrow> bool" where
  "kids_ok h \<longleftrightarrow> (\<forall>a p. h a = Some p \<longrightarrow> children_ok p)"

definition proc_ok :: "kernel \<Rightarrow> bool" where
  "proc_ok k \<longleftrightarrow> vec_ok (k_vec k) \<and> distinct (table k) \<and> (\<forall>a\<in>set (table k). k_heap k a \<noteq> None) \<and>
     distinct (map (pid_at (k_heap k)) (table k)) \<and> kids_ok (k_heap k)"

definition same_ids :: "heap \<Rightarrow> heap \<Rightarrow> bool" where
  "same_ids h h' \<longleftrightarrow> (\<forall>a. map_option pid (h' a) = map_option pid (h a)) \<and> (kids_ok h \<longrightarrow> kids_ok h')"

definition kept :: "kernel \<Rightarrow> kernel \<Rightarrow> bool" where
  "kept k k' \<longleftrightarrow> k_vec k' = k_vec k \<and> same_ids (k_heap k) (k_heap k')"

lemma same_ids_refl [simp]: "same_ids h h"
  by (simp add: same_ids_def)

lemma same_ids_trans [trans]: "same_ids h h1 \<Longrightarrow> same_ids h1 h2 \<Longrightarrow> same_ids h h2"
  by (simp add: same_ids_def)

lemma kept_refl [simp]: "kept k k"
  by (simp add: kept_def)

lemma kept_trans [trans]: "kept k k1 \<Longrightarrow> kept k1 k2 \<Longrightarrow> kept k k2"
  by (auto simp: kept_def intro: same_ids_trans)

lemma kept_fields [simp]:
  "kept k (k'\<lparr>k_masked := b\<rparr>) = kept k k'" "kept k (k'\<lparr>k_errno := e\<rparr>) = kept k k'"
  "kept k (call_thread cs k') = kept k k'" "kept k (tick k') = kept k k'"
  "kept (k\<lparr>k_masked := b\<rparr>) k' = kept k k'" "kept (call_thread cs k) k' = kept k k'"
  by (simp_all add: kept_def call_thread_def tick_def)

lemma same_ids_alloc: "same_ids h h' \<Longrightarrow> h a \<noteq> None \<Longrightarrow> h' a \<noteq> None \<and> pid_at h' a = pid_at h a"
  unfolding same_ids_def pid_at_def by (drule conjunct1, drule spec [of _ a]) (auto split: option.splits)

lemma kept_ok: "kept k k' \<Longrightarrow> proc_ok k \<Longrightarrow> proc_ok k'"
proof -
  assume k: "kept k k'" "proc_ok k"
  then have "same_ids (k_heap k) (k_heap k')" "table k' = table k" by (simp_all add: kept_def)
  then have al: "\<forall>a\<in>set (table k). k_heap k' a \<noteq> None \<and> pid_at (k_heap k') a = pid_at (k_heap k) a"
    using k(2) same_ids_alloc unfolding proc_ok_def by blast
  then have m: "map (pid_at (k_heap k')) (table k) = map (pid_at (k_heap k)) (table k)" by simp
  have v: "k_vec k' = k_vec k" using k(1) by (simp add: kept_def)
  have "kids_ok (k_heap k')" using k by (simp add: kept_def same_ids_def proc_ok_def)
  then show "proc_ok k'"
    using k(2) al unfolding proc_ok_def v m by blast
qed

lemma same_pcbs_ids:
  assumes "same_pcbs h h'"
  shows "same_ids h h'"
proof -
  have eq: "map_option (\<lambda>p. (pid p, children_ok p)) (h' a) = map_option (\<lambda>p. (pid p, children_ok p)) (h a)" for a
  proof -
    have "map_option (\<lambda>p. (pid p, children_ok p)) x =
        map_option (\<lambda>p. (pid p, children_ok p)) (map_option (\<lambda>p. p\<lparr>next_pcb_ptr := None\<rparr>) x)" for x
      by (cases x) (simp_all add: children_ok_def)
    then show ?thesis using assms unfolding same_pcbs_def by metis
  qed
  have "map_option pid (h' a) = map_option pid (h a)" for a
    using arg_cong [OF eq [of a], of "map_option fst"] by (simp add: option.map_comp comp_def)
  moreover have "children_ok p" if "kids_ok h" "h' a = Some p" for a p
    using eq [of a] that by (cases "h a") (auto simp: kids_ok_def)
  ultimately show ?thesis by (auto simp: same_ids_def kids_ok_def)
qed

subsection \<open>The queue operations\<close>

lemma pop_same: "ensures (\<lambda>(_, h', _). same_pcbs h h') (pcb_queue_pop h q)"
  by (auto simp: pcb_queue_pop_def)

lemma upd_link_same: "upd_pcb a (\<lambda>p. p\<lparr>next_pcb_ptr := n\<rparr>) h = Some h' \<Longrightarrow> same_pcbs h h'"
  by (auto simp: upd_pcb_Some)

lemma push_same: "ensures (\<lambda>(_, h', _). same_pcbs h h') (pcb_queue_push a h q)"
  by (auto simp: pcb_queue_push_def bind_Some split: if_splits dest: upd_link_same)

lemma unlink_same: "ensures (\<lambda>(_, h', _). same_pcbs h h') (unlink_next c nx h q)"
  by (auto simp: unlink_next_def dest!: upd_link_same intro: same_pcbs_trans)

lemma pop_by_pid_same: "ensures (\<lambda>(_, h', _). same_pcbs h h') (pcb_queue_pop_by_pid t h q)"
  using pop_same [of h q] unlink_same
  by (auto simp: pcb_queue_pop_by_pid_def split: option.split)

lemma queue_step_kept:
  assumes "same_pcbs (k_heap k) h"
  shows "kept k (set_queue prio h q k)"
  using assms by (simp add: kept_def set_queue_def same_pcbs_ids)

lemma enqueue_kept: "enqueue prio a k = Some k' \<Longrightarrow> kept k k'"
  using push_same [THEN ensuresD] by (fastforce simp: enqueue_def bind_Some queue_step_kept)

lemma dequeue_kept: "dequeue prio k = Some (r, k') \<Longrightarrow> kept k k'"
  using pop_same [THEN ensuresD] by (fastforce simp: dequeue_def bind_Some queue_step_kept)

lemma dequeue_pid_kept: "dequeue_pid prio t k = Some (r, k') \<Longrightarrow> kept k k'"
  using pop_by_pid_same [THEN ensuresD] by (fastforce simp: dequeue_pid_def bind_Some queue_step_kept)

subsection \<open>Updates of one PCB\<close>

lemma upd_pcb_ids:
  assumes "upd_pcb a f h = Some h'" "\<And>p. pid (f p) = pid p" "\<And>p. children_ok p \<Longrightarrow> children_ok (f p)"
  shows "same_ids h h'"
  using assms by (auto simp: upd_pcb_Some same_ids_def kids_ok_def split: if_splits)

lemma upd_proc_kept:
  assumes "upd_proc a f k = Some k'" "\<And>p. pid (f p) = pid p" "\<And>p. children_ok p \<Longrightarrow> children_ok (f p)"
  shows "kept k k'"
  using assms upd_pcb_ids [of a f "k_heap k"] by (auto simp: upd_proc_def kept_def)

lemma disconnect_loop_ids: "disconnect_loop v s n i h = Some h' \<Longrightarrow> same_ids h h'"
proof (induction n arbitrary: i h)
  case (Suc n)
  obtain p c h1 h2 where st: "(case c of None \<Rightarrow> Some h | Some a \<Rightarrow> upd_pcb a (\<lambda>p. p\<lparr>ppid := 1\<rparr>) h) = Some h1"
    "upd_pcb s (\<lambda>p. p\<lparr>child_pids := (child_pids p)[i := -1]\<rparr>) h1 = Some h2"
    "disconnect_loop v s n (Suc i) h2 = Some h'"
    using Suc.prems by (auto simp: bind_Some)
  have "same_ids h h1"
    using st(1) by (cases c) (auto intro: upd_pcb_ids simp: children_ok_def)
  also have "same_ids h1 h2"
    using st(2) by (rule upd_pcb_ids) (simp_all add: children_ok_def)
  also have "same_ids h2 h'" using Suc.IH [OF st(3)] .
  finally show ?case .
qed simp

lemma disconnect_ids:
  assumes "pcb_disconnect_child v s h = Some h'"
  shows "same_ids h h'"
proof -
  obtain n h1 where d: "disconnect_loop v s n 0 h = Some h1"
    "upd_pcb s (\<lambda>p. p\<lparr>num_child_pids := 0\<rparr>) h1 = Some h'"
    using assms unfolding pcb_disconnect_child_def bind_Some by blast
  have "same_ids h h1" using disconnect_loop_ids [OF d(1)] .
  also have "same_ids h1 h'" using d(2) by (rule upd_pcb_ids) (simp_all add: children_ok_def)
  finally show ?thesis .
qed

lemma disconnect_kept: "pcb_disconnect_child (k_vec k) s (k_heap k) = Some h \<Longrightarrow> kept k (k\<lparr>k_heap := h\<rparr>)"
  by (simp add: kept_def disconnect_ids)

subsection \<open>The calls that keep the table\<close>

lemma children_ok_fields [simp]:
  "children_ok (p\<lparr>status := s\<rparr>) = children_ok p" "children_ok (p\<lparr>thrd := t\<rparr>) = children_ok p"
  "children_ok (p\<lparr>command := c\<rparr>) = children_ok p" "children_ok (p\<lparr>exit_code := i\<rparr>) = children_ok p"
  "children_ok (p\<lparr>term_signal := i\<rparr>) = children_ok p" "children_ok (p\<lparr>stop_signal := i\<rparr>) = children_ok p"
  "children_ok (p\<lparr>cont_signal := i\<rparr>) = children_ok p" "children_ok (p\<lparr>sleep_stamp := w\<rparr>) = children_ok p"
  "children_ok (p\<lparr>sleep_length := w\<rparr>) = children_ok p" "children_ok (p\<lparr>priority_level := i\<rparr>) = children_ok p"
  by (simp_all add: children_ok_def)

lemma set_routine_kept: "k_set_routine_and_run w t a f argv k = Some (Inr (r, k')) \<Longrightarrow> kept k k'"
  by (auto simp: k_set_routine_and_run_def bind_Some split: option.splits if_splits
      dest!: upd_proc_kept enqueue_kept intro: kept_trans)

lemma waitpid_enter_kept: "k_waitpid_enter me t nh k = Some (Inr (w, k')) \<Longrightarrow> kept k k'"
  by (auto simp: k_waitpid_enter_def bind_Some split: option.splits if_splits
      dest!: upd_proc_kept)

lemma waitpid_joined_kept: "k_waitpid_joined s k = Some k' \<Longrightarrow> kept k k'"
  by (auto simp: k_waitpid_joined_def bind_Some split: if_splits dest!: upd_proc_kept)

lemma waitpid_reap_kept: "k_waitpid_reap c want k = Some (Inr (r, k')) \<Longrightarrow> kept k k'"
  by (auto simp: k_waitpid_reap_def bind_Some split: if_splits dest!: upd_proc_kept)

lemma disconnected_kept:
  "kept k k1 \<Longrightarrow> pcb_disconnect_child (k_vec k1) s (k_heap k1) = Some h \<Longrightarrow> kept k (k1\<lparr>k_heap := h\<rparr>)"
  using disconnect_kept kept_trans by blast

lemma kill_kept:
  assumes "k_kill t sig k = Some (r, k')"
  shows "kept k k'"
proof -
  obtain found where f: "pcb_vec_seek_pcb_by_pid (k_heap k) (k_vec k) t = Some found"
    using assms by (cases "pcb_vec_seek_pcb_by_pid (k_heap k) (k_vec k) t") (simp_all add: k_kill_def)
  show ?thesis
  proof (cases found)
    case None
    then show ?thesis using assms f by (simp add: k_kill_def)
  next
    case (Some a)
    obtain p where p: "k_heap k a = Some p"
      using assms f Some by (cases "k_heap k a") (simp_all add: k_kill_def)
    note eq = assms [unfolded k_kill_def f Some option.case p Option.bind.simps]
    consider "sig = P_SIGSTOP" "status p = THRD_RUNNING"
      | "sig \<noteq> P_SIGSTOP" "sig = P_SIGCONT" "status p = THRD_STOPPED"
      | "sig \<noteq> P_SIGSTOP" "sig \<noteq> P_SIGCONT" "sig = P_SIGTERM" "status p \<noteq> THRD_ZOMBIE"
      | "k' = k"
      using eq by (metis (no_types, lifting) option.inject prod.inject)
    then show ?thesis
    proof cases
      case 1
      then show ?thesis using eq by (auto simp: bind_Some dest!: upd_proc_kept)
    next
      case 2
      then show ?thesis using eq by (auto simp: bind_Some dest!: upd_proc_kept)
    next
      case 3
      then show ?thesis using eq by (auto simp: bind_Some dest!: upd_proc_kept disconnect_kept intro: kept_trans)
    qed simp
  qed
qed

lemma exit_kept:
  assumes "k_exit me k = Some k'"
  shows "kept k k'"
proof -
  consider "k' = call_thread [Exit_self] k"
    | s k1 h where "upd_proc s (\<lambda>p. p\<lparr>status := THRD_ZOMBIE, term_signal := 0, exit_code := 0\<rparr>) k = Some k1"
        "pcb_disconnect_child (k_vec k1) s (k_heap k1) = Some h"
        "k' = call_thread [Exit_self] (k1\<lparr>k_heap := h, k_masked := False\<rparr>)"
    using assms by (auto simp: k_exit_def bind_Some split: option.split_asm)
  then show ?thesis
    by cases (auto dest!: upd_proc_kept disconnect_kept intro: kept_trans)
qed

lemma sleep_enter_kept: "k_sleep_enter me n k = Some (s, k') \<Longrightarrow> kept k k'"
  by (auto simp: k_sleep_enter_def bind_Some dest!: upd_proc_kept)

lemma sleep_leave_kept: "k_sleep_leave s k = Some k' \<Longrightarrow> kept k k'"
  by (auto simp: k_sleep_leave_def dest!: upd_proc_kept)

lemma nice_kept: "k_nice t p k = Some (r, k') \<Longrightarrow> kept k k'"
  by (auto simp: k_nice_def bind_Some split: option.splits if_splits dest!: upd_proc_kept)

lemma pick_loop_kept: "pick_loop i cur k = Some r \<Longrightarrow> kept k (snd r)"
  by (erule pick_loop.raw_induct [rotated])
     (auto simp: bind_Some split: option.split_asm if_split_asm dest!: dequeue_pid_kept intro: kept_trans)

lemma pick_process_kept: "pick_process i k = Some (r, k') \<Longrightarrow> kept k k'"
  by (auto simp: pick_process_def bind_Some dest!: pick_loop_kept)

subsection \<open>Entries that come and go\<close>

text \<open>Removing an entry, and with it its PCB.\<close>

lemma remove_entry_ok:
  assumes ok: "proc_ok k" and r: "pcb_vec_remove_by_pcb a (k_vec k) = Inr (x, v)"
  shows "proc_ok (k\<lparr>k_vec := v, k_heap := pcb_destroy a (k_heap k)\<rparr>)"
    "vec_elems v = remove1 a (table k)"
proof -
  have v: "vec_ok (k_vec k)" using ok by (simp add: proc_ok_def)
  have vv: "vec_ok v \<and> vec_elems v = remove1 a (table k)"
    using pcb_vec_remove [OF v, of a] r v by (cases "a \<in> set (table k)") (auto simp: remove1_idem)
  then show "vec_elems v = remove1 a (table k)" by blast
  have d: "distinct (table k)" using ok by (simp add: proc_ok_def)
  then have a: "a \<notin> set (remove1 a (table k))" by simp
  then have m: "map (pid_at (pcb_destroy a (k_heap k))) (remove1 a (table k)) =
      map (pid_at (k_heap k)) (remove1 a (table k))"
    by (intro map_cong) (auto simp: pid_at_def pcb_destroy_def)
  have "distinct (map (pid_at (k_heap k)) (remove1 a (table k)))"
    using ok d by (auto simp: proc_ok_def distinct_map inj_on_def)
  moreover have "\<forall>b\<in>set (remove1 a (table k)). pcb_destroy a (k_heap k) b \<noteq> None"
    using ok d by (simp add: proc_ok_def pcb_destroy_def)
  moreover have "kids_ok (pcb_destroy a (k_heap k))"
    using ok by (auto simp: proc_ok_def kids_ok_def pcb_destroy_def split: if_splits)
  ultimately show "proc_ok (k\<lparr>k_vec := v, k_heap := pcb_destroy a (k_heap k)\<rparr>)"
    unfolding proc_ok_def using vv d by (simp add: m)
qed

lemma masked_ok [simp]: "proc_ok (k\<lparr>k_masked := b\<rparr>) = proc_ok k" "proc_ok (k\<lparr>k_errno := e\<rparr>) = proc_ok k"
  "proc_ok (call_thread cs k) = proc_ok k" "proc_ok (tick k) = proc_ok k"
  by (simp_all add: proc_ok_def call_thread_def tick_def)

lemma cleanup_ok: "proc_ok k \<Longrightarrow> k_proc_cleanup a k = Inr (r, k') \<Longrightarrow> proc_ok k'"
  by (auto simp: k_proc_cleanup_def remove_entry_ok split: option.splits sum.splits)

lemma scan_entry_ok:
  assumes "proc_ok k" "scan_entry a k = Some (Inr (b, k'))"
  shows "proc_ok k'"
proof -
  obtain p where p: "k_heap k a = Some p" using assms(2) by (auto simp: scan_entry_def bind_Some)
  show ?thesis
  proof (cases "status p = THRD_REAPED")
    case False
    have "kept k k'"
      using assms(2) p False
      by (auto simp: scan_entry_def bind_Some split: if_split_asm
          dest!: upd_proc_kept enqueue_kept intro: kept_trans)
    then show ?thesis using kept_ok assms(1) by blast
  next
    case True
    then have e: "Option.bind (dequeue_pid (priority_level p) (pid p) k) (\<lambda>(_, k1).
        Some (case pcb_vec_remove_by_pcb a (k_vec k1) of Inl e \<Rightarrow> Inl e
          | Inr (_, v) \<Rightarrow> Inr (True, k1\<lparr>k_vec := v, k_heap := pcb_destroy a (k_heap k1)\<rparr>))) = Some (Inr (b, k'))"
      using assms(2) p by (simp add: scan_entry_def)
    then obtain r k1 where d1: "dequeue_pid (priority_level p) (pid p) k = Some (r, k1)"
      "(case pcb_vec_remove_by_pcb a (k_vec k1) of Inl e \<Rightarrow> Inl e
          | Inr (_, v) \<Rightarrow> Inr (True, k1\<lparr>k_vec := v, k_heap := pcb_destroy a (k_heap k1)\<rparr>)) = Inr (b, k')"
      by (auto simp: bind_Some)
    then obtain x v where d: "pcb_vec_remove_by_pcb a (k_vec k1) = Inr (x, v)"
      "k' = k1\<lparr>k_vec := v, k_heap := pcb_destroy a (k_heap k1)\<rparr>"
      by (cases "pcb_vec_remove_by_pcb a (k_vec k1)") auto
    have "proc_ok k1" using dequeue_pid_kept [OF d1(1)] kept_ok assms(1) by blast
    then show ?thesis using remove_entry_ok(1) [OF _ d(1)] d(2) by simp
  qed
qed

lemma scan_loop_ok: "scan_loop i k = Some r \<Longrightarrow> proc_ok k \<longrightarrow> (\<forall>k'. r = Inr k' \<longrightarrow> proc_ok k')"
proof (rule scan_loop.raw_induct [rotated], assumption, goal_cases)
  case (1 f i k r)
  show ?case
  proof (cases "v_length (k_vec k) \<le> i")
    case False
    then obtain e where e: "scan_entry (v_data (k_vec k) ! i) k = Some e"
      "(case e of Inl e \<Rightarrow> Some (Inl e) | Inr (removed, k1) \<Rightarrow> f (if removed then i else Suc i) k1) = Some r"
      using 1(3) by (auto simp: bind_Some)
    show ?thesis
    proof (cases e)
      case (Inr bk)
      obtain b k1 where bk: "bk = (b, k1)" by (cases bk)
      have "proc_ok k1" if "proc_ok k" using scan_entry_ok that e(1) Inr bk by simp
      moreover have "f (if b then i else Suc i) k1 = Some r" using e(2) Inr bk by simp
      ultimately show ?thesis using 1(2) by blast
    qed (use e in auto)
  qed (use 1 in auto)
qed

lemma scan_table_ok: "scan_table k = Some (Inr k') \<Longrightarrow> proc_ok k \<Longrightarrow> proc_ok k'"
  using scan_loop_ok [of 0 "k\<lparr>k_masked := True\<rparr>"]
  by (cases "scan_loop 0 (k\<lparr>k_masked := True\<rparr>)"; cases "the (scan_loop 0 (k\<lparr>k_masked := True\<rparr>))")
     (auto simp: scan_table_def)

subsection \<open>The scheduler's slot\<close>

lemma slot_begin_ok:
  assumes "slot_begin i k = Some (Inr (w, k'))" "proc_ok k"
  shows "proc_ok k'"
proof -
  obtain r where r: "scan_table k = Some r" using assms(1) by (auto simp: slot_begin_def bind_Some)
  then obtain k1 where k1: "r = Inr k1" using assms(1) by (cases r) (auto simp: slot_begin_def)
  have ok: "proc_ok k1" using scan_table_ok assms(2) r k1 by blast
  show ?thesis
  proof (cases "k_done k1 \<or> all_queues_empty k1")
    case True
    then show ?thesis using assms(1) r k1 ok by (auto simp: slot_begin_def split: if_split_asm)
  next
    case False
    then obtain run k2 where p: "pick_process (queue_pick_pattern ! i) k1 = Some (run, k2)"
      using assms(1) r k1 by (auto simp: slot_begin_def bind_Some)
    then have "proc_ok k2" using pick_process_kept kept_ok ok by blast
    then show ?thesis
      using assms(1) r k1 False p by (cases run) (auto simp: slot_begin_def bind_Some)
  qed
qed

lemma removed_ok:
  assumes "proc_ok k" "(case pcb_vec_remove_by_pcb a (k_vec k) of Inl e \<Rightarrow> Inl e
    | Inr (_, v) \<Rightarrow> Inr (k\<lparr>k_vec := v, k_heap := pcb_destroy a (k_heap k), k_masked := b\<rparr>)) = Inr k'"
  shows "proc_ok k'"
proof -
  obtain x v where d: "pcb_vec_remove_by_pcb a (k_vec k) = Inr (x, v)"
    "k' = k\<lparr>k_vec := v, k_heap := pcb_destroy a (k_heap k), k_masked := b\<rparr>"
    using assms(2) by (cases "pcb_vec_remove_by_pcb a (k_vec k)") auto
  show ?thesis using remove_entry_ok(1) [OF assms(1) d(1)] d(2) by (simp add: proc_ok_def)
qed

lemma slot_end_ok:
  assumes "slot_end i run k = Some (Inr k')" "proc_ok k"
  shows "proc_ok k'"
proof -
  obtain popped k1 where d: "dequeue (int (queue_pick_pattern ! i)) (k\<lparr>k_masked := True\<rparr>) = Some (popped, k1)"
    using assms(1) by (auto simp: slot_end_def bind_Some)
  have "kept k k1" using dequeue_kept [OF d] by simp
  then have ok: "proc_ok k1" using kept_ok assms(2) by blast
  show ?thesis
  proof (cases "popped = None")
    case True
    then show ?thesis using assms(1) d ok by (simp add: slot_end_def)
  next
    case False
    then obtain p where p: "k_heap k1 run = Some p"
      using assms(1) d by (cases "k_heap k1 run") (auto simp: slot_end_def)
    show ?thesis
    proof (cases "status p = THRD_REAPED")
      case True
      then show ?thesis
        using assms(1) d p False ok removed_ok [of k1 False run] by (simp add: slot_end_def)
    next
      case nr: False
      have "kept k1 k'"
        using assms(1) d p False nr
        by (auto simp: slot_end_def bind_Some split: if_split_asm dest!: upd_proc_kept enqueue_kept intro: kept_trans)
      then show ?thesis using kept_ok ok by blast
    qed
  qed
qed

subsection \<open>Creating a process\<close>

lemma free_pid_loop_next: "free_pid_loop h as c = Some n \<Longrightarrow> seek_pcb (\<lambda>p. pid p = n) h as = Some None"
  by (erule free_pid_loop.raw_induct [rotated]) (auto simp: bind_Some split: if_split_asm)

lemma seek_none: "seek_pcb P h as = Some None \<Longrightarrow> \<forall>a\<in>set as. \<exists>p. h a = Some p \<and> \<not> P p"
  by (induction as) (auto simp: bind_Some split: if_split_asm)

lemma register_entry_ok:
  assumes ok: "proc_ok k" and new: "k_heap k a = None"
    and h: "h a = Some p" "same_ids (k_heap k) (h(a := None))" "children_ok p"
    and fresh: "\<forall>b\<in>set (table k). pid_at (k_heap k) b \<noteq> pid p"
    and r: "k_register_pcb m (Some a) (k\<lparr>k_heap := h, k_masked := c, k_pid_count := n\<rparr>) = Inr k'"
  shows "proc_ok k'" "table k' = table k @ [a]"
proof -
  obtain v where v: "pcb_vec_push_back m a (k_vec k) = Inr v"
    "k' = k\<lparr>k_heap := h, k_masked := c, k_pid_count := n, k_vec := v\<rparr>"
    using r by (cases "pcb_vec_push_back m a (k_vec k)") (auto simp: k_register_pcb_def)
  have vv: "vec_ok v" "vec_elems v = table k @ [a]"
    using pcb_vec.push_adds [OF _ v(1)] ok by (simp_all add: proc_ok_def)
  then show "table k' = table k @ [a]" using v by simp
  have a: "a \<notin> set (table k)" using ok new by (auto simp: proc_ok_def)
  have b: "h b \<noteq> None \<and> pid_at h b = pid_at (k_heap k) b" if "b \<in> set (table k)" for b
    using same_ids_alloc [OF h(2), of b] that a ok by (auto simp: proc_ok_def pid_at_def split: if_split_asm)
  have m: "map (pid_at h) (table k) = map (pid_at (k_heap k)) (table k)" using b by simp
  have "pid_at h a \<notin> set (map (pid_at h) (table k))" using fresh h(1) unfolding m by (auto simp: pid_at_def)
  moreover have "distinct (map (pid_at h) (table k))" using ok unfolding m proc_ok_def by blast
  ultimately have "distinct (map (pid_at h) (table k @ [a]))" by simp
  moreover have "kids_ok h"
  proof -
    have "kids_ok (h(a := None))" using h(2) ok by (simp add: same_ids_def proc_ok_def)
    then have "children_ok q" if "h b = Some q" for b q
      using that h(1,3) by (cases "b = a") (auto simp: kids_ok_def dest: spec [of _ b])
    then show ?thesis by (simp add: kids_ok_def)
  qed
  moreover have "\<forall>b\<in>set (table k @ [a]). h b \<noteq> None" using b h(1) by simp
  moreover have "distinct (table k @ [a])" using a ok by (simp add: proc_ok_def)
  ultimately show "proc_ok k'"
    unfolding proc_ok_def using vv v(2) by simp
qed

lemma new_pcb_ok [simp]: "children_ok (new_pcb i q prio)" "pid (new_pcb i q prio) = i"
  by (simp_all add: new_pcb_def children_ok_def)

lemma init_empty_ids:
  assumes "pcb_init_empty (Some a) parent prio i h = Some (r, res, h')" "h a = None" "r \<noteq> -1"
  shows "res = Some a" "\<exists>q. h' a = Some (new_pcb i q prio)" "same_ids h (h'(a := None))"
proof -
  have add: "pid (snd (pcb_add_child_pid i q)) = pid q \<and> (children_ok q \<longrightarrow> children_ok (snd (pcb_add_child_pid i q)))" for q
    by (auto simp: pcb_add_child_pid_def children_ok_def)
  have "res = Some a \<and> (\<exists>q. h' a = Some (new_pcb i q prio)) \<and> same_ids h (h'(a := None))"
  proof (cases parent)
    case None
    then show ?thesis
      using assms by (auto simp: pcb_init_empty_def same_ids_def kids_ok_def split: if_split_asm)
  next
    case (Some p)
    then obtain q where q: "h p = Some q" using assms(1) by (cases "h p") (auto simp: pcb_init_empty_def)
    then have "p \<noteq> a" using assms(2) by auto
    then show ?thesis
      using assms Some q add [of q]
      by (auto simp: pcb_init_empty_def Let_def case_prod_unfold same_ids_def kids_ok_def split: if_split_asm)
  qed
  then show "res = Some a" "\<exists>q. h' a = Some (new_pcb i q prio)" "same_ids h (h'(a := None))" by blast+
qed

lemma create_ok:
  assumes "k_proc_create m (Some a) parent prio k = Some (Inr (b, k'))" "k_heap k a = None" "proc_ok k"
  shows "proc_ok k'" "b = a" "table k' = table k @ [a]"
proof -
  obtain n r res h where c: "get_next_free_pid k = Some n"
    "pcb_init_empty (Some a) parent prio n (k_heap k) = Some (r, res, h)" "r \<noteq> -1"
    using assms(1) by (auto simp: k_proc_create_def bind_Some split: if_split_asm)
  note i = init_empty_ids [OF c(2) assms(2) c(3)]
  then obtain q where q: "h a = Some (new_pcb n q prio)" by blast
  have reg: "b = a \<and> k_register_pcb m (Some a) (k\<lparr>k_heap := h, k_masked := False, k_pid_count := k_pid_count k\<rparr>) = Inr k'"
    using assms(1) c i(1)
    by (cases "k_register_pcb m (Some a) (k\<lparr>k_heap := h, k_masked := False\<rparr>)") (auto simp: k_proc_create_def)
  have "\<forall>x\<in>set (table k). pid_at (k_heap k) x \<noteq> n"
    using seek_none [OF free_pid_loop_next [OF c(1) [unfolded get_next_free_pid_def]]] by (auto simp: pid_at_def)
  then show "proc_ok k'" "table k' = table k @ [a]" "b = a"
    using register_entry_ok [OF assms(3,2) q i(3) _ _ conjunct2 [OF reg]] reg by simp_all
qed

lemma start_process_ok:
  assumes "start_process m t (Some a) parent name k = Some (Inr k')" "k_heap k a = None" "proc_ok k"
    "\<forall>x\<in>set (table k). pid_at (k_heap k) x \<noteq> k_pid_count k"
  shows "proc_ok k'" "table k' = table k @ [a]" "k_pid_count k' = k_pid_count k + 1"
    "same_ids ((k_heap k)(a \<mapsto> new_pcb (k_pid_count k) 0 0)) (k_heap k')"
proof -
  obtain r res h where c: "pcb_init t (Some a) parent 0 (k_pid_count k) (Some name) (k_heap k) = Some (r, res, h)" "r \<noteq> -1"
    using assms(1) by (auto simp: start_process_def bind_Some split: if_split_asm)
  then obtain r1 h1 where i1: "pcb_init_empty (Some a) parent 0 (k_pid_count k) (k_heap k) = Some (r1, res, h1)" "r1 \<noteq> -1"
    by (auto simp: pcb_init_def bind_Some split: if_split_asm)
  note i = init_empty_ids [OF i1(1) assms(2) i1(2)]
  then obtain q where q: "h1 a = Some (new_pcb (k_pid_count k) q 0)" by blast
  then have h: "h = h1(a \<mapsto> (new_pcb (k_pid_count k) q 0)\<lparr>thrd := t, command := Some name, status := THRD_RUNNING\<rparr>)"
    using c i1 i(1) by (auto simp: pcb_init_def)
  let ?k = "k\<lparr>k_heap := h, k_masked := k_masked k, k_pid_count := k_pid_count k + 1\<rparr>"
  obtain k1 where reg: "k_register_pcb m (Some a) ?k = Inr k1" and enq: "enqueue 0 a k1 = Some k'"
    using assms(1) c i(1)
    by (cases "k_register_pcb m (Some a) ?k") (auto simp: start_process_def bind_Some)
  have ok1: "proc_ok k1 \<and> table k1 = table k @ [a]"
    using register_entry_ok [OF assms(3,2) _ _ _ _ reg] h i(3) assms(4) by simp
  moreover have "kept k1 k'" using enqueue_kept [OF enq] .
  ultimately show "proc_ok k'" "table k' = table k @ [a]" using kept_ok by (auto simp: kept_def)
  have k1: "k_heap k1 = h" "k_pid_count k1 = k_pid_count k + 1"
    using reg by (auto simp: k_register_pcb_def map_sum_def split: sum.split_asm)
  show "k_pid_count k' = k_pid_count k + 1"
    using enq k1 by (auto simp: enqueue_def bind_Some set_queue_def)
  have "kids_ok h" using ok1 k1 by (simp add: proc_ok_def)
  then have "same_ids ((k_heap k)(a \<mapsto> new_pcb (k_pid_count k) 0 0)) h"
    using i(3) unfolding same_ids_def h by (auto split: if_split_asm)
  then show "same_ids ((k_heap k)(a \<mapsto> new_pcb (k_pid_count k) 0 0)) (k_heap k')"
    using enqueue_kept [OF enq] k1 by (auto simp: kept_def intro: same_ids_trans)
qed

subsection \<open>The search for a pid\<close>

lemma seek_alloc: "\<forall>a\<in>set as. h a \<noteq> None \<Longrightarrow>
   seek_pcb P h as = Some (List.find (\<lambda>a. P (the (h a))) as)"
  by (rule seek_pcb_total) blast

lemma free_pid_loop_total:
  assumes "\<forall>a\<in>set as. h a \<noteq> None"
  shows "\<exists>n. free_pid_loop h as c = Some n \<and> c \<le> n \<and> (\<forall>i. c \<le> i \<and> i < n \<longrightarrow> i \<in> pid_at h ` set as) \<and>
    n \<notin> pid_at h ` set as"
proof (induction "card {i \<in> pid_at h ` set as. c \<le> i}" arbitrary: c rule: less_induct)
  case less
  let ?S = "\<lambda>c. {i \<in> pid_at h ` set as. c \<le> i}"
  have find: "seek_pcb (\<lambda>p. pid p = c) h as = Some (List.find (\<lambda>a. pid_at h a = c) as)"
    using seek_alloc [OF assms, of "\<lambda>p. pid p = c"] by (simp add: pid_at_def)
  show ?case
  proof (cases "List.find (\<lambda>a. pid_at h a = c) as")
    case None
    then have "c \<notin> pid_at h ` set as" by (auto simp: find_None_iff)
    moreover have "free_pid_loop h as c = Some c" using None find by (subst free_pid_loop.simps) simp
    ultimately show ?thesis by (intro exI [of _ c]) auto
  next
    case (Some a)
    then have a: "c \<in> pid_at h ` set as" by (auto simp: find_Some_iff)
    then have "?S (c + 1) \<subset> ?S c" by force
    then have "card (?S (c + 1)) < card (?S c)" by (intro psubset_card_mono) auto
    then obtain n where n: "free_pid_loop h as (c + 1) = Some n" "c + 1 \<le> n"
      "\<forall>i. c + 1 \<le> i \<and> i < n \<longrightarrow> i \<in> pid_at h ` set as" "n \<notin> pid_at h ` set as"
      using less by blast
    have "free_pid_loop h as c = Some n" using Some find n(1) by (subst free_pid_loop.simps) simp
    moreover have "\<forall>i. c \<le> i \<and> i < n \<longrightarrow> i \<in> pid_at h ` set as"
      using n(3) a by (metis add1_zle_eq order_le_less)
    ultimately show ?thesis using n(2,4) by (intro exI [of _ n]) auto
  qed
qed

end
