(* ===== verification/ProcRuns.thy ===== *)
theory ProcRuns
  imports ProcInv
begin

text \<open>
  The runs of the process kernel. Threads are suspended between any two instructions at which \<open>SIGPTHD\<close> is not
  blocked, and \<open>k_proc_create\<close> unblocks it before it has entered the new process into the table: it chooses a pid and
  initialises the PCB, and then the three statements of \<open>pcb_vec_push_back\<close> follow one by one. These are separate
  steps here, between which the other threads make theirs. Each of the other calls is one step.

  \<open>free_reach\<close> are the states of all runs, \<open>lone_reach\<close> those of the runs in which creations do not get into each
  other's way; only for the latter the process table is consistent.
\<close>

subsection \<open>A creation step by step\<close>

definition k_proc_choose ::
  "paddr option \<Rightarrow> paddr option \<Rightarrow> int \<Rightarrow> kernel \<Rightarrow> (string + paddr \<times> kernel) option" where
  "k_proc_choose new parent prio k =
    do { newpid \<leftarrow> get_next_free_pid k;
         (r, res, h) \<leftarrow> pcb_init_empty new parent prio newpid (k_heap k);
         if r = -1 then Some (Inl ''pcb_init_empty failed!'')
         else do { a \<leftarrow> res; Some (Inr (a, k\<lparr>k_heap := h, k_masked := False\<rparr>)) } }"

text \<open>The last two statements of \<open>pcb_vec_push_back\<close>; the first one is \<open>pcb_vec_adjust\<close>. A store outside of the array is
  \<^const>\<open>None\<close>.\<close>

definition push_store :: "'a \<Rightarrow> 'a vec \<Rightarrow> 'a vec option" where
  "push_store x v = (if v_length v < length (v_data v) then Some (v\<lparr>v_data := (v_data v)[v_length v := x]\<rparr>) else None)"

definition push_count :: "'a vec \<Rightarrow> 'a vec" where
  "push_count v = v\<lparr>v_length := v_length v + 1\<rparr>"

datatype creation = Chosen paddr | Adjusted paddr | Stored paddr

fun created_pcb :: "creation \<Rightarrow> paddr" where
  "created_pcb (Chosen a) = a"
| "created_pcb (Adjusted a) = a"
| "created_pcb (Stored a) = a"

definition pushing :: "creation \<Rightarrow> bool" where
  "pushing p \<longleftrightarrow> p \<noteq> Chosen (created_pcb p)"

text \<open>The kernel, and how far the creation is that a thread is in.\<close>

type_synonym machine = "kernel \<times> (nat \<Rightarrow> creation option)"

inductive create_step :: "nat \<Rightarrow> machine \<Rightarrow> machine \<Rightarrow> bool" where
  choose: "cr c = None \<Longrightarrow> k_heap k a = None \<Longrightarrow> k_proc_choose (Some a) parent prio k = Some (Inr (b, k')) \<Longrightarrow>
    create_step c (k, cr) (k', cr(c \<mapsto> Chosen b))"
| adjust: "cr c = Some (Chosen a) \<Longrightarrow> pcb_vec_adjust m (k_vec k) = Inr v \<Longrightarrow>
    create_step c (k, cr) (k\<lparr>k_vec := v\<rparr>, cr(c \<mapsto> Adjusted a))"
| store: "cr c = Some (Adjusted a) \<Longrightarrow> push_store a (k_vec k) = Some v \<Longrightarrow>
    create_step c (k, cr) (k\<lparr>k_vec := v\<rparr>, cr(c \<mapsto> Stored a))"
| count: "cr c = Some (Stored a) \<Longrightarrow> create_step c (k, cr) (k\<lparr>k_vec := push_count (k_vec k)\<rparr>, cr(c := None))"

inductive_cases create_stepE: "create_step c (k, cr) s"

lemma push_back_steps:
  "pcb_vec_push_back m x v = Inr w \<Longrightarrow> vec_ok v \<Longrightarrow>
    \<exists>v1 v2. pcb_vec_adjust m v = Inr v1 \<and> push_store x v1 = Some v2 \<and> w = push_count v2"
proof -
  assume a: "pcb_vec_push_back m x v = Inr w" "vec_ok v"
  then obtain v1 where v1: "pcb_vec_adjust m v = Inr v1"
    "w = v1\<lparr>v_data := (v_data v1)[v_length v1 := x], v_length := v_length v1 + 1\<rparr>"
    by (cases "pcb_vec_adjust m v") (auto simp: pcb_vec_push_back_def)
  then have "v_length v1 < length (v_data v1)"
    using adjust_roomier [OF a(2) v1(1)] by (simp add: roomier_def vec_ok_def)
  then have "push_store x v1 = Some (v1\<lparr>v_data := (v_data v1)[v_length v1 := x]\<rparr>)" by (simp add: push_store_def)
  then show ?thesis using v1 by (intro exI conjI) (auto simp: push_count_def)
qed

text \<open>Uninterrupted, the steps are \<open>k_proc_create\<close>.\<close>

lemma create_is_steps:
  assumes "k_proc_create m (Some a) parent prio k = Some (Inr (b, k'))" "vec_ok (k_vec k)"
  obtains k1 v1 v2 where "k_proc_choose (Some a) parent prio k = Some (Inr (b, k1))" "k_vec k1 = k_vec k"
    "pcb_vec_adjust m (k_vec k) = Inr v1" "push_store b v1 = Some v2" "k' = k1\<lparr>k_vec := push_count v2\<rparr>"
proof -
  obtain n r res h where c: "get_next_free_pid k = Some n"
    "pcb_init_empty (Some a) parent prio n (k_heap k) = Some (r, res, h)" "r \<noteq> -1"
    using assms(1) by (auto simp: k_proc_create_def bind_Some split: if_split_asm)
  obtain x where x: "res = Some x" using assms(1) c by (cases res) (auto simp: k_proc_create_def)
  have reg: "x = b \<and> k_register_pcb m (Some x) (k\<lparr>k_heap := h, k_masked := False\<rparr>) = Inr k'"
    using assms(1) c x
    by (cases "k_register_pcb m (Some x) (k\<lparr>k_heap := h, k_masked := False\<rparr>)") (auto simp: k_proc_create_def)
  obtain w where w: "pcb_vec_push_back m b (k_vec k) = Inr w" "k' = k\<lparr>k_heap := h, k_masked := False, k_vec := w\<rparr>"
    using reg by (cases "pcb_vec_push_back m b (k_vec k)") (auto simp: k_register_pcb_def)
  obtain v1 v2 where v: "pcb_vec_adjust m (k_vec k) = Inr v1" "push_store b v1 = Some v2" "w = push_count v2"
    using push_back_steps [OF w(1) assms(2)] by blast
  have "k_proc_choose (Some a) parent prio k = Some (Inr (b, k\<lparr>k_heap := h, k_masked := False\<rparr>))"
    using c x reg by (simp add: k_proc_choose_def)
  from that [OF this _ v(1,2)] show thesis using w(2) v(3) by simp
qed

subsection \<open>The other calls\<close>

text \<open>
  PennOS starts with the init process and the shell. Then the threads of the processes and the scheduler call the
  operations, in any order and with any arguments; an allocation yields an address that is not in use. A call that
  panics or does not return has no successor. The first argument is a PCB that the caller holds and that the call may free.
\<close>

inductive booted :: "kernel \<Rightarrow> bool" where
  boot: "\<lbrakk>start_process m t (Some a) None ''init'' kernel_start = Some (Inr k1);
    start_process m t' (Some b) (Some a) ''shell'' k1 = Some (Inr k2); b \<noteq> a\<rbrakk> \<Longrightarrow> booted k2"

inductive proc_step :: "paddr option \<Rightarrow> kernel \<Rightarrow> kernel \<Rightarrow> bool" where
  run: "k_set_routine_and_run w t p f argv k = Some (Inr (r, k')) \<Longrightarrow> proc_step None k k'"
| clean: "k_proc_cleanup p k = Inr (r, k') \<Longrightarrow> proc_step p k k'"
| wait: "k_waitpid_enter me target nohang k = Some (Inr (w, k')) \<Longrightarrow> proc_step None k k'"
| joined: "k_waitpid_joined s k = Some k' \<Longrightarrow> proc_step None k k'"
| reap: "k_waitpid_reap c want k = Some (Inr (res, k')) \<Longrightarrow> proc_step None k k'"
| kill: "k_kill target sig k = Some (r, k') \<Longrightarrow> proc_step None k k'"
| leave: "k_exit me k = Some k' \<Longrightarrow> proc_step None k k'"
| sleep: "k_sleep_enter me secs k = Some (s, k') \<Longrightarrow> proc_step None k k'"
| wake: "k_sleep_leave s k = Some k' \<Longrightarrow> proc_step None k k'"
| nice: "k_nice target prio k = Some (r, k') \<Longrightarrow> proc_step None k k'"
| slot: "slot_begin i k = Some (Inr (w, k')) \<Longrightarrow> proc_step None k k'"
| tick: "slot_end i a k = Some (Inr k') \<Longrightarrow> proc_step (Some a) k k'"

inductive_cases bootedE: "booted k"

text \<open>All runs. Only its creator knows a PCB that is not in the table yet.\<close>

definition not_in_creation :: "paddr option \<Rightarrow> (nat \<Rightarrow> creation option) \<Rightarrow> bool" where
  "not_in_creation d cr \<longleftrightarrow> (\<forall>c p. cr c = Some p \<longrightarrow> d \<noteq> Some (created_pcb p))"

inductive free_reach :: "machine \<Rightarrow> bool" where
  free_start: "booted k \<Longrightarrow> free_reach (k, Map.empty)"
| free_create: "free_reach s \<Longrightarrow> create_step c s s' \<Longrightarrow> free_reach s'"
| free_call: "free_reach (k, cr) \<Longrightarrow> proc_step d k k' \<Longrightarrow> not_in_creation d cr \<Longrightarrow> free_reach (k', cr)"

text \<open>
  The runs in which a thread begins a creation, and goes on with it, only while no other thread is in one, and in which
  no other call changes the vector during a push. Between the choice of the pid and the push any call may come.
\<close>

inductive lone_reach :: "machine \<Rightarrow> bool" where
  lone_start: "booted k \<Longrightarrow> lone_reach (k, Map.empty)"
| lone_create: "lone_reach (k, cr) \<Longrightarrow> \<forall>d. d \<noteq> c \<longrightarrow> cr d = None \<Longrightarrow> create_step c (k, cr) s' \<Longrightarrow> lone_reach s'"
| lone_call: "lone_reach (k, cr) \<Longrightarrow> proc_step d k k' \<Longrightarrow> not_in_creation d cr \<Longrightarrow>
    \<forall>c p. cr c = Some p \<and> pushing p \<longrightarrow> k_vec k' = k_vec k \<Longrightarrow> lone_reach (k', cr)"

definition proc_reach :: "kernel \<Rightarrow> bool" where
  "proc_reach k \<longleftrightarrow> (\<exists>cr. lone_reach (k, cr))"

definition settled :: "kernel \<Rightarrow> bool" where
  "settled k \<longleftrightarrow> lone_reach (k, Map.empty)"

subsection \<open>What the other calls do to a PCB that is not in the table yet\<close>

text \<open>The calls find only entries of the table; one that is not in it stays, and no entry gets its pid.\<close>

definition spares :: "paddr \<Rightarrow> kernel \<Rightarrow> kernel \<Rightarrow> bool" where
  "spares a k k' \<longleftrightarrow> (k_heap k a \<noteq> None \<and> a \<notin> set (table k) \<longrightarrow>
     k_heap k' a \<noteq> None \<and> pid_at (k_heap k') a = pid_at (k_heap k) a \<and> set (table k') \<subseteq> set (table k) \<and>
     (\<forall>b\<in>set (table k'). pid_at (k_heap k') b = pid_at (k_heap k) b))"

lemma spares_refl [simp]: "spares a k k"
  by (simp add: spares_def)

lemma spares_trans: "spares a k k1 \<Longrightarrow> spares a k1 k2 \<Longrightarrow> spares a k k2"
  unfolding spares_def by (metis in_mono order_trans)

lemma spares_fields [simp]:
  "spares a k (k'\<lparr>k_masked := b\<rparr>) = spares a k k'" "spares a k (tick k') = spares a k k'"
  "spares a k (call_thread cs k') = spares a k k'" "spares a (k\<lparr>k_masked := b\<rparr>) k' = spares a k k'"
  by (simp_all add: spares_def tick_def call_thread_def)

lemma kept_spares:
  assumes "kept k k'" "proc_ok k"
  shows "spares a k k'"
proof -
  have s: "same_ids (k_heap k) (k_heap k')" "table k' = table k" using assms(1) by (simp_all add: kept_def)
  have "\<forall>b\<in>set (table k). k_heap k b \<noteq> None" using assms(2) unfolding proc_ok_def by blast
  then show ?thesis using same_ids_alloc [OF s(1)] by (auto simp: spares_def s(2))
qed

lemma remove_entry_spares:
  assumes ok: "proc_ok k" and r: "pcb_vec_remove_by_pcb b (k_vec k) = Inr (x, v)" and ne: "b \<noteq> a"
  shows "spares a k (k\<lparr>k_vec := v, k_heap := pcb_destroy b (k_heap k)\<rparr>)"
proof -
  have e: "vec_elems v = remove1 b (table k)" by (rule remove_entry_ok(2) [OF ok r])
  have "distinct (table k)" using ok by (simp add: proc_ok_def)
  then have s: "set (vec_elems v) = set (table k) - {b}" by (simp add: e)
  show ?thesis unfolding spares_def using ne by (auto simp: s pid_at_def pcb_destroy_def)
qed

lemma cleanup_spares: "proc_ok k \<Longrightarrow> k_proc_cleanup p k = Inr (r, k') \<Longrightarrow> p \<noteq> Some a \<Longrightarrow> spares a k k'"
  by (auto simp: k_proc_cleanup_def remove_entry_spares split: option.splits sum.splits)

lemma scan_entry_spares:
  assumes ok: "proc_ok k" and s: "scan_entry b k = Some (Inr (r, k'))" and ne: "b \<noteq> a"
  shows "spares a k k'"
proof -
  obtain p where p: "k_heap k b = Some p" using s by (auto simp: scan_entry_def bind_Some)
  show ?thesis
  proof (cases "status p = THRD_REAPED")
    case False
    have "kept k k'"
      using s p False
      by (auto simp: scan_entry_def bind_Some split: if_split_asm dest!: upd_proc_kept enqueue_kept intro: kept_trans)
    then show ?thesis using kept_spares ok by blast
  next
    case True
    then obtain y k1 where d1: "dequeue_pid (priority_level p) (pid p) k = Some (y, k1)"
      "(case pcb_vec_remove_by_pcb b (k_vec k1) of Inl e \<Rightarrow> Inl e
          | Inr (_, v) \<Rightarrow> Inr (True, k1\<lparr>k_vec := v, k_heap := pcb_destroy b (k_heap k1)\<rparr>)) = Inr (r, k')"
      using s p by (auto simp: scan_entry_def bind_Some)
    then obtain x v where d: "pcb_vec_remove_by_pcb b (k_vec k1) = Inr (x, v)"
      "k' = k1\<lparr>k_vec := v, k_heap := pcb_destroy b (k_heap k1)\<rparr>"
      by (cases "pcb_vec_remove_by_pcb b (k_vec k1)") auto
    note k = dequeue_pid_kept [OF d1(1)]
    have "spares a k1 k'" using remove_entry_spares [OF kept_ok [OF k ok] d(1) ne] d(2) by simp
    then show ?thesis using kept_spares [OF k ok] spares_trans by blast
  qed
qed

lemma scan_loop_spares:
  "scan_loop i k = Some r \<Longrightarrow> proc_ok k \<longrightarrow> k_heap k a \<noteq> None \<longrightarrow> a \<notin> set (table k) \<longrightarrow> (\<forall>k'. r = Inr k' \<longrightarrow> spares a k k')"
proof (rule scan_loop.raw_induct [rotated], assumption, goal_cases)
  case (1 f i k r)
  show ?case
  proof (cases "v_length (k_vec k) \<le> i")
    case False
    then obtain e where e: "scan_entry (v_data (k_vec k) ! i) k = Some e"
      "(case e of Inl e \<Rightarrow> Some (Inl e) | Inr (removed, k1) \<Rightarrow> f (if removed then i else Suc i) k1) = Some r"
      using 1(3) by (auto simp: bind_Some)
    show ?thesis
    proof (cases e)
      case (Inr bk)
      obtain b k1 where bk: "bk = (b, k1)" by (cases bk)
      note s = e(1) [unfolded Inr bk]
      have go: "f (if b then i else Suc i) k1 = Some r" using e(2) Inr bk by simp
      show ?thesis
      proof (intro impI allI)
        fix k' assume h: "proc_ok k" "k_heap k a \<noteq> None" "a \<notin> set (table k)" "r = Inr k'"
        have "v_data (k_vec k) ! i \<in> set (table k)"
          using h(1) False nth_mem [of i "table k"] by (simp add: proc_ok_def)
        then have sp: "spares a k k1" using scan_entry_spares [OF h(1) s] h(3) by metis
        then have "k_heap k1 a \<noteq> None" "a \<notin> set (table k1)" using h(2,3) by (auto simp: spares_def)
        then have "spares a k1 k'" using 1(2) [OF go] scan_entry_ok [OF h(1) s] h(4) by blast
        then show "spares a k k'" using sp spares_trans by blast
      qed
    qed (use e in auto)
  qed (use 1 in auto)
qed

lemma scan_table_spares:
  assumes "scan_table k = Some (Inr k')" "proc_ok k"
  shows "spares a k k'"
proof -
  obtain k1 where k1: "scan_loop 0 (k\<lparr>k_masked := True\<rparr>) = Some (Inr k1)" "k' = k1\<lparr>k_masked := False\<rparr>"
    using assms(1) by (cases "scan_loop 0 (k\<lparr>k_masked := True\<rparr>)"; cases "the (scan_loop 0 (k\<lparr>k_masked := True\<rparr>))")
      (auto simp: scan_table_def)
  show ?thesis
  proof (cases "k_heap k a \<noteq> None \<and> a \<notin> set (table k)")
    case True
    then show ?thesis using scan_loop_spares [OF k1(1), of a] assms(2) k1(2) by simp
  next
    case False
    then show ?thesis unfolding spares_def by blast
  qed
qed

lemma slot_begin_spares:
  assumes "slot_begin i k = Some (Inr (w, k'))" "proc_ok k"
  shows "spares a k k'"
proof -
  obtain r where r: "scan_table k = Some r" using assms(1) by (auto simp: slot_begin_def bind_Some)
  then obtain k1 where "r = Inr k1" using assms(1) by (cases r) (auto simp: slot_begin_def)
  with r have k1: "scan_table k = Some (Inr k1)" by simp
  have ok: "proc_ok k1" and sp: "spares a k k1" using scan_table_ok [OF k1 assms(2)] scan_table_spares [OF k1 assms(2)] .
  show ?thesis
  proof (cases "k_done k1 \<or> all_queues_empty k1")
    case True
    then show ?thesis using assms(1) k1 sp by (auto simp: slot_begin_def split: if_split_asm)
  next
    case False
    then obtain run k2 where p: "pick_process (queue_pick_pattern ! i) k1 = Some (run, k2)"
      using assms(1) k1 by (auto simp: slot_begin_def bind_Some)
    have "spares a k k2" using kept_spares [OF pick_process_kept [OF p] ok] sp spares_trans by blast
    then show ?thesis using assms(1) k1 False p by (cases run) (auto simp: slot_begin_def bind_Some)
  qed
qed

lemma slot_end_spares:
  assumes "slot_end i run k = Some (Inr k')" "proc_ok k" "run \<noteq> a"
  shows "spares a k k'"
proof -
  obtain popped k1 where d: "dequeue (int (queue_pick_pattern ! i)) (k\<lparr>k_masked := True\<rparr>) = Some (popped, k1)"
    using assms(1) by (auto simp: slot_end_def bind_Some)
  have k: "kept k k1" using dequeue_kept [OF d] by simp
  have ok: "proc_ok k1" and sp: "spares a k k1" using kept_ok [OF k assms(2)] kept_spares [OF k assms(2)] .
  show ?thesis
  proof (cases "popped = None")
    case True
    then show ?thesis using assms(1) d sp by (simp add: slot_end_def)
  next
    case False
    then obtain p where p: "k_heap k1 run = Some p"
      using assms(1) d by (cases "k_heap k1 run") (auto simp: slot_end_def)
    show ?thesis
    proof (cases "status p = THRD_REAPED")
      case True
      then obtain x v where r: "pcb_vec_remove_by_pcb run (k_vec k1) = Inr (x, v)"
        "k' = k1\<lparr>k_vec := v, k_heap := pcb_destroy run (k_heap k1), k_masked := False\<rparr>"
        using assms(1) d p False by (cases "pcb_vec_remove_by_pcb run (k_vec k1)") (auto simp: slot_end_def)
      have "spares a k1 k'" using remove_entry_spares [OF ok r(1) assms(3)] r(2) by simp
      then show ?thesis using sp spares_trans by blast
    next
      case nr: False
      have "kept k1 k'"
        using assms(1) d p False nr
        by (auto simp: slot_end_def bind_Some split: if_split_asm dest!: upd_proc_kept enqueue_kept intro: kept_trans)
      then show ?thesis using kept_spares [OF _ ok] sp spares_trans by blast
    qed
  qed
qed

subsection \<open>One creation at a time\<close>

text \<open>What the PCB of an unfinished creation is to the table: allocated, not in it, with a pid that no entry has.\<close>

definition outside :: "paddr \<Rightarrow> kernel \<Rightarrow> bool" where
  "outside a k \<longleftrightarrow> k_heap k a \<noteq> None \<and> a \<notin> set (table k) \<and> pid_at (k_heap k) a \<notin> pid_at (k_heap k) ` set (table k)"

fun in_place :: "creation \<Rightarrow> paddr vec \<Rightarrow> bool" where
  "in_place (Chosen a) v \<longleftrightarrow> True"
| "in_place (Adjusted a) v \<longleftrightarrow> v_length v < v_capacity v"
| "in_place (Stored a) v \<longleftrightarrow> v_length v < v_capacity v \<and> v_data v ! v_length v = a"

definition lone_ok :: "machine \<Rightarrow> bool" where
  "lone_ok s \<longleftrightarrow> (case s of (k, cr) \<Rightarrow> proc_ok k \<and> (\<forall>c d. cr c \<noteq> None \<and> cr d \<noteq> None \<longrightarrow> c = d) \<and>
     (\<forall>c p. cr c = Some p \<longrightarrow> outside (created_pcb p) k \<and> in_place p (k_vec k)))"

lemma spares_outside: "spares a k k' \<Longrightarrow> outside a k \<Longrightarrow> outside a k'"
  unfolding spares_def outside_def image_iff by (metis subsetD)

lemma proc_step_ok: "proc_step d k k' \<Longrightarrow> proc_ok k \<Longrightarrow> proc_ok k'"
  by (induction rule: proc_step.induct)
     (auto intro: cleanup_ok slot_begin_ok slot_end_ok
       dest: set_routine_kept waitpid_enter_kept waitpid_joined_kept waitpid_reap_kept kill_kept exit_kept
         sleep_enter_kept sleep_leave_kept nice_kept kept_ok)

lemma proc_step_spares: "proc_step d k k' \<Longrightarrow> proc_ok k \<Longrightarrow> d \<noteq> Some a \<Longrightarrow> spares a k k'"
  by (induction rule: proc_step.induct)
     (auto intro: cleanup_spares slot_begin_spares slot_end_spares
       dest: set_routine_kept waitpid_enter_kept waitpid_joined_kept waitpid_reap_kept kill_kept exit_kept
         sleep_enter_kept sleep_leave_kept nice_kept kept_spares)

lemma choose_ok:
  assumes "k_proc_choose (Some a) parent prio k = Some (Inr (b, k'))" "k_heap k a = None" "proc_ok k"
  shows "proc_ok k'" "b = a" "outside a k'" "k_vec k' = k_vec k"
proof -
  obtain n r res h where c: "get_next_free_pid k = Some n"
    "pcb_init_empty (Some a) parent prio n (k_heap k) = Some (r, res, h)" "r \<noteq> -1" "res = Some b"
    "k' = k\<lparr>k_heap := h, k_masked := False\<rparr>"
    using assms(1) by (auto simp: k_proc_choose_def bind_Some split: if_split_asm)
  note i = init_empty_ids [OF c(2) assms(2) c(3)]
  then obtain q where q: "h a = Some (new_pcb n q prio)" by blast
  show "b = a" using i(1) c(4) by simp
  show v: "k_vec k' = k_vec k" using c(5) by simp
  have al: "\<forall>x\<in>set (table k). k_heap k x \<noteq> None" using assms(3) unfolding proc_ok_def by blast
  have a: "a \<notin> set (table k)" using al assms(2) by auto
  have tab: "h x \<noteq> None \<and> pid_at h x = pid_at (k_heap k) x" if "x \<in> set (table k)" for x
    using same_ids_alloc [OF i(3), of x] that al a by (auto simp: pid_at_def split: if_split_asm)
  then have m: "map (pid_at h) (table k) = map (pid_at (k_heap k)) (table k)" by simp
  have "kids_ok (h(a := None))" using i(3) assms(3) by (simp add: same_ids_def proc_ok_def)
  then have "children_ok x" if "h y = Some x" for x y
    using that q by (cases "y = a") (auto simp: kids_ok_def dest: spec [of _ y])
  then have "kids_ok h" by (simp add: kids_ok_def)
  then show "proc_ok k'" using assms(3) tab unfolding proc_ok_def c(5) by (simp add: m)
  have "\<forall>x\<in>set (table k). pid_at (k_heap k) x \<noteq> n"
    using seek_none [OF free_pid_loop_next [OF c(1) [unfolded get_next_free_pid_def]]] by (auto simp: pid_at_def)
  moreover have "pid_at h a = n" by (simp add: pid_at_def q)
  ultimately show "outside a k'" using a tab q by (auto simp: outside_def c(5))
qed

lemma vec_changed:
  assumes "vec_ok v" "vec_elems v = table k"
  shows "proc_ok k \<Longrightarrow> proc_ok (k\<lparr>k_vec := v\<rparr>)" "outside a (k\<lparr>k_vec := v\<rparr>) = outside a k"
  using assms by (simp_all add: proc_ok_def outside_def)

lemma push_store_elems:
  assumes "push_store x v = Some w" "vec_ok v"
  shows "vec_ok w" "vec_elems w = vec_elems v" "v_length w < v_capacity w" "v_data w ! v_length w = x"
  using assms by (auto simp: push_store_def vec_ok_def vec_elems_def split: if_split_asm)

lemma push_count_elems:
  assumes "vec_ok v" "v_length v < v_capacity v"
  shows "vec_ok (push_count v)" "vec_elems (push_count v) = vec_elems v @ [v_data v ! v_length v]"
  using assms by (auto simp: push_count_def vec_ok_def vec_elems_def take_Suc_conv_app_nth)

lemma counted_ok:
  assumes ok: "proc_ok k" and a: "outside a k" and v: "v_length (k_vec k) < v_capacity (k_vec k)"
    "v_data (k_vec k) ! v_length (k_vec k) = a"
  shows "proc_ok (k\<lparr>k_vec := push_count (k_vec k)\<rparr>)"
proof -
  have vk: "vec_ok (k_vec k)" using ok by (simp add: proc_ok_def)
  note e = push_count_elems [OF vk v(1)]
  show ?thesis using ok a by (simp add: proc_ok_def outside_def e v(2))
qed

lemma create_step_ok:
  assumes s: "create_step c (k, cr) s'" and ok: "lone_ok (k, cr)" and alone: "\<forall>d. d \<noteq> c \<longrightarrow> cr d = None"
  shows "lone_ok s'"
proof -
  have p: "proc_ok k" and v: "vec_ok (k_vec k)" using ok by (simp_all add: lone_ok_def proc_ok_def)
  have mine: "outside (created_pcb x) k \<and> in_place x (k_vec k)" if "cr c = Some x" for x
    using ok that by (simp add: lone_ok_def)
  from s show ?thesis
  proof (elim create_stepE, goal_cases)
    case (1 a parent prio b k')
    note h = choose_ok [OF 1(4,3) p]
    then show ?thesis using 1(1) alone by (auto simp: lone_ok_def split: if_splits)
  next
    case (2 a m w)
    have r: "roomier (k_vec k) w" by (rule adjust_roomier [OF v 2(3)])
    then have w: "vec_ok w" "vec_elems w = table k" by (auto simp: roomier_def roomier_elems)
    then show ?thesis using 2(1) alone mine [OF 2(2)] vec_changed [OF w] p r
      by (auto simp: lone_ok_def roomier_def split: if_splits)
  next
    case (3 a w)
    note w = push_store_elems [OF 3(3) v]
    then show ?thesis using 3(1) alone mine [OF 3(2)] vec_changed [OF w(1,2)] p by (auto simp: lone_ok_def split: if_splits)
  next
    case (4 a)
    have "proc_ok (k\<lparr>k_vec := push_count (k_vec k)\<rparr>)" using counted_ok [OF p, of a] mine [OF 4(2)] by simp
    moreover have "cr(c := None) = Map.empty" using alone by auto
    ultimately show ?thesis using 4(1) by (simp add: lone_ok_def)
  qed
qed

lemma lone_call_ok:
  assumes ok: "lone_ok (k, cr)" and s: "proc_step d k k'" and d: "not_in_creation d cr"
    and v: "\<forall>c p. cr c = Some p \<and> pushing p \<longrightarrow> k_vec k' = k_vec k"
  shows "lone_ok (k', cr)"
proof -
  have p: "proc_ok k" using ok by (simp add: lone_ok_def)
  have "outside (created_pcb x) k' \<and> in_place x (k_vec k')" if c: "cr c = Some x" for c x
  proof
    have o: "outside (created_pcb x) k" "in_place x (k_vec k)" using ok c by (simp_all add: lone_ok_def)
    have "d \<noteq> Some (created_pcb x)" using d c by (simp add: not_in_creation_def)
    then show "outside (created_pcb x) k'" using spares_outside [OF proc_step_spares [OF s p] o(1)] by blast
    show "in_place x (k_vec k')" using o(2) v c by (cases x) (auto simp: pushing_def)
  qed
  then show ?thesis using ok proc_step_ok [OF s p] by (simp add: lone_ok_def)
qed

lemma start_ok: "proc_ok kernel_start"
  by (simp add: proc_ok_def kernel_start_def vec_ok_def vec_elems_def kids_ok_def)

lemma same_ids_dom: "same_ids h h' \<Longrightarrow> h' a = None \<longleftrightarrow> h a = None"
  unfolding same_ids_def by (metis map_option_is_None)

lemma booted_ok: "booted k \<Longrightarrow> proc_ok k"
proof (elim bootedE, goal_cases)
  case (1 m t a k1 t' b)
  have t: "table kernel_start = []" "k_heap kernel_start = Map.empty" by (simp_all add: kernel_start_def vec_elems_def)
  note s = start_process_ok [OF 1(1) _ start_ok, unfolded t, simplified]
  have "k_heap k1 b = None" using same_ids_dom [OF s(4), of b] 1(3) by simp
  moreover have "pid_at (k_heap k1) a \<noteq> k_pid_count k1"
    using same_ids_alloc [OF s(4), of a] s(3) by (simp add: pid_at_def)
  ultimately show ?case using start_process_ok(1) [OF 1(2) _ s(1)] s(2) by simp
qed

lemma lone_reach_ok: "lone_reach s \<Longrightarrow> lone_ok s"
proof (induction rule: lone_reach.induct)
  case (lone_start k)
  then show ?case using booted_ok by (simp add: lone_ok_def)
next
  case (lone_create k cr c s')
  then show ?case using create_step_ok by blast
next
  case (lone_call k cr d k')
  then show ?case using lone_call_ok by blast
qed

lemma proc_reach_ok: "proc_reach k \<Longrightarrow> proc_ok k"
  using lone_reach_ok by (auto simp: proc_reach_def lone_ok_def)

lemma lone_free: "lone_reach s \<Longrightarrow> free_reach s"
  by (induction rule: lone_reach.induct) (auto intro: free_reach.intros)

subsection \<open>Runs in which every call is finished before the next\<close>

text \<open>A push that is not interrupted.\<close>

lemma free_pushed:
  assumes "free_reach (k, cr)" "cr c = Some (Chosen a)" "pcb_vec_push_back m a (k_vec k) = Inr w" "vec_ok (k_vec k)"
  shows "free_reach (k\<lparr>k_vec := w\<rparr>, cr(c := None))"
proof -
  obtain v1 v2 where v: "pcb_vec_adjust m (k_vec k) = Inr v1" "push_store a v1 = Some v2" "w = push_count v2"
    using push_back_steps [OF assms(3,4)] by blast
  have 1: "free_reach (k\<lparr>k_vec := v1\<rparr>, cr(c \<mapsto> Adjusted a))"
    by (rule free_create [OF assms(1) adjust [of cr c a m k v1, OF assms(2) v(1)]])
  have 2: "free_reach (k\<lparr>k_vec := v2\<rparr>, cr(c \<mapsto> Stored a))"
    using free_create [OF 1 store [of "cr(c \<mapsto> Adjusted a)" c a "k\<lparr>k_vec := v1\<rparr>" v2]] v(2) by simp
  show ?thesis using free_create [OF 2 count [of "cr(c \<mapsto> Stored a)" c a]] v(3) by simp
qed

lemma settled_reach: "settled k \<Longrightarrow> proc_reach k"
  by (auto simp: settled_def proc_reach_def)

lemma settled_start: "booted k \<Longrightarrow> settled k"
  unfolding settled_def by (rule lone_start)

lemma settled_call: "settled k \<Longrightarrow> proc_step d k k' \<Longrightarrow> settled k'"
  unfolding settled_def by (rule lone_call) (simp_all add: not_in_creation_def)

lemma settled_create:
  assumes "settled k" "k_proc_create m (Some a) parent prio k = Some (Inr (b, k'))" "k_heap k a = None"
  shows "settled k'"
proof -
  have "vec_ok (k_vec k)" using proc_reach_ok [OF settled_reach [OF assms(1)]] by (simp add: proc_ok_def)
  from create_is_steps [OF assms(2) this] obtain k1 v1 v2 where
    s: "k_proc_choose (Some a) parent prio k = Some (Inr (b, k1))" "k_vec k1 = k_vec k"
      "pcb_vec_adjust m (k_vec k) = Inr v1" "push_store b v1 = Some v2" "k' = k1\<lparr>k_vec := push_count v2\<rparr>" by blast
  have 1: "lone_reach (k1, [0 \<mapsto> Chosen b])"
    using lone_create [of k Map.empty 0] choose [OF _ assms(3) s(1), of Map.empty 0] assms(1) by (simp add: settled_def)
  have 2: "lone_reach (k1\<lparr>k_vec := v1\<rparr>, [0 \<mapsto> Adjusted b])"
    using lone_create [OF 1, of 0] adjust [of "[0 \<mapsto> Chosen b]" 0 b m k1 v1] s(2,3) by simp
  have 3: "lone_reach (k1\<lparr>k_vec := v2\<rparr>, [0 \<mapsto> Stored b])"
    using lone_create [OF 2, of 0] store [of "[0 \<mapsto> Adjusted b]" 0 b "k1\<lparr>k_vec := v1\<rparr>" v2] s(4) by simp
  have "lone_reach (k1\<lparr>k_vec := push_count v2\<rparr>, Map.empty)"
    using lone_create [OF 3, of 0] count [of "[0 \<mapsto> Stored b]" 0 b "k1\<lparr>k_vec := v2\<rparr>"] by simp
  then show ?thesis using s(5) by (simp add: settled_def)
qed

end
