(* ===== verification/ProcFun.thy ===== *)
theory ProcFun
  imports ProcRuns
begin

text \<open>
  What the calls return and change, on a process table that satisfies the invariant: searches find the
  process, a process that ends hands its children to the init process, and the scheduler's walk over a
  queue yields the first runnable process.
\<close>

subsection \<open>Finding a process\<close>

lemma pid_only:
  assumes "proc_ok k" "a \<in> set (table k)" "k_heap k a = Some p" "b \<in> set (table k)" "pid (the (k_heap k b)) = pid p"
  shows "b = a"
proof -
  have inj: "inj_on (pid_at (k_heap k)) (set (table k))" using assms(1) by (simp add: proc_ok_def distinct_map)
  show ?thesis using inj_onD [OF inj _ assms(4,2)] assms(3,5) by (simp add: pid_at_def)
qed

lemma find_pid:
  assumes "proc_ok k" "a \<in> set (table k)" "k_heap k a = Some p" "P p" "\<And>q. P q \<Longrightarrow> pid q = pid p"
    "\<forall>b\<in>set as. b \<in> set (table k)"
  shows "List.find (\<lambda>b. P (the (k_heap k b))) as = (if a \<in> set as then Some a else None)"
proof (cases "List.find (\<lambda>b. P (the (k_heap k b))) as")
  case None
  then show ?thesis using assms(3,4) by (auto simp: find_None_iff)
next
  case (Some b)
  then have b: "b \<in> set as" "P (the (k_heap k b))" by (auto simp: find_Some_iff)
  then have "b = a" using pid_only [OF assms(1-3)] assms(5,6) by blast
  then show ?thesis using Some b(1) by simp
qed

lemma seek_pid:
  assumes "proc_ok k" "a \<in> set (table k)" "k_heap k a = Some p"
  shows "pcb_vec_seek_pcb_by_pid (k_heap k) (k_vec k) (pid p) = Some (Some a)"
  using find_pid [OF assms, of "\<lambda>q. pid q = pid p" "table k"] assms(1,2) seek_alloc [of "table k" "k_heap k"]
  by (simp add: pcb_vec_seek_pcb_by_pid_def proc_ok_def)

lemma seek_no_pid:
  assumes "proc_ok k" "t \<notin> pid_at (k_heap k) ` set (table k)"
  shows "pcb_vec_seek_pcb_by_pid (k_heap k) (k_vec k) t = Some None"
proof -
  have "List.find (\<lambda>x. pid (the (k_heap k x)) = t) (table k) = None"
    using assms(2) by (auto simp: find_None_iff pid_at_def)
  then show ?thesis
    using assms(1) seek_alloc [of "table k" "k_heap k"] by (simp add: pcb_vec_seek_pcb_by_pid_def proc_ok_def)
qed

lemma seek_child:
  assumes "proc_ok k" "c \<in> set (table k)" "k_heap k c = Some pc" "ppid pc = i"
  shows "seek_pcb (\<lambda>p. ppid p = i \<and> pid p = pid pc) (k_heap k) (table k) = Some (Some c)"
  using find_pid [OF assms(1-3), of "\<lambda>p. ppid p = i \<and> pid p = pid pc" "table k"] assms
    seek_alloc [of "table k" "k_heap k"] by (simp add: proc_ok_def)

subsection \<open>Leaving the children to init\<close>

text \<open>\<open>adopted\<close>: the table's processes with a pid of \<open>S\<close> become children of the init process.\<close>

definition adopted :: "paddr list \<Rightarrow> int set \<Rightarrow> heap \<Rightarrow> heap" where
  "adopted as S h = (\<lambda>b. map_option (\<lambda>x. if b \<in> set as \<and> pid x \<in> S then x\<lparr>ppid := 1\<rparr> else x) (h b))"

lemma adopted_simps [simp]: "adopted as {} h = h"
  "map_option pid (adopted as S h b) = map_option pid (h b)"
proof -
  show "adopted as {} h = h" by (simp add: adopted_def option.map_ident)
  show "map_option pid (adopted as S h b) = map_option pid (h b)" by (cases "h b") (auto simp: adopted_def)
qed

definition with_kids :: "paddr \<Rightarrow> int list \<Rightarrow> heap \<Rightarrow> heap" where
  "with_kids s cs h = (\<lambda>b. if b = s then map_option (\<lambda>x. x\<lparr>child_pids := cs\<rparr>) (h b) else h b)"

lemma with_kids_pid [simp]: "map_option pid (with_kids s cs h b) = map_option pid (h b)"
  by (cases "h b") (auto simp: with_kids_def)

lemma same_pids:
  assumes "\<forall>b. map_option pid (h' b) = map_option pid (h b)" "\<forall>a\<in>set as. h a \<noteq> None"
  shows "\<forall>a\<in>set as. h' a \<noteq> None" "map (pid_at h') as = map (pid_at h) as"
proof -
  have e: "h' a \<noteq> None \<and> pid_at h' a = pid_at h a" if "a \<in> set as" for a
  proof -
    obtain x where x: "h a = Some x" using assms(2) \<open>a \<in> set as\<close> by blast
    have "map_option pid (h' a) = Some (pid x)" using assms(1) x by simp
    then show ?thesis using x by (auto simp: pid_at_def)
  qed
  show "\<forall>a\<in>set as. h' a \<noteq> None" using e by blast
  show "map (pid_at h') as = map (pid_at h) as" using e by simp
qed

lemma adopted_adopted: "adopted as S (adopted as T h) = adopted as (S \<union> T) h"
proof
  fix b
  show "adopted as S (adopted as T h) b = adopted as (S \<union> T) h b" by (cases "h b") (auto simp: adopted_def)
qed

lemma with_kids_absorb: "with_kids s cs (adopted as S (with_kids s ds h)) = with_kids s cs (adopted as S h)"
proof
  fix b
  show "with_kids s cs (adopted as S (with_kids s ds h)) b = with_kids s cs (adopted as S h) b"
    by (cases "h b") (auto simp: with_kids_def adopted_def)
qed

lemma adopt_one:
  assumes "\<forall>a\<in>set (vec_elems v). h a \<noteq> None" "distinct (map (pid_at h) (vec_elems v))"
  shows "\<exists>c. pcb_vec_seek_pcb_by_pid h v t = Some c \<and>
    (case c of None \<Rightarrow> Some h | Some a \<Rightarrow> upd_pcb a (\<lambda>p. p\<lparr>ppid := 1\<rparr>) h) = Some (adopted (vec_elems v) {t} h)"
proof (cases "List.find (\<lambda>a. pid (the (h a)) = t) (vec_elems v)")
  case None
  then have "adopted (vec_elems v) {t} h b = h b" for b
    by (cases "h b") (force simp: adopted_def find_None_iff)+
  then have "adopted (vec_elems v) {t} h = h" by blast
  then show ?thesis
    using seek_alloc [OF assms(1)] None by (simp add: pcb_vec_seek_pcb_by_pid_def)
next
  case (Some a)
  then have a: "a \<in> set (vec_elems v)" "pid (the (h a)) = t" by (auto simp: find_Some_iff)
  then obtain p where p: "h a = Some p" using assms(1) by blast
  have inj: "inj_on (pid_at h) (set (vec_elems v))" using assms(2) by (simp add: distinct_map)
  have only: "b = a" if "b \<in> set (vec_elems v)" "h b = Some x" "pid x = t" for b x
    using inj_onD [OF inj _ that(1) a(1)] that a(2) by (simp add: pid_at_def)
  have "adopted (vec_elems v) {t} h b = (h(a \<mapsto> p\<lparr>ppid := 1\<rparr>)) b" for b
  proof (cases "b = a")
    case True
    then show ?thesis using a p by (simp add: adopted_def)
  next
    case False
    then show ?thesis using only [of b] by (cases "h b") (auto simp: adopted_def)
  qed
  then have "adopted (vec_elems v) {t} h = h(a \<mapsto> p\<lparr>ppid := 1\<rparr>)" by blast
  then show ?thesis
    using seek_alloc [OF assms(1)] Some p by (simp add: pcb_vec_seek_pcb_by_pid_def)
qed

lemma disconnect_loop_eq:
  assumes "\<forall>a\<in>set (vec_elems v). h a \<noteq> None" "distinct (map (pid_at h) (vec_elems v))"
    "h s = Some p" "i + n \<le> length (child_pids p)"
  shows "\<exists>cs. length cs = length (child_pids p) \<and>
    disconnect_loop v s n i h = Some (with_kids s cs (adopted (vec_elems v) (set (take n (drop i (child_pids p)))) h))"
  using assms
proof (induction n arbitrary: i h p)
  case 0
  have "with_kids s (child_pids p) h b = h b" for b using 0(3) by (simp add: with_kids_def)
  then have "with_kids s (child_pids p) h = h" by blast
  then show ?case by (intro exI [of _ "child_pids p"]) simp
next
  case (Suc n)
  let ?as = "vec_elems v" and ?C = "child_pids p"
  let ?t = "?C ! i"
  let ?h1 = "adopted ?as {?t} h"
  let ?h2 = "with_kids s (?C[i := -1]) ?h1"
  obtain c where c: "pcb_vec_seek_pcb_by_pid h v ?t = Some c"
    "(case c of None \<Rightarrow> Some h | Some a \<Rightarrow> upd_pcb a (\<lambda>p. p\<lparr>ppid := 1\<rparr>) h) = Some ?h1"
    using adopt_one [OF Suc.prems(1,2)] by blast
  obtain p1 where p1: "?h1 s = Some p1" "child_pids p1 = ?C" using Suc.prems(3) by (auto simp: adopted_def)
  have "(?h1(s \<mapsto> p1\<lparr>child_pids := ?C[i := -1]\<rparr>)) b = ?h2 b" for b using p1 by (simp add: with_kids_def)
  then have u: "upd_pcb s (\<lambda>p. p\<lparr>child_pids := (child_pids p)[i := -1]\<rparr>) ?h1 = Some ?h2"
    using p1 by (auto simp: upd_pcb_Some)
  have alloc: "\<forall>a\<in>set ?as. ?h2 a \<noteq> None"
    by (rule same_pids(1) [OF _ Suc.prems(1)]) simp
  have m: "map (pid_at ?h2) ?as = map (pid_at h) ?as"
    by (rule same_pids(2) [OF _ Suc.prems(1)]) simp
  have dist: "distinct (map (pid_at ?h2) ?as)" unfolding m by (rule Suc.prems(2))
  have p2: "?h2 s = Some (p1\<lparr>child_pids := ?C[i := -1]\<rparr>)" using p1 by (simp add: with_kids_def)
  obtain cs where cs: "length cs = length ?C"
    "disconnect_loop v s n (Suc i) ?h2 = Some (with_kids s cs (adopted ?as (set (take n (drop (Suc i) ?C))) ?h2))"
    using Suc.IH [OF alloc dist p2, of "Suc i"] Suc.prems(4) by auto
  have i: "take (Suc n) (drop i ?C) = ?t # take n (drop (Suc i) ?C)"
    using Suc.prems(4) by (simp add: Cons_nth_drop_Suc [symmetric])
  have "disconnect_loop v s (Suc n) i h = disconnect_loop v s n (Suc i) ?h2"
    using Suc.prems(3) c u by simp
  then show ?case
    using cs by (auto simp: i with_kids_absorb adopted_adopted)
qed

lemma disconnect_eq:
  assumes ok: "proc_ok k" and s: "k_heap k s = Some p"
  shows "\<exists>cs. pcb_disconnect_child (k_vec k) s (k_heap k) =
    Some ((adopted (table k) (set (children p)) (k_heap k))
      (s \<mapsto> (the (adopted (table k) (set (children p)) (k_heap k) s))\<lparr>child_pids := cs, num_child_pids := 0\<rparr>))"
proof -
  have "children_ok p" using ok s by (auto simp: proc_ok_def kids_ok_def)
  then have len: "0 + num_child_pids p \<le> length (child_pids p)" by (simp add: children_ok_def)
  let ?h = "adopted (table k) (set (children p)) (k_heap k)"
  obtain cs where "disconnect_loop (k_vec k) s (num_child_pids p) 0 (k_heap k) = Some (with_kids s cs ?h)"
    using disconnect_loop_eq [where v = "k_vec k" and h = "k_heap k" and i = 0, OF _ _ s len] ok by (auto simp: proc_ok_def children_def)
  moreover obtain x where x: "?h s = Some x" using s by (auto simp: adopted_def)
  moreover have "(with_kids s cs ?h)(s \<mapsto> x\<lparr>child_pids := cs, num_child_pids := 0\<rparr>) = ?h(s \<mapsto> x\<lparr>child_pids := cs, num_child_pids := 0\<rparr>)"
    by (auto simp: with_kids_def)
  ultimately show ?thesis
    using s by (intro exI [of _ cs]) (simp add: pcb_disconnect_child_def with_kids_def)
qed

text \<open>The table's entry of a PCB that has been updated.\<close>

lemma upd_proc_Some: "k_heap k a = Some p \<Longrightarrow> upd_proc a f k = Some (k\<lparr>k_heap := (k_heap k)(a \<mapsto> f p)\<rparr>)"
  by (simp add: upd_proc_def)

lemma ended:
  assumes ok: "proc_ok k" and a: "k_heap k a = Some p" and q: "pid q = pid p" "children q = children p" "children_ok q"
  shows "\<exists>h p'. pcb_disconnect_child (k_vec k) a ((k_heap k)(a \<mapsto> q)) = Some h \<and> h a = Some p' \<and>
    children p' = [] \<and> status p' = status q \<and> exit_code p' = exit_code q \<and> term_signal p' = term_signal q \<and>
    pid p' = pid q \<and>
    (\<forall>b x. b \<noteq> a \<and> k_heap k b = Some x \<longrightarrow>
      h b = Some (if b \<in> set (table k) \<and> pid x \<in> set (children p) then x\<lparr>ppid := 1\<rparr> else x)) \<and>
    (\<forall>b. k_heap k b = None \<longrightarrow> h b = None)"
proof -
  let ?k = "k\<lparr>k_heap := (k_heap k)(a \<mapsto> q)\<rparr>"
  have "kept k ?k"
    using a q by (auto simp: kept_def same_ids_def kids_ok_def)
  then have ok1: "proc_ok ?k" using kept_ok ok by blast
  then obtain cs where "pcb_disconnect_child (k_vec ?k) a (k_heap ?k) =
    Some ((adopted (table ?k) (set (children q)) (k_heap ?k))
      (a \<mapsto> (the (adopted (table ?k) (set (children q)) (k_heap ?k) a))\<lparr>child_pids := cs, num_child_pids := 0\<rparr>))"
    using disconnect_eq [OF ok1, of a q] by auto
  then show ?thesis
    using a q(2) by (auto simp: adopted_def children_def)
qed

lemma kill_term:
  assumes "proc_ok k" "a \<in> set (table k)" "k_heap k a = Some p" "status p \<noteq> THRD_ZOMBIE"
  shows "\<exists>k' p'. k_kill (pid p) P_SIGTERM k = Some (0, k') \<and> k_heap k' a = Some p' \<and> pid p' = pid p \<and>
    status p' = THRD_ZOMBIE \<and> term_signal p' = P_SIGTERM \<and> children p' = [] \<and> table k' = table k \<and>
    k_trace k' = k_trace k @ [Cancel (thrd p), Continue (thrd p), Suspend (thrd p)] \<and>
    (\<forall>b x. b \<noteq> a \<and> k_heap k b = Some x \<longrightarrow>
      k_heap k' b = Some (if b \<in> set (table k) \<and> pid x \<in> set (children p) then x\<lparr>ppid := 1\<rparr> else x)) \<and>
    (\<forall>b. k_heap k b = None \<longrightarrow> k_heap k' b = None)"
proof -
  let ?q = "p\<lparr>status := THRD_ZOMBIE, term_signal := P_SIGTERM, exit_code := 1\<rparr>"
  have "children_ok p" using assms(1,3) by (auto simp: proc_ok_def kids_ok_def)
  then have "children_ok ?q" "children ?q = children p" by (simp_all add: children_ok_def children_def)
  then show ?thesis
    using ended [OF assms(1,3), of ?q] seek_pid [OF assms(1-3)] assms(3,4)
    by (auto simp: k_kill_def upd_proc_Some call_thread_def P_SIGSTOP_def P_SIGCONT_def P_SIGTERM_def)
qed

subsection \<open>The queues of the kernel\<close>

lemma queue_at_set [simp]:
  "queue_at i k = Some q \<Longrightarrow> queue_at i (set_queue i h q' k) = Some q'"
  "k_heap (set_queue i h q' k) = h" "k_vec (set_queue i h q' k) = k_vec k"
  "k_clock (set_queue i h q' k) = k_clock k" "k_trace (set_queue i h q' k) = k_trace k"
  by (auto simp: queue_at_def set_queue_def split: if_split_asm)

lemma queue_at_fields [simp]:
  "queue_at i (k\<lparr>k_masked := b\<rparr>) = queue_at i k" "queue_at i (call_thread cs k) = queue_at i k"
  "queue_at i (tick k) = queue_at i k" "queue_at i (k\<lparr>k_heap := h\<rparr>) = queue_at i k"
  "k_heap (call_thread cs k) = k_heap k" "k_heap (tick k) = k_heap k"
  "k_trace (call_thread cs k) = k_trace k @ cs" "k_trace (tick k) = k_trace k"
  "k_vec (call_thread cs k) = k_vec k" "k_vec (tick k) = k_vec k"
  by (simp_all add: queue_at_def call_thread_def tick_def)

lemma enqueue_list:
  assumes "queue_at i k = Some q" "queue_list (k_heap k) q as" "a \<notin> set as" "unlinked (k_heap k) a"
  shows "\<exists>k' q'. enqueue i a k = Some k' \<and> queue_at i k' = Some q' \<and> queue_list (k_heap k') q' (as @ [a]) \<and>
    same_pcbs (k_heap k) (k_heap k') \<and> k_vec k' = k_vec k \<and> k_clock k' = k_clock k \<and> k_trace k' = k_trace k \<and>
    \<not> k_masked k' \<and> unlinked (k_heap k') a"
  using push_list [OF assms(2-4)] assms(1) by (auto simp: enqueue_def)

lemma dequeue_list:
  assumes "queue_at i k = Some q" "queue_list (k_heap k) q (a # as)"
  shows "\<exists>k' q'. dequeue i k = Some (Some a, k') \<and> queue_at i k' = Some q' \<and> queue_list (k_heap k') q' as \<and>
    same_pcbs (k_heap k) (k_heap k') \<and> k_vec k' = k_vec k \<and> k_clock k' = k_clock k \<and> k_trace k' = k_trace k \<and>
    unlinked (k_heap k') a"
  using pop_list [OF assms(2)] assms(1) by (auto simp: dequeue_def)

lemma dequeue_front:
  assumes "queue_at i k = Some q" "queue_list (k_heap k) q (a # as)" "k_heap k a = Some p"
  shows "\<exists>k' q'. dequeue_pid i (pid p) k = Some (Some a, k') \<and> queue_at i k' = Some q' \<and> queue_list (k_heap k') q' as \<and>
    same_pcbs (k_heap k) (k_heap k') \<and> k_vec k' = k_vec k \<and> k_clock k' = k_clock k \<and> k_trace k' = k_trace k"
proof -
  have "with_pid (k_heap k) (pid p) (a # as) = Some a" using assms(3) by (simp add: with_pid_def)
  then show ?thesis using pop_by_pid_list [OF assms(2), of "pid p"] assms(1) by (auto simp: dequeue_pid_def)
qed

definition runnable :: "heap \<Rightarrow> paddr \<Rightarrow> bool" where
  "runnable h a \<longleftrightarrow> status (the (h a)) = THRD_RUNNING"

lemma same_runnable: "same_pcbs h h' \<Longrightarrow> h a \<noteq> None \<Longrightarrow> runnable h' a = runnable h a"
  unfolding runnable_def by (fastforce dest: same_pcbs_SomeD)

lemma pick_loop_list:
  assumes "queue_at (int i) k = Some q" "queue_list (k_heap k) q as"
  shows "\<exists>k' q'. pick_loop i (q_head_ptr q) k = Some (List.find (runnable (k_heap k)) as, k') \<and>
    queue_at (int i) k' = Some q' \<and> queue_list (k_heap k') q' (dropWhile (\<lambda>a. \<not> runnable (k_heap k) a) as) \<and>
    same_pcbs (k_heap k) (k_heap k') \<and> k_vec k' = k_vec k \<and> k_clock k' = k_clock k \<and> k_trace k' = k_trace k"
  using assms
proof (induction as arbitrary: k q)
  case Nil
  then show ?case by (subst pick_loop.simps) (auto simp: queue_list_def)
next
  case (Cons a as)
  obtain p where p: "k_heap k a = Some p" "q_head_ptr q = Some a" using Cons.prems(2) by (auto simp: queue_list_def)
  show ?case
  proof (cases "runnable (k_heap k) a")
    case True
    then show ?thesis
      using Cons.prems p by (subst pick_loop.simps) (auto simp: runnable_def)
  next
    case False
    obtain k1 q1 where d: "dequeue_pid (int i) (pid p) k = Some (Some a, k1)" "queue_at (int i) k1 = Some q1"
      "queue_list (k_heap k1) q1 as" "same_pcbs (k_heap k) (k_heap k1)" "k_vec k1 = k_vec k"
      "k_clock k1 = k_clock k" "k_trace k1 = k_trace k"
      using dequeue_front [OF Cons.prems p(1)] by blast
    have alloc: "k_heap k b \<noteq> None" if "b \<in> set as" for b
      using Cons.prems(2) that linked_alloc [of "k_heap k" "q_head_ptr q" "a # as" b] by (auto simp: queue_list_def)
    have run: "runnable (k_heap k1) b = runnable (k_heap k) b" if "b \<in> set as" for b
      using same_runnable [OF d(4)] alloc that by blast
    then have same: "List.find (runnable (k_heap k1)) as = List.find (runnable (k_heap k)) as"
      "dropWhile (\<lambda>a. \<not> runnable (k_heap k1) a) as = dropWhile (\<lambda>a. \<not> runnable (k_heap k) a) as"
      by (auto intro: find_cong dropWhile_cong)
    have "linked_pcbs (k_heap k) (next_pcb_ptr p) as" using Cons.prems(2) p by (auto simp: queue_list_def)
    moreover have "linked_pcbs (k_heap k1) (q_head_ptr q1) as" using d(3) by (simp add: queue_list_def)
    ultimately have next_eq: "next_pcb_ptr p = q_head_ptr q1" by (cases as) auto
    have step: "pick_loop i (q_head_ptr q) k = pick_loop i (q_head_ptr q1) k1"
      using p d(1) False next_eq by (subst pick_loop.simps) (simp add: runnable_def)
    have skip: "List.find (runnable (k_heap k)) (a # as) = List.find (runnable (k_heap k)) as"
      "dropWhile (\<lambda>a. \<not> runnable (k_heap k) a) (a # as) = dropWhile (\<lambda>a. \<not> runnable (k_heap k) a) as"
      using False by simp_all
    obtain k2 q2 where "pick_loop i (q_head_ptr q1) k1 = Some (List.find (runnable (k_heap k)) as, k2)"
      "queue_at (int i) k2 = Some q2" "queue_list (k_heap k2) q2 (dropWhile (\<lambda>a. \<not> runnable (k_heap k) a) as)"
      "same_pcbs (k_heap k1) (k_heap k2)" "k_vec k2 = k_vec k1" "k_clock k2 = k_clock k1" "k_trace k2 = k_trace k1"
      using Cons.IH [OF d(2,3)] unfolding same by blast
    then show ?thesis
      unfolding step skip using d(4-7) same_pcbs_trans by (intro exI [of _ k2] exI [of _ q2]) auto
  qed
qed

subsection \<open>The scan of a reaped process\<close>

lemma pid_gone:
  assumes "proc_ok k" "a \<in> set (table k)" "k_heap k a = Some p" "same_pcbs (k_heap k) h"
  shows "pid p \<notin> pid_at (pcb_destroy a h) ` set (remove1 a (table k))"
proof
  assume "pid p \<in> pid_at (pcb_destroy a h) ` set (remove1 a (table k))"
  then obtain b where b: "b \<in> set (remove1 a (table k))" "pid (the (pcb_destroy a h b)) = pid p"
    by (auto simp: pid_at_def)
  have ne: "b \<noteq> a" using b(1) assms(1) by (auto simp: proc_ok_def)
  have t: "b \<in> set (table k)" using b(1) set_remove1_subset by fast
  have "pid (the (k_heap k b)) = pid (the (h b))"
    using same_ids_alloc [OF same_pcbs_ids [OF assms(4)], of b] assms(1) t by (auto simp: proc_ok_def pid_at_def)
  then show False using pid_only [OF assms(1-3) t] b(2) ne by (simp add: pcb_destroy_def)
qed

subsection \<open>Creating, signalling and waiting for a process\<close>

lemma create_process:
  assumes "proc_reach k" "k_heap k a = None" "k_heap k q = Some pq" "\<forall>n. m_ok m n"
  shows "\<exists>i. 3 \<le> i \<and> (\<forall>j. 3 \<le> j \<and> j < i \<longrightarrow> j \<in> pid_at (k_heap k) ` set (table k)) \<and>
    i \<notin> pid_at (k_heap k) ` set (table k) \<and>
    (if num_child_pids pq = NUM_CHILDREN_MAX then
      k_proc_create m (Some a) (Some q) prio k = Some (Inl ''pcb_init_empty failed!'')
     else \<exists>k' pq'. k_proc_create m (Some a) (Some q) prio k = Some (Inr (a, k')) \<and>
      table k' = table k @ [a] \<and> k_queues k' = k_queues k \<and>
      k_heap k' = (k_heap k)(q \<mapsto> pq', a \<mapsto> new_pcb i (pid pq) prio) \<and>
      children pq' = children pq @ [i] \<and> pid pq' = pid pq \<and> status pq' = status pq \<and> next_pcb_ptr pq' = next_pcb_ptr pq)"
proof -
  have ok: "proc_ok k" using proc_reach_ok assms(1) by blast
  then obtain i where i: "get_next_free_pid k = Some i" "3 \<le> i"
    "\<forall>j. 3 \<le> j \<and> j < i \<longrightarrow> j \<in> pid_at (k_heap k) ` set (table k)" "i \<notin> pid_at (k_heap k) ` set (table k)"
    using free_pid_loop_total [of "table k" "k_heap k" 3] by (auto simp: get_next_free_pid_def proc_ok_def)
  have kids: "children_ok pq" using ok assms(3) by (auto simp: proc_ok_def kids_ok_def)
  have "if num_child_pids pq = NUM_CHILDREN_MAX then
      k_proc_create m (Some a) (Some q) prio k = Some (Inl ''pcb_init_empty failed!'')
     else \<exists>k' pq'. k_proc_create m (Some a) (Some q) prio k = Some (Inr (a, k')) \<and>
      table k' = table k @ [a] \<and> k_queues k' = k_queues k \<and>
      k_heap k' = (k_heap k)(q \<mapsto> pq', a \<mapsto> new_pcb i (pid pq) prio) \<and>
      children pq' = children pq @ [i] \<and> pid pq' = pid pq \<and> status pq' = status pq \<and> next_pcb_ptr pq' = next_pcb_ptr pq"
  proof (cases "num_child_pids pq = NUM_CHILDREN_MAX")
    case True
    then show ?thesis
      using i(1) assms(3) by (simp add: k_proc_create_def pcb_init_empty_def pcb_add_child_pid_def)
  next
    case False
    let ?pq = "snd (pcb_add_child_pid i pq)"
    have less: "num_child_pids pq < NUM_CHILDREN_MAX" using kids False by (simp add: children_ok_def)
    let ?h = "(k_heap k)(q \<mapsto> ?pq, a \<mapsto> new_pcb i (pid pq) prio)"
    have init: "pcb_init_empty (Some a) (Some q) prio i (k_heap k) = Some (0, Some a, ?h)"
      using assms(3) False by (simp add: pcb_init_empty_def pcb_add_child_pid_def)
    obtain v where v: "pcb_vec_push_back m a (k_vec k) = Inr v" "vec_elems v = table k @ [a]"
      using pcb_vec.push_total [of "k_vec k" m a] pcb_vec.push_adds [of "k_vec k" m a] ok assms(4)
      by (auto simp: proc_ok_def)
    have "pid ?pq = pid pq \<and> status ?pq = status pq \<and> next_pcb_ptr ?pq = next_pcb_ptr pq" by (simp add: pcb_add_child_pid_def)
    then show ?thesis
      using i(1) init v False add_child(2) [OF kids less]
      by (auto simp: k_proc_create_def k_register_pcb_def)
  qed
  then show ?thesis using i(2-4) by blast
qed

text \<open>The status that a signal leaves.\<close>

definition signal_effect :: "int \<Rightarrow> thrd_status_t \<Rightarrow> thrd_status_t" where
  "signal_effect sig s =
    (if sig = P_SIGSTOP \<and> s = THRD_RUNNING then THRD_STOPPED
     else if sig = P_SIGCONT \<and> s = THRD_STOPPED then THRD_RUNNING
     else if sig = P_SIGTERM then THRD_ZOMBIE
     else s)"

lemma kill_signal:
  assumes "proc_reach k" "a \<in> set (table k)" "k_heap k a = Some p"
  shows "\<exists>k' p'. k_kill (pid p) sig k = Some (0, k') \<and> table k' = table k \<and>
    k_heap k' a = Some p' \<and> pid p' = pid p \<and> status p' = signal_effect sig (status p) \<and>
    (\<forall>b. b \<noteq> a \<longrightarrow> map_option status (k_heap k' b) = map_option status (k_heap k b))"
proof -
  have ok: "proc_ok k" using proc_reach_ok assms(1) by blast
  note eqs = k_kill_def seek_pid [OF ok assms(2,3)] assms(3) upd_proc_Some call_thread_def signal_effect_def
    P_SIGSTOP_def P_SIGCONT_def P_SIGTERM_def
  consider "sig = P_SIGTERM" "status p \<noteq> THRD_ZOMBIE"
    | "sig \<noteq> P_SIGTERM \<or> status p = THRD_ZOMBIE" by blast
  then show ?thesis
  proof cases
    case 1
    obtain k' p' where k': "k_kill (pid p) P_SIGTERM k = Some (0, k')" "k_heap k' a = Some p'" "pid p' = pid p"
      "status p' = THRD_ZOMBIE" "table k' = table k"
      and rest: "\<forall>b x. b \<noteq> a \<and> k_heap k b = Some x \<longrightarrow>
        k_heap k' b = Some (if b \<in> set (table k) \<and> pid x \<in> set (children p) then x\<lparr>ppid := 1\<rparr> else x)"
        "\<forall>b. k_heap k b = None \<longrightarrow> k_heap k' b = None"
      using kill_term [OF ok assms(2,3) 1(2)] by blast
    have "map_option status (k_heap k' b) = map_option status (k_heap k b)" if "b \<noteq> a" for b
      using rest that by (cases "k_heap k b") auto
    moreover have "signal_effect sig (status p) = THRD_ZOMBIE"
      using 1 by (simp add: signal_effect_def P_SIGSTOP_def P_SIGCONT_def P_SIGTERM_def)
    ultimately show ?thesis using k' 1 by (intro exI [of _ k'] exI [of _ p']) simp
  next
    case 2
    then show ?thesis by (auto simp: eqs)
  qed
qed

lemma wait_child:
  assumes "proc_reach k" "k_get_self_pcb me k = Some (Some s)" "k_heap k s = Some ps"
    "c \<in> set (table k)" "k_heap k c = Some pc" "ppid pc = pid ps" "0 < pid pc"
  shows "if status pc \<noteq> THRD_ZOMBIE \<and> nohang then k_waitpid_enter me (pid pc) nohang k = Some (Inr (Returned 0, k))
    else \<exists>k1. k_waitpid_enter me (pid pc) nohang k = Some (Inr (Joining c s, k1)) \<and>
      k_heap k1 s = Some (ps\<lparr>status := THRD_BLOCKED\<rparr>) \<and> (\<forall>b. b \<noteq> s \<longrightarrow> k_heap k1 b = k_heap k b) \<and>
      table k1 = table k \<and> k_trace k1 = k_trace k @ [Join (thrd pc)]"
  using seek_child [OF proc_reach_ok [OF assms(1)] assms(4-6)] assms(2,3,5,7)
  by (auto simp: k_waitpid_enter_def upd_proc_Some)

end
