(* ===== verification/KernelTheorems.thy ===== *)
theory KernelTheorems
  imports ProcFun
begin

text \<open>
  The properties of the process kernel and the scheduler, each with the concrete state in which its
  hypotheses hold. The states come first: PennOS after its start, a process that the shell has spawned,
  that process terminated, and then reaped.
\<close>

subsection \<open>States\<close>

text \<open>Memory that never runs out, and what a call leaves.\<close>

definition ample :: "paddr mem" where
  "ample = \<lparr>m_ok = (\<lambda>_. True), m_junk = (\<lambda>_. 0)\<rparr>"

fun state_of :: "(string + 'a \<times> kernel) option \<Rightarrow> kernel" where
  "state_of (Some (Inr (_, k))) = k"
| "state_of _ = kernel_start"

fun state_after :: "('a \<times> kernel) option \<Rightarrow> kernel" where
  "state_after (Some (_, k)) = k"
| "state_after None = kernel_start"

fun started :: "(string + kernel) option \<Rightarrow> bool" where
  "started (Some (Inr _)) = True"
| "started _ = False"

fun kernel_in :: "(string + kernel) option \<Rightarrow> kernel" where
  "kernel_in (Some (Inr k)) = k"
| "kernel_in _ = kernel_start"

definition init_start :: "(string + kernel) option" where
  "init_start = start_process ample 11 (Some 1) None ''init'' kernel_start"

definition shell_start :: "(string + kernel) option" where
  "shell_start = start_process ample 12 (Some 2) (Some 1) ''shell'' (kernel_in init_start)"

definition shell_kernel :: kernel where "shell_kernel = kernel_in shell_start"

definition spawn_kernel :: kernel where
  "spawn_kernel = state_of (k_proc_create ample (Some 3) (Some 2) 1 shell_kernel)"

definition child_kernel :: kernel where
  "child_kernel = state_of (k_set_routine_and_run True (Some 13) (Some 3) True None spawn_kernel)"

definition killed_kernel :: kernel where
  "killed_kernel = state_after (k_kill 3 P_SIGTERM child_kernel)"

definition reaped_kernel :: kernel where
  "reaped_kernel = state_of (k_waitpid_reap 3 True killed_kernel)"

lemma started_in: "started r \<Longrightarrow> r = Some (Inr (kernel_in r))"
  by (cases r rule: started.cases) auto

lemma shell_settled: "settled shell_kernel"
proof (rule settled_start, rule booted.boot)
  show "start_process ample 11 (Some 1) None ''init'' kernel_start = Some (Inr (kernel_in init_start))"
    unfolding init_start_def [symmetric] by (rule started_in) code_simp
  show "start_process ample 12 (Some 2) (Some 1) ''shell'' (kernel_in init_start) = Some (Inr shell_kernel)"
    unfolding shell_kernel_def shell_start_def [symmetric] by (rule started_in) code_simp
qed simp

definition returned :: "'a option \<Rightarrow> bool" where "returned r \<longleftrightarrow> r \<noteq> None"

lemma returned_code [code]: "returned None = False" "returned (Some x) = True"
  by (simp_all add: returned_def)

definition panicked :: "(string + 'a) option \<Rightarrow> bool" where
  "panicked r = (case r of Some (Inl _) \<Rightarrow> True | _ \<Rightarrow> False)"

lemma state_of_Some: "returned r \<and> \<not> panicked r \<Longrightarrow> \<exists>x. r = Some (Inr (x, state_of r))"
  by (cases r rule: state_of.cases) (auto simp: returned_def panicked_def)

lemma state_after_Some: "returned r \<Longrightarrow> \<exists>x. r = Some (x, state_after r)"
  by (cases r rule: state_after.cases) (auto simp: returned_def)

lemma spawn_settled: "settled spawn_kernel"
proof -
  have "returned (k_proc_create ample (Some 3) (Some 2) 1 shell_kernel) \<and>
    \<not> panicked (k_proc_create ample (Some 3) (Some 2) 1 shell_kernel)" by code_simp
  then obtain x where "k_proc_create ample (Some 3) (Some 2) 1 shell_kernel = Some (Inr (x, spawn_kernel))"
    unfolding spawn_kernel_def using state_of_Some by blast
  moreover have "Option.is_none (k_heap shell_kernel 3)" by code_simp
  ultimately show ?thesis
    using settled_create [OF shell_settled] by (auto simp: Option.is_none_def split: option.splits)
qed

lemma child_settled: "settled child_kernel"
proof -
  have "returned (k_set_routine_and_run True (Some 13) (Some 3) True None spawn_kernel) \<and>
    \<not> panicked (k_set_routine_and_run True (Some 13) (Some 3) True None spawn_kernel)" by code_simp
  then show ?thesis
    unfolding child_kernel_def
    using state_of_Some settled_call [OF spawn_settled proc_step.run] by metis
qed

lemma killed_settled: "settled killed_kernel"
proof -
  have "returned (k_kill 3 P_SIGTERM child_kernel)" by code_simp
  then show ?thesis
    unfolding killed_kernel_def
    using state_after_Some settled_call [OF child_settled proc_step.kill] by metis
qed

lemma reaped_settled: "settled reaped_kernel"
proof -
  have "returned (k_waitpid_reap 3 True killed_kernel) \<and> \<not> panicked (k_waitpid_reap 3 True killed_kernel)" by code_simp
  then show ?thesis
    unfolding reaped_kernel_def
    using state_of_Some settled_call [OF killed_settled proc_step.reap] by metis
qed

lemmas shell_reach = settled_reach [OF shell_settled]
lemmas child_reach = settled_reach [OF child_settled]
lemmas killed_reach = settled_reach [OF killed_settled]
lemmas reaped_reach = settled_reach [OF reaped_settled]

lemma child_kernel_pcbs:
  "k_heap child_kernel a = Some (the (k_heap child_kernel a))" if "a \<in> {1, 2, 3}"
proof -
  have "list_all (\<lambda>a. \<not> Option.is_none (k_heap child_kernel a)) [1, 2, 3]" by code_simp
  then show ?thesis using that by (auto simp: Option.is_none_def split: option.splits)
qed

lemma child_kernel_table: "table child_kernel = [1, 2, 3]" by code_simp

definition sleeper_kernel :: kernel where "sleeper_kernel = child_kernel\<lparr>k_clock := 5\<rparr>"

subsection \<open>The process table\<close>

text \<open>Two threads create a process at the same time: the shell at address 4, its child at address 5.\<close>

definition chosen_kernel :: kernel where
  "chosen_kernel = state_of (k_proc_choose (Some 5) (Some 3) 1 (state_of (k_proc_choose (Some 4) (Some 2) 1 child_kernel)))"

fun pushed :: "string + paddr vec \<Rightarrow> paddr vec" where
  "pushed (Inr v) = v"
| "pushed (Inl e) = k_vec kernel_start"

text \<open>One push after the other; and the two pushes statement by statement.\<close>

definition twice_kernel :: kernel where
  "twice_kernel = chosen_kernel\<lparr>k_vec := pushed (pcb_vec_push_back ample 5 (pushed (pcb_vec_push_back ample 4 (k_vec chosen_kernel))))\<rparr>"

definition stored_vec :: "paddr vec" where
  "stored_vec = the (push_store 5 (the (push_store 4 (k_vec chosen_kernel))))"

definition overrun_kernel :: kernel where
  "overrun_kernel = chosen_kernel\<lparr>k_vec := push_count (push_count stored_vec)\<rparr>"

lemma chosen_reach: "free_reach (chosen_kernel, [0 \<mapsto> Chosen 4, 1 \<mapsto> Chosen 5])"
proof -
  let ?r = "k_proc_choose (Some 4) (Some 2) 1 child_kernel"
  let ?q = "k_proc_choose (Some 5) (Some 3) 1 (state_of ?r)"
  have "returned ?r \<and> \<not> panicked ?r" "map_option (map_sum id fst) ?r = Some (Inr 4)" by code_simp+
  then have r: "?r = Some (Inr (4, state_of ?r))" using state_of_Some [of ?r] by (metis fst_conv map_sum.simps(2) option.simps(9) option.inject sum.inject(2))
  have "returned ?q \<and> \<not> panicked ?q" "map_option (map_sum id fst) ?q = Some (Inr 5)" by code_simp+
  then have "?q = Some (Inr (5, state_of ?q))" using state_of_Some [of ?q] by (metis fst_conv map_sum.simps(2) option.simps(9) option.inject sum.inject(2))
  then have q: "?q = Some (Inr (5, chosen_kernel))" by (simp add: chosen_kernel_def)
  have "Option.is_none (k_heap child_kernel 4) \<and> Option.is_none (k_heap (state_of ?r) 5)" by code_simp
  then have n: "k_heap child_kernel 4 = None" "k_heap (state_of ?r) 5 = None"
    by (simp_all add: Option.is_none_def split: option.splits)
  have "free_reach (child_kernel, Map.empty)" using lone_free child_settled by (simp add: settled_def)
  from free_create [OF this choose [of Map.empty 0, OF _ n(1) r]] have "free_reach (state_of ?r, [0 \<mapsto> Chosen 4])" by simp
  from free_create [OF this choose [of "[0 \<mapsto> Chosen 4]" 1, OF _ n(2) q]] show ?thesis by simp
qed

lemma twice_reach: "free_reach (twice_kernel, Map.empty)"
proof -
  let ?r = "pcb_vec_push_back ample 4 (k_vec chosen_kernel)"
  let ?q = "pcb_vec_push_back ample 5 (pushed ?r)"
  have "v_length (k_vec chosen_kernel) = 3 \<and> v_capacity (k_vec chosen_kernel) = 4 \<and> length (v_data (k_vec chosen_kernel)) = 4"
    by code_simp
  then have ok: "vec_ok (k_vec chosen_kernel)" by (simp add: vec_ok_def)
  have m: "\<forall>n. m_ok ample n" by (simp add: ample_def)
  have r: "?r = Inr (pushed ?r)" using pcb_vec.push_total [OF ok m, of 4] by auto
  have "free_reach (chosen_kernel\<lparr>k_vec := pushed ?r\<rparr>, [1 \<mapsto> Chosen 5])"
    using free_pushed [OF chosen_reach _ r ok, of 0] by (simp add: fun_upd_twist)
  moreover have ok1: "vec_ok (pushed ?r)" using pcb_vec.push_adds [OF ok r] by simp
  moreover have "?q = Inr (pushed ?q)" using pcb_vec.push_total [OF ok1 m, of 5] by auto
  ultimately show ?thesis
    using free_pushed [of "chosen_kernel\<lparr>k_vec := pushed ?r\<rparr>" "[1 \<mapsto> Chosen 5]" 1 5 ample "pushed ?q"]
    by (simp add: twice_kernel_def)
qed

lemma overrun_reach: "free_reach (overrun_kernel, Map.empty)"
proof -
  let ?v = "k_vec chosen_kernel"
  have c: "v_length ?v = 3 \<and> v_capacity ?v = 4 \<and> length (v_data ?v) = 4" by code_simp
  then have a: "pcb_vec_adjust ample ?v = Inr ?v" by (simp add: pcb_vec_adjust_def)
  have s: "push_store 4 ?v = Some (the (push_store 4 ?v))" "push_store 5 (the (push_store 4 ?v)) = Some stored_vec"
    using c by (simp_all add: push_store_def stored_vec_def)
  have "free_reach (chosen_kernel, [0 \<mapsto> Adjusted 4, 1 \<mapsto> Chosen 5])"
    using free_create [OF chosen_reach adjust [of "[0 \<mapsto> Chosen 4, 1 \<mapsto> Chosen 5]" 0 4 ample, OF _ a]] by (simp add: fun_upd_twist)
  from free_create [OF this adjust [of "[0 \<mapsto> Adjusted 4, 1 \<mapsto> Chosen 5]" 1 5 ample, OF _ a]]
  have "free_reach (chosen_kernel, [0 \<mapsto> Adjusted 4, 1 \<mapsto> Adjusted 5])" by simp
  from free_create [OF this store [of "[0 \<mapsto> Adjusted 4, 1 \<mapsto> Adjusted 5]" 0 4, OF _ s(1)]]
  have "free_reach (chosen_kernel\<lparr>k_vec := the (push_store 4 ?v)\<rparr>, [0 \<mapsto> Stored 4, 1 \<mapsto> Adjusted 5])" by (simp add: fun_upd_twist)
  from free_create [OF this store [of "[0 \<mapsto> Stored 4, 1 \<mapsto> Adjusted 5]" 1 5]] s(2)
  have "free_reach (chosen_kernel\<lparr>k_vec := stored_vec\<rparr>, [0 \<mapsto> Stored 4, 1 \<mapsto> Stored 5])" by simp
  from free_create [OF this count [of "[0 \<mapsto> Stored 4, 1 \<mapsto> Stored 5]" 0 4]]
  have "free_reach (chosen_kernel\<lparr>k_vec := push_count stored_vec\<rparr>, [1 \<mapsto> Stored 5])" by (simp add: fun_upd_twist)
  from free_create [OF this count [of "[1 \<mapsto> Stored 5]" 1 5]] show ?thesis by (simp add: overrun_kernel_def)
qed

text \<open>C15 (invariant). As long as a creation is not interrupted by another one, and its push not by another change of the table,
  the entries of the process table are allocated PCBs, no PCB is in it twice, and no two of them have the same pid, in every state
  that the steps of ProcRuns reach, whatever the order in which processes are created, signalled, waited for, put to sleep, reniced,
  reaped and scheduled, also between the choice of a new pid and the push. (The calls other than the creation count as one
  step each.) But nothing prevents such an interruption, as
  \<open>k_proc_create\<close> unblocks \<open>SIGPTHD\<close> before the push: two creations that overlap can give both processes the same pid,
  and two pushes that overlap can lose the first process and count one entry more than the array has.\<close>

theorem process_table_consistent:
  assumes "proc_reach k"
  shows "(vec_ok (k_vec k) \<and> (\<forall>a\<in>set (table k). k_heap k a \<noteq> None) \<and> distinct (table k) \<and>
      distinct (map (\<lambda>a. pid (the (k_heap k a))) (table k))) \<and>
    (\<exists>k'. free_reach (k', Map.empty) \<and> \<not> distinct (map (\<lambda>a. pid (the (k_heap k' a))) (table k'))) \<and>
    (\<exists>k' a. free_reach (k', Map.empty) \<and> k_heap k' a \<noteq> None \<and> a \<notin> set (table k') \<and> v_capacity (k_vec k') < v_length (k_vec k'))"
proof (intro conjI)
  show "vec_ok (k_vec k)" "\<forall>a\<in>set (table k). k_heap k a \<noteq> None" "distinct (table k)"
    "distinct (map (\<lambda>a. pid (the (k_heap k a))) (table k))"
    using proc_reach_ok [OF assms] unfolding proc_ok_def pid_at_def by blast+
  have "map (\<lambda>a. pid (the (k_heap twice_kernel a))) (table twice_kernel) = [1, 2, 3, 4, 4]" by code_simp
  then show "\<exists>k'. free_reach (k', Map.empty) \<and> \<not> distinct (map (\<lambda>a. pid (the (k_heap k' a))) (table k'))"
    using twice_reach by (intro exI [of _ twice_kernel]) simp
  have "\<not> Option.is_none (k_heap overrun_kernel 4) \<and> table overrun_kernel = [1, 2, 3, 5] \<and>
    v_capacity (k_vec overrun_kernel) = 4 \<and> v_length (k_vec overrun_kernel) = 5" by code_simp
  then show "\<exists>k' a. free_reach (k', Map.empty) \<and> k_heap k' a \<noteq> None \<and> a \<notin> set (table k') \<and> v_capacity (k_vec k') < v_length (k_vec k')"
    using overrun_reach by (intro exI [of _ overrun_kernel] exI [of _ 4]) (auto simp: Option.is_none_def)
qed

lemma process_table_consistent_witness:
  "table reaped_kernel = [1, 2, 3] \<and> distinct (map (\<lambda>a. pid (the (k_heap reaped_kernel a))) (table reaped_kernel))"
proof -
  have "table reaped_kernel = [1, 2, 3]" by code_simp
  then show ?thesis using process_table_consistent [OF reaped_reach] by blast
qed

text \<open>C16 (functional). Creating a process takes the least pid from 3 on that no process of the table
  has, and always finds one. The new PCB is stopped, belongs to its parent and is the last entry of the
  table; its pid is the last of the parent's children, and nothing else changes. When the parent's 128
  places for children are in use, PennOS panics instead.\<close>

theorem spawned_process:
  assumes "proc_reach k" "k_heap k a = None" "k_heap k q = Some pq" "\<forall>n. m_ok m n"
  shows "\<exists>i. 3 \<le> i \<and> (\<forall>j. 3 \<le> j \<and> j < i \<longrightarrow> j \<in> pid_at (k_heap k) ` set (table k)) \<and>
    i \<notin> pid_at (k_heap k) ` set (table k) \<and>
    (if num_child_pids pq = NUM_CHILDREN_MAX then
      k_proc_create m (Some a) (Some q) prio k = Some (Inl ''pcb_init_empty failed!'')
     else \<exists>k' pq'. k_proc_create m (Some a) (Some q) prio k = Some (Inr (a, k')) \<and>
      table k' = table k @ [a] \<and> k_queues k' = k_queues k \<and>
      k_heap k' = (k_heap k)(q \<mapsto> pq', a \<mapsto> new_pcb i (pid pq) prio) \<and>
      children pq' = children pq @ [i] \<and> pid pq' = pid pq \<and> status pq' = status pq \<and> next_pcb_ptr pq' = next_pcb_ptr pq)"
  using assms by (rule create_process)

lemma spawned_process_witness:
  "\<exists>k' p. k_proc_create ample (Some 3) (Some 2) 1 shell_kernel = Some (Inr (3, k')) \<and> table k' = [1, 2, 3] \<and>
    k_heap k' 3 = Some p \<and> 3 \<le> pid p"
proof -
  let ?p = "the (k_heap shell_kernel 2)"
  have "Option.is_none (k_heap shell_kernel 3) \<and> num_child_pids ?p = 0 \<and> table shell_kernel = [1, 2] \<and>
    \<not> Option.is_none (k_heap shell_kernel 2)" by code_simp
  moreover have "\<forall>n. m_ok ample n" by (simp add: ample_def)
  ultimately show ?thesis
    using spawned_process [OF shell_reach, of 3 2 ?p ample 1]
    by (auto simp: Option.is_none_def NUM_CHILDREN_MAX_def split: option.splits)
qed

text \<open>C17 (functional). The scheduler's scan of a reaped process takes its PCB out of its queue and
  out of the table and frees it. From then on no process has its pid.\<close>

theorem reaped_process_leaves:
  assumes "proc_reach k" "a \<in> set (table k)" "k_heap k a = Some p" "status p = THRD_REAPED"
    "queue_at (priority_level p) k = Some q" "queue_list (k_heap k) q as"
    "\<forall>b\<in>set as. b \<in> set (table k)"
  shows "\<exists>k' q'. scan_entry a k = Some (Inr (True, k')) \<and> table k' = remove1 a (table k) \<and>
    k_heap k' a = None \<and> pid p \<notin> pid_at (k_heap k') ` set (table k') \<and>
    queue_at (priority_level p) k' = Some q' \<and> queue_list (k_heap k') q' (remove1 a as)"
proof -
  have ok: "proc_ok k" using proc_reach_ok assms(1) by blast
  let ?hit = "with_pid (k_heap k) (pid p) as"
  have "?hit = (if a \<in> set as then Some a else None)"
    using find_pid [OF ok assms(2,3), of "\<lambda>q. pid q = pid p" as] assms(7) by (simp add: with_pid_def)
  then have rem: "(case ?hit of None \<Rightarrow> as | Some b \<Rightarrow> remove1 b as) = remove1 a as"
    by (simp add: remove1_idem)
  obtain h q' where pop: "pcb_queue_pop_by_pid (pid p) (k_heap k) q = Some (?hit, h, q')"
    "same_pcbs (k_heap k) h" "queue_list h q' (remove1 a as)"
    using pop_by_pid_list [OF assms(6), of "pid p"] unfolding rem by blast
  obtain v where v: "pcb_vec_remove_by_pcb a (k_vec k) = Inr (0, v)" "vec_elems v = remove1 a (table k)"
    using pcb_vec_remove(2) [of "k_vec k" a] ok assms(2) by (auto simp: proc_ok_def)
  let ?k = "(set_queue (priority_level p) h q' k)\<lparr>k_vec := v, k_heap := pcb_destroy a h\<rparr>"
  have "scan_entry a k = Some (Inr (True, ?k))"
    using assms(3-5) pop(1) v(1) by (simp add: scan_entry_def dequeue_pid_def)
  moreover have "a \<notin> set (remove1 a as)" using assms(6) by (simp add: queue_list_def)
  then have "queue_list (k_heap ?k) q' (remove1 a as)"
    using pop(3) by (auto simp: pcb_destroy_def queue_list_def linked_drop)
  moreover have "queue_at (priority_level p) ?k = Some q'"
    using assms(5) by (auto simp: queue_at_def set_queue_def split: if_split_asm)
  ultimately show ?thesis
    using v(2) pid_gone [OF ok assms(2,3) pop(2)] by (intro exI [of _ ?k] exI [of _ q']) (simp add: pcb_destroy_def)
qed

lemma reaped_process_leaves_witness:
  "\<exists>k'. scan_entry 3 reaped_kernel = Some (Inr (True, k')) \<and> table k' = [1, 2]"
proof -
  let ?p = "the (k_heap reaped_kernel 3)" and ?q = "the (queue_at 1 reaped_kernel)"
  have "table reaped_kernel = [1, 2, 3] \<and> k_heap reaped_kernel 3 = Some ?p \<and> status ?p = THRD_REAPED \<and>
    priority_level ?p = 1 \<and> queue_at 1 reaped_kernel = Some ?q \<and> queue_list (k_heap reaped_kernel) ?q [3]" by code_simp
  then show ?thesis using reaped_process_leaves [OF reaped_reach, of 3 ?p ?q "[3]"] by auto
qed

subsection \<open>Signals, exit and waiting\<close>



text \<open>C19 (functional). \<open>k_exit\<close> always ends the calling thread. Its process is left as a zombie with exit
  code 0 and without children; the processes of the table that were its children are children of the
  init process, and no other PCB changes.\<close>

theorem exit_leaves_orphans:
  assumes "proc_reach k" "k_get_self_pcb me k = Some (Some a)" "k_heap k a = Some p"
  shows "\<exists>k' p'. k_exit me k = Some k' \<and> table k' = table k \<and> k_trace k' = k_trace k @ [Exit_self] \<and>
    k_heap k' a = Some p' \<and> status p' = THRD_ZOMBIE \<and> term_signal p' = 0 \<and> exit_code p' = 0 \<and> children p' = [] \<and>
    (\<forall>b x. b \<noteq> a \<and> k_heap k b = Some x \<longrightarrow>
      k_heap k' b = Some (if b \<in> set (table k) \<and> pid x \<in> set (children p) then x\<lparr>ppid := 1\<rparr> else x))"
proof -
  have ok: "proc_ok k" using proc_reach_ok assms(1) by blast
  let ?q = "p\<lparr>status := THRD_ZOMBIE, term_signal := 0, exit_code := 0\<rparr>"
  have "children_ok p" using ok assms(3) by (auto simp: proc_ok_def kids_ok_def)
  then have "children_ok ?q" "children ?q = children p" by (simp_all add: children_ok_def children_def)
  then show ?thesis
    using ended [OF ok assms(3), of ?q] assms(2,3)
    by (auto simp: k_exit_def upd_proc_Some call_thread_def)
qed

lemma exit_leaves_orphans_witness:
  "\<exists>k' p' x. k_exit 12 child_kernel = Some k' \<and> k_heap k' 2 = Some p' \<and> status p' = THRD_ZOMBIE \<and>
    k_heap k' 3 = Some x \<and> ppid x = 1"
proof -
  let ?p = "the (k_heap child_kernel 2)" and ?x = "the (k_heap child_kernel 3)"
  have "k_get_self_pcb 12 child_kernel = Some (Some 2) \<and> pid ?x \<in> set (children ?p)" by code_simp
  moreover have "k_heap child_kernel 2 = Some ?p" "k_heap child_kernel 3 = Some ?x"
    using child_kernel_pcbs by simp_all
  ultimately show ?thesis
    using exit_leaves_orphans [OF child_reach, of 12 2 ?p] child_kernel_table by auto
qed

text \<open>A process that waits for one of its children gets 0 at once when the child has
  not ended and the call must not block. Otherwise it is blocked and joins the child's thread.\<close>

theorem waitpid_child:
  assumes "proc_reach k" "k_get_self_pcb me k = Some (Some s)" "k_heap k s = Some ps"
    "c \<in> set (table k)" "k_heap k c = Some pc" "ppid pc = pid ps" "0 < pid pc"
  shows "if status pc \<noteq> THRD_ZOMBIE \<and> nohang then k_waitpid_enter me (pid pc) nohang k = Some (Inr (Returned 0, k))
    else \<exists>k1. k_waitpid_enter me (pid pc) nohang k = Some (Inr (Joining c s, k1)) \<and>
      k_heap k1 s = Some (ps\<lparr>status := THRD_BLOCKED\<rparr>) \<and> (\<forall>b. b \<noteq> s \<longrightarrow> k_heap k1 b = k_heap k b) \<and>
      table k1 = table k \<and> k_trace k1 = k_trace k @ [Join (thrd pc)]"
  using assms by (rule wait_child)

lemma waitpid_child_witness:
  "\<exists>k1 p. k_waitpid_enter 12 3 False child_kernel = Some (Inr (Joining 3 2, k1)) \<and>
    k_heap k1 2 = Some p \<and> status p = THRD_BLOCKED"
proof -
  have "k_get_self_pcb 12 child_kernel = Some (Some 2) \<and> pid (the (k_heap child_kernel 3)) = 3 \<and>
    ppid (the (k_heap child_kernel 3)) = pid (the (k_heap child_kernel 2))" by code_simp
  then show ?thesis
    using waitpid_child [OF child_reach, of 12 2 "the (k_heap child_kernel 2)" 3 "the (k_heap child_kernel 3)" False]
      child_kernel_pcbs child_kernel_table by auto
qed

text \<open>What a wait hands out for a child that has ended: the macros that take the
  status apart tell exit from termination, and give back the exit code or the signal. The child is
  marked as reaped.\<close>

theorem waitpid_status:
  assumes "k_heap k c = Some pc" "status pc = THRD_ZOMBIE"
    "term_signal pc = 0 \<and> 0 \<le> exit_code pc \<and> exit_code pc < 256 \<or> term_signal pc = P_SIGTERM"
  shows "\<exists>w k'. k_waitpid_reap c True k = Some (Inr ((pid pc, Some w), k')) \<and>
    k_heap k' = (k_heap k)(c \<mapsto> pc\<lparr>status := THRD_REAPED\<rparr>) \<and>
    (P_WIFEXITED w \<longleftrightarrow> term_signal pc = 0) \<and> (P_WIFSIGNALED w \<longleftrightarrow> term_signal pc = P_SIGTERM) \<and> \<not> P_WIFSTOPPED w \<and>
    (if term_signal pc = 0 then P_WEXITSTATUS w = exit_code pc else P_WTERMSIG w = P_SIGTERM)"
proof -
  have e: "take_bit 7 (x * 256) = 0" "take_bit 8 (x * 256) = 0" "drop_bit 8 (x * 256) = x" for x :: int
    by (simp_all add: take_bit_eq_mod drop_bit_eq_div)
  have t: "take_bit 7 (3::int) = 3" "take_bit 8 (3::int) = 3" by (simp_all add: take_bit_eq_mod)
  show ?thesis
    using assms e t by (auto simp: k_waitpid_reap_def upd_proc_Some P_WIFEXITED_def P_WIFSIGNALED_def P_WIFSTOPPED_def
        P_WEXITSTATUS_def P_WTERMSIG_def P_SIGTERM_def take_bit_int_eq_self)
qed

lemma waitpid_status_witness:
  "\<exists>w k'. k_waitpid_reap 3 True killed_kernel = Some (Inr ((3, Some w), k')) \<and> P_WIFSIGNALED w \<and> P_WTERMSIG w = P_SIGTERM"
proof -
  let ?p = "the (k_heap killed_kernel 3)"
  have "k_heap killed_kernel 3 = Some ?p \<and> status ?p = THRD_ZOMBIE \<and> term_signal ?p = P_SIGTERM \<and> pid ?p = 3 \<and> P_SIGTERM = 3"
    by code_simp
  then show ?thesis using waitpid_status [of killed_kernel 3 ?p] by auto
qed

subsection \<open>Scheduling\<close>

lemma slot_begin_runs:
  assumes "scan_table k = Some (Inr k0)" "\<not> k_done k0" "queue_at (int (queue_pick_pattern ! i)) k0 = Some q"
    "queue_list (k_heap k0) q (skipped @ a # rest)" "\<forall>b\<in>set skipped. \<not> runnable (k_heap k0) b"
    "k_heap k0 a = Some p" "status p = THRD_RUNNING"
  obtains k1 q1 where "slot_begin i k = Some (Inr (Runs a, k1))" "queue_at (int (queue_pick_pattern ! i)) k1 = Some q1"
    "queue_list (k_heap k1) q1 (a # rest)" "same_pcbs (k_heap k0) (k_heap k1)"
    "k_trace k1 = k_trace k0 @ [Continue (thrd p)]" "k_clock k1 = k_clock k0 + 1" "\<not> k_masked k1"
proof -
  let ?lvl = "queue_pick_pattern ! i"
  have run: "runnable (k_heap k0) a" using assms(6,7) by (simp add: runnable_def)
  have find: "List.find (runnable (k_heap k0)) (skipped @ a # rest) = Some a"
    "dropWhile (\<lambda>b. \<not> runnable (k_heap k0) b) (skipped @ a # rest) = a # rest"
    using assms(5) run by (induction skipped) auto
  obtain k1 q1 where p1: "pick_process ?lvl k0 = Some (Some a, k1)" "queue_at (int ?lvl) k1 = Some q1"
    "queue_list (k_heap k1) q1 (a # rest)" "same_pcbs (k_heap k0) (k_heap k1)" "k_trace k1 = k_trace k0" "k_clock k1 = k_clock k0"
    using pick_loop_list [OF assms(3,4)] assms(3) unfolding find by (auto simp: pick_process_def)
  have "q \<in> set (k_queues k0)" using assms(3) by (auto simp: queue_at_def split: if_split_asm)
  moreover have "\<not> queue_is_empty q" using assms(4) by (simp add: queue_list_def queue_is_empty_def)
  ultimately have ne: "\<not> all_queues_empty k0" by (auto simp: all_queues_empty_def list_all_iff)
  obtain n where n: "k_heap k1 a = Some (p\<lparr>next_pcb_ptr := n\<rparr>)" using same_pcbs_SomeD [OF p1(4) assms(6)] by blast
  let ?k = "tick (call_thread [Continue (thrd p)] (k1\<lparr>k_masked := False\<rparr>))"
  have "slot_begin i k = Some (Inr (Runs a, ?k))"
    using assms(1,2) ne p1(1) n by (simp add: slot_begin_def)
  from that [OF this, of q1] show thesis using p1 by (simp, simp add: tick_def call_thread_def)
qed

lemma slot_end_requeues:
  assumes "queue_at (int (queue_pick_pattern ! i)) k = Some q" "queue_list (k_heap k) q (a # rest)"
    "k_heap k a = Some p" "status p = THRD_RUNNING" "priority_level p = int (queue_pick_pattern ! i)"
  shows "\<exists>k' q'. slot_end i a k = Some (Inr k') \<and> queue_at (int (queue_pick_pattern ! i)) k' = Some q' \<and>
    queue_list (k_heap k') q' (rest @ [a]) \<and> same_pcbs (k_heap k) (k_heap k') \<and>
    k_trace k' = k_trace k @ [Suspend (thrd p)] \<and> \<not> k_masked k'"
proof -
  let ?lvl = "int (queue_pick_pattern ! i)"
  obtain k2 q2 where d: "dequeue ?lvl (k\<lparr>k_masked := True\<rparr>) = Some (Some a, k2)" "queue_at ?lvl k2 = Some q2"
    "queue_list (k_heap k2) q2 rest" "same_pcbs (k_heap k) (k_heap k2)" "unlinked (k_heap k2) a" "k_trace k2 = k_trace k"
    using dequeue_list [of ?lvl "k\<lparr>k_masked := True\<rparr>" q a rest] assms(1,2) by auto
  obtain n where n: "k_heap k2 a = Some (p\<lparr>next_pcb_ptr := n\<rparr>)" using same_pcbs_SomeD [OF d(4) assms(3)] by blast
  have "a \<notin> set rest" using assms(2) by (simp add: queue_list_def)
  then obtain k3 q3 where e: "enqueue ?lvl a (call_thread [Suspend (thrd p)] k2) = Some k3"
    "queue_at ?lvl k3 = Some q3" "queue_list (k_heap k3) q3 (rest @ [a])" "same_pcbs (k_heap k2) (k_heap k3)"
    "k_trace k3 = k_trace k2 @ [Suspend (thrd p)]"
    using enqueue_list [of ?lvl "call_thread [Suspend (thrd p)] k2" q2 rest a] d by auto
  have "slot_end i a k = Some (Inr (k3\<lparr>k_masked := False\<rparr>))"
    using d(1) n e(1) assms(4,5) by (simp add: slot_end_def)
  moreover have "same_pcbs (k_heap k) (k_heap k3)" using d(4) e(4) same_pcbs_trans by blast
  ultimately show ?thesis using d(6) e by (intro exI [of _ "k3\<lparr>k_masked := False\<rparr>"] exI [of _ q3]) simp
qed

text \<open>C20 (functional). A slot whose queue has a runnable process after the scan: \<open>slot_begin\<close> takes the processes in front of the
  first runnable one out of the queue, continues that process and no other, and advances the clock. Whatever happens until the tick,
  if the process is then still running and in front of its queue, \<open>slot_end\<close> suspends it and puts it to the end; the
  others keep their order.\<close>

theorem round_robin_step:
  assumes "i < QUEUE_PICK_PATTERN_LENGTH" "lvl = int (queue_pick_pattern ! i)" "scan_table k = Some (Inr k0)" "\<not> k_done k0"
    "queue_at lvl k0 = Some q" "queue_list (k_heap k0) q (skipped @ a # rest)"
    "\<forall>b\<in>set skipped. \<not> runnable (k_heap k0) b" "k_heap k0 a = Some p" "status p = THRD_RUNNING"
  shows "\<exists>k1 q1. slot_begin i k = Some (Inr (Runs a, k1)) \<and> queue_at lvl k1 = Some q1 \<and>
    queue_list (k_heap k1) q1 (a # rest) \<and> same_pcbs (k_heap k0) (k_heap k1) \<and>
    k_trace k1 = k_trace k0 @ [Continue (thrd p)] \<and> k_clock k1 = k_clock k0 + 1 \<and> \<not> k_masked k1 \<and>
    (\<forall>k2 q2 p2 rest2. queue_at lvl k2 = Some q2 \<and> queue_list (k_heap k2) q2 (a # rest2) \<and> k_heap k2 a = Some p2 \<and>
        status p2 = THRD_RUNNING \<and> priority_level p2 = lvl \<longrightarrow>
      (\<exists>k3 q3. slot_end i a k2 = Some (Inr k3) \<and> queue_at lvl k3 = Some q3 \<and> queue_list (k_heap k3) q3 (rest2 @ [a]) \<and>
        same_pcbs (k_heap k2) (k_heap k3) \<and> k_trace k3 = k_trace k2 @ [Suspend (thrd p2)] \<and> \<not> k_masked k3))"
proof -
  from slot_begin_runs [OF assms(3,4) assms(5) [unfolded assms(2)] assms(6-9)] obtain k1 q1 where
    "slot_begin i k = Some (Inr (Runs a, k1))" "queue_at lvl k1 = Some q1" "queue_list (k_heap k1) q1 (a # rest)"
    "same_pcbs (k_heap k0) (k_heap k1)" "k_trace k1 = k_trace k0 @ [Continue (thrd p)]" "k_clock k1 = k_clock k0 + 1"
    "\<not> k_masked k1" unfolding assms(2) .
  moreover note slot_end_requeues [of i, folded assms(2)]
  ultimately show ?thesis by (intro exI [of _ k1] exI [of _ q1]) (simp only: simp_thms, blast)
qed

lemma round_robin_step_witness:
  "\<exists>k1 k3 q3. slot_begin 0 child_kernel = Some (Inr (Runs 1, k1)) \<and>
    k_trace k1 = k_trace child_kernel @ [Continue 11] \<and> slot_end 0 1 k1 = Some (Inr k3) \<and>
    queue_at 0 k3 = Some q3 \<and> queue_list (k_heap k3) q3 [2, 1]"
proof -
  let ?k0 = "kernel_in (scan_table child_kernel)"
  let ?p = "the (k_heap ?k0 1)" and ?q = "the (queue_at 0 ?k0)"
  have "started (scan_table child_kernel)" by code_simp
  then have s: "scan_table child_kernel = Some (Inr ?k0)" by (rule started_in)
  have f: "status ?p = THRD_RUNNING \<and> priority_level ?p = 0 \<and> thrd ?p = 11 \<and> queue_list (k_heap ?k0) ?q [1, 2] \<and>
    k_heap ?k0 1 = Some ?p \<and> queue_at 0 ?k0 = Some ?q \<and> queue_pick_pattern ! 0 = 0 \<and> 0 < QUEUE_PICK_PATTERN_LENGTH \<and>
    \<not> k_done ?k0 \<and> k_trace ?k0 = k_trace child_kernel"
    by code_simp
  have h: "0 < QUEUE_PICK_PATTERN_LENGTH" "0 = int (queue_pick_pattern ! 0)" "\<not> k_done ?k0" "queue_at 0 ?k0 = Some ?q"
    "queue_list (k_heap ?k0) ?q ([] @ 1 # [2])" "\<forall>b\<in>set []. \<not> runnable (k_heap ?k0) b" "k_heap ?k0 1 = Some ?p"
    "status ?p = THRD_RUNNING" and t: "thrd ?p = 11" "k_trace ?k0 = k_trace child_kernel"
    using f unfolding append_Nil by (blast | simp)+
  note r = round_robin_step [OF h(1,2) s h(3-8), unfolded t]
  have "\<exists>k1 q1. slot_begin 0 child_kernel = Some (Inr (Runs 1, k1)) \<and> queue_at 0 k1 = Some q1 \<and>
    queue_list (k_heap k1) q1 [1, 2] \<and> same_pcbs (k_heap ?k0) (k_heap k1) \<and> k_trace k1 = k_trace child_kernel @ [Continue 11] \<and>
    (\<forall>k2 q2 p2 rest2. queue_at 0 k2 = Some q2 \<and> queue_list (k_heap k2) q2 (1 # rest2) \<and> k_heap k2 1 = Some p2 \<and>
        status p2 = THRD_RUNNING \<and> priority_level p2 = 0 \<longrightarrow>
      (\<exists>k3 q3. slot_end 0 1 k2 = Some (Inr k3) \<and> queue_at 0 k3 = Some q3 \<and> queue_list (k_heap k3) q3 (rest2 @ [1])))"
    using r by blast
  then obtain k1 q1 where k1: "slot_begin 0 child_kernel = Some (Inr (Runs 1, k1))" "queue_at 0 k1 = Some q1"
    "queue_list (k_heap k1) q1 [1, 2]" "same_pcbs (k_heap ?k0) (k_heap k1)" "k_trace k1 = k_trace child_kernel @ [Continue 11]"
    and e: "\<forall>k2 q2 p2 rest2. queue_at 0 k2 = Some q2 \<and> queue_list (k_heap k2) q2 (1 # rest2) \<and> k_heap k2 1 = Some p2 \<and>
        status p2 = THRD_RUNNING \<and> priority_level p2 = 0 \<longrightarrow>
      (\<exists>k3 q3. slot_end 0 1 k2 = Some (Inr k3) \<and> queue_at 0 k3 = Some q3 \<and> queue_list (k_heap k3) q3 (rest2 @ [1]))" by blast
  have "k_heap ?k0 1 = Some ?p" using f by blast
  then obtain n where n: "k_heap k1 1 = Some (?p\<lparr>next_pcb_ptr := n\<rparr>)" using same_pcbs_SomeD [OF k1(4)] by blast
  obtain k3 q3 where "slot_end 0 1 k1 = Some (Inr k3) \<and> queue_at 0 k3 = Some q3 \<and> queue_list (k_heap k3) q3 ([2] @ [1])"
    using e [rule_format, of k1 q1 "[2]" "?p\<lparr>next_pcb_ptr := n\<rparr>"] k1(2,3) n f by auto
  then show ?thesis using k1 by auto
qed

text \<open>Of the 19 slots of a cycle 9 go to the first queue, 6 to the second and 4 to the
  third, and from any slot on every queue is picked within 7 slots.\<close>

theorem pattern_shares:
  "map (count_list queue_pick_pattern) [0, 1, 2] = [9, 6, 4] \<and>
   length queue_pick_pattern = QUEUE_PICK_PATTERN_LENGTH \<and>
   list_all (\<lambda>i. list_all (\<lambda>lvl. list_ex (\<lambda>d.
      queue_pick_pattern ! ((i + d) mod QUEUE_PICK_PATTERN_LENGTH) = lvl) [0..<7]) [0..<3]) [0..<19]"
  by code_simp

text \<open>C21 (liveness). The scan finds a process whose call to sleep for a number of seconds was made at a
  clock value other than 0: it runs again and is at the end of its queue if 10 ticks for each second have
  passed, and nothing changes before. The clock may wrap around in between. A sleep that begins at clock
  value 0 never ends. The process is one whose PCB nobody has changed since it went to sleep, and that was
  the last in its queue when it left it, so that its link is empty.\<close>

theorem sleep_wakes:
  assumes sl: "k_sleep_enter me (of_nat secs) k0 = Some (a, k1)" and same: "k_heap k a = k_heap k1 a"
    and clock: "k_clock k = k_clock k0 + of_nat n" "n < 2 ^ 32" "10 * secs < 2 ^ 32"
    and q: "k_heap k a = Some p" "queue_at (priority_level p) k = Some q" "queue_list (k_heap k) q as"
    "a \<notin> set as" "next_pcb_ptr p = None"
  shows "\<exists>k'. scan_entry a k = Some (Inr (False, k')) \<and>
    (if k_clock k0 \<noteq> 0 \<and> 10 * secs \<le> n then
      (\<exists>p' q'. k_heap k' a = Some p' \<and> status p' = THRD_RUNNING \<and>
        queue_at (priority_level p) k' = Some q' \<and> queue_list (k_heap k') q' (as @ [a]))
     else k' = k)"
proof -
  have p: "sleep_stamp p = k_clock k0" "sleep_length p = of_nat secs * 10" "status p = THRD_BLOCKED"
    using sl same q(1) by (auto simp: k_sleep_enter_def bind_Some upd_proc_def upd_pcb_Some)
  have len: "sleep_length p = of_nat (10 * secs)" using p(2) by simp
  have "time_is_up k p \<longleftrightarrow> (of_nat (10 * secs) :: 32 word) \<le> of_nat n"
    using p(1) len clock(1) by (simp add: time_is_up_def)
  also have "\<dots> \<longleftrightarrow> 10 * secs \<le> n"
    using clock(2,3) by (simp add: word_le_nat_alt unat_of_nat take_bit_nat_eq_self del: of_nat_mult)
  finally have up: "time_is_up k p \<longleftrightarrow> 10 * secs \<le> n" .
  show ?thesis
  proof (cases "k_clock k0 \<noteq> 0 \<and> 10 * secs \<le> n")
    case True
    let ?k = "k\<lparr>k_heap := (k_heap k)(a \<mapsto> p\<lparr>status := THRD_RUNNING\<rparr>)\<rparr>"
    have "queue_list (k_heap ?k) q as" using q(3,4) by (auto simp: queue_list_def linked_frame)
    moreover have "unlinked (k_heap ?k) a" using q(5) by (simp add: unlinked_def)
    ultimately obtain k' q' where e: "enqueue (priority_level p) a ?k = Some k'" "queue_at (priority_level p) k' = Some q'"
      "queue_list (k_heap k') q' (as @ [a])" "same_pcbs (k_heap ?k) (k_heap k')"
      using enqueue_list [of "priority_level p" ?k q as a] q(2,4) by auto
    obtain m where "k_heap k' a = Some (p\<lparr>status := THRD_RUNNING\<rparr>\<lparr>next_pcb_ptr := m\<rparr>)"
      using same_pcbs_SomeD [OF e(4), of a "p\<lparr>status := THRD_RUNNING\<rparr>"] by auto
    moreover have "scan_entry a k = Some (Inr (False, k'))"
      using p q(1) up True e(1) by (simp add: scan_entry_def upd_proc_Some)
    ultimately show ?thesis using True e by auto
  next
    case False
    then show ?thesis using p q(1) up by (auto simp: scan_entry_def)
  qed
qed

lemma sleep_wakes_witness:
  "\<exists>a k1 k2 k' p'. k_sleep_enter 13 2 sleeper_kernel = Some (a, k1) \<and> dequeue 1 (k1\<lparr>k_clock := 25\<rparr>) = Some (Some a, k2) \<and>
    scan_entry a k2 = Some (Inr (False, k')) \<and> k_heap k' a = Some p' \<and> status p' = THRD_RUNNING"
proof -
  let ?k1 = "state_after (k_sleep_enter 13 2 sleeper_kernel)"
  let ?k2 = "state_after (dequeue 1 (?k1\<lparr>k_clock := 25\<rparr>))"
  have "map_option fst (k_sleep_enter 13 2 sleeper_kernel) = Some 3" by code_simp
  then have 1: "k_sleep_enter 13 (of_nat 2) sleeper_kernel = Some (3, ?k1)"
    using state_after_Some [of "k_sleep_enter 13 2 sleeper_kernel"] by (auto simp: returned_def)
  have "map_option fst (dequeue 1 (?k1\<lparr>k_clock := 25\<rparr>)) = Some (Some 3)" by code_simp
  then have 2: "dequeue 1 (?k1\<lparr>k_clock := 25\<rparr>) = Some (Some 3, ?k2)"
    using state_after_Some [of "dequeue 1 (?k1\<lparr>k_clock := 25\<rparr>)"] by (auto simp: returned_def)
  let ?p = "the (k_heap ?k2 3)" and ?q = "the (queue_at 1 ?k2)"
  have 3: "k_heap ?k2 3 = k_heap ?k1 3 \<and> k_clock ?k2 = k_clock sleeper_kernel + of_nat 20 \<and>
    queue_list (k_heap ?k2) ?q [] \<and> next_pcb_ptr ?p = None \<and> priority_level ?p = 1 \<and> k_clock sleeper_kernel = 5 \<and>
    k_heap ?k2 3 = Some ?p \<and> queue_at 1 ?k2 = Some ?q" by code_simp
  then obtain k' p' where "scan_entry 3 ?k2 = Some (Inr (False, k'))" "k_heap k' 3 = Some p'" "status p' = THRD_RUNNING"
    using sleep_wakes [OF 1, of ?k2 20 ?p ?q "[]"] by auto
  then show ?thesis
    using 1 2 by (intro exI [of _ 3] exI [of _ ?k1] exI [of _ ?k2] exI [of _ k'] exI [of _ p']) simp
qed

text \<open>Taking the front of a queue and queueing it again, as often as the queue has
  processes, serves each of them once, in order, and leaves the queue as it was.\<close>

theorem queue_full_round:
  assumes "queue_list h q as"
  shows "\<exists>h' q'. takes_turns queue_pop queue_push (length as) (h, q) = Some (as, (h', q')) \<and> queue_list h' q' as"
  using pcb_fifo.full_round [of "(h, q)" as] assms by auto

lemma queue_full_round_witness:
  "\<exists>h q h' q'. takes_turns queue_pop queue_push 2 (h, q) = Some ([1, 2], (h', q')) \<and> queue_list h' q' [1, 2]"
proof -
  have "queue_list (k_heap child_kernel) (the (queue_at 0 child_kernel)) [1, 2]" by code_simp
  moreover have "length [1 :: nat, 2] = 2" by simp
  ultimately show ?thesis using queue_full_round by metis
qed

text \<open>C22 (safety). \<open>k_nice\<close> on a running process that is queued changes its priority and leaves it in
  its queue. The next scan appends it to the queue of the new priority, and with it everything that is
  behind it in the old one: the length of that queue no longer counts what is reached from its head.\<close>

theorem nice_breaks_queues:
  assumes "proc_reach k" "a \<in> set (table k)" "k_heap k a = Some p" "status p = THRD_RUNNING"
    "queue_at (priority_level p) k = Some q" "queue_list (k_heap k) q (pre @ a # b # bs)"
    "queue_at j k = Some r" "queue_list (k_heap k) r (cs @ [e])"
    "set (pre @ a # b # bs) \<inter> set (cs @ [e]) = {}" "j < int NUM_PRIORITY_QUEUES"
  shows "\<exists>k1 k2 r'. k_nice (pid p) j k = Some (0, k1) \<and> scan_entry a k1 = Some (Inr (False, k2)) \<and>
    queue_at j k2 = Some r' \<and> linked_pcbs (k_heap k2) (q_head_ptr r') (cs @ [e] @ a # b # bs) \<and>
    q_length r' = length cs + 2 \<and> (\<nexists>xs. queue_list (k_heap k2) r' xs)"
proof -
  have ok: "proc_ok k" using proc_reach_ok assms(1) by blast
  let ?h = "(k_heap k)(a \<mapsto> p\<lparr>priority_level := j\<rparr>)"
  let ?k1 = "k\<lparr>k_heap := ?h\<rparr>"
  have j: "0 \<le> j" using assms(7) by (simp add: queue_at_def split: if_split_asm)
  have nice: "k_nice (pid p) j k = Some (0, ?k1)"
    using seek_pid [OF ok assms(2,3)] assms(3,10) j by (simp add: k_nice_def upd_proc_Some)
  have "linked_pcbs (k_heap k) (Some a) (a # b # bs)"
    using assms(6) by (auto simp: queue_list_def dest: linked_tail)
  moreover have "a \<notin> set (b # bs)" using assms(6) by (simp add: queue_list_def)
  ultimately have a: "linked_pcbs ?h (Some a) (a # b # bs)" using assms(3) by (auto intro: linked_frame)
  have na: "a \<notin> set (cs @ [e])" using assms(9) by auto
  then have r: "queue_list ?h r (cs @ [e])" using assms(8) by (auto simp: queue_list_def linked_frame)
  obtain h' r' where push: "pcb_queue_push a ?h r = Some (False, h', r')"
    "linked_pcbs h' (q_head_ptr r') (cs @ [e] @ a # b # bs)" "q_length r' = length cs + 2"
    using push_linked [OF r a na] assms(9) by auto
  let ?k2 = "(set_queue j h' r' ?k1)\<lparr>k_masked := False\<rparr>"
  have "enqueue j a ?k1 = Some ?k2" using push(1) assms(7) by (simp add: enqueue_def)
  moreover have "pcb_in_queue ?h a r = Some False" using pcb_in_queue_list [OF r, of a] na by simp
  ultimately have "scan_entry a ?k1 = Some (Inr (False, ?k2))"
    using assms(4,7) by (simp add: scan_entry_def)
  moreover have "\<nexists>xs. queue_list h' r' xs"
  proof
    assume "\<exists>xs. queue_list h' r' xs"
    then obtain xs where xs: "queue_list h' r' xs" ..
    then have "xs = cs @ [e] @ a # b # bs" using push(2) linked_unique by (auto simp: queue_list_def)
    then show False using xs push(3) by (simp add: queue_list_def)
  qed
  moreover have "queue_at j ?k2 = Some r'" "k_heap ?k2 = h'" using queue_at_set(1) [of j ?k1 r h' r'] assms(7) by simp_all
  ultimately show ?thesis using nice push(2,3) by (intro exI [of _ ?k1] exI [of _ ?k2] exI [of _ r']) simp
qed

lemma nice_breaks_queues_witness:
  "\<exists>k1 k2 r'. k_nice 1 1 child_kernel = Some (0, k1) \<and> scan_entry 1 k1 = Some (Inr (False, k2)) \<and>
    queue_at 1 k2 = Some r' \<and> linked_pcbs (k_heap k2) (q_head_ptr r') [3, 1, 2] \<and> q_length r' = 2"
proof -
  let ?p = "the (k_heap child_kernel 1)" and ?q = "the (queue_at 0 child_kernel)" and ?r = "the (queue_at 1 child_kernel)"
  have "k_heap child_kernel 1 = Some ?p \<and> status ?p = THRD_RUNNING \<and> pid ?p = 1 \<and>
    priority_level ?p = 0 \<and> queue_at 0 child_kernel = Some ?q \<and> queue_list (k_heap child_kernel) ?q [1, 2] \<and>
    queue_at 1 child_kernel = Some ?r \<and> queue_list (k_heap child_kernel) ?r [3]" by code_simp
  then show ?thesis
    using nice_breaks_queues [OF child_reach, of 1 ?p ?q "[]" 2 "[]" 1 ?r "[]" 3] child_kernel_table
    by (auto simp: NUM_PRIORITY_QUEUES_def)
qed

end
