(* ===== verification/Syscalls.thy ===== *)
theory Syscalls
  imports NameOps Sched
begin

text \<open>
  The system calls, \<open>src/user/syscall_kernel.c\<close>: wrappers around the calls of the file system and of the
  process kernel that set \<open>errno\<close>. The state \<open>os\<close> joins the states of both, \<open>errno\<close>, and what has been
  written to the terminal. Each call of the file system meets the host as \<open>os_host\<close> says for its
  number.
\<close>

subsection \<open>The state\<close>

datatype errno_value =
    NoError | EACCES | ENOTDIR | ENOENT | ENOSPC | EIO | EINVAL | ESRCH | ECHILD | EPERM | EMFILE | EAGAIN | ENOMEM

datatype terminal_output = Text string | Listing "(dir_entry \<times> link_text) list" | Processes "ps_row list"

record os =
  os_fs :: fs
  os_kernel :: kernel
  os_errno :: errno_value
  os_host :: "nat \<Rightarrow> host"
  os_calls :: nat
  os_out :: "terminal_output list"
  os_err :: "string list"

definition set_errno :: "bool \<Rightarrow> errno_value \<Rightarrow> os \<Rightarrow> os" where
  "set_errno failed e u = (if failed then u\<lparr>os_errno := e\<rparr> else u)"

definition print_err :: "string \<Rightarrow> os \<Rightarrow> os" where "print_err t u = u\<lparr>os_err := os_err u @ [t]\<rparr>"
definition print_out :: "terminal_output \<Rightarrow> os \<Rightarrow> os" where "print_out t u = u\<lparr>os_out := os_out u @ [t]\<rparr>"

text \<open>One call of the file system, and one of the process kernel.\<close>

definition fs_call :: "(host \<Rightarrow> fs \<Rightarrow> ('a \<times> fs) option) \<Rightarrow> os \<Rightarrow> ('a \<times> os) option" where
  "fs_call f u =
    do { (r, s) \<leftarrow> f (os_host u (os_calls u)) (os_fs u);
         Some (r, u\<lparr>os_fs := s, os_calls := os_calls u + 1\<rparr>) }"

definition proc_call :: "(kernel \<Rightarrow> ('a \<times> kernel) option) \<Rightarrow> os \<Rightarrow> ('a \<times> os) option" where
  "proc_call f u = do { (r, k) \<leftarrow> f (os_kernel u); Some (r, u\<lparr>os_kernel := k\<rparr>) }"

subsection \<open>Files\<close>

text \<open>\<open>map_errno\<close>; its argument is the code, an enumerator of \<open>PennFatErr\<close>.\<close>

definition map_errno :: "int \<Rightarrow> errno_value" where
  "map_errno e =
    (if e = err_code PennFatErr_PERM then EACCES
     else if e = err_code PennFatErr_NOTDIR then ENOTDIR
     else if e = err_code PennFatErr_EXISTS then ENOENT
     else if e = err_code PennFatErr_NOSPACE then ENOSPC
     else EIO)"

definition s_open :: "string option \<Rightarrow> int \<Rightarrow> os \<Rightarrow> (int \<times> os) option" where
  "s_open p m u =
    do { (r, u1) \<leftarrow> fs_call (\<lambda>h. k_open h p m) u;
         Some (r, set_errno (r < 0) (map_errno r) u1) }"

definition s_close :: "int \<Rightarrow> os \<Rightarrow> (int \<times> os) option" where
  "s_close fd u = fs_call (\<lambda>h s. Some (k_close h fd s)) u"

definition s_read :: "int \<Rightarrow> int \<Rightarrow> os \<Rightarrow> ((int \<times> string) \<times> os) option" where
  "s_read fd n u = fs_call (\<lambda>h s. map_option (\<lambda>(r, buf, s1). ((r, buf), s1)) (k_read h fd n s)) u"

definition s_write :: "int \<Rightarrow> string \<Rightarrow> int \<Rightarrow> os \<Rightarrow> (int \<times> os) option" where
  "s_write fd b n u = fs_call (\<lambda>h. k_write h fd b n) u"

definition s_touch :: "string option \<Rightarrow> os \<Rightarrow> (PennFatErr \<times> os) option" where
  "s_touch p u = fs_call (\<lambda>h. k_touch h p) u"

definition s_ls :: "string option \<Rightarrow> os \<Rightarrow> (PennFatErr \<times> os) option" where
  "s_ls p u =
    do { ((err, rows), u1) \<leftarrow> fs_call (\<lambda>h s. map_option (\<lambda>r. (r, s)) (k_ls h p s)) u;
         Some (err, print_out (Listing rows) u1) }"

definition s_chmod :: "string option \<Rightarrow> 8 word \<Rightarrow> os \<Rightarrow> (PennFatErr \<times> os) option" where
  "s_chmod p perm u = fs_call (\<lambda>h. k_chmod h p perm) u"

definition s_rename :: "string option \<Rightarrow> string option \<Rightarrow> os \<Rightarrow> (int \<times> os) option" where
  "s_rename old new u =
    do { (r, u1) \<leftarrow> fs_call (\<lambda>h. k_rename h old new) u;
         Some (if r \<noteq> PennFatErr_OK then -1 else 0, set_errno (r \<noteq> PennFatErr_OK) (map_errno (err_code r)) u1) }"

definition s_unlink :: "string option \<Rightarrow> os \<Rightarrow> (int \<times> os) option" where
  "s_unlink p u =
    do { (r, u1) \<leftarrow> fs_call (\<lambda>h. k_unlink h p) u;
         Some (if r \<noteq> PennFatErr_OK then -1 else 0, set_errno (r \<noteq> PennFatErr_OK) (map_errno (err_code r)) u1) }"

subsection \<open>Processes\<close>

text \<open>
  What the host decides when a process is spawned: the memory of the table, the address of the PCB,
  whether the two blocks of arguments can be allocated, and the thread, if it can be created.
\<close>

record spawn_env =
  sp_mem :: "paddr mem"
  sp_new :: "paddr option"
  sp_args_ok :: bool
  sp_wrap_ok :: bool
  sp_thread :: "nat option"

text \<open>
  The new process gets priority 1, whatever its parent's is. The descriptors for its input and output
  go into the argument block, which only the thread itself reads.
\<close>

definition s_spawn ::
  "spawn_env \<Rightarrow> nat \<Rightarrow> bool \<Rightarrow> string option list option \<Rightarrow> os \<Rightarrow> (string + int \<times> os) option" where
  "s_spawn env me has_func argv u =
    (if \<not> has_func then Some (Inr (-1, u\<lparr>os_errno := EINVAL\<rparr>))
     else do {
       parent \<leftarrow> k_get_self_pcb me (os_kernel u);
       case parent of
         None \<Rightarrow> Some (Inl ''non-null assertion failed'')
       | Some q \<Rightarrow> do {
           created \<leftarrow> k_proc_create (sp_mem env) (sp_new env) (Some q) 1 (os_kernel u);
           case created of
             Inl e \<Rightarrow> Some (Inl e)
           | Inr (child, k1) \<Rightarrow>
               if \<not> sp_args_ok env then
                 Some (map_sum id (\<lambda>(_, k2). (-1, u\<lparr>os_kernel := k2, os_errno := ENOMEM\<rparr>)) (k_proc_cleanup (Some child) k1))
               else do {
                 run \<leftarrow> k_set_routine_and_run (sp_wrap_ok env) (sp_thread env) (Some child) True argv k1;
                 case run of
                   Inl e \<Rightarrow> Some (Inl e)
                 | Inr (r, k2) \<Rightarrow>
                     if r < 0 then
                       Some (map_sum id (\<lambda>(_, k3). (-1, u\<lparr>os_kernel := k3, os_errno := EAGAIN\<rparr>)) (k_proc_cleanup (Some child) k2))
                     else do { p \<leftarrow> k_get_pid (Some child) k2; Some (Inr (p, u\<lparr>os_kernel := k2\<rparr>)) } } } })"

text \<open>
  A wait that does not block. When the child is a zombie, its thread has ended or is about to, and the
  join returns; \<open>want\<close>: the caller passes a pointer for the status.
\<close>

definition s_waitpid_nohang :: "nat \<Rightarrow> int \<Rightarrow> bool \<Rightarrow> os \<Rightarrow> (string + (int \<times> int option) \<times> os) option" where
  "s_waitpid_nohang me target want u =
    do { e \<leftarrow> k_waitpid_enter me target True (os_kernel u);
         case e of
           Inl msg \<Rightarrow> Some (Inl msg)
         | Inr (Returned r, k1) \<Rightarrow> Some (Inr ((r, None), set_errno (r < 0) ECHILD (u\<lparr>os_kernel := k1\<rparr>)))
         | Inr (Joining c s, k1) \<Rightarrow> do {
             k2 \<leftarrow> k_waitpid_joined s k1;
             reaped \<leftarrow> k_waitpid_reap c want k2;
             Some (map_sum id (\<lambda>(r, k3). (r, set_errno (fst r < 0) ECHILD (u\<lparr>os_kernel := k3\<rparr>))) reaped) } }"

definition s_kill :: "int \<Rightarrow> int \<Rightarrow> os \<Rightarrow> (int \<times> os) option" where
  "s_kill target signal u =
    do { (r, u1) \<leftarrow> proc_call (k_kill target signal) u; Some (r, set_errno (r < 0) ESRCH u1) }"

definition s_tcsetpid :: "int \<Rightarrow> os \<Rightarrow> int \<times> os" where
  "s_tcsetpid p u = (let r = k_tcsetpid p in (r, set_errno (r < 0) EPERM u))"

definition s_getselfpid :: "nat \<Rightarrow> os \<Rightarrow> (int \<times> os) option" where
  "s_getselfpid me u =
    do { self \<leftarrow> k_get_self_pcb me (os_kernel u);
         if self = None then Some (-1, u\<lparr>os_errno := ESRCH\<rparr>)
         else do { p \<leftarrow> k_get_pid self (os_kernel u); Some (p, u) } }"

definition s_printprocess :: "os \<Rightarrow> os option" where
  "s_printprocess u = do { rows \<leftarrow> k_printprocess (os_kernel u); Some (print_out (Processes rows) u) }"

definition s_exit :: "nat \<Rightarrow> os \<Rightarrow> os option" where
  "s_exit me u = do { k \<leftarrow> k_exit me (os_kernel u); Some (u\<lparr>os_kernel := k\<rparr>) }"

definition s_nice :: "int \<Rightarrow> int \<Rightarrow> os \<Rightarrow> (int \<times> os) option" where
  "s_nice target priority u =
    (if priority < 0 \<or> priority \<ge> 3 then Some (-1, u\<lparr>os_errno := EINVAL\<rparr>)
     else proc_call (k_nice target priority) u)"

definition s_sleep :: "nat \<Rightarrow> 32 word \<Rightarrow> os \<Rightarrow> (paddr \<times> os) option" where
  "s_sleep me ticks u = proc_call (k_sleep_enter me ticks) u"

definition s_pipe :: "os \<Rightarrow> int \<times> os" where
  "s_pipe u = (k_pipe, set_errno (k_pipe < 0) EMFILE u)"

end
