(* ===== verification/JobTable.thy ===== *)
theory JobTable
  imports Syscalls
begin

text \<open>
  The job table of the shell, \<open>src/user/jobs.c\<close>. It is compiled with \<open>src/common/pennos_signal.h\<close>, whose
  numbers of the signals and whose macros differ from those of the kernel
  (\<open>kernel_definition.h\<close>): they are the constants with \<open>USER\<close>. \<open>next_jid\<close> wraps only after as many jobs as
  an \<open>int\<close> counts, and is an \<open>int\<close> here.
\<close>

definition USER_SIGSTOP :: int where "USER_SIGSTOP = 0"
definition USER_SIGCONT :: int where "USER_SIGCONT = 1"
definition USER_SIGTERM :: int where "USER_SIGTERM = 2"

definition USER_WIFSTOPPED :: "int \<Rightarrow> bool" where "USER_WIFSTOPPED st \<longleftrightarrow> st = USER_SIGSTOP"

subsection \<open>The state\<close>

definition MAX_JOBS :: nat where "MAX_JOBS = 64"

datatype job_state = JOB_RUNNING | JOB_STOPPED | JOB_DONE

record job =
  jid :: int
  job_pid :: int
  cmdline :: string
  jstate :: job_state

definition no_job :: job where "no_job = \<lparr>jid = 0, job_pid = 0, cmdline = [], jstate = JOB_RUNNING\<rparr>"

record jobs =
  job_table :: "job list"
  next_jid :: int
  fg_index :: "nat option"

definition jobs_start :: jobs where
  "jobs_start = \<lparr>job_table = replicate MAX_JOBS no_job, next_jid = 1, fg_index = None\<rparr>"

definition jobs_init :: "jobs \<Rightarrow> jobs" where
  "jobs_init j = j\<lparr>job_table := replicate MAX_JOBS no_job\<rparr>"

subsection \<open>The operations\<close>

definition find_empty_slot :: "jobs \<Rightarrow> nat option" where
  "find_empty_slot j = find_idx (\<lambda>e. jid e = 0) (job_table j)"

definition index_by_pid :: "int \<Rightarrow> jobs \<Rightarrow> nat option" where
  "index_by_pid p j = find_idx (\<lambda>e. jid e \<noteq> 0 \<and> job_pid e = p) (job_table j)"

definition set_job :: "nat \<Rightarrow> job \<Rightarrow> jobs \<Rightarrow> jobs" where
  "set_job i e j = j\<lparr>job_table := (job_table j)[i := e]\<rparr>"

text \<open>
  The slot keeps the tail of an older command line only where \<open>strncpy\<close> does not write; as \<open>strncpy\<close>
  fills up with NUL, the string is the first 127 bytes.
\<close>

definition jobs_add :: "int \<Rightarrow> string \<Rightarrow> bool \<Rightarrow> jobs \<Rightarrow> int \<times> jobs" where
  "jobs_add p cmd bg j =
    (case find_empty_slot j of
       None \<Rightarrow> (-1, j)
     | Some i \<Rightarrow>
         let j1 = (set_job i \<lparr>jid = next_jid j, job_pid = p, cmdline = take 127 cmd, jstate = JOB_RUNNING\<rparr> j)
                    \<lparr>next_jid := next_jid j + 1\<rparr> in
         (next_jid j, if bg then j1 else j1\<lparr>fg_index := Some i\<rparr>))"

definition jobs_update :: "int \<Rightarrow> job_state \<Rightarrow> jobs \<Rightarrow> jobs" where
  "jobs_update p st j =
    (case index_by_pid p j of None \<Rightarrow> j | Some i \<Rightarrow> set_job i ((job_table j ! i)\<lparr>jstate := st\<rparr>) j)"

definition jobs_remove :: "int \<Rightarrow> jobs \<Rightarrow> jobs" where
  "jobs_remove p j = (case index_by_pid p j of None \<Rightarrow> j | Some i \<Rightarrow> set_job i no_job j)"

text \<open>The slot a pointer to a job stands for; a job id of 0 finds an unused slot.\<close>

definition jobs_by_jid :: "int \<Rightarrow> jobs \<Rightarrow> nat option" where
  "jobs_by_jid n j = find_idx (\<lambda>e. jid e = n) (job_table j)"

definition jobs_current_fg :: "jobs \<Rightarrow> nat option" where "jobs_current_fg j = fg_index j"

definition jobs_have_stopped :: "jobs \<Rightarrow> bool" where
  "jobs_have_stopped j \<longleftrightarrow> (\<exists>e\<in>set (job_table j). jid e \<noteq> 0 \<and> jstate e = JOB_STOPPED)"

definition jobs_list :: "jobs \<Rightarrow> (int \<times> string \<times> string) list" where
  "jobs_list j = map (\<lambda>e. (jid e,
      (case jstate e of JOB_RUNNING \<Rightarrow> ''Running'' | JOB_STOPPED \<Rightarrow> ''Stopped'' | JOB_DONE \<Rightarrow> ''Done''), cmdline e))
     (filter (\<lambda>e. jid e \<noteq> 0) (job_table j))"

subsection \<open>The handler of SIGCHLD\<close>

definition reaped_state :: "int \<Rightarrow> job_state" where
  "reaped_state wstatus =
    (if USER_WIFSTOPPED wstatus then JOB_STOPPED
     else if wstatus = USER_SIGCONT then JOB_RUNNING
     else JOB_DONE)"

text \<open>One slot; a wait that returns a pid has stored a status.\<close>

definition chld_slot :: "nat \<Rightarrow> nat \<Rightarrow> jobs \<times> os \<Rightarrow> (string + jobs \<times> os) option" where
  "chld_slot me i ju =
    (let (j, u) = ju; e = job_table j ! i in
     if jid e = 0 then Some (Inr (j, u))
     else do {
       w \<leftarrow> s_waitpid_nohang me (job_pid e) True u;
       case w of
         Inl msg \<Rightarrow> Some (Inl msg)
       | Inr ((p, st), u1) \<Rightarrow>
           if p \<le> 0 then Some (Inr (j, u1))
           else do {
             wstatus \<leftarrow> st;
             let e1 = e\<lparr>jstate := reaped_state wstatus\<rparr>;
             let j1 = set_job i e1 j;
             Some (Inr (if fg_index j1 = Some i \<and> jstate e1 \<noteq> JOB_RUNNING then j1\<lparr>fg_index := None\<rparr> else j1, u1)) } })"

fun chld_slots :: "nat \<Rightarrow> nat list \<Rightarrow> jobs \<times> os \<Rightarrow> (string + jobs \<times> os) option" where
  "chld_slots me [] ju = Some (Inr ju)"
| "chld_slots me (i # is) ju =
    do { r \<leftarrow> chld_slot me i ju;
         case r of Inl msg \<Rightarrow> Some (Inl msg) | Inr ju1 \<Rightarrow> chld_slots me is ju1 }"

definition chld_handler :: "nat \<Rightarrow> jobs \<times> os \<Rightarrow> (string + jobs \<times> os) option" where
  "chld_handler me ju = chld_slots me [0..<MAX_JOBS] ju"

text \<open>Nothing sets \<open>helper_pid\<close>, so that the call never has an effect.\<close>

definition jobs_shutdown :: "int \<Rightarrow> os \<Rightarrow> os option" where
  "jobs_shutdown helper_pid u =
    (if helper_pid > 0 then map_option snd (s_kill helper_pid USER_SIGTERM u) else Some u)"

end
