(* ===== verification/CLib.thy ===== *)
theory CLib
  imports FileOps ShellParser
begin

text \<open>
  What the command programs use of the C library on strings and numbers: \<open>strtol\<close>, \<open>atoi\<close>, \<open>%d\<close> of
  \<open>printf\<close>, and \<open>fgets\<close>.
\<close>

definition is_digit :: "char \<Rightarrow> bool" where
  "is_digit c \<longleftrightarrow> 48 \<le> (of_char c :: nat) \<and> (of_char c :: nat) \<le> 57"

definition digit_value :: "char \<Rightarrow> int" where "digit_value c = of_char c - 48"

definition digits_value :: "string \<Rightarrow> int" where
  "digits_value ds = fold (\<lambda>c n. 10 * n + digit_value c) ds 0"

definition LONG_MAX :: int where "LONG_MAX = 2 ^ 63 - 1"

text \<open>
  \<open>strtol\<close> with base 10: spaces, a sign, digits; the value is clamped to a \<open>long\<close>. Without digits the
  end is the start of the string.
\<close>

definition strtol10 :: "string \<Rightarrow> int \<times> string" where
  "strtol10 s =
    (let t = dropWhile is_space s;
         negative = (t \<noteq> [] \<and> hd t = CHR ''-'');
         r = (if t \<noteq> [] \<and> (hd t = CHR ''-'' \<or> hd t = CHR ''+'') then tl t else t);
         ds = takeWhile is_digit r in
     if ds = [] then (0, s)
     else (if negative then max (- LONG_MAX - 1) (- digits_value ds) else min LONG_MAX (digits_value ds),
           dropWhile is_digit r))"

definition atoi :: "string \<Rightarrow> int" where "atoi s = int32 (fst (strtol10 s))"

function show_nat :: "nat \<Rightarrow> string" where
  "show_nat n = (if n < 10 then [char_of (48 + n)] else show_nat (n div 10) @ [char_of (48 + n mod 10)])"
  by pat_completeness auto
termination by (relation "measure id") auto

declare show_nat.simps [simp del]

definition show_int :: "int \<Rightarrow> string" where
  "show_int i = (if i < 0 then ''-'' @ show_nat (nat (- i)) else show_nat (nat i))"

text \<open>
  \<open>fgets\<close> with a buffer of \<open>n\<close> bytes: the bytes up to a newline, at most \<open>n - 1\<close>, and what is left of
  the input; \<^const>\<open>None\<close> is \<open>NULL\<close>, at the end of the input.
\<close>

fun line_of :: "nat \<Rightarrow> string \<Rightarrow> string" where
  "line_of 0 s = []"
| "line_of (Suc n) [] = []"
| "line_of (Suc n) (c # s) = c # (if c = CHR 0x0A then [] else line_of n s)"

definition fgets :: "nat \<Rightarrow> string \<Rightarrow> (string \<times> string) option" where
  "fgets n s = (if s = [] then None else let l = line_of (n - 1) s in Some (l, drop (length l) s))"

text \<open>A name in single quotes, as in the messages.\<close>

definition quoted :: "string \<Rightarrow> string" where "quoted f = [CHR 0x27] @ f @ [CHR 0x27]"

subsection \<open>The number a string stands for\<close>

lemma digit_char:
  assumes "n < 10"
  shows "is_digit (char_of (48 + n))" and "digit_value (char_of (48 + n)) = int n"
proof -
  have c: "(of_char (char_of (48 + n)) :: nat) = 48 + n" using assms by simp
  show "is_digit (char_of (48 + n))" using assms by (simp add: is_digit_def)
  have "(of_char (char_of (48 + n)) :: int) = int (48 + n)" using c by (metis of_nat_of_char)
  then show "digit_value (char_of (48 + n)) = int n" by (simp add: digit_value_def)
qed

lemma show_nat_digits: "list_all is_digit (show_nat n) \<and> show_nat n \<noteq> [] \<and> digits_value (show_nat n) = int n"
proof (induction n rule: show_nat.induct)
  case (1 n)
  show ?case
  proof (cases "n < 10")
    case True
    then show ?thesis using digit_char [OF True] by (simp add: show_nat.simps [of n] digits_value_def)
  next
    case False
    have m: "n mod 10 < 10" by simp
    have "digits_value (show_nat n) = 10 * digits_value (show_nat (n div 10)) + int (n mod 10)"
      using False digit_char(2) [OF m] by (simp add: show_nat.simps [of n] digits_value_def)
    also have "\<dots> = int n" using 1 False by presburger
    finally show ?thesis using 1 False digit_char(1) [OF m] by (simp add: show_nat.simps [of n])
  qed
qed

lemma digit_plain: "is_digit c \<Longrightarrow> \<not> is_space c \<and> c \<noteq> CHR ''-'' \<and> c \<noteq> CHR ''+''"
  by (auto simp: is_digit_def is_space_def)

text \<open>Reading back a number that \<open>%d\<close> has printed.\<close>

lemma strtol10_show_int:
  assumes "\<bar>i\<bar> \<le> LONG_MAX"
  shows "strtol10 (show_int i) = (i, [])"
proof -
  obtain ds where e: "ds = show_nat (nat \<bar>i\<bar>)" by simp
  then have ds: "list_all is_digit ds" "ds \<noteq> []" "digits_value ds = \<bar>i\<bar>"
    using show_nat_digits [of "nat \<bar>i\<bar>"] by auto
  from ds(1) have tk: "takeWhile is_digit ds = ds" "dropWhile is_digit ds = []"
    by (auto simp: takeWhile_eq_all_conv dropWhile_eq_Nil_conv list_all_iff)
  obtain c cs where c: "ds = c # cs" using ds(2) by (cases ds) auto
  then have pl: "dropWhile is_space ds = ds" "hd ds \<noteq> CHR ''-''" "hd ds \<noteq> CHR ''+''"
    using ds(1) digit_plain by auto
  show ?thesis
  proof (cases "i < 0")
    case True
    have "\<not> is_space CHR ''-''" by (simp add: is_space_def)
    then have "strtol10 (''-'' @ ds) = (max (- LONG_MAX - 1) (- \<bar>i\<bar>), [])"
      using ds by (simp add: strtol10_def Let_def tk)
    then show ?thesis using True assms e by (simp add: show_int_def)
  next
    case False
    have "strtol10 ds = (min LONG_MAX \<bar>i\<bar>, [])"
      using ds by (simp add: strtol10_def Let_def tk pl)
    then show ?thesis using False assms e by (simp add: show_int_def)
  qed
qed

lemma line_of_ne: "s \<noteq> [] \<Longrightarrow> 0 < n \<Longrightarrow> line_of n s \<noteq> []"
  by (cases n; cases s) auto

lemma line_of_prefix: "take (length (line_of n s)) s = line_of n s \<and> length (line_of n s) \<le> n"
  by (induction n s rule: line_of.induct) auto

end
