(* ===== verification/UserShell.thy ===== *)
theory UserShell
  imports JobTable CLib
begin

text \<open>
  The built-in commands and the pipelines of the user shell, \<open>src/user/shell.c\<close>. A command gets its
  words as \<open>argv\<close>, the name of the command first; a loop over the words that ends at the \<open>NULL\<close> is a
  recursion over the list. Messages are collected in \<open>os_err\<close>, output in \<open>os_out\<close>.

  The file is compiled with the signal numbers of \<open>pennos_signal.h\<close>. The commands \<open>busy\<close>, \<open>zombify\<close> and
  \<open>orphanify\<close> are loops that do not end, \<open>man\<close> prints a constant text.
\<close>

subsection \<open>Numbers\<close>

text \<open>The conversion of the \<open>long\<close> to \<open>int\<close> keeps the low 32 bits.\<close>

definition str_to_int :: "string option \<Rightarrow> int option" where
  "str_to_int s =
    (case s of None \<Rightarrow> None
     | Some t \<Rightarrow> (case strtol10 t of (res, end_ptr) \<Rightarrow> if end_ptr \<noteq> [] then None else Some (int32 res)))"

definition word_at :: "nat \<Rightarrow> string list \<Rightarrow> string option" where
  "word_at i argv = (if i < length argv then Some (argv ! i) else None)"

subsection \<open>Files\<close>

fun touch_loop :: "string list \<Rightarrow> os \<Rightarrow> os option" where
  "touch_loop [] u = Some u"
| "touch_loop (f # fs) u =
    do { (err, u1) \<leftarrow> s_touch (Some f) u;
         touch_loop fs (if err \<noteq> PennFatErr_OK
           then print_err (''touch: '' @ f @ '': '' @ PennFatErr_toErrString (err_code err)) u1 else u1) }"

definition touch :: "string list \<Rightarrow> os \<Rightarrow> os option" where
  "touch argv u =
    (if length argv < 2 then Some (print_err ''touch: missing operand'' u) else touch_loop (tl argv) u)"

definition ls :: "os \<Rightarrow> os option" where
  "ls u = do { (err, u1) \<leftarrow> s_ls None u;
               Some (if err \<noteq> PennFatErr_OK
                 then print_err (''ls: '' @ PennFatErr_toErrString (err_code err)) u1 else u1) }"

text \<open>The loop over a permission string; \<^const>\<open>None\<close> is an illegal character.\<close>

fun perm_bits :: "string \<Rightarrow> 8 word \<Rightarrow> 8 word option" where
  "perm_bits [] m = Some m"
| "perm_bits (c # cs) m =
    (if c = CHR ''r'' then perm_bits cs (m OR PERM_READ)
     else if c = CHR ''w'' then perm_bits cs (m OR PERM_WRITE)
     else if c = CHR ''x'' then perm_bits cs (m OR PERM_EXEC)
     else None)"

definition parse_perm_string :: "string \<Rightarrow> 8 word" where
  "parse_perm_string s =
    (case perm_bits (if s \<noteq> [] \<and> (hd s = CHR ''+'' \<or> hd s = CHR ''-'') then tl s else s) 0 of
       None \<Rightarrow> 0xFF | Some m \<Rightarrow> if m = 0 then 0xFF else m)"

fun chmod_loop :: "8 word \<Rightarrow> string list \<Rightarrow> os \<Rightarrow> os option" where
  "chmod_loop perm [] u = Some u"
| "chmod_loop perm (f # fs) u =
    do { (err, u1) \<leftarrow> s_chmod (Some f) perm u;
         chmod_loop perm fs (if err \<noteq> PennFatErr_OK
           then print_err (''chmod: '' @ f @ '': '' @ PennFatErr_toErrString (err_code err)) u1 else u1) }"

definition chmod :: "string list \<Rightarrow> os \<Rightarrow> os option" where
  "chmod argv u =
    (if length argv < 3 then Some (print_err ''chmod: usage: chmod PERMS FILE ...'' u)
     else let perm = parse_perm_string (argv ! 1) in
       if perm = 0xFF then Some (print_err (''chmod: invalid permission string '' @ quoted (argv ! 1)) u)
       else chmod_loop perm (drop 2 argv) u)"

definition CAT_BUFSZ :: int where "CAT_BUFSZ = 4096"

text \<open>
  Copying a descriptor to the output; the flag tells whether a read error is reported, as it is when
  \<open>cat\<close> reads a file, and not when it reads descriptor 0.
\<close>

partial_function (option) cat_loop :: "bool \<Rightarrow> int \<Rightarrow> os \<Rightarrow> os option" where
  "cat_loop report fd u =
    do { ((n, buf), u1) \<leftarrow> s_read fd CAT_BUFSZ u;
         if n < 0 then Some (if report then print_err ''cat: read error'' u1 else u1)
         else if n = 0 then Some u1
         else cat_loop report fd (print_out (Text (take (nat n) buf)) u1) }"

declare cat_loop.simps [code]

fun cat_files :: "string list \<Rightarrow> os \<Rightarrow> os option" where
  "cat_files [] u = Some u"
| "cat_files (f # fs) u =
    do { (fd, u1) \<leftarrow> s_open (Some f) K_O_RDONLY u;
         if fd < 0 then cat_files fs (print_err (''cat: '' @ f @ '': '' @ PennFatErr_toErrString fd) u1)
         else do { u2 \<leftarrow> cat_loop True fd u1;
                   (_, u3) \<leftarrow> s_close fd u2;
                   cat_files fs u3 } }"

definition cat :: "string list \<Rightarrow> os \<Rightarrow> os option" where
  "cat argv u = (if length argv < 2 then cat_loop False 0 u else cat_files (tl argv) u)"

fun joined_words :: "string list \<Rightarrow> string" where
  "joined_words [] = []"
| "joined_words [w] = w"
| "joined_words (w # v # ws) = w @ '' '' @ joined_words (v # ws)"

definition echo :: "string list \<Rightarrow> os \<Rightarrow> os" where
  "echo argv u = print_out (Text (joined_words (tl argv) @ [CHR 0x0A])) u"

partial_function (option) cp_loop :: "int \<Rightarrow> int \<Rightarrow> os \<Rightarrow> os option" where
  "cp_loop src_fd dst_fd u =
    do { ((n, buf), u1) \<leftarrow> s_read src_fd 4096 u;
         if n < 0 then Some (print_err ''cp: read error'' u1)
         else if n = 0 then Some u1
         else do {
           (w, u2) \<leftarrow> s_write dst_fd buf n u1;
           if w \<noteq> n then Some (print_err ''cp: write error'' u2)
           else cp_loop src_fd dst_fd u2 } }"

declare cp_loop.simps [code]

definition cp :: "string list \<Rightarrow> os \<Rightarrow> os option" where
  "cp argv u =
    (if length argv < 3 then Some (print_err ''cp: usage: cp SRC DST'' u)
     else do {
       (src_fd, u1) \<leftarrow> s_open (Some (argv ! 1)) K_O_RDONLY u;
       if src_fd < 0 then Some (print_err (''cp: cannot open '' @ argv ! 1) u1)
       else do {
         (dst_fd, u2) \<leftarrow> s_open (Some (argv ! 2)) (K_O_CREATE OR K_O_WRONLY) u1;
         if dst_fd < 0 then do {
           (_, u3) \<leftarrow> s_close src_fd (print_err (''cp: cannot create '' @ argv ! 2) u2);
           Some u3 }
         else do {
           u3 \<leftarrow> cp_loop src_fd dst_fd u2;
           (_, u4) \<leftarrow> s_close src_fd u3;
           (_, u5) \<leftarrow> s_close dst_fd u4;
           Some u5 } } })"

definition mv :: "string list \<Rightarrow> os \<Rightarrow> os option" where
  "mv argv u =
    (if length argv < 3 then Some (print_err ''mv: usage: mv SOURCE DEST'' u)
     else do {
       (err, u1) \<leftarrow> s_rename (Some (argv ! 1)) (Some (argv ! 2)) u;
       Some (if err \<noteq> 0 then print_err (''Error renaming '' @ argv ! 1 @ '' to '' @ argv ! 2 @ '': '' @ PennFatErr_toErrString err) u1
             else u1) })"

fun rm_loop :: "string list \<Rightarrow> os \<Rightarrow> os option" where
  "rm_loop [] u = Some u"
| "rm_loop (f # fs) u =
    do { (err, u1) \<leftarrow> s_unlink (Some f) u;
         rm_loop fs (if err \<noteq> 0 then print_err (''Error removing '' @ f @ '': '' @ PennFatErr_toErrString err) u1 else u1) }"

definition rm :: "string list \<Rightarrow> os \<Rightarrow> os option" where
  "rm argv u = (if length argv < 2 then Some (print_err ''rm: usage: rm FILE...'' u) else rm_loop (tl argv) u)"

subsection \<open>Processes\<close>

text \<open>\<open>printf\<close> of a null pointer.\<close>

definition show_word :: "string option \<Rightarrow> string" where
  "show_word w = (case w of None \<Rightarrow> ''(null)'' | Some t \<Rightarrow> t)"

definition ps :: "os \<Rightarrow> os option" where "ps u = s_printprocess u"

text \<open>The option of \<open>kill\<close>: the signal and the index of the pid; \<^const>\<open>None\<close> is an unknown option.\<close>

definition kill_option :: "string \<Rightarrow> (int \<times> nat) option" where
  "kill_option w =
    (if w \<noteq> [] \<and> hd w = CHR ''-'' then
       (if w = ''-cont'' then Some (USER_SIGCONT, 2)
        else if w = ''-stop'' then Some (USER_SIGSTOP, 2)
        else if w = ''-term'' then Some (USER_SIGTERM, 2)
        else None)
     else Some (USER_SIGTERM, 1))"

definition kill_cmd :: "string list \<Rightarrow> os \<Rightarrow> os option" where
  "kill_cmd argv u =
    (if argv = [] then Some (print_err ''Error: Invalid arg.'' u)
     else if length argv < 2 then Some (print_err (hd argv @ '' Error: Incorrect number of args.'') u)
     else case kill_option (argv ! 1) of
       None \<Rightarrow> Some (print_err (hd argv @ '' Error: Invalid arg: '' @ argv ! 1 @ ''.'') u)
     | Some (signal, i) \<Rightarrow>
         (case str_to_int (word_at i argv) of
            Some p \<Rightarrow>
              if p \<le> 0 then Some (print_err (hd argv @ '' Error: Invalid arg: '' @ show_word (word_at i argv) @
                ''. PID number should be a positive integer.'') u)
              else do {
                (r, u1) \<leftarrow> s_kill p signal u;
                Some (if r = 0 then print_err (''Signal <'' @ show_int signal @ ''> sent to PID ['' @ show_int p @ ''].'') u1
                      else print_err (''Error sending signal to PID ['' @ show_int p @ ''].'') u1) }
          | None \<Rightarrow> Some (print_err (hd argv @ '' Error: Invalid arg: '' @ show_word (word_at i argv) @
                ''. PID number should be a positive integer.'') u)))"

definition valid_priority :: "int option \<Rightarrow> bool" where
  "valid_priority p = (case p of None \<Rightarrow> False | Some i \<Rightarrow> 0 \<le> i \<and> i < 3)"

definition u_nice_pid :: "string list \<Rightarrow> os \<Rightarrow> os option" where
  "u_nice_pid argv u =
    (if argv = [] then Some (print_err ''Error: Invalid arg.'' u)
     else if length argv \<noteq> 3 then Some (print_err (hd argv @ '' Error: Incorrect number of args.'') u)
     else case str_to_int (Some (argv ! 2)) of
       None \<Rightarrow> Some (print_err (hd argv @ '' Error: Invalid args. PID number should be a positive integer.'') u)
     | Some p \<Rightarrow>
         if p \<le> 0 then Some (print_err (hd argv @ '' Error: Invalid args. PID number should be a positive integer.'') u)
         else let prio = str_to_int (Some (argv ! 1)) in
           if \<not> valid_priority prio
           then Some (print_err (hd argv @ '' Error: Invalid args. Priority should be an integer between 0 and 2.'') u)
           else do {
             (r, u1) \<leftarrow> s_nice p (the prio) u;
             Some (if r = 0 then print_err (''Successfully set PID['' @ show_int p @ ''] to priority '' @ show_int (the prio) @ ''.'') u1
                   else print_err (hd argv @ '' failed'') u1) })"

text \<open>The two dispatch tables; a function is known by its name.\<close>

definition inline_funcs :: "string list" where
  "inline_funcs = [''nice_pid'', ''jobs'', ''bg'', ''fg'', ''logout'', ''man'']"

definition independent_funcs :: "string list" where
  "independent_funcs = [''ps'', ''echo'', ''sleep'', ''touch'', ''ls'', ''cat'', ''chmod'', ''zombify'', ''orphanify'',
     ''busy'', ''kill'', ''nice'', ''cp'', ''mv'', ''rm'']"

definition get_func_from_cmd :: "string \<Rightarrow> string list \<Rightarrow> string option" where
  "get_func_from_cmd name fs = List.find (\<lambda>f. f = name) fs"

definition u_nice :: "spawn_env \<Rightarrow> nat \<Rightarrow> string list \<Rightarrow> os \<Rightarrow> (string + os) option" where
  "u_nice env me argv u =
    (if argv = [] then Some (Inr (print_err ''Error: Invalid arg.'' u))
     else if length argv < 3 then Some (Inr (print_err (hd argv @ '' Error: Incorrect number of args.'') u))
     else let prio = str_to_int (Some (argv ! 1)) in
       if \<not> valid_priority prio
       then Some (Inr (print_err (hd argv @ '' Error: Invalid args. Priority should be an integer between 0 and 2.'') u))
       else if get_func_from_cmd (argv ! 2) independent_funcs = None
       then Some (Inr (print_err (''Invalid command: '' @ argv ! 2) u))
       else do {
         spawned \<leftarrow> s_spawn env me True (Some (map Some (drop 2 argv))) u;
         case spawned of
           Inl e \<Rightarrow> Some (Inl e)
         | Inr (child_pid, u1) \<Rightarrow>
             if child_pid < 0
             then Some (Inr (print_err (hd argv @ '' Failed to spawn process for command: '' @ argv ! 2) u1))
             else do {
               (r, u2) \<leftarrow> s_nice child_pid (the prio) u1;
               Some (Inr (if r = 0
                 then print_err (''Command run as PID['' @ show_int child_pid @ ''] and set to priority '' @
                        show_int (the prio) @ '': '' @ argv ! 2) u2
                 else print_err (''Command run as PID['' @ show_int child_pid @ ''] but set priority failed: '' @ argv ! 2) u2)) } })"

text \<open>\<open>sleep\<close>, up to the point where the process suspends itself, if it does.\<close>

definition u_sleep :: "nat \<Rightarrow> string list \<Rightarrow> os \<Rightarrow> (paddr option \<times> os) option" where
  "u_sleep me argv u =
    (if length argv < 2 then Some (None, print_err ''sleep: missing <seconds>'' u)
     else if \<not> list_all is_digit (argv ! 1)
     then Some (None, print_err (''sleep: '' @ quoted (argv ! 1) @ '' is not a positive integer'') u)
     else let secs = atoi (argv ! 1) in
       if secs \<le> 0 then Some (None, u)
       else do { (s, u1) \<leftarrow> s_sleep me (word_of_int (int32 (secs * 10))) u; Some (Some s, u1) })"

text \<open>
  The test helpers: the two children that \<open>orphanify\<close> leaves behind when it returns, and the child that
  \<open>zombify\<close> starts before its endless loop. Their results are not looked at.
\<close>

definition zombify_spawn :: "spawn_env \<Rightarrow> nat \<Rightarrow> os \<Rightarrow> (string + int \<times> os) option" where
  "zombify_spawn env me u = s_spawn env me True (Some [Some ''zombie_child'']) u"

definition orphanify :: "(nat \<Rightarrow> spawn_env) \<Rightarrow> nat \<Rightarrow> os \<Rightarrow> (string + os) option" where
  "orphanify env me u =
    do { r1 \<leftarrow> s_spawn (env 0) me True (Some [Some ''orphan_child'']) u;
         case r1 of
           Inl e \<Rightarrow> Some (Inl e)
         | Inr (_, u1) \<Rightarrow> do {
             r2 \<leftarrow> s_spawn (env 1) me True (Some [Some ''orphan_child_autodie'']) u1;
             Some (map_sum id snd r2) } }"

subsection \<open>Pipelines\<close>

definition open_for_read :: "string \<Rightarrow> os \<Rightarrow> (int \<times> os) option" where
  "open_for_read path u = s_open (Some path) K_O_RDONLY u"

definition open_for_write :: "string \<Rightarrow> bool \<Rightarrow> os \<Rightarrow> (int \<times> os) option" where
  "open_for_write path is_append u =
    s_open (Some path) (K_O_CREATE OR (if is_append then K_O_APPEND else K_O_WRONLY)) u"

text \<open>\<^const>\<open>None\<close> in the result stands for -1.\<close>

definition open_redirect :: "string \<Rightarrow> int \<Rightarrow> os \<Rightarrow> (int option \<times> os) option" where
  "open_redirect path flags u =
    do { (newfd, u1) \<leftarrow> s_open (Some path) flags u;
         Some (if newfd < 0 then (None, print_err (''shell: cannot open '' @ path) u1) else (Some newfd, u1)) }"

definition spawn_stage :: "spawn_env \<Rightarrow> nat \<Rightarrow> string list \<Rightarrow> os \<Rightarrow> (string + int \<times> os) option" where
  "spawn_stage env me argv u =
    (if argv = [] then Some (Inr (-1, u))
     else if get_func_from_cmd (hd argv) independent_funcs = None
     then Some (Inr (-1, print_err (''command not found: '' @ hd argv) u))
     else s_spawn env me True (Some (map Some argv)) u)"

definition close_unless :: "int \<Rightarrow> int \<Rightarrow> os \<Rightarrow> os option" where
  "close_unless std fd u = (if fd \<noteq> std then map_option snd (s_close fd u) else Some u)"

text \<open>
  The loop over the stages. \<open>s_pipe\<close> does not store descriptors, so the array keeps its initial -1. Only
  the last stage has \<open>stdout_file\<close>; the file for standard error is \<open>NULL\<close> in the only call.
\<close>

fun stage_loop ::
  "(nat \<Rightarrow> spawn_env) \<Rightarrow> nat \<Rightarrow> string option \<Rightarrow> bool \<Rightarrow> nat \<Rightarrow> int \<Rightarrow> int \<Rightarrow> string list list \<Rightarrow> os \<Rightarrow>
   (string + int \<times> os) option" where
  "stage_loop env me out_file is_append i prev_rd first_pid [] u = Some (Inr (first_pid, u))"
| "stage_loop env me out_file is_append i prev_rd first_pid (argv # rest) u =
    do { (this_out, u1) \<leftarrow>
           (if rest \<noteq> [] then let (r, u') = s_pipe u in
              Some (if r < 0 then (None, print_err ''pipe'' u') else (Some (-1), u'))
            else case out_file of
              None \<Rightarrow> Some (Some 1, u)
            | Some f \<Rightarrow> open_redirect f (K_O_CREATE OR (if is_append then K_O_APPEND else K_O_WRONLY)) u);
         case this_out of
           None \<Rightarrow> Some (Inr (-1, u1))
         | Some out_fd \<Rightarrow> do {
             spawned \<leftarrow> spawn_stage (env i) me argv u1;
             case spawned of
               Inl e \<Rightarrow> Some (Inl e)
             | Inr (p, u2) \<Rightarrow>
                 if p < 0 then Some (Inr (-1, u2))
                 else do {
                   u3 \<leftarrow> close_unless 0 prev_rd u2;
                   u4 \<leftarrow> close_unless 1 out_fd u3;
                   stage_loop env me out_file is_append (Suc i) (-1) (if first_pid = -1 then p else first_pid) rest u4 } } }"

definition process_one_command ::
  "(nat \<Rightarrow> spawn_env) \<Rightarrow> nat \<Rightarrow> string list list \<Rightarrow> string option \<Rightarrow> string option \<Rightarrow> bool \<Rightarrow> os \<Rightarrow>
   (string + int \<times> os) option" where
  "process_one_command env me cmdv in_file out_file is_append u =
    (case in_file of
       None \<Rightarrow> stage_loop env me out_file is_append 0 0 (-1) cmdv u
     | Some f \<Rightarrow> do {
         (prev_rd, u1) \<leftarrow> open_redirect f K_O_RDONLY u;
         case prev_rd of
           None \<Rightarrow> Some (Inr (-1, u1))
         | Some fd \<Rightarrow> stage_loop env me out_file is_append 0 fd (-1) cmdv u1 })"

subsection \<open>Job control and the main function\<close>

record shell =
  sh_os :: os
  sh_jobs :: jobs
  exit_shell :: bool
  current_fg_pid :: int

definition with_os :: "shell \<Rightarrow> (os \<Rightarrow> os option) \<Rightarrow> shell option" where
  "with_os sh f = map_option (\<lambda>u. sh\<lparr>sh_os := u\<rparr>) (f (sh_os sh))"

text \<open>The job named by an argument of the form \<open>%N\<close>, as the id after its first character.\<close>

definition job_argument :: "string list \<Rightarrow> int" where
  "job_argument argv = (if length argv < 2 then -1 else atoi (drop 1 (argv ! 1)))"

definition bg :: "string list \<Rightarrow> shell \<Rightarrow> shell option" where
  "bg argv sh =
    (let n = job_argument argv; slot = (if n > 0 then jobs_by_jid n (sh_jobs sh) else None) in
     case slot of
       None \<Rightarrow> Some (sh\<lparr>sh_os := print_err ''bg: job not found'' (sh_os sh)\<rparr>)
     | Some i \<Rightarrow>
         let e = job_table (sh_jobs sh) ! i in
         do { (_, u) \<leftarrow> s_kill (job_pid e) USER_SIGCONT (sh_os sh);
              Some (sh\<lparr>sh_os := print_err (''['' @ show_int (jid e) @ ''] '' @ cmdline e @ '' &'') u,
                       sh_jobs := set_job i (e\<lparr>jstate := JOB_RUNNING\<rparr>) (sh_jobs sh)\<rparr>) })"

definition fg :: "nat \<Rightarrow> int \<Rightarrow> string list \<Rightarrow> shell \<Rightarrow> (string + shell) option" where
  "fg me shell_pgid argv sh =
    (let n = job_argument argv;
         slot = (if n > 0 then jobs_by_jid n (sh_jobs sh) else jobs_current_fg (sh_jobs sh)) in
     case slot of
       None \<Rightarrow> Some (Inr (sh\<lparr>sh_os := print_err ''fg: job not found'' (sh_os sh)\<rparr>))
     | Some i \<Rightarrow>
         let e = job_table (sh_jobs sh) ! i in
         do { (_, u) \<leftarrow> s_kill (job_pid e) USER_SIGCONT (sh_os sh);
              let u1 = snd (s_tcsetpid (job_pid e) u);
              w \<leftarrow> s_waitpid_nohang me (job_pid e) False u1;
              Some (map_sum id (\<lambda>(_, u2). sh\<lparr>sh_os := snd (s_tcsetpid shell_pgid u2),
                sh_jobs := jobs_remove (job_pid e) (set_job i (e\<lparr>jstate := JOB_RUNNING\<rparr>) (sh_jobs sh))\<rparr>) w) })"

definition logout_cmd :: "shell \<Rightarrow> shell" where
  "logout_cmd sh =
    (if jobs_have_stopped (sh_jobs sh)
     then sh\<lparr>sh_os := print_err ''logout: there are stopped jobs'' (sh_os sh)\<rparr>
     else sh\<lparr>exit_shell := True\<rparr>)"

definition jobs_line :: "int \<times> string \<times> string \<Rightarrow> string" where
  "jobs_line r = (case r of (n, st, cmd) \<Rightarrow>
     ''['' @ show_int n @ ''] '' @ st @ replicate (7 - length st) CHR '' '' @ ''  '' @ cmd)"

definition jobs_builtin :: "shell \<Rightarrow> shell" where
  "jobs_builtin sh = sh\<lparr>sh_os := (sh_os sh)\<lparr>os_err := os_err (sh_os sh) @ map jobs_line (jobs_list (sh_jobs sh))\<rparr>\<rparr>"

text \<open>\<open>man_text\<close>: the help text.\<close>

definition run_inline :: "nat \<Rightarrow> int \<Rightarrow> string \<Rightarrow> string list \<Rightarrow> shell \<Rightarrow> (string + shell) option" where
  "run_inline me shell_pgid man_text argv sh =
    (if hd argv = ''nice_pid'' then map_option Inr (with_os sh (u_nice_pid argv))
     else if hd argv = ''jobs'' then Some (Inr (jobs_builtin sh))
     else if hd argv = ''bg'' then map_option Inr (bg argv sh)
     else if hd argv = ''fg'' then fg me shell_pgid argv sh
     else if hd argv = ''logout'' then Some (Inr (logout_cmd sh))
     else map_option Inr (with_os sh (\<lambda>u. Some (print_out (Text man_text) u))))"

text \<open>
  \<open>shell_main\<close> up to the wait: either it has returned a code, or it waits for a process, with the
  descriptors it closes afterwards. The words of the first stage are read without a test that there is
  a stage.
\<close>

datatype main_step = Finished int | Waits_for int "int option" "int option"

definition close_opt :: "int option \<Rightarrow> os \<Rightarrow> os option" where
  "close_opt fd u = (case fd of None \<Rightarrow> Some u | Some d \<Rightarrow> map_option snd (s_close d u))"

definition open_redirections ::
  "parsed_command \<Rightarrow> os \<Rightarrow> ((int option \<times> int option) option \<times> os) option" where
  "open_redirections cmd u =
    do { (fin, u1) \<leftarrow> (case stdin_file cmd of
           None \<Rightarrow> Some (Some None, u)
         | Some f \<Rightarrow> do { (fd, u') \<leftarrow> open_for_read f u;
             Some (if fd < 0 then (None, print_err (''shell: cannot open '' @ f @ '' for reading'') u') else (Some (Some fd), u')) });
         case fin of
           None \<Rightarrow> Some (None, u1)
         | Some in_fd \<Rightarrow>
             (case stdout_file cmd of
                None \<Rightarrow> Some (Some (in_fd, None), u1)
              | Some f \<Rightarrow> do {
                  (fd, u2) \<leftarrow> open_for_write f (is_file_append cmd) u1;
                  if fd < 0 then do {
                    u3 \<leftarrow> close_opt in_fd (print_err (''shell: cannot open '' @ f @ '' ('' @ PennFatErr_toErrString fd @ '')'') u2);
                    Some (None, u3) }
                  else Some (Some (in_fd, Some fd), u2) }) }"

definition shell_main ::
  "(nat \<Rightarrow> spawn_env) \<Rightarrow> nat \<Rightarrow> int \<Rightarrow> string \<Rightarrow> parsed_command \<Rightarrow> shell \<Rightarrow> (string + main_step \<times> shell) option" where
  "shell_main env me shell_pgid man_text cmd sh =
    (if commands cmd = [] then None
     else let argv0 = hd (commands cmd) in
       if get_func_from_cmd (hd argv0) inline_funcs \<noteq> None
       then map_option (map_sum id (\<lambda>sh1. (Finished 0, sh1))) (run_inline me shell_pgid man_text argv0 sh)
       else do {
         (redir, u) \<leftarrow> open_redirections cmd (sh_os sh);
         case redir of
           None \<Rightarrow> Some (Inr (Finished 0, sh\<lparr>sh_os := u\<rparr>))
         | Some (in_fd, out_fd) \<Rightarrow> do {
             r \<leftarrow> process_one_command env me (commands cmd) (stdin_file cmd) (stdout_file cmd) (is_file_append cmd) u;
             case r of
               Inl e \<Rightarrow> Some (Inl e)
             | Inr (child, u1) \<Rightarrow>
                 if child \<le> 0 then Some (Inr (Finished (-1), sh\<lparr>sh_os := u1\<rparr>))
                 else if is_background cmd then do {
                   u2 \<leftarrow> close_opt in_fd u1;
                   u3 \<leftarrow> close_opt out_fd u2;
                   Some (Inr (Finished 0, sh\<lparr>sh_os := u3\<rparr>)) }
                 else Some (Inr (Waits_for child in_fd out_fd, sh\<lparr>sh_os := u1, current_fg_pid := child\<rparr>)) } })"

text \<open>The rest, with the result of the wait.\<close>

definition shell_main_waited :: "int \<Rightarrow> int \<Rightarrow> int option \<Rightarrow> int option \<Rightarrow> shell \<Rightarrow> shell option" where
  "shell_main_waited wait_result child in_fd out_fd sh =
    (let u = (if wait_result > 0 then sh_os sh
              else print_err (''shell: waitpid failed for PID '' @ show_int child) (sh_os sh)) in
     do { u1 \<leftarrow> close_opt in_fd u;
          u2 \<leftarrow> close_opt out_fd u1;
          Some (sh\<lparr>sh_os := u2, current_fg_pid := -1\<rparr>) })"

end
