(* ===== verification/KernelShell.thy ===== *)
theory KernelShell
  imports UserShell
begin

text \<open>
  The thread of the shell, \<open>src/shell/shell.c\<close>: the reader of lines, the handler of Ctrl-C, and one round
  of the loop, from the prompt to the next prompt or to the wait for a process.

  This file is compiled with the signal numbers of the kernel (\<open>kernel_definition.h\<close>).
\<close>

subsection \<open>The state\<close>

record console =
  con_shell :: shell
  con_stdin :: string
  con_next_jid :: int

definition MAX_LINE_LENGTH :: nat where "MAX_LINE_LENGTH = 4096"

definition prompt_text :: string where "prompt_text = ''$ ''"

definition con_print :: "string \<Rightarrow> console \<Rightarrow> console" where
  "con_print t c = c\<lparr>con_shell := (con_shell c)\<lparr>sh_os := print_err t (sh_os (con_shell c))\<rparr>\<rparr>"

subsection \<open>Reading a line\<close>

text \<open>
  The return value, the line, and the input that is left. The loop takes bytes up to a newline, the
  end of the input, or the size of the buffer, as \<^const>\<open>line_of\<close> does.
\<close>

definition shell_read_cmd :: "string \<Rightarrow> int \<times> string \<times> string" where
  "shell_read_cmd s =
    (let l = line_of (MAX_LINE_LENGTH - 1) s in
     if l = [] then (-1, [], s)
     else (if list_ex (\<lambda>c. c \<noteq> CHR '' '' \<and> c \<noteq> CHR 0x09 \<and> c \<noteq> CHR 0x0A) l then int (length l) else 0,
           l, drop (length l) s))"

subsection \<open>Ctrl-C and Ctrl-Z\<close>

definition handler_sigint_shell :: "shell \<Rightarrow> shell option" where
  "handler_sigint_shell sh =
    (if current_fg_pid sh > 0 then do {
       (result, u) \<leftarrow> s_kill (current_fg_pid sh) P_SIGTERM (sh_os sh);
       let u1 = print_err [CHR 0x0A] u;
       Some (if result = 0 then sh\<lparr>sh_os := u1, current_fg_pid := -1\<rparr>
             else sh\<lparr>sh_os := print_err prompt_text u1\<rparr>) }
     else Some (sh\<lparr>sh_os := print_err prompt_text (print_err [CHR 0x0A] (sh_os sh))\<rparr>))"

definition handler_sigtstp_shell :: "shell \<Rightarrow> shell" where
  "handler_sigtstp_shell sh = sh\<lparr>sh_os := print_err prompt_text (print_err [CHR 0x0A] (sh_os sh))\<rparr>"

subsection \<open>What the processes run\<close>

text \<open>The routines of \<open>src/shell/builtins.c\<close> and the second child of \<open>orphanify\<close>, up to where they suspend.\<close>

definition ps_builtin :: "os \<Rightarrow> os option" where "ps_builtin u = s_printprocess u"

definition sleep_builtin :: "nat \<Rightarrow> os \<Rightarrow> (paddr \<times> os) option" where "sleep_builtin me u = s_sleep me 3 u"

definition orphan_child_autodie :: "nat \<Rightarrow> os \<Rightarrow> (paddr \<times> os) option" where
  "orphan_child_autodie me u = s_sleep me 20 u"

subsection \<open>One round of the loop\<close>

text \<open>
  How a round ends: at the next prompt, at the end of the thread, or in a wait for a pid. After the
  wait the foreground pid is reset, if the flag says so, or \<^const>\<open>shell_main\<close> goes on.
\<close>

datatype wait_for = Plain_wait bool | Main_wait "int option" "int option"

datatype round_end = Next_prompt | Thread_ends | In_wait int wait_for

definition spawn_here ::
  "spawn_env \<Rightarrow> nat \<Rightarrow> string option list option \<Rightarrow> console \<Rightarrow> (string + int \<times> console) option" where
  "spawn_here env me argv c =
    do { r \<leftarrow> s_spawn env me True argv (sh_os (con_shell c));
         Some (map_sum id (\<lambda>(p, u). (p, c\<lparr>con_shell := (con_shell c)\<lparr>sh_os := u\<rparr>\<rparr>)) r) }"

text \<open>A process in the foreground, whose pid is kept for Ctrl-C.\<close>

definition in_foreground :: "int \<Rightarrow> console \<Rightarrow> round_end \<times> console" where
  "in_foreground p c = (In_wait p (Plain_wait True), c\<lparr>con_shell := (con_shell c)\<lparr>current_fg_pid := p\<rparr>\<rparr>)"

definition in_background :: "int \<Rightarrow> console \<Rightarrow> round_end \<times> console" where
  "in_background p c =
    (Next_prompt, c\<lparr>con_next_jid := con_next_jid c + 1,
       con_shell := (con_shell c)\<lparr>sh_os :=
         print_out (Text (''['' @ show_int (con_next_jid c) @ ''] '' @ show_int p @ [CHR 0x0A])) (sh_os (con_shell c))\<rparr>\<rparr>)"

text \<open>
  The commands that the loop knows itself, then \<open>shell_main\<close>. \<open>pcbvec\<close> and \<open>ps1\<close> print the table; the
  word is read without a test that there is a stage.
\<close>

definition shell_dispatch ::
  "(nat \<Rightarrow> spawn_env) \<Rightarrow> nat \<Rightarrow> int \<Rightarrow> string \<Rightarrow> parsed_command \<Rightarrow> console \<Rightarrow> (string + round_end \<times> console) option" where
  "shell_dispatch env me shell_pgid man_text cmd c =
    (if commands cmd = [] then None
     else let argv0 = hd (commands cmd); w = hd argv0 in
       if w = ''ps'' then
         map_option (map_sum id (\<lambda>(p, c1). in_foreground p c1)) (spawn_here (env 0) me None c)
       else if w = ''sleep'' then
         map_option (map_sum id (\<lambda>(p, c1). (In_wait p (Plain_wait False), c1)))
           (spawn_here (env 0) me (Some (map Some argv0)) c)
       else if w = ''pcbvec'' then Some (Inr (Next_prompt, c))
       else if w = ''ps1'' then
         map_option (\<lambda>u. Inr (Next_prompt, c\<lparr>con_shell := (con_shell c)\<lparr>sh_os := u\<rparr>\<rparr>))
           (s_printprocess (sh_os (con_shell c)))
       else if w = ''zombify'' \<or> w = ''orphanify'' then
         map_option (map_sum id (\<lambda>(p, c1). if is_background cmd then in_background p c1 else in_foreground p c1))
           (spawn_here (env 0) me None c)
       else do {
         r \<leftarrow> shell_main env me shell_pgid man_text cmd (con_shell c);
         Some (map_sum id (\<lambda>(st, sh). (case st of Finished _ \<Rightarrow> Next_prompt
             | Waits_for p in_fd out_fd \<Rightarrow> In_wait p (Main_wait in_fd out_fd), c\<lparr>con_shell := sh\<rparr>)) r) })"

text \<open>The round; \<open>mem\<close> tells whether the two allocations of the parser succeed.\<close>

definition shell_round ::
  "bool \<times> bool \<Rightarrow> (nat \<Rightarrow> spawn_env) \<Rightarrow> nat \<Rightarrow> int \<Rightarrow> string \<Rightarrow> console \<Rightarrow> (string + round_end \<times> console) option" where
  "shell_round mem env me shell_pgid man_text c0 =
    (let c = con_print prompt_text c0 in
     case shell_read_cmd (con_stdin c) of (n, line, rest) \<Rightarrow>
       if n = -1 then
         Some (Inr (Thread_ends, let c1 = con_print [CHR 0x0A] c; sh = con_shell c1; u = sh_os sh in
           c1\<lparr>con_shell := sh\<lparr>sh_os := u\<lparr>os_kernel := (os_kernel u)\<lparr>k_done := True\<rparr>\<rparr>\<rparr>\<rparr>))
       else if n = 0 then Some (Inr (Next_prompt, c\<lparr>con_stdin := rest\<rparr>))
       else do {
         (parsed, _) \<leftarrow> parse_command (fst mem) (snd mem) (cstr line);
         case parsed of
           Inl _ \<Rightarrow> Some (Inr (Next_prompt, con_print ''ERR: invalid user command'' (c\<lparr>con_stdin := rest\<rparr>)))
         | Inr cmd \<Rightarrow> shell_dispatch env me shell_pgid man_text cmd (c\<lparr>con_stdin := rest\<rparr>) })"

text \<open>After the wait, with its result.\<close>

definition round_waited :: "int \<Rightarrow> int \<Rightarrow> wait_for \<Rightarrow> console \<Rightarrow> console option" where
  "round_waited result p w c =
    (case w of
       Plain_wait reset \<Rightarrow>
         Some (if reset then c\<lparr>con_shell := (con_shell c)\<lparr>current_fg_pid := -1\<rparr>\<rparr> else c)
     | Main_wait in_fd out_fd \<Rightarrow>
         map_option (\<lambda>sh. c\<lparr>con_shell := sh\<rparr>) (shell_main_waited result p in_fd out_fd (con_shell c)))"

end
