(* ===== verification/JobProps.thy ===== *)
theory JobProps
  imports KernelShell DirMap
begin

text \<open>
  The job table keeps distinct job ids: the invariant \<open>jobs_ok\<close> and the steps that change the table, those
  of \<open>jobs.c\<close> and the commands of the shell.
\<close>

definition jobs_ok :: "jobs \<Rightarrow> bool" where
  "jobs_ok j \<longleftrightarrow> length (job_table j) = MAX_JOBS \<and> 1 \<le> next_jid j \<and>
     (\<forall>e\<in>set (job_table j). 0 \<le> jid e \<and> jid e < next_jid j) \<and>
     distinct (filter (\<lambda>n. n \<noteq> 0) (map jid (job_table j))) \<and>
     (\<forall>i. fg_index j = Some i \<longrightarrow> i < MAX_JOBS)"

inductive jobs_reach :: "jobs \<Rightarrow> bool" where
  start: "jobs_reach jobs_start"
| init: "jobs_reach j \<Longrightarrow> jobs_reach (jobs_init j)"
| add: "jobs_reach j \<Longrightarrow> jobs_reach (snd (jobs_add p cmd b j))"
| update: "jobs_reach j \<Longrightarrow> jobs_reach (jobs_update p st j)"
| remove: "jobs_reach j \<Longrightarrow> jobs_reach (jobs_remove p j)"
| handler: "jobs_reach j \<Longrightarrow> i < MAX_JOBS \<Longrightarrow> chld_slot me i (j, u) = Some (Inr (j', u')) \<Longrightarrow> jobs_reach j'"
| bg: "jobs_reach (sh_jobs sh) \<Longrightarrow> bg argv sh = Some sh' \<Longrightarrow> jobs_reach (sh_jobs sh')"
| fg: "jobs_reach (sh_jobs sh) \<Longrightarrow> fg me grp argv sh = Some (Inr sh') \<Longrightarrow> jobs_reach (sh_jobs sh')"

lemma find_idx_less: "find_idx P xs = Some i \<Longrightarrow> i < length xs \<and> P (xs ! i)"
  using find_idx_SomeD by metis

lemma jobs_ok_start: "jobs_ok jobs_start"
  by (auto simp: jobs_ok_def jobs_start_def no_job_def filter_replicate)

lemma jobs_ok_init: "jobs_ok j \<Longrightarrow> jobs_ok (jobs_init j)"
  by (auto simp: jobs_ok_def jobs_init_def no_job_def filter_replicate)

lemma distinct_filter_drop_one:
  assumes "distinct (filter P xs)" "\<not> P v"
  shows "distinct (filter P (xs[i := v]))"
proof (cases "i < length xs")
  case True
  show ?thesis using assms unfolding filter_update [OF True] by auto
next
  case False
  then show ?thesis using assms(1) by (simp add: list_update_beyond)
qed

lemma distinct_filter_add_one:
  assumes "distinct (filter P xs)" "v \<notin> set xs" "i < length xs" "\<not> P (xs ! i)"
  shows "distinct (filter P (xs[i := v]))"
  using assms(1,2,4) unfolding filter_update [OF assms(3)] by (auto dest: in_set_takeD in_set_dropD)

text \<open>Changes of a slot that keep its job id, and those that clear it.\<close>

lemma jobs_ok_set:
  assumes "jobs_ok j" "i < MAX_JOBS" "jid e = jid (job_table j ! i) \<or> jid e = 0"
  shows "jobs_ok (set_job i e j)"
proof -
  have i: "i < length (job_table j)" using assms by (simp add: jobs_ok_def)
  have "jid (job_table j ! i) < next_jid j \<and> 0 \<le> jid (job_table j ! i)" "0 < next_jid j"
    using assms(1) i by (auto simp: jobs_ok_def)
  then have "\<forall>x\<in>set ((job_table j)[i := e]). 0 \<le> jid x \<and> jid x < next_jid j"
    using assms(1,3) by (auto simp: jobs_ok_def dest!: set_update_subset_insert [THEN subsetD])
  moreover have "distinct (filter (\<lambda>n. n \<noteq> 0) (map jid ((job_table j)[i := e])))"
  proof (cases "jid e = 0")
    case True
    then show ?thesis
      using assms(1) distinct_filter_drop_one [of "\<lambda>n. n \<noteq> 0" "map jid (job_table j)" 0 i]
      by (simp add: jobs_ok_def map_update)
  next
    case False
    then have "map jid ((job_table j)[i := e]) = map jid (job_table j)"
      using assms(3) i by (metis map_update nth_map list_update_id length_map)
    then show ?thesis using assms(1) by (simp add: jobs_ok_def)
  qed
  ultimately show ?thesis using assms(1) by (simp add: jobs_ok_def set_job_def)
qed

lemma index_by_pid_less: "jobs_ok j \<Longrightarrow> index_by_pid p j = Some i \<Longrightarrow> i < MAX_JOBS"
  by (auto simp: index_by_pid_def jobs_ok_def dest: find_idx_less)

lemma jobs_ok_remove: "jobs_ok j \<Longrightarrow> jobs_ok (jobs_remove p j)"
  using index_by_pid_less jobs_ok_set [of j _ no_job]
  by (simp add: jobs_remove_def no_job_def split: option.split)

lemma jobs_ok_state: "jobs_ok j \<Longrightarrow> i < MAX_JOBS \<Longrightarrow> jobs_ok (set_job i ((job_table j ! i)\<lparr>jstate := st\<rparr>) j)"
  by (rule jobs_ok_set) simp_all

lemma jobs_ok_update: "jobs_ok j \<Longrightarrow> jobs_ok (jobs_update p st j)"
  using index_by_pid_less jobs_ok_state by (simp add: jobs_update_def split: option.split)

lemma jobs_ok_fg_none: "jobs_ok j \<Longrightarrow> jobs_ok (j\<lparr>fg_index := None\<rparr>)"
  by (simp add: jobs_ok_def)

lemma jobs_ok_add:
  assumes "jobs_ok j"
  shows "jobs_ok (snd (jobs_add p cmd b j))"
proof (cases "find_empty_slot j")
  case None
  then show ?thesis using assms by (simp add: jobs_add_def)
next
  case (Some i)
  then have i: "i < length (job_table j)" "jid (job_table j ! i) = 0"
    by (auto simp: find_empty_slot_def dest: find_idx_less)
  let ?e = "\<lparr>jid = next_jid j, job_pid = p, cmdline = take 127 cmd, jstate = JOB_RUNNING\<rparr>"
  have e: "jid ?e = next_jid j" by simp
  have "next_jid j \<notin> set (map jid (job_table j))" "1 \<le> next_jid j" using assms by (auto simp: jobs_ok_def)
  then have "distinct (filter (\<lambda>n. n \<noteq> 0) ((map jid (job_table j))[i := next_jid j]))"
    using assms i by (intro distinct_filter_add_one) (auto simp: jobs_ok_def)
  moreover have "0 \<le> jid x \<and> jid x < next_jid j + 1" if "x \<in> set ((job_table j)[i := ?e])" for x
    proof -
    have "x = ?e \<or> x \<in> set (job_table j)" using that set_update_subset_insert [of "job_table j" i ?e] by blast
    then show ?thesis using assms by (auto simp: jobs_ok_def)
  qed
  ultimately show ?thesis using assms i Some by (simp add: jobs_add_def set_job_def jobs_ok_def Let_def map_update)
qed

lemma chld_slot_jobs:
  assumes "chld_slot me i (j, u) = Some (Inr (j', u'))"
  obtains "j' = j" | st where "j' = set_job i ((job_table j ! i)\<lparr>jstate := st\<rparr>) j"
    | st where "j' = (set_job i ((job_table j ! i)\<lparr>jstate := st\<rparr>) j)\<lparr>fg_index := None\<rparr>"
proof (cases "jid (job_table j ! i) = 0")
  case True
  then show ?thesis using assms that(1) by (simp add: chld_slot_def)
next
  case False
  then obtain w where w: "s_waitpid_nohang me (job_pid (job_table j ! i)) True u = Some w"
    using assms by (auto simp: chld_slot_def Let_def bind_Some)
  show ?thesis
  proof (cases w)
    case (Inl e)
    then show ?thesis using False w assms by (simp add: chld_slot_def)
  next
    case (Inr r)
    obtain p st u1 where r: "r = ((p, st), u1)" by (metis surj_pair)
    show ?thesis
      using False w Inr r assms that by (auto simp: chld_slot_def Let_def bind_Some split: if_split_asm)
  qed
qed

lemma jobs_ok_handler:
  assumes "jobs_ok j" "i < MAX_JOBS" "chld_slot me i (j, u) = Some (Inr (j', u'))"
  shows "jobs_ok j'"
  using assms(3) by (rule chld_slot_jobs) (simp_all add: assms(1,2) jobs_ok_state jobs_ok_fg_none)

lemma jobs_ok_bg:
  assumes "jobs_ok (sh_jobs sh)" "bg argv sh = Some sh'"
  shows "jobs_ok (sh_jobs sh')"
proof -
  have less: "i < MAX_JOBS" if "jobs_by_jid n (sh_jobs sh) = Some i" for n i
    using that assms(1) by (auto simp: jobs_by_jid_def jobs_ok_def dest: find_idx_less)
  show ?thesis
    using assms jobs_ok_state [OF assms(1) less]
    by (auto simp: bg_def Let_def bind_Some split: option.split_asm if_split_asm prod.split_asm)
qed

lemma map_sum_eq_Inr: "map_sum f g w = Inr y \<longleftrightarrow> (\<exists>x. w = Inr x \<and> g x = y)"
  by (cases w) auto

lemma jobs_ok_fg:
  assumes "jobs_ok (sh_jobs sh)" "fg me grp argv sh = Some (Inr sh')"
  shows "jobs_ok (sh_jobs sh')"
proof -
  let ?slot = "if job_argument argv > 0 then jobs_by_jid (job_argument argv) (sh_jobs sh) else jobs_current_fg (sh_jobs sh)"
  have less: "i < MAX_JOBS" if "?slot = Some i" for i
    using that assms(1)
    by (auto simp: jobs_by_jid_def jobs_current_fg_def jobs_ok_def dest: find_idx_less split: if_split_asm)
  show ?thesis
  proof (cases ?slot)
    case None
    then show ?thesis using assms by (auto simp: fg_def Let_def split: if_split_asm)
  next
    case (Some i)
    let ?j = "set_job i ((job_table (sh_jobs sh) ! i)\<lparr>jstate := JOB_RUNNING\<rparr>) (sh_jobs sh)"
    have "sh_jobs sh' = jobs_remove (job_pid (job_table (sh_jobs sh) ! i)) ?j"
      using assms(2) Some unfolding fg_def Let_def
      by (auto simp: bind_Some map_sum_eq_Inr split: prod.split_asm)
    then show ?thesis using jobs_ok_remove jobs_ok_state [OF assms(1) less [OF Some]] by simp
  qed
qed

theorem jobs_reach_ok: "jobs_reach j \<Longrightarrow> jobs_ok j"
  by (induction rule: jobs_reach.induct)
    (blast intro: jobs_ok_start jobs_ok_init jobs_ok_add jobs_ok_update jobs_ok_remove jobs_ok_handler jobs_ok_bg jobs_ok_fg)+

end
