(* ===== verification/UserTheorems.thy ===== *)
theory UserTheorems
  imports JobProps KernelTheorems FsTheorems
begin

text \<open>
  The properties of the system calls, the job table and the two shells, each with a concrete state in
  which its hypotheses hold.
\<close>

subsection \<open>A system\<close>

text \<open>The processes of a kernel with the mounted file system of the examples.\<close>

definition system_on :: "kernel \<Rightarrow> os" where
  "system_on k = \<lparr>os_fs = fresh_fs, os_kernel = k, os_errno = NoError, os_host = (\<lambda>_. host_at 7), os_calls = 0,
     os_out = [], os_err = []\<rparr>"

definition shell_on :: "kernel \<Rightarrow> shell" where
  "shell_on k = \<lparr>sh_os = system_on k, sh_jobs = jobs_start, exit_shell = False, current_fg_pid = -1\<rparr>"

lemma system_on_simps [simp]:
  "os_fs (system_on k) = fresh_fs" "os_kernel (system_on k) = k" "os_err (system_on k) = []" "os_host (system_on k) n = host_at 7"
  "sh_os (shell_on k) = system_on k" "current_fg_pid (shell_on k) = -1"
  by (simp_all add: system_on_def shell_on_def)

subsection \<open>Numbers\<close>

lemma str_to_int_show:
  assumes "\<bar>i\<bar> \<le> LONG_MAX"
  shows "str_to_int (Some (show_int i)) = Some (int32 i)"
  using strtol10_show_int [OF assms] by (simp add: str_to_int_def)

lemma int32_id: "- (2 ^ 31) \<le> i \<Longrightarrow> i < 2 ^ 31 \<Longrightarrow> int32 i = i"
  by (simp add: int32_def signed_of_int signed_take_bit_int_eq_self)

lemma str_to_int_pid: "0 < i \<Longrightarrow> i < 2 ^ 31 \<Longrightarrow> str_to_int (Some (show_int i)) = Some i"
  using str_to_int_show [of i] by (simp add: int32_id LONG_MAX_def)

lemma show_int_pos: "0 \<le> i \<Longrightarrow> \<exists>c cs. show_int i = c # cs \<and> c \<noteq> CHR ''-''"
  using show_nat_digits [of "nat i"] digit_plain by (cases "show_nat (nat i)") (auto simp: show_int_def)

subsection \<open>Signals from the shells\<close>

lemmas signal_numbers = USER_SIGSTOP_def USER_SIGCONT_def USER_SIGTERM_def P_SIGSTOP_def P_SIGCONT_def P_SIGTERM_def

text \<open>The kernel's reading of the signal that an option of \<open>kill\<close> selects.\<close>

definition selected_signal :: "string list \<Rightarrow> int" where
  "selected_signal opt =
    (if opt = [''-stop''] then USER_SIGSTOP else if opt = [''-cont''] then USER_SIGCONT else USER_SIGTERM)"

lemma s_kill_process:
  assumes "proc_reach (os_kernel u)" "a \<in> set (table (os_kernel u))" "k_heap (os_kernel u) a = Some p"
  shows "\<exists>k' p'. s_kill (pid p) sig u = Some (0, u\<lparr>os_kernel := k'\<rparr>) \<and> table k' = table (os_kernel u) \<and>
    k_heap k' a = Some p' \<and> pid p' = pid p \<and> status p' = signal_effect sig (status p) \<and>
    (\<forall>b. b \<noteq> a \<longrightarrow> map_option status (k_heap k' b) = map_option status (k_heap (os_kernel u) b))"
  using kill_signal [OF assms, of sig] by (auto simp: s_kill_def proc_call_def set_errno_def)

lemma kill_option_pid: "0 < i \<Longrightarrow> kill_option (show_int i) = Some (USER_SIGTERM, 1)"
  using show_int_pos [of i] by (auto simp: kill_option_def)

lemma kill_option_word:
  "kill_option ''-term'' = Some (selected_signal [''-term''], 2)"
  "kill_option ''-stop'' = Some (selected_signal [''-stop''], 2)"
  "kill_option ''-cont'' = Some (selected_signal [''-cont''], 2)"
  by (simp_all add: kill_option_def selected_signal_def)

lemma kill_cmd_sends:
  assumes "0 < i" "i < 2 ^ 31" "opt \<in> {[], [''-term''], [''-stop''], [''-cont'']}"
    "s_kill i (selected_signal opt) u = Some (0, u')"
  shows "kill_cmd (''kill'' # opt @ [show_int i]) u =
    Some (print_err (''Signal <'' @ show_int (selected_signal opt) @ ''> sent to PID ['' @ show_int i @ ''].'') u')"
proof -
  note n = str_to_int_pid [OF assms(1,2)]
  show ?thesis
  proof (cases "opt = []")
    case True
    then show ?thesis
      using assms(1,4) n kill_option_pid [OF assms(1)]
      by (simp add: kill_cmd_def word_at_def selected_signal_def)
  next
    case False
    then obtain w where "opt = [w]" "kill_option w = Some (selected_signal [w], 2)"
      using assms(3) kill_option_word by auto
    then show ?thesis using assms(1,4) n by (simp add: kill_cmd_def word_at_def)
  qed
qed

text \<open>C27 (safety). The \<open>kill\<close> command on a process of the table sends the number of the signal in
  \<open>pennos_signal.h\<close>, which the kernel numbers differently: without an option or with \<open>-term\<close> it continues a
  stopped process and changes no other, with \<open>-cont\<close> it stops a running process, with \<open>-stop\<close> it does
  nothing. It never terminates a process; it reports success each time.\<close>

theorem kill_command_effect:
  assumes "proc_reach (os_kernel u)" "a \<in> set (table (os_kernel u))" "k_heap (os_kernel u) a = Some p"
    "0 < pid p" "pid p < 2 ^ 31" "opt \<in> {[], [''-term''], [''-stop''], [''-cont'']}"
  shows "\<exists>u' p'. kill_cmd (''kill'' # opt @ [show_int (pid p)]) u = Some u' \<and>
    k_heap (os_kernel u') a = Some p' \<and> pid p' = pid p \<and>
    status p' = (if opt = [''-cont''] \<and> status p = THRD_RUNNING then THRD_STOPPED
      else if (opt = [] \<or> opt = [''-term'']) \<and> status p = THRD_STOPPED then THRD_RUNNING else status p) \<and>
    (\<forall>b. b \<noteq> a \<longrightarrow> map_option status (k_heap (os_kernel u') b) = map_option status (k_heap (os_kernel u) b)) \<and>
    os_err u' = os_err u @ [''Signal <'' @ show_int (selected_signal opt) @ ''> sent to PID ['' @ show_int (pid p) @ ''].'']"
proof -
  obtain k' p' where s: "s_kill (pid p) (selected_signal opt) u = Some (0, u\<lparr>os_kernel := k'\<rparr>)"
      "k_heap k' a = Some p'" "pid p' = pid p" "status p' = signal_effect (selected_signal opt) (status p)"
      "\<forall>b. b \<noteq> a \<longrightarrow> map_option status (k_heap k' b) = map_option status (k_heap (os_kernel u) b)"
    using s_kill_process [OF assms(1-3), of "selected_signal opt"] by blast
  have run: "kill_cmd (''kill'' # opt @ [show_int (pid p)]) u = Some (print_err (''Signal <'' @
      show_int (selected_signal opt) @ ''> sent to PID ['' @ show_int (pid p) @ ''].'') (u\<lparr>os_kernel := k'\<rparr>))"
    using kill_cmd_sends [OF assms(4-6) s(1)] by simp
  have "signal_effect (selected_signal opt) (status p) =
      (if opt = [''-cont''] \<and> status p = THRD_RUNNING then THRD_STOPPED
       else if (opt = [] \<or> opt = [''-term'']) \<and> status p = THRD_STOPPED then THRD_RUNNING else status p)"
    using assms(6) by (auto simp: signal_effect_def selected_signal_def signal_numbers)
  then show ?thesis using s by (simp add: run print_err_def)
qed

lemma child_3: "pid (the (k_heap child_kernel 3)) = 3 \<and> status (the (k_heap child_kernel 3)) = THRD_RUNNING"
  by code_simp

lemma kill_command_effect_witness:
  "\<exists>u' p'. kill_cmd [''kill'', ''-cont'', ''3''] (system_on child_kernel) = Some u' \<and>
    k_heap (os_kernel u') 3 = Some p' \<and> status p' = THRD_STOPPED"
proof -
  have "show_int 3 = ''3''" by code_simp
  then show ?thesis
    using kill_command_effect [of "system_on child_kernel" 3 "the (k_heap child_kernel 3)" "[''-cont'']"]
      child_reach child_kernel_pcbs [of 3] child_kernel_table child_3 by auto
qed

text \<open>C28 (functional). Ctrl-C while the shell waits for a process in the foreground terminates that process,
  and no other, and the shell no longer has a foreground process.\<close>

theorem ctrl_c_terminates:
  assumes "proc_reach (os_kernel (sh_os sh))" "a \<in> set (table (os_kernel (sh_os sh)))"
    "k_heap (os_kernel (sh_os sh)) a = Some p" "0 < pid p" "current_fg_pid sh = pid p"
  shows "\<exists>sh' p'. handler_sigint_shell sh = Some sh' \<and> current_fg_pid sh' = -1 \<and>
    k_heap (os_kernel (sh_os sh')) a = Some p' \<and> pid p' = pid p \<and> status p' = THRD_ZOMBIE \<and>
    (\<forall>b. b \<noteq> a \<longrightarrow> map_option status (k_heap (os_kernel (sh_os sh')) b) = map_option status (k_heap (os_kernel (sh_os sh)) b))"
proof -
  obtain k' p' where s: "s_kill (pid p) P_SIGTERM (sh_os sh) = Some (0, (sh_os sh)\<lparr>os_kernel := k'\<rparr>)"
      "k_heap k' a = Some p'" "pid p' = pid p" "status p' = signal_effect P_SIGTERM (status p)"
      "\<forall>b. b \<noteq> a \<longrightarrow> map_option status (k_heap k' b) = map_option status (k_heap (os_kernel (sh_os sh)) b)"
    using s_kill_process [OF assms(1-3), of P_SIGTERM] by blast
  moreover have "signal_effect P_SIGTERM (status p) = THRD_ZOMBIE" by (simp add: signal_effect_def signal_numbers)
  ultimately show ?thesis using assms(4,5) by (simp add: handler_sigint_shell_def print_err_def)
qed

lemma ctrl_c_terminates_witness:
  "\<exists>sh' p'. handler_sigint_shell ((shell_on child_kernel)\<lparr>current_fg_pid := 3\<rparr>) = Some sh' \<and>
    k_heap (os_kernel (sh_os sh')) 3 = Some p' \<and> status p' = THRD_ZOMBIE"
  using ctrl_c_terminates [of "(shell_on child_kernel)\<lparr>current_fg_pid := 3\<rparr>" 3 "the (k_heap child_kernel 3)"]
    child_reach child_kernel_pcbs [of 3] child_kernel_table child_3 by auto


subsection \<open>Numbers and lines\<close>

text \<open>The shell reads back every number that fits a \<open>long\<close> from the digits that it prints,
  reduced to 32 bits: a number outside of the range of \<open>int\<close> is taken for another one without an
  error, so \<open>kill\<close> with such a number signals another process.\<close>

theorem number_read_back:
  assumes "\<bar>i\<bar> \<le> LONG_MAX"
  shows "str_to_int (Some (show_int i)) = Some (int32 i) \<and> atoi (show_int i) = int32 i \<and>
    (- (2 ^ 31) \<le> i \<and> i < 2 ^ 31 \<longleftrightarrow> int32 i = i)"
proof -
  have "- (2 ^ 31) \<le> int32 i \<and> int32 i < 2 ^ 31"
    using sint_range_size [of "word_of_int i :: 32 word"] by (simp add: int32_def word_size)
  then show ?thesis using str_to_int_show [OF assms] strtol10_show_int [OF assms] int32_id [of i]
    by (auto simp: atoi_def)
qed

lemma number_read_back_witness:
  "str_to_int (Some ''4294967299'') = Some 3 \<and> str_to_int (Some ''-17'') = Some (- 17)"
proof -
  have s: "show_int 4294967299 = ''4294967299''" "show_int (- 17) = ''-17''" by (simp_all add: show_int_def show_nat.simps) code_simp+
  have v: "int32 4294967299 = 3" "int32 (- 17) = - 17" by (simp_all add: int32_def)
  show ?thesis
    using number_read_back [of 4294967299, unfolded s v] number_read_back [of "- 17", unfolded s v]
    by (simp add: LONG_MAX_def)
qed

lemma line_of_parts: "line_of n s = l \<Longrightarrow> s = l @ drop (length l) s"
  using line_of_prefix by (metis append_take_drop_id)

lemma line_of_stops:
  assumes "line_of n s = l"
  shows "CHR 0x0A \<notin> set (butlast l)" "length l < n \<Longrightarrow> length l < length s \<Longrightarrow> l \<noteq> [] \<and> last l = CHR 0x0A"
  using assms by (induction n s arbitrary: l rule: line_of.induct) (auto split: if_split_asm)

text \<open>C33 (bounds). Each call of the reader takes the next line off the input: at least one and at most 4095
  bytes, with no newline but the last byte, and with the newline unless the line is too long or the
  input ends. The line and its terminator fit the buffer. The result is 0 for a line of white space.\<close>

theorem lines_of_input:
  assumes "s \<noteq> []"
  shows "\<exists>n l. shell_read_cmd s = (n, l, drop (length l) s) \<and> s = l @ drop (length l) s \<and>
    1 \<le> length l \<and> length l + 1 \<le> MAX_LINE_LENGTH \<and> CHR 0x0A \<notin> set (butlast l) \<and>
    (length l < 4095 \<and> length l < length s \<longrightarrow> last l = CHR 0x0A) \<and>
    n = (if set l \<subseteq> {CHR '' '', CHR 0x09, CHR 0x0A} then 0 else int (length l))"
proof -
  let ?l = "line_of 4095 s"
  have "?l \<noteq> []" using line_of_ne [OF assms, of 4095] by simp
  moreover have "length ?l \<le> 4095" using line_of_prefix by blast
  moreover have "list_ex (\<lambda>c. c \<noteq> CHR '' '' \<and> c \<noteq> CHR 0x09 \<and> c \<noteq> CHR 0x0A) ?l \<longleftrightarrow>
      \<not> set ?l \<subseteq> {CHR '' '', CHR 0x09, CHR 0x0A}" by (auto simp: list_ex_iff)
  ultimately show ?thesis
    using line_of_parts [of 4095 s ?l] line_of_stops [of 4095 s ?l]
    by (intro exI [of _ "fst (shell_read_cmd s)"] exI [of _ ?l])
      (auto simp: shell_read_cmd_def MAX_LINE_LENGTH_def Let_def Suc_le_eq)
qed

lemma lines_of_input_witness:
  "\<exists>n l. shell_read_cmd (''ls'' @ [CHR 0x0A] @ ''ps'') = (n, l, drop (length l) (''ls'' @ [CHR 0x0A] @ ''ps'')) \<and>
    length l + 1 \<le> MAX_LINE_LENGTH \<and> n = (if set l \<subseteq> {CHR '' '', CHR 0x09, CHR 0x0A} then 0 else int (length l))"
  using lines_of_input [of "''ls'' @ [CHR 0x0A] @ ''ps''"] by blast

subsection \<open>Permissions\<close>

lemma perm_bits_letters:
  "set s \<subseteq> {CHR ''r'', CHR ''w'', CHR ''x''} \<Longrightarrow> perm_bits s m =
    Some (m OR (if CHR ''r'' \<in> set s then PERM_READ else 0) OR (if CHR ''w'' \<in> set s then PERM_WRITE else 0) OR
      (if CHR ''x'' \<in> set s then PERM_EXEC else 0))"
  by (induction s arbitrary: m) (auto simp: or.assoc or.commute or.left_commute)

lemma perm_bits_illegal: "\<not> set s \<subseteq> {CHR ''r'', CHR ''w'', CHR ''x''} \<Longrightarrow> perm_bits s m = None"
proof (induction s arbitrary: m)
  case (Cons c s)
  show ?case
  proof (cases "c \<in> {CHR ''r'', CHR ''w'', CHR ''x''}")
    case True
    then have "\<not> set s \<subseteq> {CHR ''r'', CHR ''w'', CHR ''x''}" using Cons.prems by simp
    then show ?thesis using Cons.IH by simp
  qed simp
qed simp

text \<open>The permission that a string of letters asks for.\<close>

definition asked_perm :: "string \<Rightarrow> 8 word" where
  "asked_perm s = (if CHR ''r'' \<in> set s then 4 else 0) + (if CHR ''w'' \<in> set s then 2 else 0) +
     (if CHR ''x'' \<in> set s then 1 else 0)"

lemma asked_perm_or:
  "asked_perm s = 0 OR (if CHR ''r'' \<in> set s then PERM_READ else 0) OR (if CHR ''w'' \<in> set s then PERM_WRITE else 0) OR
    (if CHR ''x'' \<in> set s then PERM_EXEC else 0)"
  by (simp add: asked_perm_def perm_defs)

definition unsigned_part :: "string \<Rightarrow> string" where
  "unsigned_part t = (if t \<noteq> [] \<and> hd t \<in> set ''+-'' then tl t else t)"

lemma parse_perm_string_letters:
  "parse_perm_string t = (if unsigned_part t \<noteq> [] \<and> set (unsigned_part t) \<subseteq> {CHR ''r'', CHR ''w'', CHR ''x''}
    then asked_perm (unsigned_part t) else 0xFF)"
proof -
  let ?s = "unsigned_part t"
  have e: "parse_perm_string t = (case perm_bits ?s 0 of None \<Rightarrow> 0xFF | Some m \<Rightarrow> if m = 0 then 0xFF else m)"
    by (simp add: parse_perm_string_def unsigned_part_def)
  show ?thesis
  proof (cases "set ?s \<subseteq> {CHR ''r'', CHR ''w'', CHR ''x''}")
    case True
    have "perm_bits ?s 0 = Some (asked_perm ?s)" using perm_bits_letters [OF True, of 0] by (simp only: asked_perm_or)
    moreover have "asked_perm ?s = 0 \<longleftrightarrow> ?s = []" using True by (cases ?s) (auto simp: asked_perm_def)
    ultimately show ?thesis using True e by simp
  next
    case False
    then show ?thesis using perm_bits_illegal [of ?s 0] e by (cases ?s) auto
  qed
qed

lemma asked_perm_valid:
  assumes "s \<noteq> []" "set s \<subseteq> {CHR ''r'', CHR ''w'', CHR ''x''}"
  shows "VALID_PERM (asked_perm s) \<longleftrightarrow> set s \<noteq> {CHR ''r''} \<and> set s \<noteq> {CHR ''w'', CHR ''x''}" "asked_perm s \<noteq> 0xFF"
proof -
  obtain r w x where m: "r = (CHR ''r'' \<in> set s)" "w = (CHR ''w'' \<in> set s)" "x = (CHR ''x'' \<in> set s)" by blast
  have e: "set s = {CHR ''r''} \<longleftrightarrow> r \<and> \<not> w \<and> \<not> x" "set s = {CHR ''w'', CHR ''x''} \<longleftrightarrow> \<not> r \<and> w \<and> x"
    using assms(2) unfolding m by auto
  have "r \<or> w \<or> x" using assms unfolding m by (cases s) auto
  then show "VALID_PERM (asked_perm s) \<longleftrightarrow> set s \<noteq> {CHR ''r''} \<and> set s \<noteq> {CHR ''w'', CHR ''x''}" "asked_perm s \<noteq> 0xFF"
    unfolding e asked_perm_def m [symmetric] perm_defs by (cases r; cases w; cases x; simp)+
qed

text \<open>The permission string of \<open>chmod\<close> stands for the set of its letters, in any order and
  with or without a sign, which has no effect; other strings are refused. Of the sets of letters the file
  system refuses exactly \<open>r\<close> and \<open>wx\<close>: then \<open>chmod\<close> changes nothing and says that the argument is invalid.\<close>

theorem chmod_permissions:
  assumes "g_mounted (os_fs u)" "f \<noteq> []" "s = unsigned_part t" "s \<noteq> []" "set s \<subseteq> {CHR ''r'', CHR ''w'', CHR ''x''}"
  shows "parse_perm_string t = asked_perm s \<and>
    (VALID_PERM (asked_perm s) \<longleftrightarrow> set s \<noteq> {CHR ''r''} \<and> set s \<noteq> {CHR ''w'', CHR ''x''}) \<and>
    (VALID_PERM (asked_perm s) \<or> (\<exists>u'. chmod [''chmod'', t, f] u = Some u' \<and> os_fs u' = os_fs u \<and>
      os_err u' = os_err u @ [''chmod: '' @ f @ '': '' @ PennFatErr_toErrString (err_code PennFatErr_INVAD)]))"
proof -
  have p: "parse_perm_string t = asked_perm s" using assms(3-5) parse_perm_string_letters by simp
  have "\<exists>u'. chmod [''chmod'', t, f] u = Some u' \<and> os_fs u' = os_fs u \<and>
      os_err u' = os_err u @ [''chmod: '' @ f @ '': '' @ PennFatErr_toErrString (err_code PennFatErr_INVAD)]"
    if no: "\<not> VALID_PERM (asked_perm s)"
  proof -
    have "s_chmod (Some f) (asked_perm s) u = Some (PennFatErr_INVAD, u\<lparr>os_calls := os_calls u + 1\<rparr>)"
      using no assms(1,2) by (simp add: s_chmod_def fs_call_def k_chmod_def)
    then have "chmod_loop (asked_perm s) [f] u = Some (print_err (''chmod: '' @ f @ '': '' @
        PennFatErr_toErrString (err_code PennFatErr_INVAD)) (u\<lparr>os_calls := os_calls u + 1\<rparr>))" by simp
    then show ?thesis using p asked_perm_valid(2) [OF assms(4,5)] by (simp add: chmod_def print_err_def)
  qed
  then show ?thesis using p asked_perm_valid(1) [OF assms(4,5)] by blast
qed

lemma chmod_permissions_witness:
  "\<exists>u'. chmod [''chmod'', ''+r'', ''f''] (system_on child_kernel) = Some u' \<and> os_err u' \<noteq> []"
proof -
  have "\<not> VALID_PERM (asked_perm ''r'')" "unsigned_part ''+r'' = ''r''"
    by (simp_all add: asked_perm_def perm_defs unsigned_part_def)
  then show ?thesis using chmod_permissions [of "system_on child_kernel" "''f''" "''r''" "''+r''"] by auto
qed


subsection \<open>Pipelines\<close>

lemma s_open_kernel: "s_open p m u = Some (fd, u1) \<Longrightarrow> os_kernel u1 = os_kernel u"
  by (auto simp: s_open_def fs_call_def set_errno_def bind_Some split: prod.splits)

lemma s_close_kernel: "s_close fd u = Some (r, u1) \<Longrightarrow> os_kernel u1 = os_kernel u"
  by (auto simp: s_close_def fs_call_def split: prod.splits)

lemma close_opt_kernel: "close_opt fd u = Some u1 \<Longrightarrow> os_kernel u1 = os_kernel u"
  by (auto simp: close_opt_def split: option.splits dest: s_close_kernel)

lemma print_err_kernel [simp]: "os_kernel (print_err t u) = os_kernel u" "os_fs (print_err t u) = os_fs u"
  "os_errno (print_err t u) = os_errno u" "os_err (print_err t u) = os_err u @ [t]"
  by (simp_all add: print_err_def)

lemma open_redirections_kernel:
  assumes "open_redirections cmd u = Some (r, u1)"
  shows "os_kernel u1 = os_kernel u"
proof -
  let ?in = "case stdin_file cmd of None \<Rightarrow> Some (Some None, u)
    | Some f \<Rightarrow> do { (fd, u') \<leftarrow> open_for_read f u;
        Some (if fd < 0 then (None, print_err (''shell: cannot open '' @ f @ '' for reading'') u') else (Some (Some fd), u')) }"
  obtain fin u2 where i: "?in = Some (fin, u2)"
    using assms unfolding open_redirections_def bind_Some by auto
  then have k: "os_kernel u2 = os_kernel u"
    by (auto simp: open_for_read_def bind_Some split: option.splits if_split_asm dest!: s_open_kernel)
  show ?thesis
  proof (cases fin)
    case None
    then show ?thesis using assms i k by (simp add: open_redirections_def)
  next
    case (Some in_fd)
    note o = assms [unfolded open_redirections_def i Option.bind.simps prod.case Some option.case]
    show ?thesis
    proof (cases "stdout_file cmd")
      case None
      then show ?thesis using o k by simp
    next
      case (Some f)
      then obtain fd u3 where w: "open_for_write f (is_file_append cmd) u2 = Some (fd, u3)"
        using o by (auto simp: bind_Some)
      then have "os_kernel u3 = os_kernel u" using k s_open_kernel by (simp add: open_for_write_def)
      then show ?thesis using o Some w
        by (cases "fd < 0") (auto simp: bind_Some dest!: close_opt_kernel)
    qed
  qed
qed

lemma open_redirect_kernel: "open_redirect f m u = Some (r, u1) \<Longrightarrow> os_kernel u1 = os_kernel u"
  by (auto simp: open_redirect_def bind_Some split: if_split_asm dest!: s_open_kernel)

lemma stage_loop_pipe:
  assumes "2 \<le> length cmdv"
  shows "stage_loop env me out_file is_append i prev_rd first_pid cmdv u =
    Some (Inr (-1, print_err ''pipe'' (u\<lparr>os_errno := EMFILE\<rparr>)))"
  using assms by (cases cmdv) (auto simp: s_pipe_def k_pipe_def set_errno_def neq_Nil_conv Suc_le_length_iff)

lemma no_pipe:
  assumes "2 \<le> length cmdv"
  shows "process_one_command env me cmdv in_file out_file is_append u =
    (case in_file of
       None \<Rightarrow> Some (Inr (-1, print_err ''pipe'' (u\<lparr>os_errno := EMFILE\<rparr>)))
     | Some f \<Rightarrow> map_option (\<lambda>(again, u1). Inr (-1, if again = None then u1 else print_err ''pipe'' (u1\<lparr>os_errno := EMFILE\<rparr>)))
         (open_redirect f K_O_RDONLY u))"
proof (cases in_file)
  case None
  then show ?thesis by (simp add: process_one_command_def stage_loop_pipe [OF assms])
next
  case (Some f)
  then show ?thesis
    by (cases "open_redirect f K_O_RDONLY u")
      (auto simp: process_one_command_def stage_loop_pipe [OF assms] split: option.split)
qed

text \<open>The words that the loop of the shell thread handles itself.\<close>

definition loop_words :: "string list" where
  "loop_words = [''ps'', ''sleep'', ''pcbvec'', ''ps1'', ''zombify'', ''orphanify'']"

text \<open>C30 (error). A command of two or more stages that reaches \<open>shell_main\<close>, and whose first word is not a command that the shell
  runs inside itself, spawns no process, with or without redirections. When a redirection cannot be opened nothing is
  run. Otherwise \<open>pipe\<close> fails, the shell reports it, and every descriptor that it has opened stays open: that of the
  output, and two for the input, which is opened twice. The loop of the shell thread goes on to the next prompt.
  (The words that the loop and the shell know themselves run their command and ignore the other stages.)\<close>

theorem pipeline_refused:
  assumes "2 \<le> length (commands cmd)" "get_func_from_cmd (hd (hd (commands cmd))) inline_funcs = None"
    "open_redirections cmd (sh_os sh) = Some (r, u1)"
    "\<forall>f. stdin_file cmd = Some f \<and> r \<noteq> None \<longrightarrow> open_redirect f K_O_RDONLY u1 = Some (again, u2)"
  shows "\<exists>c u. shell_main env me grp man_text cmd sh = Some (Inr (Finished c, sh\<lparr>sh_os := u\<rparr>)) \<and>
    os_kernel u = os_kernel (sh_os sh) \<and>
    (if r = None then c = 0 \<and> u = u1
     else c = -1 \<and>
      (if stdin_file cmd = None then os_fs u = os_fs u1 \<and> os_errno u = EMFILE \<and> os_err u = os_err u1 @ [''pipe'']
       else if again = None then u = u2
       else os_fs u = os_fs u2 \<and> os_errno u = EMFILE \<and> os_err u = os_err u2 @ [''pipe''])) \<and>
    (hd (hd (commands cmd)) \<notin> set loop_words \<and> con_shell con = sh \<longrightarrow>
      shell_dispatch env me grp man_text cmd con = Some (Inr (Next_prompt, con\<lparr>con_shell := sh\<lparr>sh_os := u\<rparr>\<rparr>)))"
proof -
  have ne: "commands cmd \<noteq> []" using assms(1) by auto
  let ?pipe = "\<lambda>u. print_err ''pipe'' (u\<lparr>os_errno := EMFILE\<rparr>)"
  let ?u = "if r = None then u1 else if stdin_file cmd = None then ?pipe u1 else if again = None then u2 else ?pipe u2"
  have main: "shell_main env me grp man_text cmd sh =
      Some (Inr (Finished (if r = None then 0 else -1), sh\<lparr>sh_os := ?u\<rparr>))"
    using ne assms by (cases r; cases "stdin_file cmd") (auto simp: shell_main_def no_pipe)
  have k1: "os_kernel u1 = os_kernel (sh_os sh)" by (rule open_redirections_kernel [OF assms(3)])
  have "os_kernel u2 = os_kernel u1" if "r \<noteq> None" "stdin_file cmd \<noteq> None"
    using that assms(4) open_redirect_kernel by (cases "stdin_file cmd") auto
  then have "os_kernel ?u = os_kernel (sh_os sh)" using k1 by auto
  moreover have "shell_dispatch env me grp man_text cmd con = Some (Inr (Next_prompt, con\<lparr>con_shell := sh\<lparr>sh_os := ?u\<rparr>\<rparr>))"
    if "hd (hd (commands cmd)) \<notin> set loop_words" "con_shell con = sh"
    using that ne main by (simp add: shell_dispatch_def loop_words_def)
  ultimately show ?thesis using main
    by (intro exI [of _ "if r = None then 0 else -1"] exI [of _ ?u]) auto
qed

lemma pipeline_refused_witness:
  "\<forall>env. \<exists>u2. shell_dispatch (\<lambda>_. env) 12 2 [] \<lparr>is_background = False, is_file_append = True, stdin_file = None,
      stdout_file = Some ''f'', commands = [[''ls''], [''cat'']]\<rparr> \<lparr>con_shell = shell_on shell_kernel, con_stdin = [], con_next_jid = 1\<rparr> =
      Some (Inr (Next_prompt, \<lparr>con_shell = (shell_on shell_kernel)\<lparr>sh_os := u2\<rparr>, con_stdin = [], con_next_jid = 1\<rparr>)) \<and>
    os_err u2 = [''pipe''] \<and> fd_in_use (g_fd_table (os_fs u2) ! 0)"
proof
  fix env
  let ?cmd = "\<lparr>is_background = False, is_file_append = True, stdin_file = None, stdout_file = Some ''f'',
    commands = [[''ls''], [''cat'']]\<rparr>"
  let ?con = "\<lparr>con_shell = shell_on shell_kernel, con_stdin = [], con_next_jid = 1\<rparr>"
  let ?u = "(system_on shell_kernel)\<lparr>os_fs := opened_fs, os_calls := 1\<rparr>"
  have "k_open (host_at 7) (Some ''f'') 9 fresh_fs = Some (0, opened_fs)" using opened_fs_facts by blast
  then have "open_redirections ?cmd (sh_os (shell_on shell_kernel)) = Some (Some (None, Some 0), ?u)"
    by (simp add: open_redirections_def open_for_write_def s_open_def fs_call_def set_errno_def system_on_def
        K_O_CREATE_def K_O_APPEND_def)
  moreover have "get_func_from_cmd ''ls'' inline_funcs = None" by code_simp
  moreover have "fd_in_use (g_fd_table opened_fs ! 0)"
    using open_fileD [OF opened_fs_open] by (simp add: bad_fd_def)
  moreover have "''ls'' \<notin> set loop_words" by (simp add: loop_words_def)
  ultimately show "\<exists>u2. shell_dispatch (\<lambda>_. env) 12 2 [] ?cmd ?con =
      Some (Inr (Next_prompt, \<lparr>con_shell = (shell_on shell_kernel)\<lparr>sh_os := u2\<rparr>, con_stdin = [], con_next_jid = 1\<rparr>)) \<and>
      os_err u2 = [''pipe''] \<and> fd_in_use (g_fd_table (os_fs u2) ! 0)"
    using pipeline_refused [of ?cmd "shell_on shell_kernel" "Some (None, Some 0)" ?u _ _ "\<lambda>_. env" 12 2 "[]" ?con] by auto
qed


subsection \<open>Jobs\<close>

text \<open>C31 (invariant). Whatever jobs are added, updated, removed, reaped, continued and brought to the
  foreground, the ids of the jobs of the table are distinct. Adding a job uses a new id, under which the
  job is found, and leaves the other jobs as they are; it fails when the 64 places are taken.\<close>

theorem job_ids_distinct:
  assumes "jobs_reach j"
  shows "distinct (filter (\<lambda>n. n \<noteq> 0) (map jid (job_table j))) \<and>
    (if \<exists>e\<in>set (job_table j). jid e = 0
     then \<exists>j' i. jobs_add p cmd b j = (next_jid j, j') \<and> i < MAX_JOBS \<and> jid (job_table j ! i) = 0 \<and>
       next_jid j \<notin> jid ` set (job_table j) \<and> jobs_by_jid (next_jid j) j' = Some i \<and>
       job_table j' = (job_table j)[i := \<lparr>jid = next_jid j, job_pid = p, cmdline = take 127 cmd, jstate = JOB_RUNNING\<rparr>]
     else jobs_add p cmd b j = (-1, j))"
proof -
  have ok: "jobs_ok j" using jobs_reach_ok assms by blast
  let ?e = "\<lparr>jid = next_jid j, job_pid = p, cmdline = take 127 cmd, jstate = JOB_RUNNING\<rparr>"
  have new: "next_jid j \<notin> jid ` set (job_table j)" using ok by (auto simp: jobs_ok_def)
  show ?thesis
  proof (cases "find_empty_slot j")
    case None
    then have "\<not> (\<exists>e\<in>set (job_table j). jid e = 0)" by (auto simp: find_empty_slot_def find_idx_None)
    then show ?thesis using ok None by (simp add: jobs_ok_def jobs_add_def)
  next
    case (Some i)
    then have i: "i < length (job_table j)" "jid (job_table j ! i) = 0"
      by (auto simp: find_empty_slot_def dest: find_idx_less)
    then have ex: "\<exists>e\<in>set (job_table j). jid e = 0" using nth_mem by metis
    have "jid ((job_table j)[i := ?e] ! k) \<noteq> next_jid j" if "k < i" for k
    proof -
      have "job_table j ! k \<in> set (job_table j)" using that i(1) by simp
      then have "jid (job_table j ! k) \<noteq> next_jid j" using new by (metis imageI)
      then show ?thesis using that by simp
    qed
    then have "find_idx (\<lambda>e. jid e = next_jid j) ((job_table j)[i := ?e]) = Some i"
      using i(1) by (intro find_idx_Some [THEN iffD2]) auto
    then show ?thesis
      using ok Some i ex new by (auto simp: jobs_ok_def jobs_add_def jobs_by_jid_def set_job_def Let_def)
  qed
qed

lemma job_ids_distinct_witness:
  "\<exists>j' i. jobs_add 9 ''wc'' True (snd (jobs_add 7 ''cat'' True jobs_start)) = (2, j') \<and> jobs_by_jid 2 j' = Some i"
proof -
  have "jid (job_table (snd (jobs_add 7 ''cat'' True jobs_start)) ! 1) = 0 \<and>
    1 < length (job_table (snd (jobs_add 7 ''cat'' True jobs_start))) \<and>
    next_jid (snd (jobs_add 7 ''cat'' True jobs_start)) = 2" by code_simp
  moreover from this have "\<exists>e\<in>set (job_table (snd (jobs_add 7 ''cat'' True jobs_start))). jid e = 0"
    using nth_mem by blast
  ultimately show ?thesis
    using job_ids_distinct [OF jobs_reach.add [OF jobs_reach.start, of 7 "''cat''" True], of 9 "''wc''" True] by auto
qed

text \<open>A wait for a child that has ended, by a process that is in its queue or not.\<close>

lemma links_only:
  assumes "queue_list h q as" "\<forall>b. map_option next_pcb_ptr (h' b) = map_option next_pcb_ptr (h b)"
  shows "queue_list h' q as"
proof -
  have "linked_pcbs h' p as" if "linked_pcbs h p as" for p
    using that
  proof (induction as arbitrary: p)
    case (Cons a as)
    then obtain x where x: "h a = Some x" "p = Some a" "linked_pcbs h (next_pcb_ptr x) as" by auto
    then obtain y where "h' a = Some y" "next_pcb_ptr y = next_pcb_ptr x"
      using assms(2) by (metis (no_types, lifting) map_option_eq_Some option.simps(9))
    then show ?case using x Cons.IH by simp
  qed simp
  then show ?thesis using assms(1) by (simp add: queue_list_def)
qed

lemma wait_reaps:
  assumes "proc_reach (os_kernel u)" "k_get_self_pcb me (os_kernel u) = Some (Some s)"
    "k_heap (os_kernel u) s = Some pw" "c \<in> set (table (os_kernel u))" "k_heap (os_kernel u) c = Some pc"
    "ppid pc = pid pw" "0 < pid pc" "c \<noteq> s" "status pc = THRD_ZOMBIE"
    "term_signal pc = 0 \<or> term_signal pc = P_SIGTERM"
    "queue_at (priority_level pw) (os_kernel u) = Some q" "queue_list (k_heap (os_kernel u)) q as"
  shows "\<exists>u' w. s_waitpid_nohang me (pid pc) True u = Some (Inr ((pid pc, Some w), u')) \<and>
    w = (if term_signal pc = 0 then exit_code pc * 256 else P_SIGTERM) \<and>
    k_heap (os_kernel u') c = Some (pc\<lparr>status := THRD_REAPED\<rparr>) \<and> table (os_kernel u') = table (os_kernel u)"
proof -
  let ?k = "os_kernel u"
  obtain k1 where k1: "k_waitpid_enter me (pid pc) True ?k = Some (Inr (Joining c s, k1))"
    "k_heap k1 s = Some (pw\<lparr>status := THRD_BLOCKED\<rparr>)" "\<forall>b. b \<noteq> s \<longrightarrow> k_heap k1 b = k_heap ?k b"
    "table k1 = table ?k" "k_queues k1 = k_queues ?k"
    using seek_child [OF proc_reach_ok [OF assms(1)] assms(4-6)] assms(2,3,5,7,9)
    by (auto simp: k_waitpid_enter_def upd_proc_Some call_thread_def)
  let ?k2 = "k1\<lparr>k_masked := True, k_heap := (k_heap k1)(s \<mapsto> pw\<lparr>status := THRD_RUNNING\<rparr>)\<rparr>"
  have "queue_list (k_heap ?k2) q as"
    using assms(3,12) k1(3) by (intro links_only [OF assms(12)]) auto
  then have "\<exists>k3. k_waitpid_joined s k1 = Some k3 \<and> k_heap k3 = k_heap ?k2 \<and> k_vec k3 = k_vec k1"
    using k1(2,5) assms(11) pcb_in_queue_list [of _ q as s]
    by (auto simp: k_waitpid_joined_def upd_proc_Some queue_at_def call_thread_def split: if_split_asm)
  then obtain k3 where j: "k_waitpid_joined s k1 = Some k3" "k_heap k3 = k_heap ?k2" "k_vec k3 = k_vec k1" by blast
  have "k_heap k3 c = Some pc" using j(2) k1(3) assms(5,8) by simp
  then have r: "k_waitpid_reap c True k3 = Some (Inr ((pid pc, Some (if term_signal pc = 0 then exit_code pc * 256 else P_SIGTERM)),
      k3\<lparr>k_heap := (k_heap k3)(c \<mapsto> pc\<lparr>status := THRD_REAPED\<rparr>)\<rparr>))"
    using assms(9,10) by (auto simp: k_waitpid_reap_def upd_proc_Some P_SIGTERM_def)
  have "s_waitpid_nohang me (pid pc) True u = Some (Inr ((pid pc, Some (if term_signal pc = 0 then exit_code pc * 256 else P_SIGTERM)),
      u\<lparr>os_kernel := k3\<lparr>k_heap := (k_heap k3)(c \<mapsto> pc\<lparr>status := THRD_REAPED\<rparr>)\<rparr>\<rparr>))"
    using k1(1) j(1) r assms(7) by (simp add: s_waitpid_nohang_def set_errno_def)
  then show ?thesis using j k1(4) by simp
qed


text \<open>C32 (safety). The handler of SIGCHLD on a job whose process is a child that has ended: it reaps the process,
  but records the job as stopped when the process returned normally, and as done when a signal
  terminated it. A job that finished normally then keeps the shell from logging out.\<close>

theorem finished_job_counts_as_stopped:
  assumes "proc_reach (os_kernel u)" "k_get_self_pcb me (os_kernel u) = Some (Some s)"
    "k_heap (os_kernel u) s = Some pw" "c \<in> set (table (os_kernel u))" "k_heap (os_kernel u) c = Some pc"
    "ppid pc = pid pw" "0 < pid pc" "c \<noteq> s" "status pc = THRD_ZOMBIE"
    "term_signal pc = 0 \<and> exit_code pc = 0 \<or> term_signal pc = P_SIGTERM"
    "queue_at (priority_level pw) (os_kernel u) = Some q" "queue_list (k_heap (os_kernel u)) q as"
    "i < length (job_table j)" "jid (job_table j ! i) \<noteq> 0" "job_pid (job_table j ! i) = pid pc"
  shows "\<exists>j' u'. chld_slot me i (j, u) = Some (Inr (j', u')) \<and>
    k_heap (os_kernel u') c = Some (pc\<lparr>status := THRD_REAPED\<rparr>) \<and>
    job_table j' = (job_table j)[i := (job_table j ! i)
      \<lparr>jstate := if term_signal pc = 0 then JOB_STOPPED else JOB_DONE\<rparr>] \<and>
    (term_signal pc = 0 \<longrightarrow> (\<forall>u2 cur. \<not> exit_shell (logout_cmd
      \<lparr>sh_os = u2, sh_jobs = j', exit_shell = False, current_fg_pid = cur\<rparr>)))"
proof -
  let ?st = "if term_signal pc = 0 then JOB_STOPPED else JOB_DONE"
  let ?e = "(job_table j ! i)\<lparr>jstate := ?st\<rparr>"
  obtain u' where w: "s_waitpid_nohang me (pid pc) True u =
      Some (Inr ((pid pc, Some (if term_signal pc = 0 then exit_code pc * 256 else P_SIGTERM)), u'))"
    "k_heap (os_kernel u') c = Some (pc\<lparr>status := THRD_REAPED\<rparr>)"
    using wait_reaps [OF assms(1-9) _ assms(11,12)] assms(10) by blast
  have st: "reaped_state (if term_signal pc = 0 then exit_code pc * 256 else P_SIGTERM) = ?st"
    using assms(10) by (auto simp: reaped_state_def USER_WIFSTOPPED_def signal_numbers)
  have "\<exists>j'. chld_slot me i (j, u) = Some (Inr (j', u')) \<and> job_table j' = (job_table j)[i := ?e]"
    using assms(7,14,15) w(1) st by (simp add: chld_slot_def set_job_def Let_def)
  then obtain j' where j': "chld_slot me i (j, u) = Some (Inr (j', u'))" "job_table j' = (job_table j)[i := ?e]" by blast
  have "?e \<in> set (job_table j')" using assms(13) j'(2) by (simp add: set_update_memI)
  then have "term_signal pc = 0 \<Longrightarrow> jobs_have_stopped j'"
    using assms(14) unfolding jobs_have_stopped_def by (intro bexI [of _ ?e]) simp_all
  then show ?thesis using w(2) j' by (auto simp: logout_cmd_def)
qed

definition exited_kernel :: kernel where "exited_kernel = the (k_exit 13 child_kernel)"

lemma exited_settled: "settled exited_kernel"
proof -
  have "returned (k_exit 13 child_kernel)" by code_simp
  then have "k_exit 13 child_kernel = Some exited_kernel" by (auto simp: returned_def exited_kernel_def)
  then show ?thesis using settled_call [OF child_settled proc_step.leave] by metis
qed

lemmas exited_reach = settled_reach [OF exited_settled]

lemma finished_job_counts_as_stopped_witness:
  "\<exists>j' u'. chld_slot 12 0 (snd (jobs_add 3 ''ls'' True jobs_start), system_on exited_kernel) = Some (Inr (j', u')) \<and>
    jstate (job_table j' ! 0) = JOB_STOPPED"
proof -
  let ?k = exited_kernel and ?j = "snd (jobs_add 3 ''ls'' True jobs_start)"
  let ?s = "the (k_heap exited_kernel 2)" and ?c = "the (k_heap exited_kernel 3)" and ?q = "the (queue_at 0 exited_kernel)"
  have k: "k_get_self_pcb 12 ?k = Some (Some 2) \<and> k_heap ?k 2 = Some ?s \<and> k_heap ?k 3 = Some ?c \<and> table ?k = [1, 2, 3] \<and>
    pid ?s = 2 \<and> priority_level ?s = 0 \<and> pid ?c = 3 \<and> ppid ?c = 2 \<and> status ?c = THRD_ZOMBIE \<and> term_signal ?c = 0 \<and>
    exit_code ?c = 0 \<and> queue_at 0 ?k = Some ?q \<and> queue_list (k_heap ?k) ?q [1, 2]" by code_simp
  have j: "0 < length (job_table ?j) \<and> jid (job_table ?j ! 0) \<noteq> 0 \<and> job_pid (job_table ?j ! 0) = 3" by code_simp
  show ?thesis
    using finished_job_counts_as_stopped [of "system_on exited_kernel" 12 2 ?s 3 ?c ?q "[1, 2]" 0 ?j] exited_reach k j by auto
qed

subsection \<open>Spawning\<close>

lemma queue_frame: "queue_list h q as \<Longrightarrow> a \<notin> set as \<Longrightarrow> queue_list (h(a \<mapsto> x)) q as"
  by (simp add: queue_list_def linked_frame)

text \<open>The two ways a created process goes on: its thread starts, or it is cleaned up.\<close>

lemma run_created:
  assumes "k_heap k a = Some (new_pcb i pp 1)" "queue_at 1 k = Some q1" "queue_list (k_heap k) q1 as" "a \<notin> set as"
  shows "\<exists>k' p q1'. k_set_routine_and_run True (Some t) (Some a) True argv k = Some (Inr (0, k')) \<and> table k' = table k \<and>
    k_heap k' a = Some p \<and> pid p = i \<and> ppid p = pp \<and> thrd p = t \<and> status p = THRD_RUNNING \<and> priority_level p = 1 \<and>
    command p = Some (process_name i argv) \<and> queue_at 1 k' = Some q1' \<and> queue_list (k_heap k') q1' (as @ [a]) \<and>
    (\<forall>b x. b \<noteq> a \<and> k_heap k b = Some x \<longrightarrow> (\<exists>n. k_heap k' b = Some (x\<lparr>next_pcb_ptr := n\<rparr>)))"
proof -
  let ?p = "(new_pcb i pp 1)\<lparr>thrd := t, command := Some (process_name i argv), status := THRD_RUNNING\<rparr>"
  let ?k = "k\<lparr>k_heap := (k_heap k)(a \<mapsto> ?p)\<rparr>"
  have "unlinked (k_heap ?k) a" by (simp add: unlinked_def new_pcb_def)
  then obtain k2 q1' where e: "enqueue 1 a ?k = Some k2" "queue_at 1 k2 = Some q1'" "queue_list (k_heap k2) q1' (as @ [a])"
      "same_pcbs (k_heap ?k) (k_heap k2)" "k_vec k2 = k_vec ?k"
    using enqueue_list [of 1 ?k q1 as a] assms(2-4) by (auto simp: queue_frame)
  have run: "k_set_routine_and_run True (Some t) (Some a) True argv k = Some (Inr (0, k2\<lparr>k_masked := False\<rparr>))"
    using assms(1) e(1) by (simp add: k_set_routine_and_run_def upd_proc_Some new_pcb_def)
  obtain n where "k_heap k2 a = Some (?p\<lparr>next_pcb_ptr := n\<rparr>)" using same_pcbs_SomeD [OF e(4), of a ?p] by auto
  moreover have "\<exists>n. k_heap k2 b = Some (x\<lparr>next_pcb_ptr := n\<rparr>)" if "b \<noteq> a \<and> k_heap k b = Some x" for b x
    using same_pcbs_SomeD [OF e(4), of b x] that by simp
  ultimately show ?thesis using run e by (auto simp: new_pcb_def)
qed

lemma clean_created:
  assumes "proc_ok k" "k_heap k a = Some p" "table k = as @ [a]" "a \<notin> set as"
  shows "\<exists>k1 k'. k_set_routine_and_run True None (Some a) f argv k = Some (Inr (if f then -1 else -2, k1)) \<and>
    k_proc_cleanup (Some a) k1 = Inr (0, k') \<and> table k' = as \<and> k_heap k' = (k_heap k)(a := None)"
proof -
  let ?k = "if f then k\<lparr>k_heap := (k_heap k)(a \<mapsto> p\<lparr>status := THRD_ZOMBIE\<rparr>)\<rparr> else k"
  obtain v where "pcb_vec_remove_by_pcb a (k_vec k) = Inr (0, v)" "vec_elems v = remove1 a (table k)"
    using pcb_vec_remove(2) [of "k_vec k" a] assms(1,3) by (auto simp: proc_ok_def)
  moreover have "remove1 a (table k) = as" using assms(3,4) by (simp add: remove1_append)
  ultimately show ?thesis
    using assms(2) by (auto simp: k_set_routine_and_run_def upd_proc_Some k_proc_cleanup_def pcb_destroy_def)
qed

text \<open>C29 (functional). Spawning a process from user code by a process with room for another child: it gets the
  least free pid from 3 on and priority 1, is named by its first argument, runs, and is the last of its
  queue. When its thread cannot be created, the call returns -1 and the table is as before, but the pid
  that was never used stays among the children of the caller.\<close>

theorem spawn_outcome:
  assumes "proc_reach (os_kernel u)" "k_get_self_pcb me (os_kernel u) = Some (Some q)"
    "k_heap (os_kernel u) q = Some pq" "num_child_pids pq < NUM_CHILDREN_MAX"
    "sp_new env = Some a" "k_heap (os_kernel u) a = None" "\<forall>n. m_ok (sp_mem env) n" "sp_args_ok env" "sp_wrap_ok env"
    "queue_at 1 (os_kernel u) = Some q1" "queue_list (k_heap (os_kernel u)) q1 as"
  shows "\<exists>r u' pq' i. s_spawn env me True argv u = Some (Inr (r, u')) \<and> 3 \<le> i \<and>
    i \<notin> pid_at (k_heap (os_kernel u)) ` set (table (os_kernel u)) \<and>
    (\<forall>j. 3 \<le> j \<and> j < i \<longrightarrow> j \<in> pid_at (k_heap (os_kernel u)) ` set (table (os_kernel u))) \<and>
    k_heap (os_kernel u') q = Some pq' \<and> children pq' = children pq @ [i] \<and>
    (case sp_thread env of
       Some t \<Rightarrow> r = i \<and> table (os_kernel u') = table (os_kernel u) @ [a] \<and>
         (\<exists>p q1'. k_heap (os_kernel u') a = Some p \<and> pid p = i \<and> ppid p = pid pq \<and> thrd p = t \<and>
            status p = THRD_RUNNING \<and> priority_level p = 1 \<and> command p = Some (process_name i argv) \<and>
            queue_at 1 (os_kernel u') = Some q1' \<and> queue_list (k_heap (os_kernel u')) q1' (as @ [a]))
     | None \<Rightarrow> r = -1 \<and> os_errno u' = EAGAIN \<and> table (os_kernel u') = table (os_kernel u) \<and>
         k_heap (os_kernel u') a = None)"
proof -
  let ?k = "os_kernel u"
  have room: "(num_child_pids pq = NUM_CHILDREN_MAX) = False" using assms(4) by simp
  obtain i k1 pq' where i: "3 \<le> i" "i \<notin> pid_at (k_heap ?k) ` set (table ?k)"
      "\<forall>j. 3 \<le> j \<and> j < i \<longrightarrow> j \<in> pid_at (k_heap ?k) ` set (table ?k)"
    and c: "k_proc_create (sp_mem env) (Some a) (Some q) 1 ?k = Some (Inr (a, k1))" "table k1 = table ?k @ [a]"
      "k_queues k1 = k_queues ?k" "k_heap k1 = (k_heap ?k)(q \<mapsto> pq', a \<mapsto> new_pcb i (pid pq) 1)"
      "children pq' = children pq @ [i]" "next_pcb_ptr pq' = next_pcb_ptr pq"
    using create_process [OF assms(1,6,3,7), of 1] unfolding room if_False by blast
  have aq: "a \<noteq> q" "a \<notin> set as" "a \<notin> set (table ?k)"
    using assms(3,6,11) proc_reach_ok [OF assms(1)] linked_alloc [of "k_heap ?k" "q_head_ptr q1" as a]
    by (auto simp: queue_list_def proc_ok_def)
  have "queue_list ((k_heap ?k)(q \<mapsto> pq')) q1 as" using assms(3) c(6) by (intro links_only [OF assms(11)]) auto
  then have queue: "queue_at 1 k1 = Some q1" "queue_list (k_heap k1) q1 as"
    using assms(10) c(3,4) aq(2) queue_frame by (auto simp: queue_at_def split: if_split_asm)
  have new: "k_heap k1 a = Some (new_pcb i (pid pq) 1)" "k_heap k1 q = Some pq'" using c(4) aq(1) by simp_all
  show ?thesis
  proof (cases "sp_thread env")
    case None
    obtain k2 k3 where "k_set_routine_and_run True None (Some a) True argv k1 = Some (Inr (-1, k2))"
      "k_proc_cleanup (Some a) k2 = Inr (0, k3)" "table k3 = table ?k" "k_heap k3 = (k_heap k1)(a := None)"
      using clean_created [OF create_ok(1) [OF c(1) assms(6) proc_reach_ok [OF assms(1)]] new(1) c(2) aq(3), of True argv]
      by auto
    then show ?thesis
      using None assms(2,5,8,9) c(1,5) i new(2) aq(1)
      by (intro exI [of _ "-1"] exI [of _ "u\<lparr>os_kernel := k3, os_errno := EAGAIN\<rparr>"] exI [of _ pq'] exI [of _ i])
        (simp add: s_spawn_def)
  next
    case (Some t)
    obtain k2 p q1' where r: "k_set_routine_and_run True (Some t) (Some a) True argv k1 = Some (Inr (0, k2))" "table k2 = table k1"
      "k_heap k2 a = Some p" "pid p = i" "ppid p = pid pq" "thrd p = t" "status p = THRD_RUNNING" "priority_level p = 1"
      "command p = Some (process_name i argv)" "queue_at 1 k2 = Some q1'" "queue_list (k_heap k2) q1' (as @ [a])"
      "\<forall>b x. b \<noteq> a \<and> k_heap k1 b = Some x \<longrightarrow> (\<exists>n. k_heap k2 b = Some (x\<lparr>next_pcb_ptr := n\<rparr>))"
      using run_created [OF new(1) queue aq(2), of t argv] by blast
    obtain n where n: "k_heap k2 q = Some (pq'\<lparr>next_pcb_ptr := n\<rparr>)" using r(12) [rule_format, of q pq'] new(2) aq(1) by auto
    have "s_spawn env me True argv u = Some (Inr (i, u\<lparr>os_kernel := k2\<rparr>))"
      using Some assms(2,5,8,9) c(1) r(1,3,4) by (simp add: s_spawn_def k_get_pid_def)
    then show ?thesis
      using Some r c(2,5) i n
      by (intro exI [of _ i] exI [of _ "u\<lparr>os_kernel := k2\<rparr>"] exI [of _ "pq'\<lparr>next_pcb_ptr := n\<rparr>"])
        (simp add: children_def)
  qed
qed

lemma spawn_outcome_witness:
  "\<exists>r u'. s_spawn \<lparr>sp_mem = ample, sp_new = Some 3, sp_args_ok = True, sp_wrap_ok = True, sp_thread = None\<rparr> 12 True
    (Some [Some ''ls'']) (system_on shell_kernel) = Some (Inr (r, u')) \<and> r = -1 \<and> table (os_kernel u') = [1, 2] \<and>
    children (the (k_heap (os_kernel u') 2)) \<noteq> []"
proof -
  let ?k = shell_kernel and ?p = "the (k_heap shell_kernel 2)" and ?q = "the (queue_at 1 shell_kernel)"
  have "k_get_self_pcb 12 ?k = Some (Some 2) \<and> k_heap ?k 2 = Some ?p \<and> num_child_pids ?p = 0 \<and> k_heap ?k 3 = None \<and>
    queue_at 1 ?k = Some ?q \<and> queue_list (k_heap ?k) ?q [] \<and> table ?k = [1, 2]" by code_simp
  then show ?thesis
    using spawn_outcome [of "system_on shell_kernel" 12 2 ?p
        "\<lparr>sp_mem = ample, sp_new = Some 3, sp_args_ok = True, sp_wrap_ok = True, sp_thread = None\<rparr>" 3 ?q "[]"
        "Some [Some ''ls'']"] shell_reach
    by (auto simp: ample_def NUM_CHILDREN_MAX_def)
qed

end
