(* ===== verification/PennFatShell.thy ===== *)
theory PennFatShell
  imports NameOps MountOps CLib
begin

text \<open>
  The standalone program over the file system, \<open>src/pennfat.c\<close>: a loop that reads lines from the
  standard input, parses each and calls the operations of \<open>pennfat_kernel.c\<close>. Its functions \<open>cat\<close>, \<open>cp\<close>
  and so on have the prefix \<open>pf\<close> here, as the user shell has functions of the same names. An array of
  words that ends with \<open>NULL\<close> is a list.

  The files of the host that \<open>cp -h\<close> opens are those in which the images lie, \<open>host_files\<close>; the image
  that is mounted is not to be among them.
\<close>

subsection \<open>The state\<close>

datatype pf_line = Words string | Rows "(dir_entry \<times> link_text) list" | Long_rows "(string \<times> dir_entry \<times> link_text) list"

text \<open>
  Each call of the file system meets the host as \<open>pf_host\<close> says for its number, and each call of
  \<open>fwrite\<close> accepts at most \<open>pf_fwrite\<close> bytes. \<open>pf_mem\<close> tells for each line whether the two allocations
  of the parser succeed.
\<close>

record pennfat =
  pf_fs :: fs
  pf_host :: "nat \<Rightarrow> host"
  pf_calls :: nat
  pf_fwrite :: "nat \<Rightarrow> nat"
  pf_fwrites :: nat
  pf_ferror :: "string \<Rightarrow> bool"
  pf_fopen_w :: "string \<Rightarrow> bool"
  pf_mem :: "nat \<Rightarrow> bool \<times> bool"
  pf_lines :: nat
  pf_stdin :: string
  pf_stdin_error :: bool
  pf_out :: "pf_line list"
  pf_err :: "string list"

definition pf_call :: "(host \<Rightarrow> fs \<Rightarrow> ('a \<times> fs) option) \<Rightarrow> pennfat \<Rightarrow> ('a \<times> pennfat) option" where
  "pf_call f p =
    do { (r, s) \<leftarrow> f (pf_host p (pf_calls p)) (pf_fs p);
         Some (r, p\<lparr>pf_fs := s, pf_calls := pf_calls p + 1\<rparr>) }"

definition pf_print :: "pf_line \<Rightarrow> pennfat \<Rightarrow> pennfat" where "pf_print t p = p\<lparr>pf_out := pf_out p @ [t]\<rparr>"
definition pf_error :: "string \<Rightarrow> pennfat \<Rightarrow> pennfat" where "pf_error t p = p\<lparr>pf_err := pf_err p @ [t]\<rparr>"

definition MAX_CMD_LENGTH :: nat where "MAX_CMD_LENGTH = 1024"
definition BUFSIZE :: nat where "BUFSIZE = 4096"

definition pf_open :: "string \<Rightarrow> int \<Rightarrow> pennfat \<Rightarrow> (int \<times> pennfat) option" where
  "pf_open path mode = pf_call (\<lambda>h. k_open h (Some path) mode)"

definition pf_close :: "int \<Rightarrow> pennfat \<Rightarrow> (int \<times> pennfat) option" where
  "pf_close fd = pf_call (\<lambda>h s. Some (k_close h fd s))"

definition pf_read :: "int \<Rightarrow> pennfat \<Rightarrow> ((int \<times> string) \<times> pennfat) option" where
  "pf_read fd = pf_call (\<lambda>h s. map_option (\<lambda>(r, buf, s1). ((r, buf), s1)) (k_read h fd (int BUFSIZE) s))"

definition pf_write :: "int \<Rightarrow> string \<Rightarrow> pennfat \<Rightarrow> (int \<times> pennfat) option" where
  "pf_write fd buf = pf_call (\<lambda>h. k_write h fd buf (int (length buf)))"

subsection \<open>cat\<close>

text \<open>\<open>fwrite\<close>: how many bytes it takes, of which the caller sees the number.\<close>

definition pf_put :: "string \<Rightarrow> pennfat \<Rightarrow> nat \<times> pennfat" where
  "pf_put buf p = (min (length buf) (pf_fwrite p (pf_fwrites p)), p\<lparr>pf_fwrites := pf_fwrites p + 1\<rparr>)"

definition write_buffer :: "int \<Rightarrow> string \<Rightarrow> pennfat \<Rightarrow> (int \<times> pennfat) option" where
  "write_buffer out_fd buf p =
    (if out_fd \<ge> 0 then do {
       (ret, p1) \<leftarrow> pf_write out_fd buf p;
       Some (if ret < 0 then ret else if ret \<noteq> int (length buf) then -1 else 0, p1) }
     else let (n, p1) = pf_put buf p in
       Some (if n = length buf then 0 else -1, pf_print (Words (take n buf)) p1))"

record cat_opts =
  overwrite_mode :: bool
  append_mode :: bool
  output_file :: "string option"
  input_files :: "string list"

definition no_opts :: cat_opts where
  "no_opts = \<lparr>overwrite_mode = False, append_mode = False, output_file = None, input_files = []\<rparr>"

fun cat_args :: "string list \<Rightarrow> cat_opts \<Rightarrow> string + cat_opts" where
  "cat_args [] c = Inr c"
| "cat_args (a # as) c =
    (if a = ''-w'' then
       (if overwrite_mode c \<or> append_mode c then Inl ''cat: multiple output mode flags specified''
        else case as of [] \<Rightarrow> Inl ''cat: missing output file after -w''
          | f # rest \<Rightarrow> cat_args rest (c\<lparr>overwrite_mode := True, output_file := Some f\<rparr>))
     else if a = ''-a'' then
       (if overwrite_mode c \<or> append_mode c then Inl ''cat: multiple output mode flags specified''
        else case as of [] \<Rightarrow> Inl ''cat: missing output file after -a''
          | f # rest \<Rightarrow> cat_args rest (c\<lparr>append_mode := True, output_file := Some f\<rparr>))
     else if length (input_files c) < 32 then cat_args as (c\<lparr>input_files := input_files c @ [a]\<rparr>)
     else Inl ''cat: too many input files'')"

text \<open>Opening the output; \<open>Inl\<close>: the command returns.\<close>

definition cat_output :: "cat_opts \<Rightarrow> pennfat \<Rightarrow> ((unit + int) \<times> pennfat) option" where
  "cat_output c p =
    (case output_file c of None \<Rightarrow> Some (Inr (-1), p)
     | Some f \<Rightarrow> do {
         (ret, p1) \<leftarrow> pf_open f (if overwrite_mode c then K_O_CREATE OR K_O_WRONLY else K_O_CREATE OR K_O_APPEND) p;
         if ret < 0 then Some (Inl (), pf_error (''cat: error opening '' @ quoted f @ '': '' @ PennFatErr_toErrString ret) p1)
         else if append_mode c then do {
           (r2, p2) \<leftarrow> pf_call (\<lambda>h s. Some (k_lseek ret 0 F_SEEK_END s)) p1;
           if r2 < 0 then do {
             (_, p3) \<leftarrow> pf_close ret (pf_error (''cat: error seeking end of '' @ quoted f @ '': '' @ PennFatErr_toErrString r2) p2);
             Some (Inl (), p3) }
           else Some (Inr ret, p2) }
         else Some (Inr ret, p1) })"

partial_function (option) cat_copy :: "string \<Rightarrow> int \<Rightarrow> int \<Rightarrow> pennfat \<Rightarrow> pennfat option" where
  "cat_copy f in_fd out_fd p =
    do { ((n, buf), p1) \<leftarrow> pf_read in_fd p;
         if n < 0 then Some (pf_error (''cat: read error in '' @ quoted f) p1)
         else if n = 0 then Some p1
         else do {
           (w, p2) \<leftarrow> write_buffer out_fd buf p1;
           if w \<noteq> 0 then Some (pf_error (''cat: error writing output for '' @ quoted f) p2)
           else cat_copy f in_fd out_fd p2 } }"

declare cat_copy.simps [code]

fun cat_inputs :: "int \<Rightarrow> string list \<Rightarrow> pennfat \<Rightarrow> pennfat option" where
  "cat_inputs out_fd [] p = Some p"
| "cat_inputs out_fd (f # fs) p =
    do { (in_fd, p1) \<leftarrow> pf_open f K_O_RDONLY p;
         if in_fd < 0 then cat_inputs out_fd fs (pf_error (''cat: error opening '' @ quoted f) p1)
         else do {
           p2 \<leftarrow> cat_copy f in_fd out_fd p1;
           (_, p3) \<leftarrow> pf_close in_fd p2;
           cat_inputs out_fd fs p3 } }"

text \<open>One line of the standard input, up to a NUL byte, when no files are given.\<close>

definition cat_stdin :: "int \<Rightarrow> pennfat \<Rightarrow> pennfat option" where
  "cat_stdin out_fd p =
    do { p1 \<leftarrow> (case fgets BUFSIZE (pf_stdin p) of None \<Rightarrow> Some p
           | Some (l, rest) \<Rightarrow> do {
               (w, p') \<leftarrow> write_buffer out_fd (cstr l) (p\<lparr>pf_stdin := rest\<rparr>);
               Some (if w \<noteq> 0 then pf_error ''cat: error writing output'' p' else p') });
         Some (if pf_stdin_error p1 then pf_error ''cat: error reading from stdin'' p1 else p1) }"

definition pf_cat :: "string list \<Rightarrow> pennfat \<Rightarrow> pennfat option" where
  "pf_cat args p =
    (case cat_args args no_opts of Inl e \<Rightarrow> Some (pf_error e p)
     | Inr c \<Rightarrow> do {
         (out, p1) \<leftarrow> cat_output c p;
         case out of Inl _ \<Rightarrow> Some p1
         | Inr out_fd \<Rightarrow> do {
             p2 \<leftarrow> (if input_files c = [] then cat_stdin out_fd p1 else cat_inputs out_fd (input_files c) p1);
             if out_fd \<ge> 0 then map_option snd (pf_close out_fd p2) else Some p2 } })"

subsection \<open>cp\<close>

text \<open>Copying from the host: the rest of the source file.\<close>

function cp_from_loop :: "string \<Rightarrow> int \<Rightarrow> string \<Rightarrow> pennfat \<Rightarrow> (int \<times> pennfat) option" where
  "cp_from_loop dest dest_fd content p =
    (if content = [] then Some (0, p)
     else let buf = take BUFSIZE content in
       do { (w, p1) \<leftarrow> pf_write dest_fd buf p;
            if w < 0 \<or> w \<noteq> int (length buf)
            then Some (if w < 0 then w else -1, pf_error (''cp: error writing to '' @ quoted dest) p1)
            else cp_from_loop dest dest_fd (drop BUFSIZE content) p1 })"
  by pat_completeness auto
termination by (relation "measure (\<lambda>(_, _, content, _). length content)") (auto simp: BUFSIZE_def)

declare cp_from_loop.simps [simp del]

definition cp_from_host :: "string \<Rightarrow> string \<Rightarrow> pennfat \<Rightarrow> (int \<times> pennfat) option" where
  "cp_from_host src dest p =
    (case host_files (pf_fs p) src of
       None \<Rightarrow> Some (-1, pf_error (''cp: error opening host source file '' @ quoted src) p)
     | Some content \<Rightarrow> do {
         (dest_fd, p1) \<leftarrow> pf_open dest (K_O_CREATE OR K_O_WRONLY) p;
         if dest_fd < 0 then Some (dest_fd, pf_error (''cp: error opening destination file '' @ quoted dest) p1)
         else do {
           (ret, p2) \<leftarrow> cp_from_loop dest dest_fd content p1;
           let (ret', p3) = (if pf_ferror p2 src then (-1, pf_error ''cp: error reading host source file'' p2) else (ret, p2));
           (_, p4) \<leftarrow> pf_close dest_fd p3;
           Some (ret', p4) } })"

text \<open>Copying to the host; \<open>written\<close>: the bytes that the destination holds.\<close>

partial_function (option) cp_to_loop ::
  "string \<Rightarrow> string \<Rightarrow> int \<Rightarrow> string \<Rightarrow> pennfat \<Rightarrow> ((int \<times> string) \<times> pennfat) option" where
  "cp_to_loop src dest src_fd written p =
    do { ((n, buf), p1) \<leftarrow> pf_read src_fd p;
         if n < 0 then Some ((n, written), pf_error (''cp: error reading from '' @ quoted src) p1)
         else if n = 0 then Some ((0, written), p1)
         else let (k, p2) = pf_put buf p1 in
           if k \<noteq> length buf
           then Some ((err_code PennFatErr_INTERNAL, written @ take k buf), pf_error (''cp: error writing to '' @ quoted dest) p2)
           else cp_to_loop src dest src_fd (written @ buf) p2 }"

declare cp_to_loop.simps [code]

definition cp_to_host :: "string \<Rightarrow> string \<Rightarrow> pennfat \<Rightarrow> (int \<times> pennfat) option" where
  "cp_to_host src dest p =
    do { (src_fd, p1) \<leftarrow> pf_open src K_O_RDONLY p;
         if src_fd < 0 then Some (src_fd, pf_error (''cp: error opening source file '' @ quoted src) p1)
         else if \<not> pf_fopen_w p1 dest then do {
           (_, p2) \<leftarrow> pf_close src_fd (pf_error (''cp: error opening host destination file '' @ quoted dest) p1);
           Some (err_code PennFatErr_INTERNAL, p2) }
         else do {
           ((ret, content), p2) \<leftarrow> cp_to_loop src dest src_fd [] p1;
           (_, p3) \<leftarrow> pf_close src_fd p2;
           Some (ret, p3\<lparr>pf_fs := put_file dest content (pf_fs p3)\<rparr>) } }"

partial_function (option) cp_within_loop ::
  "string \<Rightarrow> string \<Rightarrow> int \<Rightarrow> int \<Rightarrow> pennfat \<Rightarrow> (int \<times> pennfat) option" where
  "cp_within_loop src dest src_fd dest_fd p =
    do { ((n, buf), p1) \<leftarrow> pf_read src_fd p;
         if n < 0 then Some (n, pf_error (''cp: error reading from '' @ quoted src) p1)
         else if n = 0 then Some (0, p1)
         else do {
           (w, p2) \<leftarrow> pf_write dest_fd buf p1;
           if w < 0 \<or> w \<noteq> n then Some (if w < 0 then w else -1, pf_error (''cp: error writing to '' @ quoted dest) p2)
           else cp_within_loop src dest src_fd dest_fd p2 } }"

declare cp_within_loop.simps [code]

definition cp_within :: "string \<Rightarrow> string \<Rightarrow> pennfat \<Rightarrow> (int \<times> pennfat) option" where
  "cp_within src dest p =
    do { (src_fd, p1) \<leftarrow> pf_open src K_O_RDONLY p;
         if src_fd < 0 then Some (src_fd, pf_error (''cp: error opening source file '' @ quoted src) p1)
         else do {
           (dest_fd, p2) \<leftarrow> pf_open dest (K_O_CREATE OR K_O_WRONLY) p1;
           if dest_fd < 0 then do {
             (_, p3) \<leftarrow> pf_close src_fd (pf_error (''cp: error opening destination file '' @ quoted dest) p2);
             Some (dest_fd, p3) }
           else do {
             (ret, p3) \<leftarrow> cp_within_loop src dest src_fd dest_fd p2;
             (_, p4) \<leftarrow> pf_close src_fd p3;
             (_, p5) \<leftarrow> pf_close dest_fd p4;
             Some (ret, p5) } } }"

definition pf_cp :: "string list \<Rightarrow> pennfat \<Rightarrow> (int \<times> pennfat) option" where
  "pf_cp args p =
    (case args of
       [a, b, c] \<Rightarrow>
         if a = ''-h'' then cp_from_host b c p
         else if b = ''-h'' then cp_to_host a c p
         else Some (err_code PennFatErr_INVAD, pf_error (''cp: invalid flag usage. Use '' @ quoted ''-h'' @
             '' as the first argument to read from host or as the second to write to host.'') p)
     | [a, b] \<Rightarrow> cp_within a b p
     | _ \<Rightarrow> Some (-1, pf_error ''Usage: cp [ -h ] SOURCE DEST, cp SOURCE -h DEST'' p))"

subsection \<open>The other commands\<close>

fun pf_touch :: "string list \<Rightarrow> pennfat \<Rightarrow> pennfat option" where
  "pf_touch [] p = Some p"
| "pf_touch (f # fs) p =
    do { (err, p1) \<leftarrow> pf_call (\<lambda>h. k_touch h (Some f)) p;
         pf_touch fs (if err \<noteq> PennFatErr_OK
           then pf_error (''touch failed for '' @ f @ '': '' @ PennFatErr_toErrString (err_code err)) p1 else p1) }"

fun pf_rm :: "string list \<Rightarrow> pennfat \<Rightarrow> pennfat option" where
  "pf_rm [] p = Some p"
| "pf_rm (f # fs) p =
    do { (err, p1) \<leftarrow> pf_call (\<lambda>h. k_unlink h (Some f)) p;
         pf_rm fs (if err \<noteq> PennFatErr_OK
           then pf_error (''Error removing '' @ f @ '': '' @ PennFatErr_toErrString (err_code err)) p1 else p1) }"

definition pf_perm :: "string \<Rightarrow> 8 word option" where
  "pf_perm perm_str =
    (if perm_str = ''r'' then Some PERM_READ
     else if perm_str = ''w'' then Some PERM_WRITE
     else if perm_str = ''x'' then Some PERM_EXEC
     else if perm_str = ''rw'' then Some (PERM_READ OR PERM_WRITE)
     else if perm_str = ''rx'' then Some (PERM_READ OR PERM_EXEC)
     else if perm_str = ''wx'' then Some (PERM_WRITE OR PERM_EXEC)
     else if perm_str = ''rwx'' then Some (PERM_READ OR PERM_WRITE OR PERM_EXEC)
     else None)"

definition pf_chmod :: "string \<Rightarrow> string \<Rightarrow> pennfat \<Rightarrow> (PennFatErr \<times> pennfat) option" where
  "pf_chmod perm_str fname p =
    (case pf_perm perm_str of
       None \<Rightarrow> Some (PennFatErr_INVAD, pf_error (''Invalid permission string: '' @ perm_str) p)
     | Some perm \<Rightarrow> pf_call (\<lambda>h. k_chmod h (Some fname) perm) p)"

text \<open>The options of \<open>ls\<close>: whether the listing is long, and the path.\<close>

fun ls_args :: "string list \<Rightarrow> bool \<Rightarrow> string option \<Rightarrow> string + bool \<times> string option" where
  "ls_args [] long tgt = Inr (long, tgt)"
| "ls_args (a # as) long tgt =
    (if a = ''-l'' then ls_args as True tgt
     else if a \<noteq> [] \<and> hd a = CHR ''-'' then Inl (''ls: invalid option '' @ quoted a)
     else if tgt \<noteq> None then Inl ''ls: too many arguments''
     else ls_args as long (Some a))"

text \<open>A message for a failure of a command.\<close>

definition report :: "string \<Rightarrow> int \<Rightarrow> pennfat \<Rightarrow> pennfat" where
  "report what status p = (if status \<noteq> 0 then pf_error (what @ '': '' @ PennFatErr_toErrString status) p else p)"

definition pf_ls :: "string list \<Rightarrow> pennfat \<Rightarrow> pennfat option" where
  "pf_ls as p =
    (case ls_args as False None of Inl e \<Rightarrow> Some (pf_error e p)
     | Inr (long, tgt) \<Rightarrow>
         if long then do {
           ((err, rows), p1) \<leftarrow> pf_call (\<lambda>h s. map_option (\<lambda>r. (r, s)) (k_ls_long h tgt s)) p;
           Some (report ''ls failed'' (err_code err) (pf_print (Long_rows rows) p1)) }
         else do {
           ((err, rows), p1) \<leftarrow> pf_call (\<lambda>h s. map_option (\<lambda>r. (r, s)) (k_ls h tgt s)) p;
           Some (report ''ls failed'' (err_code err) (pf_print (Rows rows) p1)) })"

text \<open>\<open>open\<close> of a null pointer fails.\<close>

definition pf_mount :: "string option \<Rightarrow> pennfat \<Rightarrow> (PennFatErr \<times> pennfat) option" where
  "pf_mount nm = pf_call (\<lambda>h s. Some (case nm of
      None \<Rightarrow> (if g_mounted s then PennFatErr_UNEXPCMD else PennFatErr_INTERNAL, s)
    | Some f \<Rightarrow> k_mount h f s))"

definition pf_mkfs :: "string list \<Rightarrow> pennfat \<Rightarrow> pennfat option" where
  "pf_mkfs as p =
    (if length as < 3 then Some (pf_error ''mkfs: missing arguments'' p)
     else let blocks_in_fat = atoi (as ! 1); block_size_config = atoi (as ! 2) in
       if blocks_in_fat < 1 \<or> blocks_in_fat > 32
       then Some (pf_error (''Invalid number of blocks in FAT: '' @ show_int blocks_in_fat) p)
       else if block_size_config < 0 \<or> block_size_config > 4
       then Some (pf_error (''Invalid block size configuration: '' @ show_int block_size_config) p)
       else do {
         (err, p1) \<leftarrow> pf_call (\<lambda>h s. Some (k_mkfs h (as ! 0) blocks_in_fat block_size_config s)) p;
         Some (report ''mkfs failed'' (err_code err) p1) })"

subsection \<open>The loop\<close>

definition pf_command :: "string \<Rightarrow> string list \<Rightarrow> pennfat \<Rightarrow> pennfat option" where
  "pf_command c as p =
    (if c = ''mount'' then do {
       (err, p1) \<leftarrow> pf_mount (if as = [] then None else Some (hd as)) p;
       Some (report ''mount failed'' (err_code err) p1) }
     else if c = ''unmount'' then do {
       (err, p1) \<leftarrow> pf_call k_unmount p;
       Some (report ''unmount failed'' (err_code err) p1) }
     else if c = ''mkfs'' then pf_mkfs as p
     else if c = ''ls'' then pf_ls as p
     else if c = ''touch'' then (if as = [] then Some (pf_error ''touch: missing arguments'' p) else pf_touch as p)
     else if c = ''mv'' then
       (if length as < 2 then Some (pf_error ''mv: missing arguments'' p)
        else do {
          (err, p1) \<leftarrow> pf_call (\<lambda>h. k_rename h (Some (as ! 0)) (Some (as ! 1))) p;
          Some (report (''Error renaming '' @ as ! 0 @ '' to '' @ as ! 1) (err_code err) p1) })
     else if c = ''rm'' then (if as = [] then Some (pf_error ''rm: missing arguments'' p) else pf_rm as p)
     else if c = ''chmod'' then
       (if length as < 2 then Some (pf_error ''chmod: missing arguments'' p)
        else do {
          (err, p1) \<leftarrow> pf_chmod (as ! 0) (as ! 1) p;
          Some (report ''chmod failed'' (err_code err) p1) })
     else if c = ''cat'' then (if as = [] then Some (pf_error ''cat: missing arguments'' p) else pf_cat as p)
     else if c = ''cp'' then
       (if length as < 2 then Some (pf_error ''cp: missing arguments'' p)
        else do {
          (status, p1) \<leftarrow> pf_cp as p;
          Some (report ''cp failed'' status p1) })
     else Some (pf_error (''pennfat: command not found: '' @ c) p))"

text \<open>
  \<open>get_cmd\<close> and \<open>safe_parse_command\<close> of \<open>src/util/utils.c\<close>: the next line, and its parse; \<open>Inl ()\<close>: the
  program exits, \<^const>\<open>None\<close> in the result: the command is not valid.
\<close>

definition get_cmd :: "nat \<Rightarrow> pennfat \<Rightarrow> (string \<times> pennfat) option" where
  "get_cmd n p = map_option (\<lambda>(l, rest). (cstr l, p\<lparr>pf_stdin := rest\<rparr>)) (fgets n (pf_stdin p))"

definition safe_parse_command :: "string \<Rightarrow> pennfat \<Rightarrow> (unit + parsed_command option \<times> pennfat) option" where
  "safe_parse_command line p =
    do { (parsed, _) \<leftarrow> parse_command (fst (pf_mem p (pf_lines p))) (snd (pf_mem p (pf_lines p))) line;
         let p1 = p\<lparr>pf_lines := pf_lines p + 1\<rparr>;
         Some (case parsed of
           Inl e \<Rightarrow> if parser_code e = -1 then Inl ()
             else Inr (None, pf_print (Words (''Invalid Input:'' @ print_parser_errcode (parser_code e))) p1)
         | Inr cmd \<Rightarrow> Inr (Some cmd, p1)) }"

text \<open>One line; \<open>Inl\<close>: the program exits.\<close>

definition run_line :: "string \<Rightarrow> pennfat \<Rightarrow> (unit + pennfat) option" where
  "run_line buf p =
    (if buf = [] then Some (Inr p)
     else do {
       r \<leftarrow> safe_parse_command buf p;
       case r of
         Inl x \<Rightarrow> Some (Inl x)
       | Inr (None, p1) \<Rightarrow> Some (Inr p1)
       | Inr (Some cmd, p1) \<Rightarrow>
           (case commands cmd of
              [c # as] \<Rightarrow> map_option Inr (pf_command c as p1)
            | _ \<Rightarrow> Some (Inr (pf_error ''Unknown command'' p1))) })"

text \<open>The loop; at the end of the input, the clean-up and the state at exit.\<close>

partial_function (option) main_loop :: "pennfat \<Rightarrow> (unit + pennfat) option" where
  "main_loop p =
    (case get_cmd MAX_CMD_LENGTH p of
       None \<Rightarrow> map_option (\<lambda>(_, p1). Inr p1)
                 (pf_call (\<lambda>h s. map_option (\<lambda>s1. ((), s1)) (pennfat_kernel_cleanup h s)) p)
     | Some (buf, p1) \<Rightarrow> do {
         r \<leftarrow> run_line buf p1;
         case r of Inl x \<Rightarrow> Some (Inl x) | Inr p2 \<Rightarrow> main_loop p2 })"

declare main_loop.simps [code]

end
