(* ===== verification/SpThread.thy ===== *)
theory SpThread
  imports Prelude
begin

text \<open>
  Suspendable threads, \<open>src/kernel/spthread.c\<close>. One spthread, the threads that suspend and continue it, and the
  thread that creates it, are a transition system: its state is a \<^term>\<open>world\<close> record, and each event is a
  step of one of the participants. Other spthreads share no data with it (every thread has its own meta struct and the
  arguments of a request live on the sender's stack), so one target is the general case.

  The control state of the thread is the stack of its active frames: \<open>spthread_start\<close>, its routine,
  \<open>spthread_suspend_self\<close>, invocations of the handler of \<open>SIGPTHD\<close> (a signal that arrives while a handler is
  suspended starts another handler on top), and the clean-up routine. A critical section under a mutex is one step.

  What POSIX says of signals is written out: a blocked signal is pending; \<open>SIGPTHD\<close> is a standard signal, so a
  second instance is discarded while one is pending; a handler runs with its signal blocked and its return restores
  the mask; \<open>sigsuspend\<close> sets a mask and sleeps until a handler has returned, then restores the old mask. It is also a
  cancellation point.
\<close>

subsection \<open>Signal sets and constants\<close>

type_synonym sigset = "int set"

definition sigfillset :: sigset where "sigfillset = UNIV"
definition sigemptyset :: sigset where "sigemptyset = {}"
definition sigaddset :: "sigset \<Rightarrow> int \<Rightarrow> sigset" where "sigaddset s n = insert n s"
definition sigdelset :: "sigset \<Rightarrow> int \<Rightarrow> sigset" where "sigdelset s n = s - {n}"

text \<open>\<open>pthread_sigmask\<close> with \<open>SIG_BLOCK\<close> and \<open>SIG_UNBLOCK\<close>.\<close>

definition sig_block :: "sigset \<Rightarrow> sigset \<Rightarrow> sigset" where "sig_block these msk = msk \<union> these"
definition sig_unblock :: "sigset \<Rightarrow> sigset \<Rightarrow> sigset" where "sig_unblock these msk = msk - these"

definition SIGPTHD :: int where "SIGPTHD = 10"

definition pthd_set :: sigset where "pthd_set = sigaddset sigemptyset SIGPTHD"

definition SPTHREAD_RUNNING_STATE :: int where "SPTHREAD_RUNNING_STATE = 0"
definition SPTHREAD_SUSPENDED_STATE :: int where "SPTHREAD_SUSPENDED_STATE = 1"
definition SPTHREAD_TERMINATED_STATE :: int where "SPTHREAD_TERMINATED_STATE = 2"

definition SPTHREAD_SIG_SUSPEND :: int where "SPTHREAD_SIG_SUSPEND = -1"
definition SPTHREAD_SIG_CONTINUE :: int where "SPTHREAD_SIG_CONTINUE = -2"

definition sp_ESRCH :: int where "sp_ESRCH = 3"
definition sp_EAGAIN :: int where "sp_EAGAIN = 11"

lemmas sp_consts = SIGPTHD_def SPTHREAD_RUNNING_STATE_def SPTHREAD_SUSPENDED_STATE_def SPTHREAD_TERMINATED_STATE_def
  SPTHREAD_SIG_SUSPEND_def SPTHREAD_SIG_CONTINUE_def sp_ESRCH_def sp_EAGAIN_def

lemmas sig_defs = sigfillset_def sigemptyset_def sigaddset_def sigdelset_def sig_block_def sig_unblock_def pthd_set_def

subsection \<open>The data\<close>

text \<open>\<open>spthread_meta_t\<close>, \<open>spthread_signal_args\<close> (its mutex is the atomicity of the steps) and \<open>siginfo_t\<close>.\<close>

record spthread_meta =
  suspend_set :: sigset
  sp_state :: int

record signal_args =
  sg_signal :: int
  sg_ack :: int

datatype siginfo = SI_TKILL | SI_QUEUE nat | SI_OTHER int

text \<open>
  Where a thread is in a loop \<open>do sigsuspend(...); while (state == SUSPENDED)\<close>: about to call
  \<open>sigsuspend\<close>, asleep in it (with the mask to restore), or at the test.
\<close>

datatype susp_phase = Calling | Asleep sigset | Woken

datatype frame =
    Setup
  | Start_loop susp_phase
  | Routine
  | Self_loop susp_phase
  | Handler_entry int siginfo sigset
  | Handler_loop susp_phase sigset
  | Cleanup_block
  | Cleanup_mark
  | Ended

text \<open>A thread that is not in a call of the interface (with the last result), or in one of the two waits for the
  acknowledgement of the request at an address.\<close>

datatype sp_call = Returned_with int | First_nap nat | Testing nat | Napping nat

datatype creator = Create_waiting int | Created int

record world =
  t_self :: nat
  t_frames :: "frame list"
  t_mask :: sigset
  t_pending :: "siginfo option"
  t_cancel :: bool
  sp_meta :: spthread_meta
  sp_joined :: bool
  sp_args :: "nat \<Rightarrow> signal_args option"
  sp_next :: nat
  sp_calls :: "nat \<Rightarrow> sp_call"
  sp_creator :: creator
  sp_setup_done :: "bool option"
  sp_handler :: bool
  sp_exited :: bool
  sp_fault :: bool

abbreviation st :: "world \<Rightarrow> int" where "st w \<equiv> sp_state (sp_meta w)"

definition set_state :: "int \<Rightarrow> world \<Rightarrow> world" where
  "set_state x w = w\<lparr>sp_meta := (sp_meta w)\<lparr>sp_state := x\<rparr>\<rparr>"

subsection \<open>Sleeping\<close>

text \<open>One step of a suspension loop; \<open>frame_at\<close> is the frame in a phase, \<open>leave\<close> what follows the loop. A thread
  asleep makes no step of its own.\<close>

definition susp_loop_step ::
  "(susp_phase \<Rightarrow> frame) \<Rightarrow> (world \<Rightarrow> world) \<Rightarrow> susp_phase \<Rightarrow> frame list \<Rightarrow> world \<Rightarrow> world option" where
  "susp_loop_step frame_at leave p fs w =
    (case p of
       Calling \<Rightarrow> Some (w\<lparr>t_frames := frame_at (Asleep (t_mask w)) # fs, t_mask := suspend_set (sp_meta w)\<rparr>)
     | Asleep m \<Rightarrow> None
     | Woken \<Rightarrow> if st w = SPTHREAD_SUSPENDED_STATE then Some (w\<lparr>t_frames := frame_at Calling # fs\<rparr>)
         else Some (leave w))"

text \<open>A signal ends \<open>sigsuspend\<close>: the frame after it and the mask that is restored.\<close>

fun wake_phase :: "sigset \<Rightarrow> susp_phase \<Rightarrow> susp_phase \<times> sigset" where
  "wake_phase msk (Asleep m) = (Woken, m)"
| "wake_phase msk p = (p, msk)"

fun wake :: "sigset \<Rightarrow> frame \<Rightarrow> frame \<times> sigset" where
  "wake msk (Start_loop p) = (case wake_phase msk p of (q, r) \<Rightarrow> (Start_loop q, r))"
| "wake msk (Self_loop p) = (case wake_phase msk p of (q, r) \<Rightarrow> (Self_loop q, r))"
| "wake msk (Handler_loop p m) = (case wake_phase msk p of (q, r) \<Rightarrow> (Handler_loop q m, r))"
| "wake msk f = (f, msk)"

text \<open>Delivery of a pending \<open>SIGPTHD\<close>. With no handler installed its default action ends the process.\<close>

definition deliver :: "world \<Rightarrow> world option" where
  "deliver w =
    (case (t_pending w, t_frames w) of
       (Some info, f # fs) \<Rightarrow>
         if SIGPTHD \<in> t_mask w \<or> f = Ended then None
         else if \<not> sp_handler w then Some (w\<lparr>t_pending := None, sp_exited := True\<rparr>)
         else (case wake (t_mask w) f of (f', saved) \<Rightarrow>
           Some (w\<lparr>t_pending := None, t_frames := Handler_entry SIGPTHD info saved # f' # fs,
             t_mask := sig_block pthd_set (t_mask w)\<rparr>))
     | _ \<Rightarrow> None)"

subsection \<open>The thread\<close>

text \<open>\<open>sigpthd_handler\<close>, up to its suspension loop; \<open>saved\<close> is the mask its return restores, \<open>fs\<close> the frames below.\<close>

definition handler_return :: "sigset \<Rightarrow> frame list \<Rightarrow> world \<Rightarrow> world" where
  "handler_return saved fs w = w\<lparr>t_frames := fs, t_mask := saved\<rparr>"

definition sigpthd_handler :: "int \<Rightarrow> siginfo \<Rightarrow> sigset \<Rightarrow> frame list \<Rightarrow> world \<Rightarrow> world" where
  "sigpthd_handler signum info saved fs w =
    (if signum \<noteq> SIGPTHD then handler_return saved fs w
     else (case info of
       SI_TKILL \<Rightarrow> handler_return saved fs w
     | SI_OTHER c \<Rightarrow> w\<lparr>sp_exited := True\<rparr>
     | SI_QUEUE r \<Rightarrow>
         (case sp_args w r of
            None \<Rightarrow> w\<lparr>sp_fault := True\<rparr>
          | Some args \<Rightarrow>
              if sg_signal args = SPTHREAD_SIG_SUSPEND then
                (set_state SPTHREAD_SUSPENDED_STATE w)
                  \<lparr>sp_args := (sp_args w)(r \<mapsto> args\<lparr>sg_ack := 1\<rparr>), t_frames := Handler_loop Calling saved # fs\<rparr>
              else if sg_signal args = SPTHREAD_SIG_CONTINUE then
                handler_return saved fs ((set_state SPTHREAD_RUNNING_STATE w)
                  \<lparr>sp_args := (sp_args w)(r \<mapsto> args\<lparr>sg_ack := 1\<rparr>)\<rparr>)
              else handler_return saved fs w)))"

text \<open>\<open>spthread_start\<close> up to its suspension loop: the handshake with the creator.\<close>

definition spthread_start :: "frame list \<Rightarrow> world \<Rightarrow> world" where
  "spthread_start fs w =
    (if sp_setup_done w = None then w\<lparr>sp_fault := True\<rparr>
     else w\<lparr>sp_meta := \<lparr>suspend_set = sigdelset sigfillset SIGPTHD, sp_state = SPTHREAD_SUSPENDED_STATE\<rparr>,
       sp_handler := True, t_mask := sig_unblock pthd_set (t_mask w), sp_setup_done := Some True,
       t_frames := Start_loop Calling # fs\<rparr>)"

text \<open>\<open>mark_self_terminated\<close>, in two steps: the mask, then the state.\<close>

definition cleanup_block :: "frame list \<Rightarrow> world \<Rightarrow> world" where
  "cleanup_block fs w = w\<lparr>t_mask := sig_block pthd_set (t_mask w), t_frames := Cleanup_mark # fs\<rparr>"

definition cleanup_mark :: "world \<Rightarrow> world" where
  "cleanup_mark w = (set_state SPTHREAD_TERMINATED_STATE w)\<lparr>t_frames := [Ended]\<rparr>"

text \<open>The next step of the thread in the code of \<open>spthread.c\<close>; in its routine it is the routine's to choose.\<close>

fun thread_step :: "frame list \<Rightarrow> world \<Rightarrow> world option" where
  "thread_step (Setup # fs) w = Some (spthread_start fs w)"
| "thread_step (Start_loop p # fs) w = susp_loop_step Start_loop (\<lambda>w. w\<lparr>t_frames := Routine # fs\<rparr>) p fs w"
| "thread_step (Self_loop p # fs) w = susp_loop_step Self_loop (\<lambda>w. w\<lparr>t_frames := fs\<rparr>) p fs w"
| "thread_step (Handler_loop p saved # fs) w =
    susp_loop_step (\<lambda>p. Handler_loop p saved) (handler_return saved fs) p fs w"
| "thread_step (Handler_entry signum info saved # fs) w = Some (sigpthd_handler signum info saved fs w)"
| "thread_step (Cleanup_block # fs) w = Some (cleanup_block fs w)"
| "thread_step (Cleanup_mark # fs) w = Some (cleanup_mark w)"
| "thread_step _ w = None"

text \<open>What a routine may call: \<open>spthread_suspend_self\<close>, \<open>spthread_continue\<close> on itself, the two mask functions, and
  \<open>spthread_exit\<close> (or its return).\<close>

definition spthread_suspend_self :: "frame list \<Rightarrow> world \<Rightarrow> world" where
  "spthread_suspend_self fs w = (set_state SPTHREAD_SUSPENDED_STATE w)\<lparr>t_frames := Self_loop Calling # fs\<rparr>"

text \<open>
  A handle, and \<open>spthread_self\<close>: \<open>my_meta\<close> is the thread-local pointer, which only an spthread has set. A thread
  that is none gets \<open>ESRCH\<close> from \<open>spthread_suspend_self\<close>.
\<close>

record spthread =
  th_thread :: nat
  th_meta :: nat

definition spthread_self :: "nat option \<Rightarrow> nat \<Rightarrow> spthread option" where
  "spthread_self my_meta pself = map_option (\<lambda>m. \<lparr>th_thread = pself, th_meta = m\<rparr>) my_meta"

definition spthread_equal :: "spthread \<Rightarrow> spthread \<Rightarrow> bool" where
  "spthread_equal first second \<longleftrightarrow> th_thread first = th_thread second \<and> th_meta first = th_meta second"

definition suspend_self_call :: "nat option \<Rightarrow> nat \<Rightarrow> frame list \<Rightarrow> world \<Rightarrow> int + world" where
  "suspend_self_call my_meta pself fs w =
    (case spthread_self my_meta pself of None \<Rightarrow> Inl sp_ESRCH | Some _ \<Rightarrow> Inr (spthread_suspend_self fs w))"

definition spthread_continue_self :: "world \<Rightarrow> world" where
  "spthread_continue_self w = set_state SPTHREAD_RUNNING_STATE w"

definition spthread_disable_interrupts_self :: "world \<Rightarrow> world" where
  "spthread_disable_interrupts_self w = w\<lparr>t_mask := sig_block pthd_set (t_mask w)\<rparr>"

definition spthread_enable_interrupts_self :: "world \<Rightarrow> world" where
  "spthread_enable_interrupts_self w = w\<lparr>t_mask := sig_unblock pthd_set (t_mask w)\<rparr>"

definition spthread_exit :: "world \<Rightarrow> world" where
  "spthread_exit w = w\<lparr>t_frames := [Cleanup_block]\<rparr>"

text \<open>A cancellation is acted upon at a cancellation point: in \<open>sigsuspend\<close>, or where the routine has one. A thread that
  is already terminating ignores it.\<close>

fun cancel_point :: "frame \<Rightarrow> bool" where
  "cancel_point (Start_loop p) = (p \<noteq> Woken)"
| "cancel_point (Self_loop p) = (p \<noteq> Woken)"
| "cancel_point (Handler_loop p m) = (p \<noteq> Woken)"
| "cancel_point Routine = True"
| "cancel_point _ = False"

definition terminating :: "world \<Rightarrow> bool" where
  "terminating w \<longleftrightarrow> list_ex (\<lambda>f. f = Cleanup_block \<or> f = Cleanup_mark \<or> f = Ended) (t_frames w)"

definition cancel_acts :: "world \<Rightarrow> world option" where
  "cancel_acts w =
    (case t_frames w of
       f # fs \<Rightarrow> if t_cancel w \<and> cancel_point f \<and> \<not> terminating w then Some ((spthread_exit w)\<lparr>t_cancel := False\<rparr>) else None
     | [] \<Rightarrow> None)"

subsection \<open>The calls of other threads\<close>

text \<open>Queue a signal: a standard signal that is pending already is not queued a second time.\<close>

definition send_signal :: "siginfo \<Rightarrow> world \<Rightarrow> world" where
  "send_signal info w = (if t_pending w = None then w\<lparr>t_pending := Some info\<rparr> else w)"

text \<open>
  \<open>spthread_suspend\<close> and \<open>spthread_continue\<close> of the thread \<open>c\<close>, up to their waits. \<open>ret\<close> is the result of
  \<open>pthread_sigqueue\<close>; the arguments are on the caller's stack, at an address not in use.
\<close>

definition send_request :: "nat \<Rightarrow> int \<Rightarrow> int \<Rightarrow> (nat \<Rightarrow> sp_call) \<Rightarrow> world \<Rightarrow> world" where
  "send_request c sig ret waiting w =
    (let r = sp_next w in
     if ret \<noteq> 0 then w\<lparr>sp_calls := (sp_calls w)(c := Returned_with ret)\<rparr>
     else (send_signal (SI_QUEUE r) w)
       \<lparr>sp_next := Suc r, sp_args := (sp_args w)(r \<mapsto> \<lparr>sg_signal = sig, sg_ack = 0\<rparr>),
        sp_calls := (sp_calls w)(c := waiting r)\<rparr>)"

definition spthread_suspend :: "nat \<Rightarrow> int \<Rightarrow> world \<Rightarrow> world" where
  "spthread_suspend c ret w =
    (if c = t_self w then spthread_suspend_self (t_frames w) w
     else send_request c SPTHREAD_SIG_SUSPEND ret First_nap w)"

definition spthread_continue :: "nat \<Rightarrow> int \<Rightarrow> world \<Rightarrow> world" where
  "spthread_continue c ret w =
    (if c = t_self w then spthread_continue_self w
     else send_request c SPTHREAD_SIG_CONTINUE ret Testing w)"

text \<open>A step of the waiting loop; at its end the arguments go out of scope.\<close>

definition request_done :: "nat \<Rightarrow> nat \<Rightarrow> world \<Rightarrow> world" where
  "request_done c r w = w\<lparr>sp_args := (sp_args w)(r := None), sp_calls := (sp_calls w)(c := Returned_with 0)\<rparr>"

definition sender_step :: "nat \<Rightarrow> world \<Rightarrow> world option" where
  "sender_step c w =
    (case sp_calls w c of
       Returned_with _ \<Rightarrow> None
     | First_nap r \<Rightarrow> Some (w\<lparr>sp_calls := (sp_calls w)(c := Testing r)\<rparr>)
     | Testing r \<Rightarrow>
         (case sp_args w r of
            None \<Rightarrow> Some (w\<lparr>sp_fault := True\<rparr>)
          | Some args \<Rightarrow>
              if sg_ack args \<noteq> 1 then Some (w\<lparr>sp_calls := (sp_calls w)(c := Napping r)\<rparr>)
              else Some (request_done c r w))
     | Napping r \<Rightarrow>
         if sp_joined w then Some (w\<lparr>sp_fault := True\<rparr>)
         else if st w = SPTHREAD_TERMINATED_STATE then Some (request_done c r w)
         else Some (w\<lparr>sp_calls := (sp_calls w)(c := Testing r)\<rparr>))"

text \<open>\<open>spthread_cancel\<close> leaves a request; \<open>spthread_join\<close> waits for the end of the thread and frees its meta struct.\<close>

definition spthread_cancel :: "world \<Rightarrow> world" where
  "spthread_cancel w = w\<lparr>t_cancel := True\<rparr>"

definition spthread_join :: "world \<Rightarrow> world option" where
  "spthread_join w = (if t_frames w = [Ended] then Some (w\<lparr>sp_joined := True\<rparr>) else None)"

text \<open>\<open>spthread_create\<close> up to its wait: the results of \<open>malloc\<close> and of the \<open>pthread\<close> functions are arguments, and the
  contents \<open>junk\<close> of the new meta struct.\<close>

record create_results =
  cr_malloc_meta :: bool
  cr_malloc_args :: bool
  cr_mutex_init :: int
  cr_cond_init :: int
  cr_pthread_create :: int

definition new_world :: "nat \<Rightarrow> spthread_meta \<Rightarrow> sigset \<Rightarrow> int \<Rightarrow> world" where
  "new_world self junk msk result =
    \<lparr>t_self = self, t_frames = (if result = 0 then [Setup] else []), t_mask = msk, t_pending = None, t_cancel = False,
     sp_meta = junk, sp_joined = False, sp_args = (\<lambda>_. None), sp_next = 0, sp_calls = (\<lambda>_. Returned_with 0),
     sp_creator = Create_waiting result, sp_setup_done = Some False, sp_handler = False, sp_exited = False, sp_fault = False\<rparr>"

definition spthread_create :: "create_results \<Rightarrow> nat \<Rightarrow> spthread_meta \<Rightarrow> sigset \<Rightarrow> int + world" where
  "spthread_create e self junk msk =
    (if \<not> cr_malloc_meta e then Inl sp_EAGAIN
     else if \<not> cr_malloc_args e then Inl sp_EAGAIN
     else if cr_mutex_init e \<noteq> 0 then Inl sp_EAGAIN
     else if cr_cond_init e \<noteq> 0 then Inl sp_EAGAIN
     else Inr (new_world self junk msk (cr_pthread_create e)))"

text \<open>The creator wakes when the setup is done and frees the forwarded arguments; else it waits on.\<close>

definition create_wakes :: "world \<Rightarrow> world option" where
  "create_wakes w =
    (case (sp_creator w, sp_setup_done w) of
       (Create_waiting result, Some True) \<Rightarrow> Some (w\<lparr>sp_creator := Created result, sp_setup_done := None\<rparr>)
     | _ \<Rightarrow> None)"

subsection \<open>Events\<close>

text \<open>
  The steps of the system. A call needs the handle that \<open>spthread_create\<close> returned and a caller that is not in a call;
  the thread itself calls from its routine. \<open>pthread_sigqueue\<close> fails with \<open>EAGAIN\<close> when it cannot queue the signal, and
  may fail with \<open>ESRCH\<close> when the thread has ended. Nothing keeps a join from overlapping with the call of another thread, or a
  thread from using the handle after the join. POSIX leaves such a call undefined, as the thread it names is gone:
  it counts as a use of memory that is not there.
\<close>

datatype event =
    Call_suspend nat int
  | Call_continue nat int
  | Sender nat
  | Create_wakes
  | Deliver
  | Thread
  | Disable_interrupts
  | Enable_interrupts
  | Exit_routine
  | Tkill
  | Cancel_thread
  | Cancel_acts
  | Join_thread

definition idle :: "world \<Rightarrow> nat \<Rightarrow> bool" where
  "idle w c \<longleftrightarrow> (case sp_calls w c of Returned_with _ \<Rightarrow> True | _ \<Rightarrow> False)"

definition in_routine :: "world \<Rightarrow> bool" where
  "in_routine w \<longleftrightarrow> (case t_frames w of f # _ \<Rightarrow> f = Routine | [] \<Rightarrow> False)"

definition has_handle :: "world \<Rightarrow> bool" where
  "has_handle w \<longleftrightarrow> (case sp_creator w of Created res \<Rightarrow> res = 0 | _ \<Rightarrow> False)"

definition may_call :: "nat \<Rightarrow> int \<Rightarrow> world \<Rightarrow> bool" where
  "may_call c ret w \<longleftrightarrow>
    (if c = t_self w then in_routine w
     else has_handle w \<and> idle w c \<and> (ret = 0 \<or> ret = sp_EAGAIN \<or> ret = sp_ESRCH \<and> t_frames w = [Ended]))"

definition handle_call :: "(world \<Rightarrow> world) \<Rightarrow> world \<Rightarrow> world" where
  "handle_call f w = (if sp_joined w then w\<lparr>sp_fault := True\<rparr> else f w)"

text \<open>No request is in flight.\<close>

definition no_call :: "world \<Rightarrow> bool" where
  "no_call w \<longleftrightarrow> (\<forall>r < sp_next w. sp_args w r = None)"

fun sp_act :: "event \<Rightarrow> world \<Rightarrow> world option" where
  "sp_act (Call_suspend c ret) w = (if may_call c ret w then Some (handle_call (spthread_suspend c ret) w) else None)"
| "sp_act (Call_continue c ret) w = (if may_call c ret w then Some (handle_call (spthread_continue c ret) w) else None)"
| "sp_act (Sender c) w = sender_step c w"
| "sp_act Create_wakes w = create_wakes w"
| "sp_act Deliver w = deliver w"
| "sp_act Thread w = thread_step (t_frames w) w"
| "sp_act Disable_interrupts w = (if in_routine w then Some (spthread_disable_interrupts_self w) else None)"
| "sp_act Enable_interrupts w = (if in_routine w then Some (spthread_enable_interrupts_self w) else None)"
| "sp_act Exit_routine w = (if in_routine w then Some (spthread_exit w) else None)"
| "sp_act Tkill w = (if has_handle w then Some (handle_call (send_signal SI_TKILL) w) else None)"
| "sp_act Cancel_thread w = (if has_handle w then Some (handle_call spthread_cancel w) else None)"
| "sp_act Cancel_acts w = cancel_acts w"
| "sp_act Join_thread w =
    (if has_handle w then if sp_joined w then Some (w\<lparr>sp_fault := True\<rparr>) else spthread_join w else None)"

text \<open>Nothing happens after the process has exited, or has used memory that is not there.\<close>

definition sp_event :: "event \<Rightarrow> world \<Rightarrow> world option" where
  "sp_event e w = (if sp_exited w \<or> sp_fault w then None else sp_act e w)"

text \<open>A run of events, and the states that a thread's creation can lead to.\<close>

inductive sp_run :: "world \<Rightarrow> event list \<Rightarrow> world \<Rightarrow> bool" where
  sp_stop: "sp_run w [] w"
| sp_go: "sp_event e w = Some v \<Longrightarrow> sp_run v es u \<Longrightarrow> sp_run w (e # es) u"

inductive sp_reach :: "world \<Rightarrow> bool" where
  sp_created: "spthread_create e self junk msk = Inr w \<Longrightarrow> sp_reach w"
| sp_next_state: "sp_reach w \<Longrightarrow> sp_event e w = Some v \<Longrightarrow> sp_reach v"

inductive_cases sp_run_NilE: "sp_run w [] u"
inductive_cases sp_run_ConsE: "sp_run w (e # es) u"

inductive_simps sp_run_simps [simp]: "sp_run w [] u" "sp_run w (e # es) u"

end
