(* ===== verification/SpThreadProps.thy ===== *)
theory SpThreadProps
  imports SpThread
begin

text \<open>
  Invariants of the suspendable threads: the shape of the frame stack, the masks, what a suspended thread executes, and
  the life of the arguments of a request.
\<close>

subsection \<open>The control state\<close>

text \<open>The stacks a signal may interrupt: the thread's own code, below any number of suspended handlers.\<close>

fun interruptible :: "frame list \<Rightarrow> bool" where
  "interruptible [Start_loop p] = True"
| "interruptible [Routine] = True"
| "interruptible [Self_loop p, Routine] = True"
| "interruptible [Cleanup_block] = True"
| "interruptible (Handler_loop p m # fs) = interruptible fs"
| "interruptible _ = False"

fun stack_ok :: "frame list \<Rightarrow> bool" where
  "stack_ok (Handler_entry s i m # fs) = (s = SIGPTHD \<and> (\<forall>c. i \<noteq> SI_OTHER c) \<and> interruptible fs)"
| "stack_ok [] = True"
| "stack_ok [Setup] = True"
| "stack_ok [Cleanup_mark] = True"
| "stack_ok [Ended] = True"
| "stack_ok fs = interruptible fs"

lemma interruptible_simps [simp]:
  "interruptible (Start_loop p # fs) \<longleftrightarrow> fs = []" "interruptible (Routine # fs) \<longleftrightarrow> fs = []"
  "interruptible (Self_loop p # fs) \<longleftrightarrow> fs = [Routine]" "interruptible (Cleanup_block # fs) \<longleftrightarrow> fs = []"
  "\<not> interruptible (Setup # fs)" "\<not> interruptible (Cleanup_mark # fs)" "\<not> interruptible (Ended # fs)"
  "\<not> interruptible (Handler_entry s i m # fs)"
  by (cases fs rule: interruptible.cases; simp)+

lemma stack_ok_simps [simp]:
  "stack_ok (Start_loop p # fs) \<longleftrightarrow> fs = []" "stack_ok (Routine # fs) \<longleftrightarrow> fs = []"
  "stack_ok (Self_loop p # fs) \<longleftrightarrow> fs = [Routine]" "stack_ok (Cleanup_block # fs) \<longleftrightarrow> fs = []"
  "stack_ok (Setup # fs) \<longleftrightarrow> fs = []" "stack_ok (Cleanup_mark # fs) \<longleftrightarrow> fs = []" "stack_ok (Ended # fs) \<longleftrightarrow> fs = []"
  "stack_ok (Handler_loop p m # fs) \<longleftrightarrow> interruptible fs"
  by (cases fs; simp)+

text \<open>The phase of a loop; the loops below the top are not asleep.\<close>

fun phase_of :: "frame \<Rightarrow> susp_phase option" where
  "phase_of (Start_loop p) = Some p"
| "phase_of (Self_loop p) = Some p"
| "phase_of (Handler_loop p m) = Some p"
| "phase_of _ = None"

definition awake :: "frame \<Rightarrow> bool" where
  "awake f \<longleftrightarrow> (\<forall>m. phase_of f \<noteq> Some (Asleep m))"

text \<open>The frames in which a suspended thread is: a suspension loop (perhaps below a handler that has just been
  entered), or the clean-up.\<close>

fun held :: "frame list \<Rightarrow> bool" where
  "held (Handler_entry s i m # fs) = held fs"
| "held (f # fs) = (f \<noteq> Routine)"
| "held [] = True"

definition started :: "world \<Rightarrow> bool" where
  "started w \<longleftrightarrow> t_frames w \<noteq> [] \<and> t_frames w \<noteq> [Setup]"

definition masked_top :: "world \<Rightarrow> bool" where
  "masked_top w \<longleftrightarrow> (case t_frames w of
     Handler_entry s i m # _ \<Rightarrow> SIGPTHD \<in> t_mask w
   | Cleanup_mark # _ \<Rightarrow> SIGPTHD \<in> t_mask w
   | f # _ \<Rightarrow> (\<forall>m. phase_of f = Some (Asleep m) \<longrightarrow> t_mask w = suspend_set (sp_meta w))
   | [] \<Rightarrow> True)"

definition control_ok :: "world \<Rightarrow> bool" where
  "control_ok w \<longleftrightarrow>
     stack_ok (t_frames w) \<and> masked_top w \<and> list_all awake (tl (t_frames w)) \<and>
     (if started w
      then sp_handler w \<and> suspend_set (sp_meta w) = - {SIGPTHD} \<and>
        (st w = SPTHREAD_TERMINATED_STATE \<longleftrightarrow> t_frames w = [Ended]) \<and>
        (st w = SPTHREAD_SUSPENDED_STATE \<longrightarrow> held (t_frames w))
      else (\<exists>res. sp_creator w = Create_waiting res \<and> (res = 0 \<longleftrightarrow> t_frames w \<noteq> [])) \<and> sp_setup_done w = Some False)"

lemma set_state_simps [simp]:
  "t_frames (set_state x w) = t_frames w" "t_mask (set_state x w) = t_mask w" "t_pending (set_state x w) = t_pending w"
  "t_cancel (set_state x w) = t_cancel w" "sp_state (sp_meta (set_state x w)) = x"
  "suspend_set (sp_meta (set_state x w)) = suspend_set (sp_meta w)" "sp_joined (set_state x w) = sp_joined w"
  "sp_args (set_state x w) = sp_args w" "sp_next (set_state x w) = sp_next w" "sp_calls (set_state x w) = sp_calls w"
  "sp_creator (set_state x w) = sp_creator w" "sp_setup_done (set_state x w) = sp_setup_done w"
  "sp_handler (set_state x w) = sp_handler w" "sp_exited (set_state x w) = sp_exited w"
  "sp_fault (set_state x w) = sp_fault w" "t_self (set_state x w) = t_self w"
  by (simp_all add: set_state_def)

lemma state_distinct [simp]:
  "SPTHREAD_SUSPENDED_STATE \<noteq> SPTHREAD_TERMINATED_STATE" "SPTHREAD_TERMINATED_STATE \<noteq> SPTHREAD_SUSPENDED_STATE"
  "SPTHREAD_RUNNING_STATE \<noteq> SPTHREAD_TERMINATED_STATE" "SPTHREAD_TERMINATED_STATE \<noteq> SPTHREAD_RUNNING_STATE"
  "SPTHREAD_RUNNING_STATE \<noteq> SPTHREAD_SUSPENDED_STATE" "SPTHREAD_SUSPENDED_STATE \<noteq> SPTHREAD_RUNNING_STATE"
  "SPTHREAD_SIG_CONTINUE \<noteq> SPTHREAD_SIG_SUSPEND" "SPTHREAD_SIG_SUSPEND \<noteq> SPTHREAD_SIG_CONTINUE"
  by (simp_all add: sp_consts)

lemma interruptible_stack: "interruptible fs \<Longrightarrow> stack_ok fs"
  by (cases fs rule: interruptible.cases) simp_all

lemma control_created: "spthread_create e self junk msk = Inr w \<Longrightarrow> control_ok w"
  by (auto simp: spthread_create_def new_world_def control_ok_def masked_top_def started_def split: if_splits)

text \<open>Events that leave the control state alone.\<close>

definition same_control :: "world \<Rightarrow> world \<Rightarrow> bool" where
  "same_control w v \<longleftrightarrow> t_frames v = t_frames w \<and> t_mask v = t_mask w \<and> sp_meta v = sp_meta w \<and>
     sp_handler v = sp_handler w \<and> sp_creator v = sp_creator w \<and> sp_setup_done v = sp_setup_done w"

lemma same_control_ok: "same_control w v \<Longrightarrow> control_ok w \<Longrightarrow> control_ok v"
  unfolding same_control_def control_ok_def masked_top_def started_def by (elim conjE) (simp only:)

lemma same_control_send: "same_control w (send_signal i w)" "same_control w (send_request c s ret f w)"
  by (simp_all add: same_control_def send_signal_def send_request_def Let_def)

lemma same_control_sender: "sender_step c w = Some v \<Longrightarrow> same_control w v"
  by (auto simp: same_control_def sender_step_def request_done_def split: sp_call.splits option.splits if_splits)

lemma in_routine_stack: "control_ok w \<Longrightarrow> in_routine w \<Longrightarrow> t_frames w = [Routine]"
  by (cases "t_frames w") (auto simp: control_ok_def in_routine_def)

lemma interruptible_facts:
  assumes "interruptible fs"
  shows "fs \<noteq> []" "fs \<noteq> [Setup]" "fs \<noteq> [Ended]" "stack_ok fs"
  using assms interruptible_stack by auto

lemma masked_woken:
  assumes "interruptible fs" "list_all awake fs"
  shows "masked_top (w\<lparr>t_frames := fs, t_mask := m\<rparr>)"
  using assms by (cases fs; cases "hd fs") (auto simp: masked_top_def awake_def)

lemma control_cases:
  assumes "control_ok w" "t_frames w = f # fs" "f \<noteq> Setup"
  shows "stack_ok (f # fs)" "masked_top w" "list_all awake fs" "sp_handler w" "suspend_set (sp_meta w) = - {SIGPTHD}"
    "st w = SPTHREAD_TERMINATED_STATE \<longleftrightarrow> f = Ended" "st w = SPTHREAD_SUSPENDED_STATE \<Longrightarrow> held (f # fs)"
proof -
  have "started w" using assms(2,3) by (simp add: started_def)
  with assms(1) have k: "stack_ok (t_frames w)" "masked_top w" "list_all awake (tl (t_frames w))" "sp_handler w" "suspend_set (sp_meta w) = - {SIGPTHD}"
    "st w = SPTHREAD_TERMINATED_STATE \<longleftrightarrow> t_frames w = [Ended]" "st w = SPTHREAD_SUSPENDED_STATE \<longrightarrow> held (t_frames w)"
    unfolding control_ok_def by presburger+
  show "stack_ok (f # fs)" "masked_top w" "list_all awake fs" "sp_handler w" "suspend_set (sp_meta w) = - {SIGPTHD}"
     "st w = SPTHREAD_SUSPENDED_STATE \<Longrightarrow> held (f # fs)" using k assms(2) by simp_all
  have "fs = []" if "f = Ended" using that k(1) assms(2) by simp
   then show  "st w = SPTHREAD_TERMINATED_STATE \<longleftrightarrow> f = Ended" using k(6) assms(2) by auto
qed

lemma control_okI:
  assumes "t_frames w = f # fs" "f \<noteq> Setup" "stack_ok (f # fs)" "masked_top w" "list_all awake fs" "sp_handler w"
    "suspend_set (sp_meta w) = - {SIGPTHD}" "st w = SPTHREAD_TERMINATED_STATE \<longleftrightarrow> f = Ended"
    "st w = SPTHREAD_SUSPENDED_STATE \<Longrightarrow> held (f # fs)"
  shows "control_ok w"
proof -
  have e: "t_frames w = [Ended] \<longleftrightarrow> f = Ended" using assms(1,3) by auto
  have "started w" using assms(1,2) by (simp add: started_def)
  with assms(3-9) show ?thesis unfolding control_ok_def e by (simp only: assms(1) list.sel if_True) blast
qed

lemma control_returns:
  assumes "control_ok w" "t_frames w = f # fs" "f \<noteq> Setup" "interruptible fs" "suspend_set (sp_meta u) = suspend_set (sp_meta w)" "sp_handler u"
    "st u \<noteq> SPTHREAD_TERMINATED_STATE" "st u = SPTHREAD_SUSPENDED_STATE \<Longrightarrow> held fs"
  shows "control_ok (handler_return saved fs u)"
proof -
  note k = control_cases [OF assms(1-3)]
  obtain g gs where g: "fs = g # gs" using interruptible_facts(1) [OF assms(4)] by (cases fs) auto
  then have "g \<noteq> Setup" "g \<noteq> Ended" "list_all awake gs" using assms(4) k(3) by auto
  then show ?thesis using assms(4-8) k g masked_woken [OF assms(4) k(3), of saved u] interruptible_facts [OF assms(4)]
    by (intro control_okI [of _ g gs]) (auto simp: handler_return_def)
qed

definition loop_frame :: "(susp_phase \<Rightarrow> frame) \<Rightarrow> bool" where
  "loop_frame fr \<longleftrightarrow> fr = Start_loop \<or> fr = Self_loop \<or> (\<exists>m. fr = (\<lambda>p. Handler_loop p m))"

lemma loop_frame_facts:
  assumes "loop_frame fr"
  shows "phase_of (fr p) = Some p" "stack_ok (fr p # fs) \<longleftrightarrow> stack_ok (fr q # fs)" "held (fr p # fs)" "fr p \<noteq> Setup"
    "fr p \<noteq> Ended"
    "t_frames w = fr p # fs \<Longrightarrow> masked_top w \<longleftrightarrow> (\<forall>m. p = Asleep m \<longrightarrow> t_mask w = suspend_set (sp_meta w))"
  using assms by (auto simp: loop_frame_def masked_top_def)

lemma control_loop:
  assumes c: "control_ok w" and t: "t_frames w = fr p # fs" and l: "loop_frame fr"
    and s: "susp_loop_step fr leave p fs w = Some v"
    and r: "p = Woken \<Longrightarrow> st w \<noteq> SPTHREAD_SUSPENDED_STATE \<Longrightarrow> control_ok (leave w)"
  shows "control_ok v"
proof -
  note f = loop_frame_facts [OF l]
  note k = control_cases [OF c t f(4)]
  have again: "control_ok u" if "t_frames u = fr q # fs" "\<forall>m. q = Asleep m \<longrightarrow> t_mask u = suspend_set (sp_meta u)"
    "sp_meta u = sp_meta w" "sp_handler u = sp_handler w" for u q
    using that k f(1-5) f(6) [of u q fs] f(2) [of q fs p] by (intro control_okI [of u "fr q" fs]) auto
  show ?thesis
  proof (cases p)
    case Calling
    then show ?thesis using s by (intro again [of _ "Asleep (t_mask w)"]) (auto simp: susp_loop_step_def)
  next
    case (Asleep m)
    then show ?thesis using s by (simp add: susp_loop_step_def)
  next
    case Woken
    then show ?thesis using s r by (auto simp: susp_loop_step_def split: if_splits intro: again [of _ Calling])
  qed
qed

lemma control_handler:
  assumes "control_ok w" "t_frames w = Handler_entry s i m # fs"
  shows "control_ok (sigpthd_handler s i m fs w)"
proof -
  note k = control_cases [OF assms]
  have s: "s = SIGPTHD" "interruptible fs" "\<forall>c. i \<noteq> SI_OTHER c" using k(1) by simp_all
  note ret = control_returns [OF assms _ s(2)]
  show ?thesis
  proof (cases i)
    case SI_TKILL
    then show ?thesis using k by (auto simp: sigpthd_handler_def s(1) intro!: ret)
  next
    case (SI_QUEUE r)
    show ?thesis
    proof (cases "sp_args w r")
      case None
      then show ?thesis using assms(1) SI_QUEUE same_control_ok [of w "w\<lparr>sp_fault := True\<rparr>"]
        by (simp add: sigpthd_handler_def s(1) same_control_def)
    next
      case (Some a)
      let ?v = "(set_state SPTHREAD_SUSPENDED_STATE w)
        \<lparr>sp_args := (sp_args w)(r \<mapsto> a\<lparr>sg_ack := 1\<rparr>), t_frames := Handler_loop Calling m # fs\<rparr>"
      have "control_ok ?v"
        by (rule control_okI [of _ "Handler_loop Calling m" fs]) (use k s in \<open>simp_all add: masked_top_def\<close>)
      moreover have "control_ok (handler_return m fs ((set_state SPTHREAD_RUNNING_STATE w)
          \<lparr>sp_args := (sp_args w)(r \<mapsto> a\<lparr>sg_ack := 1\<rparr>)\<rparr>))"
        by (rule control_returns [OF assms _ s(2)]) (use k in simp_all)
      moreover have "control_ok (handler_return m fs w)" by (rule ret) (use k in simp_all)
      ultimately show ?thesis using SI_QUEUE Some by (simp add: sigpthd_handler_def s(1))
    qed
  qed (use s(3) in blast)
qed

lemma control_thread:
  assumes "control_ok w" "thread_step (t_frames w) w = Some v"
  shows "control_ok v"
proof (cases "t_frames w")
  case Nil
  then show ?thesis using assms(2) by simp
next
  case (Cons f fs)
  show ?thesis
  proof (cases f)
    case Setup
    then have "fs = []" "sp_setup_done w = Some False" using assms(1) Cons by (auto simp: control_ok_def started_def)
    then show ?thesis using assms(2) Cons Setup
      by (intro control_okI [of _ "Start_loop Calling" "[]"]) (auto simp: spthread_start_def masked_top_def sig_defs)
  next
    case (Start_loop p)
    note t = Cons [unfolded Start_loop]
    note k = control_cases [OF assms(1) t]
    show ?thesis
      by (rule control_loop [OF assms(1) t _ assms(2) [unfolded t thread_step.simps]], simp add: loop_frame_def,
          rule control_okI [of _ Routine fs]) (use k in \<open>simp_all add: masked_top_def\<close>)
  next
    case (Self_loop p)
    note t = Cons [unfolded Self_loop]
    note k = control_cases [OF assms(1) t]
    show ?thesis
      by (rule control_loop [OF assms(1) t _ assms(2) [unfolded t thread_step.simps]], simp add: loop_frame_def,
          rule control_okI [of _ Routine "[]"]) (use k in \<open>simp_all add: masked_top_def\<close>)
  next
    case (Handler_loop p m)
    note t = Cons [unfolded Handler_loop]
    note k = control_cases [OF assms(1) t]
    show ?thesis
      by (rule control_loop [OF assms(1) t _ assms(2) [unfolded t thread_step.simps]], (auto simp: loop_frame_def)[1],
          rule control_returns [OF assms(1) t]) (use k in simp_all)
  next
    case (Handler_entry s i m)
    note t = Cons [unfolded Handler_entry]
    show ?thesis using assms(2) control_handler [OF assms(1) t] by (simp add: t)
  next
    case Cleanup_block
    note t = Cons [unfolded Cleanup_block]
    note k = control_cases [OF assms(1) t]
    have "control_ok (cleanup_block [] w)"
      by (rule control_okI [of _ Cleanup_mark "[]"]) (use k in \<open>simp_all add: cleanup_block_def masked_top_def sig_defs\<close>)
    then show ?thesis using assms(2) k(1) by (simp add: t)
  next
    case Cleanup_mark
    note t = Cons [unfolded Cleanup_mark]
    note k = control_cases [OF assms(1) t]
    have "control_ok (cleanup_mark w)"
      by (rule control_okI [of _ Ended "[]"]) (use k in \<open>simp_all add: cleanup_mark_def masked_top_def\<close>)
    then show ?thesis using assms(2) by (simp add: t)
  qed (use assms(2) Cons in simp_all)
qed

subsection \<open>Requests\<close>

fun waiting_on :: "sp_call \<Rightarrow> nat option" where
  "waiting_on (Returned_with x) = None"
| "waiting_on (First_nap r) = Some r"
| "waiting_on (Testing r) = Some r"
| "waiting_on (Napping r) = Some r"

fun top_request :: "frame list \<Rightarrow> nat option" where
  "top_request (Handler_entry s (SI_QUEUE r) m # fs) = Some r"
| "top_request fs = None"

text \<open>A request whose signal has not been handled: pending, or its handler has just been entered.\<close>

definition unhandled :: "world \<Rightarrow> nat \<Rightarrow> bool" where
  "unhandled w r \<longleftrightarrow> t_pending w = Some (SI_QUEUE r) \<or> top_request (t_frames w) = Some r"

definition requests_ok :: "world \<Rightarrow> bool" where
  "requests_ok w \<longleftrightarrow>
     (\<forall>c r. waiting_on (sp_calls w c) = Some r \<longrightarrow> sp_args w r \<noteq> None) \<and>
     (\<forall>c d r. waiting_on (sp_calls w c) = Some r \<longrightarrow> waiting_on (sp_calls w d) = Some r \<longrightarrow> c = d) \<and>
     (\<forall>r. sp_args w r \<noteq> None \<longrightarrow> r < sp_next w) \<and>
     (\<forall>r. sp_args w r \<noteq> None \<longrightarrow> (\<exists>c. waiting_on (sp_calls w c) = Some r)) \<and>
     (\<forall>r. unhandled w r \<longrightarrow> r < sp_next w) \<and>
     (t_frames w \<noteq> [Ended] \<longrightarrow> (\<forall>r. unhandled w r \<longrightarrow> (\<exists>a. sp_args w r = Some a \<and> sg_ack a = 0))) \<and>
     (\<forall>r. t_pending w = Some (SI_QUEUE r) \<longrightarrow> top_request (t_frames w) \<noteq> Some r)"

definition life_ok :: "world \<Rightarrow> bool" where
  "life_ok w \<longleftrightarrow>
     (\<forall>c. t_pending w \<noteq> Some (SI_OTHER c)) \<and>
     (\<forall>res. sp_creator w = Create_waiting res \<longrightarrow>
        t_pending w = None \<and> (\<forall>r. sp_args w r = None) \<and> sp_setup_done w \<noteq> None) \<and>
     (sp_joined w \<longrightarrow> t_frames w = [Ended]) \<and> (sp_fault w \<longrightarrow> sp_joined w) \<and> \<not> sp_exited w"

definition sp_ok :: "world \<Rightarrow> bool" where
  "sp_ok w \<longleftrightarrow> control_ok w \<and> requests_ok w \<and> life_ok w"

lemma sp_ok_created: "spthread_create e self junk msk = Inr w \<Longrightarrow> sp_ok w"
  using control_created [of e self junk msk w]
  by (auto simp: spthread_create_def new_world_def sp_ok_def requests_ok_def life_ok_def unhandled_def split: if_splits)

lemma top_request_interruptible: "interruptible fs \<Longrightarrow> top_request fs = None"
  by (cases fs rule: interruptible.cases) simp_all

lemma requests_okD:
  assumes "requests_ok w"
  shows "waiting_on (sp_calls w c) = Some r \<Longrightarrow> sp_args w r \<noteq> None"
    "waiting_on (sp_calls w c) = Some r \<Longrightarrow> waiting_on (sp_calls w d) = Some r \<Longrightarrow> c = d"
    "sp_args w r \<noteq> None \<Longrightarrow> r < sp_next w"
    "sp_args w r \<noteq> None \<Longrightarrow> \<exists>c. waiting_on (sp_calls w c) = Some r"
    "unhandled w r \<Longrightarrow> r < sp_next w"
    "t_frames w \<noteq> [Ended] \<Longrightarrow> unhandled w r \<Longrightarrow> \<exists>a. sp_args w r = Some a \<and> sg_ack a = 0"
    "t_pending w = Some (SI_QUEUE r) \<Longrightarrow> top_request (t_frames w) \<noteq> Some r"
  using assms unfolding requests_ok_def by blast+

lemma requests_frames:
  assumes "requests_ok w" "sp_args v = sp_args w" "\<And>c. waiting_on (sp_calls v c) = waiting_on (sp_calls w c)"
    "sp_next v = sp_next w" "t_pending v = t_pending w"
    "top_request (t_frames v) = None \<or> top_request (t_frames v) = top_request (t_frames w)"
    "t_frames w = [Ended] \<Longrightarrow> t_frames v = [Ended]"
  shows "requests_ok v"
proof -
  have u: "unhandled v r \<Longrightarrow> unhandled w r" for r using assms(5,6) by (auto simp: unhandled_def)
  note d = requests_okD [OF assms(1)]
  show ?thesis unfolding requests_ok_def assms(2-5)
  proof (intro conjI allI impI)
    show "\<exists>a. sp_args w r = Some a \<and> sg_ack a = 0" if "t_frames v \<noteq> [Ended]" "unhandled v r" for r
      using d(6) u that assms(7) by blast
    show "top_request (t_frames v) \<noteq> Some r" if "t_pending w = Some (SI_QUEUE r)" for r
      using d(7) [OF that] assms(6) by auto
  qed (use d u in blast)+
qed

text \<open>The handler acknowledges a request.\<close>

lemma requests_ack:
  assumes "requests_ok w" "top_request (t_frames w) = Some r" "sp_args w r = Some a"
    "sp_args v = (sp_args w)(r \<mapsto> a\<lparr>sg_ack := 1\<rparr>)" "sp_calls v = sp_calls w" "sp_next v = sp_next w" "t_pending v = t_pending w"
    "top_request (t_frames v) = None" "t_frames w \<noteq> [Ended]"
  shows "requests_ok v"
proof -
  have u: "unhandled w r'" "r' \<noteq> r" if "unhandled v r'" for r' 
    using that assms(7,8) requests_okD(7) [OF assms(1)] assms(2) by (auto simp: unhandled_def)
  note d = requests_okD [OF assms(1)]
  have dom: "sp_args v r' = None \<longleftrightarrow> sp_args w r' = None" for r' using assms(3,4) by auto
  show ?thesis unfolding requests_ok_def dom assms(5-7)
  proof (intro conjI allI impI)
    show "\<exists>a. sp_args v r' = Some a \<and> sg_ack a = 0" if "unhandled v r'" for r'
      using d(6) [OF assms(9) u(1) [OF that]] u(2) [OF that] assms(4) by auto
    show "top_request (t_frames v) \<noteq> Some r" for r using assms(8) by simp
  qed (use d u in blast)+
qed

text \<open>A new request; its signal is queued or discarded.\<close>

lemma requests_sent:
  assumes "requests_ok w" "idle w c" "waiting_on (f (sp_next w)) = Some (sp_next w)"
  shows "requests_ok (send_request c s ret f w)"
proof (cases "ret = 0")
  case False
  have n: "waiting_on (sp_calls w c) = None" using assms(2) by (auto simp: idle_def split: sp_call.splits)
  show ?thesis
    by (rule requests_frames [OF assms(1)]) (use False n in \<open>simp_all add: send_request_def Let_def\<close>)
next
  case True
  let ?r = "sp_next w" and ?v = "send_request c s ret f w"
  have n: "waiting_on (sp_calls w c) = None" using assms(2) by (auto simp: idle_def split: sp_call.splits)
  note d = requests_okD [OF assms(1)]
  have a: "sp_args ?v = (sp_args w)(?r \<mapsto> \<lparr>sg_signal = s, sg_ack = 0\<rparr>)" "sp_calls ?v = (sp_calls w)(c := f ?r)"
    "sp_next ?v = Suc ?r" "t_frames ?v = t_frames w"
    using True by (simp_all add: send_request_def Let_def send_signal_def)
  have u: "unhandled ?v r \<Longrightarrow> unhandled w r \<or> r = ?r" for r
    using True by (auto simp: send_request_def Let_def send_signal_def unhandled_def split: if_splits)
  have new: "waiting_on (sp_calls w e) \<noteq> Some ?r" for e using d(1) d(3) by blast
  show ?thesis unfolding requests_ok_def a
  proof (intro conjI allI impI)
    show "\<exists>a. ((sp_args w)(?r \<mapsto> \<lparr>sg_signal = s, sg_ack = 0\<rparr>)) r = Some a \<and> sg_ack a = 0"
      if "t_frames w \<noteq> [Ended]" "unhandled ?v r" for r
      using d(6) [OF that(1)] u [OF that(2)] by auto
    show "top_request (t_frames w) \<noteq> Some r" if "t_pending ?v = Some (SI_QUEUE r)" for r
    proof
      assume t: "top_request (t_frames w) = Some r"
      then have "r < ?r" using d(5) by (simp add: unhandled_def)
      then have "t_pending w = Some (SI_QUEUE r)"
        using that True by (auto simp: send_request_def Let_def send_signal_def split: if_splits)
      then show False using d(7) t by blast
    qed
    show "r < Suc ?r" if "unhandled ?v r" for r using u [OF that] d(5) less_SucI by blast
    show "e = e'" if "waiting_on (((sp_calls w)(c := f ?r)) e) = Some r"
      "waiting_on (((sp_calls w)(c := f ?r)) e') = Some r" for e e' r
      using that d(2) new assms(3) by (auto split: if_splits)
    show "\<exists>e. waiting_on (((sp_calls w)(c := f ?r)) e) = Some r"
      if "((sp_args w)(?r \<mapsto> \<lparr>sg_signal = s, sg_ack = 0\<rparr>)) r \<noteq> None" for r
    proof (cases "r = ?r")
      case False
      then have "sp_args w r \<noteq> None" using that by simp
      then obtain e where "waiting_on (sp_calls w e) = Some r" using d(4) by blast
      then show ?thesis using n by (intro exI [of _ e]) auto
    qed (use assms(3) in auto)
  qed (use d(1,3) assms(3) in \<open>auto split: if_splits intro: less_SucI\<close>)
qed

lemma requests_done:
  assumes "requests_ok w" "waiting_on (sp_calls w c) = Some r" "unhandled w r \<Longrightarrow> t_frames w = [Ended]"
  shows "requests_ok (request_done c r w)"
proof -
  note d = requests_okD [OF assms(1)]
  let ?v = "request_done c r w"
  have a: "sp_args ?v = (sp_args w)(r := None)" "sp_calls ?v = (sp_calls w)(c := Returned_with 0)"
    "sp_next ?v = sp_next w" "t_frames ?v = t_frames w" "t_pending ?v = t_pending w"
    by (simp_all add: request_done_def)
  have u: "unhandled ?v x \<longleftrightarrow> unhandled w x" for x by (simp add: unhandled_def a)
  have w: "e \<noteq> c \<and> x \<noteq> r \<and> waiting_on (sp_calls w e) = Some x"
    if "waiting_on (((sp_calls w)(c := Returned_with 0)) e) = Some x" for e x
    using that d(2) [of e x c] assms(2) by (auto split: if_splits)
  show ?thesis unfolding requests_ok_def a u
  proof (intro conjI allI impI)
    show "\<exists>e. waiting_on (((sp_calls w)(c := Returned_with 0)) e) = Some x" if "((sp_args w)(r := None)) x \<noteq> None" for x
    proof -
      have "sp_args w x \<noteq> None" "x \<noteq> r" using that by (auto split: if_splits)
      then obtain e where "waiting_on (sp_calls w e) = Some x" using d(4) by blast
      moreover from this have "e \<noteq> c" using assms(2) \<open>x \<noteq> r\<close> by auto
      ultimately show ?thesis by (intro exI [of _ e]) simp
    qed
    show "\<exists>a. ((sp_args w)(r := None)) x = Some a \<and> sg_ack a = 0" if "t_frames w \<noteq> [Ended]" "unhandled w x" for x
      using d(6) [OF that] assms(3) that by (cases "x = r") auto
    show "((sp_args w)(r := None)) x \<noteq> None" if "waiting_on (((sp_calls w)(c := Returned_with 0)) e) = Some x" for e x
      using w [OF that] d(1) by auto
    show "x < sp_next w" if "((sp_args w)(r := None)) x \<noteq> None" for x
      using that d(3) by (auto split: if_splits)
    show "e = e'" if "waiting_on (((sp_calls w)(c := Returned_with 0)) e) = Some x"
      "waiting_on (((sp_calls w)(c := Returned_with 0)) e') = Some x" for e e' x
      using w [OF that(1)] w [OF that(2)] d(2) by blast
  qed (use d in blast)+
qed

subsection \<open>The invariant\<close>

lemma control_not_started:
  assumes "control_ok w" "\<not> started w"
  shows "\<exists>res. sp_creator w = Create_waiting res \<and> (res = 0 \<longleftrightarrow> t_frames w \<noteq> [])" "sp_setup_done w = Some False"
  using assms unfolding control_ok_def by presburger+

lemma started_handle: "control_ok w \<Longrightarrow> has_handle w \<Longrightarrow> started w"
  using control_not_started [of w] by (auto simp: has_handle_def split: creator.splits)

lemma sp_okD:
  assumes "sp_ok w"
  shows "control_ok w" "requests_ok w" "life_ok w"
  using assms by (simp_all add: sp_ok_def)

lemma wake_facts:
  assumes "wake msk f = (f', saved)" "interruptible (f # fs)"
  shows "interruptible (f' # fs)" "awake f'" "top_request (f # fs) = None"
proof -
  have w: "\<forall>m. p' \<noteq> Asleep m" if "wake_phase msk p = (p', s)" for p p' s using that by (cases p) auto
  have "interruptible (f' # fs) \<and> awake f'"
    using assms by (cases f) (auto simp: awake_def dest: w split: prod.splits)
  then show "interruptible (f' # fs)" "awake f'" by simp_all
  show "top_request (f # fs) = None" by (rule top_request_interruptible [OF assms(2)])
qed

lemma control_deliver:
  assumes "control_ok w" "deliver w = Some v" "\<forall>c. t_pending w \<noteq> Some (SI_OTHER c)" "started w"
  obtains info f fs f' saved where "t_pending w = Some info" "t_frames w = f # fs" "wake (t_mask w) f = (f', saved)"
    "interruptible (f # fs)" "control_ok v"
    "v = w\<lparr>t_pending := None, t_frames := Handler_entry SIGPTHD info saved # f' # fs,
             t_mask := sig_block pthd_set (t_mask w)\<rparr>"
proof -
  obtain info f fs where t: "t_pending w = Some info" "t_frames w = f # fs" "SIGPTHD \<notin> t_mask w" "f \<noteq> Ended"
    using assms(2) by (auto simp: deliver_def split: option.splits list.splits if_splits)
  obtain f' saved where wk: "wake (t_mask w) f = (f', saved)" by (cases "wake (t_mask w) f")
  have "stack_ok (f # fs)" using assms(1) t(2) unfolding control_ok_def by auto
  then have "f \<noteq> Setup" using assms(4) t(2) by (auto simp: started_def)
  note k = control_cases [OF assms(1) t(2) this]
  have v: "v = w\<lparr>t_pending := None, t_frames := Handler_entry SIGPTHD info saved # f' # fs,
             t_mask := sig_block pthd_set (t_mask w)\<rparr>"
    using assms(2) t wk k(4) by (simp add: deliver_def)
  have i: "interruptible (f # fs)"
    using k(1,2) t \<open>f \<noteq> Setup\<close> by (cases f) (simp_all add: masked_top_def)
  note wf = wake_facts [OF wk i]
  have "held (f' # fs)" if "st w = SPTHREAD_SUSPENDED_STATE"
    using k(7) [OF that] wk i by (cases f) (auto split: prod.splits)
  then have "control_ok v" unfolding v
    by (intro control_okI [of _ "Handler_entry SIGPTHD info saved" "f' # fs"])
      (use wf k i assms(3) t(1,4) in \<open>simp_all add: masked_top_def sig_defs\<close>)
  then show thesis using that t wk i v by blast
qed

lemma deliver_ok:
  assumes "sp_ok w" "deliver w = Some v"
  shows "sp_ok v"
proof -
  note o = sp_okD [OF assms(1)]
  have p: "t_pending w \<noteq> None" using assms(2) by (auto simp: deliver_def split: option.splits)
  then have s: "started w" using control_not_started [OF o(1)] o(3) by (auto simp: life_ok_def)
  have oth: "\<forall>c. t_pending w \<noteq> Some (SI_OTHER c)" using o(3) by (simp add: life_ok_def)
  obtain info f fs f' saved where c: "t_pending w = Some info" "t_frames w = f # fs" "wake (t_mask w) f = (f', saved)"
    "interruptible (f # fs)" "control_ok v"
    "v = w\<lparr>t_pending := None, t_frames := Handler_entry SIGPTHD info saved # f' # fs,
             t_mask := sig_block pthd_set (t_mask w)\<rparr>"
    using control_deliver [OF o(1) assms(2) oth s] .
  have "\<not> sp_joined w" using o(3) c(2,4) by (auto simp: life_ok_def)
  then have "life_ok v" using o(3) by (simp add: life_ok_def c(6))
  moreover have "requests_ok v"
  proof -
    have "unhandled v r \<longleftrightarrow> unhandled w r" for r
      using wake_facts [OF c(3,4)] c(1,2) by (cases info) (auto simp: unhandled_def c(6))
    moreover have "t_frames w \<noteq> [Ended]" using c(2,4) by auto
    ultimately show ?thesis using o(2) unfolding requests_ok_def by (simp add: c(6))
  qed
  ultimately show ?thesis using c(5) by (simp add: sp_ok_def)
qed

text \<open>A step of the thread: it handles a request, or it stays within its own frames.\<close>

definition own_step :: "world \<Rightarrow> world \<Rightarrow> bool" where
  "own_step w v \<longleftrightarrow> sp_args v = sp_args w \<and> sp_calls v = sp_calls w \<and> sp_next v = sp_next w \<and> t_pending v = t_pending w \<and>
     sp_creator v = sp_creator w \<and> (sp_setup_done v = sp_setup_done w \<or> sp_setup_done v = Some True) \<and>
     sp_joined v = sp_joined w \<and> sp_fault v = sp_fault w \<and> sp_exited v = sp_exited w \<and> top_request (t_frames v) = None \<and>
     started v"

lemma own_handler_return:
  "interruptible fs \<Longrightarrow> own_step w (handler_return saved fs w)"
  using interruptible_facts [of fs] top_request_interruptible [of fs]
  by (simp add: own_step_def handler_return_def started_def)

lemma own_loop:
  assumes "loop_frame fr" "susp_loop_step fr leave p fs w = Some v" "own_step w (leave w)"
  shows "own_step w v"
proof -
  have n: "top_request (fr x # fs) = None" "fr x \<noteq> Setup" for x using assms(1) by (auto simp: loop_frame_def)
  have stay: "own_step w (w\<lparr>t_frames := fr x # fs\<rparr>)" "own_step w (w\<lparr>t_frames := fr x # fs, t_mask := m\<rparr>)" for x m
    by (simp_all add: own_step_def started_def n)
  show ?thesis
    using assms(2,3) stay by (cases p) (simp_all add: susp_loop_step_def split: if_splits, blast+)
qed

lemma thread_effect:
  assumes "sp_ok w" "thread_step (t_frames w) w = Some v"
  obtains (own) "own_step w v"
  | (handled) r m fs a where "t_frames w = Handler_entry SIGPTHD (SI_QUEUE r) m # fs" "interruptible fs"
      "sp_args w r = Some a" "sg_signal a = SPTHREAD_SIG_SUSPEND \<or> sg_signal a = SPTHREAD_SIG_CONTINUE"
      "v = sigpthd_handler SIGPTHD (SI_QUEUE r) m fs w"
proof -
  note o = sp_okD [OF assms(1)]
  obtain f fs where t: "t_frames w = f # fs" using assms(2) by (cases "t_frames w") auto
  have st_ok: "stack_ok (f # fs)" using o(1) unfolding control_ok_def t by blast
  show thesis
  proof (cases f)
    case Setup
    then have "\<not> started w" using t st_ok by (simp add: started_def)
    then have "sp_setup_done w = Some False" by (rule control_not_started(2) [OF o(1)])
    then have "own_step w (spthread_start fs w)" by (simp add: own_step_def spthread_start_def started_def)
    then show ?thesis using assms(2) t Setup by (intro own) simp
  next
    case (Start_loop p)
    note s = assms(2) [unfolded t Start_loop thread_step.simps]
    show ?thesis by (rule own, rule own_loop [OF _ s]) (simp_all add: loop_frame_def own_step_def started_def)
  next
    case (Self_loop p)
    note s = assms(2) [unfolded t Self_loop thread_step.simps]
    have "own_step w v"
      by (rule own_loop [OF _ s]) (use st_ok Self_loop in \<open>simp_all add: loop_frame_def own_step_def started_def\<close>)
    then show ?thesis by (rule own)
  next
    case (Handler_loop p m)
    note s = assms(2) [unfolded t Handler_loop thread_step.simps]
    have "interruptible fs" using st_ok Handler_loop by simp
    then have "own_step w v" by (intro own_loop [OF _ s] own_handler_return) (auto simp: loop_frame_def)
    then show ?thesis by (rule own)
  next
    case (Handler_entry s i m)
    then have i: "s = SIGPTHD" "interruptible fs" "\<forall>c. i \<noteq> SI_OTHER c" using st_ok by simp_all
    have v: "v = sigpthd_handler SIGPTHD i m fs w" using assms(2) t Handler_entry i(1) by simp
    show ?thesis
    proof (cases i)
      case SI_TKILL
      then show ?thesis using own_handler_return [OF i(2)] by (intro own) (simp add: v sigpthd_handler_def)
    next
      case (SI_QUEUE r)
      have "unhandled w r" by (simp add: unhandled_def t Handler_entry SI_QUEUE)
      then obtain a where a: "sp_args w r = Some a" using requests_okD(6) [OF o(2)] t Handler_entry by fastforce
      show ?thesis
      proof (cases "sg_signal a = SPTHREAD_SIG_SUSPEND \<or> sg_signal a = SPTHREAD_SIG_CONTINUE")
        case True
        then show ?thesis using handled [of r m fs a] t Handler_entry i a v SI_QUEUE by simp
      next
        case False
        then show ?thesis using own_handler_return [OF i(2)] a SI_QUEUE by (intro own) (simp add: v sigpthd_handler_def)
      qed
    qed (use i(3) in blast)
  next
    case Cleanup_block
    then show ?thesis using assms(2) t by (intro own) (auto simp: cleanup_block_def own_step_def started_def)
  next
    case Cleanup_mark
    then show ?thesis using assms(2) t by (intro own) (auto simp: cleanup_mark_def own_step_def started_def)
  qed (use assms(2) t in simp_all)
qed

lemma handler_acks:
  assumes "sp_args w r = Some a" "sg_signal a = SPTHREAD_SIG_SUSPEND \<or> sg_signal a = SPTHREAD_SIG_CONTINUE" "interruptible fs"
    "v = sigpthd_handler SIGPTHD (SI_QUEUE r) m fs w"
  shows "sp_args v = (sp_args w)(r \<mapsto> a\<lparr>sg_ack := 1\<rparr>)" "sp_calls v = sp_calls w" "sp_next v = sp_next w"
    "t_pending v = t_pending w" "sp_creator v = sp_creator w" "sp_setup_done v = sp_setup_done w"
    "sp_joined v = sp_joined w" "sp_fault v = sp_fault w" "sp_exited v = sp_exited w" "top_request (t_frames v) = None" "started v"
    "st v = (if sg_signal a = SPTHREAD_SIG_SUSPEND then SPTHREAD_SUSPENDED_STATE else SPTHREAD_RUNNING_STATE)"
proof -
  note f = top_request_interruptible [OF assms(3)] interruptible_facts(1,2) [OF assms(3)]
  have v: "v = (if sg_signal a = SPTHREAD_SIG_SUSPEND
      then (set_state SPTHREAD_SUSPENDED_STATE w)
        \<lparr>sp_args := (sp_args w)(r \<mapsto> a\<lparr>sg_ack := 1\<rparr>), t_frames := Handler_loop Calling m # fs\<rparr>
      else handler_return m fs ((set_state SPTHREAD_RUNNING_STATE w)\<lparr>sp_args := (sp_args w)(r \<mapsto> a\<lparr>sg_ack := 1\<rparr>)\<rparr>))"
    using assms(2) by (cases "sg_signal a = SPTHREAD_SIG_SUSPEND") (simp_all add: assms(1,4) sigpthd_handler_def)
  show "sp_args v = (sp_args w)(r \<mapsto> a\<lparr>sg_ack := 1\<rparr>)" "sp_calls v = sp_calls w" "sp_next v = sp_next w"
    "t_pending v = t_pending w" "sp_creator v = sp_creator w" "sp_setup_done v = sp_setup_done w"
    "sp_joined v = sp_joined w" "sp_fault v = sp_fault w" "sp_exited v = sp_exited w" "top_request (t_frames v) = None" "started v"
    "st v = (if sg_signal a = SPTHREAD_SIG_SUSPEND then SPTHREAD_SUSPENDED_STATE else SPTHREAD_RUNNING_STATE)"
    using f by (simp_all add: v handler_return_def started_def)
qed

lemma thread_ok:
  assumes "sp_ok w" "thread_step (t_frames w) w = Some v"
  shows "sp_ok v"
proof -
  note o = sp_okD [OF assms(1)]
  have c: "control_ok v" by (rule control_thread [OF o(1) assms(2)])
  have e: "t_frames w \<noteq> [Ended]" using assms(2) by auto
  have nj: "\<not> sp_joined w" using o(3) e by (auto simp: life_ok_def)
  show ?thesis
  proof (cases rule: thread_effect [OF assms])
    case 1
    have "requests_ok v" by (rule requests_frames [OF o(2)]) (use 1 e in \<open>simp_all add: own_step_def\<close>)
    moreover have "life_ok v" using o(3) nj 1 by (auto simp: life_ok_def own_step_def)
    ultimately show ?thesis using c by (simp add: sp_ok_def)
  next
    case (2 r m fs a)
    note h = handler_acks [OF 2(3,4,2,5)]
    have "requests_ok v" by (rule requests_ack [OF o(2) _ 2(3) h(1-4,10) e]) (simp add: 2(1))
    moreover have "sp_creator w \<noteq> Create_waiting res" for res using o(3) 2(3) by (auto simp: life_ok_def)
    then have "life_ok v" using o(3) nj h by (simp add: life_ok_def)
    ultimately show ?thesis using c by (simp add: sp_ok_def)
  qed
qed

text \<open>A step of a caller.\<close>

lemma waiting_caller:
  assumes "sp_ok w" "waiting_on (sp_calls w c) = Some r"
  shows "sp_args w r \<noteq> None" "sp_creator w \<noteq> Create_waiting res"
proof -
  note o = sp_okD [OF assms(1)]
  show a: "sp_args w r \<noteq> None" by (rule requests_okD(1) [OF o(2) assms(2)])
  show "sp_creator w \<noteq> Create_waiting res" using a o(3) by (auto simp: life_ok_def)
qed

lemma sender_cases:
  assumes "sp_ok w" "sender_step c w = Some v"
  obtains (moved) x where "v = w\<lparr>sp_calls := (sp_calls w)(c := x)\<rparr>" "waiting_on x = waiting_on (sp_calls w c)"
      "waiting_on x \<noteq> None"
  | (finished) r where "v = request_done c r w" "waiting_on (sp_calls w c) = Some r"
      "t_frames w \<noteq> [Ended] \<Longrightarrow> \<exists>a. sp_args w r = Some a \<and> sg_ack a = 1"
  | (faulted) r where "v = w\<lparr>sp_fault := True\<rparr>" "sp_joined w" "sp_calls w c = Napping r"
proof (cases "sp_calls w c")
  case (Returned_with x)
  then show thesis using assms(2) by (simp add: sender_step_def)
next
  case (First_nap r)
  then show thesis using assms(2) by (intro moved [of "Testing r"]) (auto simp: sender_step_def)
next
  case (Testing r)
  then obtain a where a: "sp_args w r = Some a" using waiting_caller(1) [OF assms(1), of c r] by auto
  show thesis
  proof (cases "sg_ack a = 1")
    case True
    then show ?thesis using assms(2) Testing a by (intro finished [of r]) (auto simp: sender_step_def)
  next
    case False
    then show ?thesis using assms(2) Testing a by (intro moved [of "Napping r"]) (auto simp: sender_step_def)
  qed
next
  case (Napping r)
  note j = waiting_caller [OF assms(1), of c r]
  consider "sp_joined w" | "\<not> sp_joined w" "st w = SPTHREAD_TERMINATED_STATE" | "\<not> sp_joined w" "st w \<noteq> SPTHREAD_TERMINATED_STATE"
    by blast
  then show thesis
  proof cases
    case 1
    then show ?thesis using assms(2) Napping by (intro faulted [of r]) (auto simp: sender_step_def)
  next
    case 2
    have "started w" using control_not_started(1) [OF sp_okD(1) [OF assms(1)]] j(2) Napping by auto
    then have "t_frames w = [Ended]" using 2(2) sp_okD(1) [OF assms(1)] unfolding control_ok_def by presburger
    then show ?thesis using assms(2) Napping 2 by (intro finished [of r]) (auto simp: sender_step_def)
  next
    case 3
    then show ?thesis using assms(2) Napping by (intro moved [of "Testing r"]) (auto simp: sender_step_def)
  qed
qed

lemma sender_ok:
  assumes "sp_ok w" "sender_step c w = Some v"
  shows "sp_ok v"
proof -
  note o = sp_okD [OF assms(1)]
  have c: "control_ok v" by (rule same_control_ok [OF same_control_sender [OF assms(2)] o(1)])
  show ?thesis
  proof (cases rule: sender_cases [OF assms])
    case (1 x)
    have "requests_ok v" by (rule requests_frames [OF o(2)]) (simp_all add: 1)
    then show ?thesis using c o(3) by (simp add: sp_ok_def life_ok_def 1(1))
  next
    case (2 r)
    have "t_frames w = [Ended]" if "unhandled w r"
      using 2(3) requests_okD(6) [OF o(2) _ that] by fastforce
    then have "requests_ok v" unfolding 2(1) by (rule requests_done [OF o(2) 2(2)])
    then show ?thesis using c o(3) by (auto simp: sp_ok_def life_ok_def 2(1) request_done_def)
  next
    case (3 r)
    have "requests_ok v" by (rule requests_frames [OF o(2)]) (simp_all add: 3)
    then show ?thesis using c o(3) 3(2) by (simp add: sp_ok_def life_ok_def 3(1))
  qed
qed

lemma send_ok:
  assumes "sp_ok w" "has_handle w" "idle w c" "waiting_on (f (sp_next w)) = Some (sp_next w)"
  shows "sp_ok (send_request c s ret f w)"
proof -
  note o = sp_okD [OF assms(1)]
  have "life_ok (send_request c s ret f w)"
    using o(3) assms(2)
    by (auto simp: life_ok_def send_request_def send_signal_def Let_def has_handle_def split: creator.splits)
  then show ?thesis
    using requests_sent [OF o(2) assms(3), where f = f] assms(4) same_control_ok [OF same_control_send(2) o(1)] by (simp add: sp_ok_def)
qed

text \<open>A call of the thread itself.\<close>

lemma routine_ok:
  assumes "sp_ok w" "in_routine w" "t_frames v = [f]" "f = Routine \<and> st v = st w \<or> f = Routine \<and> st v = SPTHREAD_RUNNING_STATE \<or>
      f = Cleanup_block \<and> st v = st w"
    "suspend_set (sp_meta v) = suspend_set (sp_meta w)" "sp_handler v = sp_handler w" "sp_args v = sp_args w"
    "sp_calls v = sp_calls w" "sp_next v = sp_next w" "t_pending v = t_pending w" "sp_creator v = sp_creator w"
    "sp_setup_done v = sp_setup_done w" "sp_joined v = sp_joined w" "sp_fault v = sp_fault w" "sp_exited v = sp_exited w"
  shows "sp_ok v"
proof -
  note o = sp_okD [OF assms(1)]
  note t = in_routine_stack [OF o(1) assms(2)]
  note k = control_cases [OF o(1) t]
  have f: "f \<noteq> Setup" "stack_ok [f]" "masked_top v" "f \<noteq> Ended" "top_request [f] = None"
    using assms(3,4) by (auto simp: masked_top_def)
  have s: "st v \<noteq> SPTHREAD_SUSPENDED_STATE" "st v \<noteq> SPTHREAD_TERMINATED_STATE"
    using k(6,7) assms(4) by auto
  have "control_ok v" by (rule control_okI [OF assms(3) f(1-3)]) (use s f k assms in simp_all)
  moreover have "requests_ok v" by (rule requests_frames [OF o(2)]) (use assms f t in simp_all)
  moreover have "life_ok v" using o(3) assms t unfolding life_ok_def by auto
  ultimately show ?thesis by (simp add: sp_ok_def)
qed

lemma suspend_self_ok:
  assumes "sp_ok w" "in_routine w"
  shows "sp_ok (spthread_suspend_self (t_frames w) w)"
proof -
  note o = sp_okD [OF assms(1)]
  note t = in_routine_stack [OF o(1) assms(2)]
  note k = control_cases [OF o(1) t]
  let ?v = "spthread_suspend_self (t_frames w) w"
  have "control_ok ?v"
    by (rule control_okI [of _ "Self_loop Calling" "[Routine]"])
      (use k t in \<open>simp_all add: spthread_suspend_self_def masked_top_def awake_def\<close>)
  moreover have "requests_ok ?v"
    by (rule requests_frames [OF o(2)]) (use t in \<open>simp_all add: spthread_suspend_self_def\<close>)
  moreover have "life_ok ?v" using o(3) t by (auto simp: life_ok_def spthread_suspend_self_def)
  ultimately show ?thesis by (simp add: sp_ok_def)
qed

lemma cancel_acts_ok:
  assumes "sp_ok w" "cancel_acts w = Some v"
  shows "sp_ok v"
proof -
  note o = sp_okD [OF assms(1)]
  obtain f fs where t: "t_frames w = f # fs" "cancel_point f" "v = (spthread_exit w)\<lparr>t_cancel := False\<rparr>"
    using assms(2) by (auto simp: cancel_acts_def split: list.splits if_splits)
  have f: "f \<noteq> Setup" "f \<noteq> Ended" using t(2) by auto
  note k = control_cases [OF o(1) t(1) f(1)]
  have v: "v = w\<lparr>t_frames := [Cleanup_block], t_cancel := False\<rparr>" by (simp add: t(3) spthread_exit_def)
  have "control_ok v"
    by (rule control_okI [of _ Cleanup_block "[]"]) (use k f in \<open>simp_all add: v masked_top_def\<close>)
  moreover have "requests_ok v" by (rule requests_frames [OF o(2)]) (use t(1) f in \<open>simp_all add: v\<close>)
  moreover have "life_ok v" using o(3) t(1) f by (auto simp: life_ok_def v)
  ultimately show ?thesis by (simp add: sp_ok_def)
qed

lemma other_ok:
  assumes "sp_ok w" "has_handle w"
  shows "sp_ok (send_signal SI_TKILL w)" "sp_ok (spthread_cancel w)"
    "spthread_join w = Some v \<Longrightarrow> sp_ok v"
proof -
  note o = sp_okD [OF assms(1)]
  have "unhandled (send_signal SI_TKILL w) r \<longleftrightarrow> unhandled w r" for r by (auto simp: unhandled_def send_signal_def)
  then have "requests_ok (send_signal SI_TKILL w)"
    using o(2) unfolding requests_ok_def by (auto simp: send_signal_def)
  moreover have "life_ok (send_signal SI_TKILL w)"
    using o(3) assms(2) by (auto simp: life_ok_def send_signal_def has_handle_def split: creator.splits)
  ultimately show "sp_ok (send_signal SI_TKILL w)"
    using same_control_ok [OF same_control_send(1) o(1)] by (simp add: sp_ok_def)
  have "same_control w (spthread_cancel w)" by (simp add: same_control_def spthread_cancel_def)
  moreover have "requests_ok (spthread_cancel w)"
    by (rule requests_frames [OF o(2)]) (simp_all add: spthread_cancel_def)
  ultimately show "sp_ok (spthread_cancel w)"
    using o(3) same_control_ok [OF _ o(1)] by (simp add: sp_ok_def life_ok_def spthread_cancel_def)
  assume j: "spthread_join w = Some v"
  have v: "v = w\<lparr>sp_joined := True\<rparr>" "t_frames w = [Ended]" using j by (auto simp: spthread_join_def split: if_splits)
  have "same_control w v" by (simp add: same_control_def v)
  moreover have "requests_ok v" by (rule requests_frames [OF o(2)]) (simp_all add: v)
  moreover have "life_ok v" using o(3) v(2) by (simp add: life_ok_def v(1))
  ultimately show "sp_ok v" using same_control_ok [OF _ o(1)] by (simp add: sp_ok_def)
qed

lemma started_frames:
  assumes "control_ok w" "started w"
  shows "\<exists>f fs. t_frames w = f # fs \<and> f \<noteq> Setup"
proof -
  have "stack_ok (t_frames w)" using assms(1) unfolding control_ok_def by blast
  then show ?thesis using assms(2) by (cases "t_frames w") (auto simp: started_def)
qed

lemma masked_top_cong:
  "t_frames v = t_frames w \<Longrightarrow> t_mask v = t_mask w \<Longrightarrow> sp_meta v = sp_meta w \<Longrightarrow> masked_top v \<longleftrightarrow> masked_top w"
  unfolding masked_top_def by (simp only:)

lemma create_wakes_ok:
  assumes "sp_ok w" "create_wakes w = Some v"
  shows "sp_ok v"
proof -
  note o = sp_okD [OF assms(1)]
  obtain res where c: "sp_setup_done w = Some True" "v = w\<lparr>sp_creator := Created res, sp_setup_done := None\<rparr>"
    using assms(2) by (auto simp: create_wakes_def split: creator.splits option.splits bool.splits)
  then have s: "started w" using control_not_started(2) [OF o(1)] by auto
  obtain f fs where t: "t_frames w = f # fs" "f \<noteq> Setup"
    using started_frames [OF o(1) s] by blast
  note k = control_cases [OF o(1) t]
  have "masked_top v" using k(2) masked_top_cong [of v w] by (simp add: c(2))
  then have "control_ok v" by (intro control_okI [of _ f fs]) (use k t in \<open>simp_all add: c(2)\<close>)
  moreover have "requests_ok v" by (rule requests_frames [OF o(2)]) (simp_all add: c(2))
  moreover have "life_ok v" using o(3) by (simp add: life_ok_def c(2))
  ultimately show ?thesis by (simp add: sp_ok_def)
qed

text \<open>A call that uses the handle of a joined thread.\<close>

lemma fault_ok:
  assumes "sp_ok w" "sp_joined w"
  shows "sp_ok (w\<lparr>sp_fault := True\<rparr>)"
proof -
  note o = sp_okD [OF assms(1)]
  have "requests_ok (w\<lparr>sp_fault := True\<rparr>)" by (rule requests_frames [OF o(2)]) simp_all
  moreover have "control_ok (w\<lparr>sp_fault := True\<rparr>)" by (rule same_control_ok [OF _ o(1)]) (simp add: same_control_def)
  ultimately show ?thesis using o(3) assms(2) by (simp add: sp_ok_def life_ok_def)
qed

lemma handle_call_ok: "sp_ok w \<Longrightarrow> (\<not> sp_joined w \<Longrightarrow> sp_ok (f w)) \<Longrightarrow> sp_ok (handle_call f w)"
  by (simp add: handle_call_def fault_ok)

lemma suspend_ok:
  assumes "sp_ok w" "may_call c ret w"
  shows "sp_ok (spthread_suspend c ret w)"
  using assms suspend_self_ok [OF assms(1)]
  by (auto simp: spthread_suspend_def may_call_def split: if_splits intro: send_ok)

lemma continue_ok:
  assumes "sp_ok w" "may_call c ret w"
  shows "sp_ok (spthread_continue c ret w)"
  using assms
  by (auto simp: spthread_continue_def may_call_def split: if_splits intro: send_ok)
    (auto intro!: routine_ok [OF assms(1)] simp: spthread_continue_self_def in_routine_stack [OF sp_okD(1) [OF assms(1)]])

lemma sp_act_ok:
  assumes "sp_ok w" "sp_act e w = Some v"
  shows "sp_ok v"
proof (cases e)
  case (Call_suspend c ret)
  then show ?thesis using assms suspend_ok by (auto split: if_splits intro: handle_call_ok)
next
  case (Call_continue c ret)
  then show ?thesis using assms continue_ok by (auto split: if_splits intro: handle_call_ok)
next
  case (Sender c)
  then show ?thesis using assms sender_ok by simp
next
  case Create_wakes
  then show ?thesis using assms create_wakes_ok by simp
next
  case Deliver
  then show ?thesis using assms deliver_ok by simp
next
  case Thread
  then show ?thesis using assms thread_ok by simp
next
  case Cancel_acts
  then show ?thesis using assms cancel_acts_ok by simp
next
  case Exit_routine
  then show ?thesis using assms by (auto split: if_splits simp: spthread_exit_def intro: routine_ok)
next
  case Disable_interrupts
  then show ?thesis using assms in_routine_stack [OF sp_okD(1) [OF assms(1)]]
    by (auto split: if_splits simp: spthread_disable_interrupts_self_def intro!: routine_ok [OF assms(1)])
next
  case Enable_interrupts
  then show ?thesis using assms in_routine_stack [OF sp_okD(1) [OF assms(1)]]
    by (auto split: if_splits simp: spthread_enable_interrupts_self_def intro!: routine_ok [OF assms(1)])
qed (use assms other_ok [OF assms(1)] fault_ok [OF assms(1)] in \<open>auto split: if_splits intro!: handle_call_ok\<close>)

lemma sp_event_ok: "sp_ok w \<Longrightarrow> sp_event e w = Some v \<Longrightarrow> sp_ok v"
  by (auto simp: sp_event_def split: if_splits intro: sp_act_ok)

lemma sp_reach_ok: "sp_reach w \<Longrightarrow> sp_ok w"
  by (induction rule: sp_reach.induct) (auto intro: sp_ok_created sp_event_ok)

lemma sp_run_ok: "sp_run w es v \<Longrightarrow> sp_ok w \<Longrightarrow> sp_ok v"
  by (induction rule: sp_run.induct) (auto intro: sp_event_ok)

end
