(* ===== verification/SpThreadTheorems.thy ===== *)
theory SpThreadTheorems
  imports SpThreadProps
begin

text \<open>
  What the callers of \<open>spthread.h\<close> can rely on, and the schedules in which they cannot.
\<close>

subsection \<open>Concrete threads\<close>

text \<open>A thread just created, with a meta struct of junk; about to sleep for the first time; asleep; and in its routine.\<close>

definition fresh_thread :: world where
  "fresh_thread = new_world 0 \<lparr>suspend_set = {}, sp_state = 7\<rparr> {} 0"

definition starting_thread :: world where
  "starting_thread = fresh_thread\<lparr>t_frames := [Start_loop Calling],
     sp_meta := \<lparr>suspend_set = UNIV - {SIGPTHD}, sp_state = SPTHREAD_SUSPENDED_STATE\<rparr>, sp_handler := True,
     sp_creator := Created 0, sp_setup_done := None\<rparr>"

definition asleep_thread :: world where
  "asleep_thread = starting_thread\<lparr>t_frames := [Start_loop (Asleep {})], t_mask := UNIV - {SIGPTHD}\<rparr>"

definition running_thread :: world where
  "running_thread = starting_thread\<lparr>t_frames := [Routine], sp_next := 1,
     sp_meta := \<lparr>suspend_set = UNIV - {SIGPTHD}, sp_state = SPTHREAD_RUNNING_STATE\<rparr>\<rparr>"

lemmas sp_exec = sp_event_def handle_call_def may_call_def spthread_suspend_def spthread_continue_def send_request_def send_signal_def
  sender_step_def request_done_def create_wakes_def deliver_def susp_loop_step_def spthread_start_def sigpthd_handler_def
  handler_return_def cleanup_block_def cleanup_mark_def spthread_exit_def spthread_cancel_def cancel_acts_def
  spthread_join_def set_state_def has_handle_def idle_def in_routine_def terminating_def no_call_def sig_defs

lemmas sp_threads = fresh_thread_def new_world_def starting_thread_def asleep_thread_def running_thread_def

lemma fresh_created:
  "spthread_create \<lparr>cr_malloc_meta = True, cr_malloc_args = True, cr_mutex_init = 0, cr_cond_init = 0, cr_pthread_create = 0\<rparr>
     0 \<lparr>suspend_set = {}, sp_state = 7\<rparr> {} = Inr fresh_thread"
  by (simp add: spthread_create_def fresh_thread_def)

lemma sp_run_reach: "sp_run w es v \<Longrightarrow> sp_reach w \<Longrightarrow> sp_reach v"
  by (induction rule: sp_run.induct) (auto intro: sp_next_state)

lemma starting_run: "sp_run fresh_thread [Thread, Create_wakes] starting_thread"
  by (simp add: sp_threads sp_exec)

lemma asleep_run: "sp_run starting_thread [Thread] asleep_thread"
  by (simp add: sp_threads sp_exec)

lemma returned_again: "(\<lambda>_. Returned_with 0)(c := Returned_with 0) = (\<lambda>_. Returned_with 0)"
  by auto

lemma running_run: "sp_run asleep_thread [Call_continue 1 0, Deliver, Thread, Thread, Sender 1] running_thread"
  by (simp add: sp_threads sp_exec Let_def returned_again)

lemma fresh_reach: "sp_reach fresh_thread" by (rule sp_created [OF fresh_created])
lemma starting_reach: "sp_reach starting_thread" by (rule sp_run_reach [OF starting_run fresh_reach])
lemma asleep_reach: "sp_reach asleep_thread" by (rule sp_run_reach [OF asleep_run starting_reach])
lemma running_reach: "sp_reach running_thread" by (rule sp_run_reach [OF running_run asleep_reach])

subsection \<open>A thread that stays where it is\<close>

text \<open>
  \<open>quiet\<close>: the thread has ended, or no request is on its way to it and it is suspended or terminating. Only a request
  can end that.
\<close>

definition quiet :: "world \<Rightarrow> bool" where
  "quiet w \<longleftrightarrow> started w \<and>
     (t_frames w = [Ended] \<or> (\<forall>r. \<not> unhandled w r) \<and> (st w = SPTHREAD_SUSPENDED_STATE \<or> terminating w))"

text \<open>The thread that makes a request, if the event is one.\<close>

fun request_by :: "event \<Rightarrow> nat option" where
  "request_by (Call_suspend c ret) = Some c"
| "request_by (Call_continue c ret) = Some c"
| "request_by _ = None"

definition no_request :: "world \<Rightarrow> event \<Rightarrow> bool" where
  "no_request w e \<longleftrightarrow> request_by e = None \<or> request_by e = Some (t_self w)"

lemma self_kept: "sp_event e w = Some v \<Longrightarrow> t_self v = t_self w"
  by (cases e)
    (auto simp: sp_event_def handle_call_def spthread_suspend_def spthread_continue_def spthread_suspend_self_def spthread_continue_self_def
      send_request_def send_signal_def Let_def sender_step_def request_done_def create_wakes_def deliver_def susp_loop_step_def
      spthread_start_def sigpthd_handler_def handler_return_def cleanup_block_def cleanup_mark_def
      spthread_disable_interrupts_self_def spthread_enable_interrupts_self_def spthread_exit_def spthread_cancel_def
      cancel_acts_def spthread_join_def set_state_def
      elim!: thread_step.elims
      split: if_splits option.splits list.splits sp_call.splits creator.splits bool.splits susp_phase.splits siginfo.splits
        prod.splits)

lemma no_request_kept: "sp_event e w = Some v \<Longrightarrow> no_request v = no_request w"
  by (auto simp: no_request_def fun_eq_iff self_kept)

text \<open>A property that every allowed event keeps, along a run of allowed events.\<close>

locale kept_while =
  fixes allowed :: "world \<Rightarrow> event \<Rightarrow> bool" and P :: "world \<Rightarrow> bool"
  assumes allowed_step: "sp_event e w = Some v \<Longrightarrow> allowed v = allowed w"
    and step: "sp_ok w \<Longrightarrow> P w \<Longrightarrow> allowed w e \<Longrightarrow> sp_event e w = Some v \<Longrightarrow> P v"
begin

lemma run: "sp_run w es v \<Longrightarrow> sp_ok w \<Longrightarrow> P w \<Longrightarrow> \<forall>e\<in>set es. allowed w e \<Longrightarrow> P v"
proof (induction rule: sp_run.induct)
  case (sp_go e w u es v)
  then have "sp_ok u" "P u" "allowed u = allowed w"
    using sp_event_ok [OF sp_go.prems(1) sp_go.hyps(1)] step [OF sp_go.prems(1,2) _ sp_go.hyps(1)]
      allowed_step [OF sp_go.hyps(1)] by simp_all
  then show ?case using sp_go.IH sp_go.prems(3) by simp
qed simp

end

text \<open>Only an ended thread can have been joined.\<close>

lemma live:
  assumes "sp_ok w" "t_frames w \<noteq> [Ended]"
  shows "\<not> sp_joined w" "\<not> sp_fault w" "\<not> sp_exited w"
  using sp_okD(3) [OF assms(1)] assms(2) unfolding life_ok_def by auto

lemma ended_stays: "t_frames w = [Ended] \<Longrightarrow> sp_event e w = Some v \<Longrightarrow> t_frames v = [Ended]"
  by (cases e)
    (auto simp: sp_event_def handle_call_def may_call_def in_routine_def spthread_suspend_def spthread_continue_def send_request_def
      send_signal_def Let_def sender_step_def request_done_def create_wakes_def deliver_def cancel_acts_def
      spthread_cancel_def spthread_join_def
      split: if_splits option.splits sp_call.splits creator.splits bool.splits)

lemma terminating_Cons [simp]:
  "t_frames w = f # fs \<Longrightarrow> terminating w \<longleftrightarrow> f = Cleanup_block \<or> f = Cleanup_mark \<or> f = Ended \<or>
     list_ex (\<lambda>f. f = Cleanup_block \<or> f = Cleanup_mark \<or> f = Ended) fs"
  by (simp add: terminating_def)

lemma suspended_not_in_routine:
  assumes "sp_ok w" "started w" "st w = SPTHREAD_SUSPENDED_STATE"
  shows "\<not> in_routine w"
proof
  assume "in_routine w"
  note k = control_cases [OF sp_okD(1) [OF assms(1)] in_routine_stack [OF sp_okD(1) [OF assms(1)] this]]
  show False using k(7) assms(3) by simp
qed

lemma quiet_not_in_routine:
  assumes "sp_ok w" "quiet w"
  shows "\<not> in_routine w"
proof (cases "st w = SPTHREAD_SUSPENDED_STATE")
  case True
  then show ?thesis using suspended_not_in_routine assms by (auto simp: quiet_def)
next
  case False
  then have "t_frames w \<noteq> [Routine]" using assms(2) by (auto simp: quiet_def)
  then show ?thesis using in_routine_stack [OF sp_okD(1) [OF assms(1)]] by blast
qed

text \<open>A change that keeps the frames, the state and the pending request keeps the thread quiet.\<close>

lemma quiet_same:
  assumes "quiet w" "t_frames v = t_frames w" "st v = st w" "\<And>r. t_pending v = Some (SI_QUEUE r) \<Longrightarrow> t_pending w = Some (SI_QUEUE r)"
  shows "quiet v"
  using assms by (auto simp: quiet_def started_def unhandled_def terminating_def)

lemma quiet_frames:
  assumes "quiet w" "t_frames w \<noteq> [Ended]" "started v" "top_request (t_frames v) = None" "t_pending v = t_pending w"
    "st v = SPTHREAD_SUSPENDED_STATE \<or> terminating v"
  shows "quiet v"
  using assms by (auto simp: quiet_def unhandled_def)

lemma quiet_thread:
  assumes ok: "sp_ok w" and q: "quiet w" and s: "thread_step (t_frames w) w = Some v"
  shows "quiet v"
proof -
  have c: "control_ok w" using ok by (rule sp_okD)
  obtain f fs where t: "t_frames w = f # fs" "f \<noteq> Setup" using started_frames [OF c] q by (auto simp: quiet_def)
  note k = control_cases [OF c t]
  have e: "f \<noteq> Ended" using s t by auto
  then have q': "\<And>r. \<not> unhandled w r" "st w = SPTHREAD_SUSPENDED_STATE \<or> terminating w" using q t by (auto simp: quiet_def)
  have go: "quiet v" if "started v" "top_request (t_frames v) = None" "t_pending v = t_pending w"
    "st v = SPTHREAD_SUSPENDED_STATE \<or> terminating v"
    by (rule quiet_frames [OF q _ that]) (use t e in simp)
  have loop: "quiet v" if l: "susp_loop_step fr leave p fs w = Some v" "f = fr p" "loop_frame fr"
    and r: "p = Woken \<Longrightarrow> st w \<noteq> SPTHREAD_SUSPENDED_STATE \<Longrightarrow> quiet (leave w)" for fr leave p
  proof -
    have n: "top_request (fr x # fs) = None" "fr x \<noteq> Setup" "list_ex P (fr x # fs) \<longleftrightarrow> P (fr x) \<or> list_ex P fs"
      "fr x \<noteq> Cleanup_block" "fr x \<noteq> Cleanup_mark" "fr x \<noteq> Ended" for x P
      using l(3) by (auto simp: loop_frame_def)
    show ?thesis
    proof (cases "p = Woken \<and> st w \<noteq> SPTHREAD_SUSPENDED_STATE")
      case True
      then show ?thesis using r l(1) by (auto simp: susp_loop_step_def)
    next
      case False
      then obtain x where "t_frames v = fr x # fs" "t_pending v = t_pending w" "sp_meta v = sp_meta w"
        using l(1) by (auto simp: susp_loop_step_def split: susp_phase.splits if_splits)
      then show ?thesis using q'(2) n t l(2) by (intro go) (auto simp: started_def terminating_def)
    qed
  qed
  show ?thesis
  proof (cases f)
    case (Start_loop p)
    show ?thesis by (rule loop [OF s [unfolded t Start_loop thread_step.simps] Start_loop])
      (use q'(2) k(1) t Start_loop in \<open>auto simp: loop_frame_def\<close>)
  next
    case (Self_loop p)
    show ?thesis by (rule loop [OF s [unfolded t Self_loop thread_step.simps] Self_loop])
      (use q'(2) k(1) t Self_loop in \<open>auto simp: loop_frame_def\<close>)
  next
    case (Handler_loop p m)
    have fs: "interruptible fs" using k(1) Handler_loop by simp
    show ?thesis
    proof (rule loop [OF s [unfolded t Handler_loop thread_step.simps]])
      assume "st w \<noteq> SPTHREAD_SUSPENDED_STATE"
      then have "terminating w" using q'(2) by blast
      then show "quiet (handler_return m fs w)"
        using q'(1) t Handler_loop interruptible_facts [OF fs] top_request_interruptible [OF fs]
        by (auto simp: quiet_def handler_return_def started_def unhandled_def terminating_def)
    qed (use Handler_loop in \<open>auto simp: loop_frame_def\<close>)
  next
    case (Handler_entry sg i m)
    have fs: "interruptible fs" "sg = SIGPTHD" "\<forall>c. i \<noteq> SI_OTHER c" using k(1) Handler_entry by simp_all
    have "i = SI_TKILL" using fs(3) q'(1) t Handler_entry by (cases i) (auto simp: unhandled_def)
    then have v: "v = handler_return m fs w" using s t Handler_entry fs(2) by (simp add: sigpthd_handler_def)
    show ?thesis using q'(2) t Handler_entry interruptible_facts [OF fs(1)] top_request_interruptible [OF fs(1)]
      by (intro go) (auto simp: v handler_return_def started_def terminating_def)
  next
    case Cleanup_block
    then show ?thesis using s t k(1) by (intro go) (auto simp: cleanup_block_def started_def terminating_def)
  next
    case Cleanup_mark
    then show ?thesis using s t by (intro go) (auto simp: cleanup_mark_def started_def terminating_def)
  qed (use s t e in simp_all)
qed

lemma quiet_deliver:
  assumes "sp_ok w" "quiet w" "deliver w = Some v"
  shows "quiet v"
proof -
  note o = sp_okD [OF assms(1)]
  have oth: "\<forall>c. t_pending w \<noteq> Some (SI_OTHER c)" using o(3) by (simp add: life_ok_def)
  have s: "started w" using assms(2) by (simp add: quiet_def)
  obtain info f fs f' saved where c: "t_pending w = Some info" "t_frames w = f # fs" "wake (t_mask w) f = (f', saved)"
    "interruptible (f # fs)" "control_ok v"
    "v = w\<lparr>t_pending := None, t_frames := Handler_entry SIGPTHD info saved # f' # fs,
             t_mask := sig_block pthd_set (t_mask w)\<rparr>"
    using control_deliver [OF o(1) assms(3) oth s] .
  have q: "\<And>r. \<not> unhandled w r" "st w = SPTHREAD_SUSPENDED_STATE \<or> terminating w"
    using assms(2) c(2,4) by (auto simp: quiet_def)
  have "info = SI_TKILL" using oth q(1) c(1) by (cases info) (auto simp: unhandled_def)
  moreover have "terminating v" if "terminating w"
    using that c(2,3,4) by (cases f) (auto simp: c(6) terminating_def split: prod.splits)
  ultimately show ?thesis using q by (auto simp: quiet_def c(6) started_def unhandled_def)
qed

lemma quiet_step:
  assumes "sp_ok w" "quiet w" "sp_event e w = Some v" "no_request w e"
  shows "quiet v"
proof -
  note o = sp_okD [OF assms(1)]
  note nr = quiet_not_in_routine [OF assms(1,2)]
  have act: "sp_act e w = Some v" using assms(3) by (simp add: sp_event_def split: if_splits)
  note same = quiet_same [OF assms(2)]
  show ?thesis
  proof (cases e)
    case (Sender c)
    then show ?thesis using act
      by (cases rule: sender_cases [OF assms(1), of c v]) (auto intro!: same simp: request_done_def)
  next
    case Deliver
    then show ?thesis using act quiet_deliver [OF assms(1,2)] by simp
  next
    case Thread
    then show ?thesis using act quiet_thread [OF assms(1,2)] by simp
  next
    case Cancel_acts
    then obtain f fs where t: "t_frames w = f # fs" "cancel_point f"
      "v = w\<lparr>t_frames := [Cleanup_block], t_cancel := False\<rparr>"
      using act by (auto simp: cancel_acts_def spthread_exit_def split: list.splits if_splits)
    show ?thesis
      by (rule quiet_frames [OF assms(2)]) (use t in \<open>auto simp: started_def terminating_def\<close>)
  qed (use act nr assms(4) in \<open>auto intro!: same simp: no_request_def handle_call_def may_call_def create_wakes_def send_signal_def
      spthread_cancel_def spthread_join_def split: if_splits creator.splits option.splits bool.splits\<close>)
qed

subsection \<open>A request to suspend\<close>

text \<open>The call of \<open>c\<close> waits, its signal is the only one on its way; else the thread is quiet already.\<close>

definition suspending :: "nat \<Rightarrow> world \<Rightarrow> bool" where
  "suspending c w \<longleftrightarrow> started w \<and> (\<exists>r a. waiting_on (sp_calls w c) = Some r \<and> sp_args w r = Some a \<and>
     sg_signal a = SPTHREAD_SIG_SUSPEND \<and> sg_ack a = 0 \<and> (\<forall>x. unhandled w x \<longrightarrow> x = r))"

lemma suspending_same:
  assumes "suspending c w" "started v" "sp_args v = sp_args w" "waiting_on (sp_calls v c) = waiting_on (sp_calls w c)"
    "\<And>x. unhandled v x \<Longrightarrow> unhandled w x"
  shows "suspending c v"
  using assms unfolding suspending_def by metis

lemma suspending_thread:
  assumes ok: "sp_ok w" and w: "suspending c w" and s: "thread_step (t_frames w) w = Some v"
  shows "suspending c v \<or> quiet v"
proof -
  obtain r a where r: "waiting_on (sp_calls w c) = Some r" "sp_args w r = Some a" "sg_signal a = SPTHREAD_SIG_SUSPEND"
    "sg_ack a = 0" "\<And>x. unhandled w x \<Longrightarrow> x = r"
    using w by (auto simp: suspending_def)
  show ?thesis
  proof (cases rule: thread_effect [OF ok s])
    case 1
    then show ?thesis by (intro disjI1 suspending_same [OF w]) (auto simp: own_step_def unhandled_def)
  next
    case (2 r' m fs a')
    have u: "unhandled w r'" by (simp add: unhandled_def 2(1))
    then have "r' = r" by (rule r(5))
    note h = handler_acks [OF 2(3,4,2,5)]
    have p: "t_pending w \<noteq> Some (SI_QUEUE r)"
      using requests_okD(7) [OF sp_okD(2) [OF ok], of r] 2(1) \<open>r' = r\<close> by auto
    have "\<not> unhandled v x" for x
      using p h(4,10) r(5) [of x] by (auto simp: unhandled_def)
    then show ?thesis using h(11,12) r(2,3) 2(3) \<open>r' = r\<close> by (auto simp: quiet_def)
  qed
qed

lemma suspending_step:
  assumes ok: "sp_ok w" and w: "suspending c w" and s: "sp_event e w = Some v" and n: "no_request w e"
  shows "suspending c v \<or> quiet v"
proof -
  note o = sp_okD [OF ok]
  have act: "sp_act e w = Some v" using s by (simp add: sp_event_def split: if_splits)
  obtain r a where r: "waiting_on (sp_calls w c) = Some r" "sp_args w r = Some a" "sg_signal a = SPTHREAD_SIG_SUSPEND"
    "sg_ack a = 0" "\<And>x. unhandled w x \<Longrightarrow> x = r"
    using w by (auto simp: suspending_def)
  have st: "started w" using w by (simp add: suspending_def)
  note same = suspending_same [OF w]
  show ?thesis
  proof (cases e)
    case (Sender d)
    then have d: "sender_step d w = Some v" using act by simp
    show ?thesis
    proof (cases rule: sender_cases [OF ok d])
      case (1 x)
      then show ?thesis using st by (intro disjI1 same) (auto simp: started_def unhandled_def)
    next
      case (2 r')
      show ?thesis
      proof (cases "d = c")
        case True
        then have "t_frames w = [Ended]" using 2(2,3) r(1,2,4) by fastforce
        then show ?thesis by (simp add: quiet_def started_def 2(1) request_done_def)
      next
        case False
        then have "r' \<noteq> r" using requests_okD(2) [OF o(2) 2(2)] r(1) by blast
        then have "suspending c v" using False r st unfolding suspending_def
          by (intro conjI exI [of _ r] exI [of _ a]) (auto simp: 2(1) request_done_def started_def unhandled_def)
        then show ?thesis ..
      qed
    next
      case (3 r')
      then have "t_frames w = [Ended]" using o(3) by (simp add: life_ok_def)
      then show ?thesis by (simp add: quiet_def started_def 3(1))
    qed
  next
    case Deliver
    have oth: "\<forall>c. t_pending w \<noteq> Some (SI_OTHER c)" using o(3) by (simp add: life_ok_def)
    have "deliver w = Some v" using act Deliver by simp
    from control_deliver [OF o(1) this oth st] obtain info f fs f' saved where
      i: "t_pending w = Some info" "t_frames w = f # fs" 
      "v = w\<lparr>t_pending := None, t_frames := Handler_entry SIGPTHD info saved # f' # fs,
             t_mask := sig_block pthd_set (t_mask w)\<rparr>" by metis
    then show ?thesis
      by (intro disjI1 same) (cases info; auto simp: started_def unhandled_def)+
  next
    case Thread
    then show ?thesis using act suspending_thread [OF ok w] by simp
  next
    case Cancel_acts
    then show ?thesis using act
      by (intro disjI1 same) (auto simp: cancel_acts_def spthread_exit_def started_def unhandled_def split: list.splits if_splits)
  qed (use act st n in \<open>auto intro!: disjI1 same simp: no_request_def handle_call_def create_wakes_def send_signal_def started_def unhandled_def
      spthread_suspend_def spthread_continue_def spthread_suspend_self_def spthread_continue_self_def spthread_exit_def
      spthread_disable_interrupts_self_def spthread_enable_interrupts_self_def spthread_cancel_def spthread_join_def
      split: if_splits creator.splits option.splits bool.splits\<close>)
qed

interpretation suspend_wait: kept_while no_request "\<lambda>w. quiet w \<or> suspending c w" for c
  by unfold_locales (auto simp: no_request_kept dest: quiet_step suspending_step)

lemma unhandled_no_call:
  assumes "sp_ok w" "no_call w" "t_frames w \<noteq> [Ended]"
  shows "\<not> unhandled w r"
  using requests_okD(5,6) [OF sp_okD(2) [OF assms(1)]] assms(2,3) unfolding no_call_def by fastforce

text \<open>
  C34 (safety). After a call of \<open>spthread_suspend\<close>, made when no other request is in flight, has returned (and not failed with
  \<open>EAGAIN\<close>, when no signal could be queued), the thread executes nothing of its routine, whatever happens, until another request is made.
\<close>

theorem suspend_stops:
  assumes "sp_reach w" "no_call w" "sp_event (Call_suspend c ret) w = Some u" "ret \<noteq> sp_EAGAIN" "c \<noteq> t_self w"
    "sp_run u es v" "\<forall>e\<in>set es. no_request u e" "idle v c"
  shows "\<not> in_routine v"
proof -
  note ok = sp_reach_ok [OF assms(1)]
  have ok': "sp_ok u" by (rule sp_event_ok [OF ok assms(3)])
  have "quiet u \<or> suspending c u"
  proof (cases "t_frames w = [Ended]")
    case True
    then have "t_frames u = [Ended]" by (rule ended_stays [OF _ assms(3)])
    then show ?thesis by (simp add: quiet_def started_def)
  next
    case False
    then have u: "u = send_request c SPTHREAD_SIG_SUSPEND ret First_nap w" "has_handle w" "ret = 0"
      using assms(3-5) live(1) [OF ok]
      by (auto simp: sp_event_def handle_call_def may_call_def spthread_suspend_def split: if_splits)
    have "\<And>r. \<not> unhandled w r" using unhandled_no_call [OF ok assms(2) False] by blast
    then have "suspending c u"
      using started_handle [OF sp_okD(1) [OF ok] u(2)] u(3)
      by (auto simp: suspending_def u(1) send_request_def send_signal_def Let_def started_def unhandled_def)
    then show ?thesis ..
  qed
  from suspend_wait.run [OF assms(6) ok' this assms(7)] have "quiet v"
    using assms(8) by (auto simp: suspending_def idle_def split: sp_call.splits)
  then show ?thesis by (rule quiet_not_in_routine [OF sp_run_ok [OF assms(6) ok']])
qed

lemma suspend_stops_witness:
  "\<exists>u v. in_routine running_thread \<and> sp_event (Call_suspend 1 0) running_thread = Some u \<and>
     sp_run u [Deliver, Thread, Sender 1, Tkill, Sender 1, Thread, Deliver, Thread, Thread] v \<and> idle v 1 \<and> \<not> in_routine v"
proof -
  let ?es = "[Deliver, Thread, Sender 1, Tkill, Sender 1, Thread, Deliver, Thread, Thread]"
  let ?w = running_thread and ?e = "Call_suspend 1 0"
  have "\<exists>u v. sp_event ?e ?w = Some u \<and> sp_run u ?es v \<and> idle v 1"
    by (simp add: sp_threads sp_exec Let_def)
  then obtain u v where r: "sp_event ?e ?w = Some u" "sp_run u ?es v" "idle v 1" by blast
  have "no_call ?w" "(0 :: int) \<noteq> sp_EAGAIN" "1 \<noteq> t_self ?w" "\<forall>e\<in>set ?es. no_request u e" "in_routine ?w"
    by (simp_all add: sp_threads no_call_def no_request_def in_routine_def sp_EAGAIN_def)
  then show ?thesis using suspend_stops [OF running_reach _ r(1) _ _ r(2) _ r(3)] r by blast
qed

subsection \<open>A request to continue\<close>


lemma sp_run_append: "sp_run w es u \<Longrightarrow> sp_run u es' v \<Longrightarrow> sp_run w (es @ es') v"
  by (induction rule: sp_run.induct) (auto intro: sp_go)


text \<open>The delivery of a request to continue, up to the return of its handler.\<close>

lemma continue_delivered:
  assumes "sp_ok w" "has_handle w" "idle w c" "c \<noteq> t_self w" "t_pending w = None" "SIGPTHD \<notin> t_mask w"
    "t_frames w = f # fs" "wake (t_mask w) f = (f', saved)" "f \<noteq> Setup" "f \<noteq> Ended"
  obtains h r where "sp_run w [Call_continue c 0, Deliver, Thread] h" "t_frames h = f' # fs" "t_mask h = saved"
    "st h = SPTHREAD_RUNNING_STATE" "t_pending h = None" "\<not> sp_exited h" "\<not> sp_fault h" "sp_calls h c = Testing r"
    "sp_args h r = Some \<lparr>sg_signal = SPTHREAD_SIG_CONTINUE, sg_ack = 1\<rparr>"
proof -
  note o = sp_okD [OF assms(1)]
  have "t_frames w \<noteq> [Ended]" using assms(7,10) by simp
  note live = live [OF assms(1) this]
  note k = control_cases [OF o(1) assms(7,9)]
  let ?r = "sp_next w"
  let ?u = "spthread_continue c 0 w"
  have u: "?u = w\<lparr>t_pending := Some (SI_QUEUE ?r), sp_next := Suc ?r,
      sp_args := (sp_args w)(?r \<mapsto> \<lparr>sg_signal = SPTHREAD_SIG_CONTINUE, sg_ack = 0\<rparr>), sp_calls := (sp_calls w)(c := Testing ?r)\<rparr>"
    using assms(4,5) by (simp add: spthread_continue_def send_request_def Let_def send_signal_def)
  have e1: "sp_event (Call_continue c 0) w = Some ?u" using live assms(2-4) by (simp add: sp_event_def may_call_def handle_call_def)
  let ?d = "?u\<lparr>t_pending := None, t_frames := Handler_entry SIGPTHD (SI_QUEUE ?r) saved # f' # fs,
      t_mask := sig_block pthd_set (t_mask w)\<rparr>"
  have e2: "sp_event Deliver ?u = Some ?d"
    using live assms(6-8,10) k(4) by (simp add: sp_event_def deliver_def u)
  let ?h = "sigpthd_handler SIGPTHD (SI_QUEUE ?r) saved (f' # fs) ?d"
  have e3: "sp_event Thread ?d = Some ?h" using live by (simp add: sp_event_def u)
  show thesis
    by (rule that [of ?h ?r]) (use e1 e2 e3 live in \<open>simp_all add: u sigpthd_handler_def handler_return_def\<close>)
qed








text \<open>
  C39 (safety). A \<open>spthread_continue\<close> that arrives after a new thread has unlocked its setup mutex, or a suspending one has set its
  state, and before it calls \<open>sigsuspend\<close>, is acknowledged and lost: the call returns 0 and the state is running, but the
  thread goes to sleep with no signal pending, and neither it nor a pending signal can wake it.
\<close>

theorem continue_lost:
  assumes "sp_reach w" "has_handle w" "idle w c" "c \<noteq> t_self w" "t_pending w = None" "SIGPTHD \<notin> t_mask w"
    "t_frames w = [Start_loop Calling] \<or> t_frames w = [Self_loop Calling, Routine]"
  shows "\<exists>v. sp_run w [Call_continue c 0, Deliver, Thread, Sender c, Thread] v \<and>
    sp_calls v c = Returned_with 0 \<and> st v = SPTHREAD_RUNNING_STATE \<and> \<not> in_routine v \<and> t_pending v = None \<and>
    sp_event Thread v = None \<and> sp_event Deliver v = None"
proof -
  obtain f fs where t: "t_frames w = f # fs" "f = Start_loop Calling \<or> f = Self_loop Calling" using assms(7) by auto
  then have f: "f \<noteq> Setup" "f \<noteq> Ended" "wake (t_mask w) f = (f, t_mask w)" by auto
  from continue_delivered [OF sp_reach_ok [OF assms(1)] assms(2-6) t(1) f(3,1,2)]
  obtain h r where h: "sp_run w [Call_continue c 0, Deliver, Thread] h" "t_frames h = f # fs" "t_mask h = t_mask w"
    "st h = SPTHREAD_RUNNING_STATE" "t_pending h = None" "\<not> sp_exited h" "\<not> sp_fault h" "sp_calls h c = Testing r"
    "sp_args h r = Some \<lparr>sg_signal = SPTHREAD_SIG_CONTINUE, sg_ack = 1\<rparr>" by metis
  have s: "sp_event (Sender c) h = Some (request_done c r h)" using h by (simp add: sp_event_def sender_step_def)
  let ?g = "if f = Start_loop Calling then Start_loop (Asleep (t_mask w)) else Self_loop (Asleep (t_mask w))"
  let ?v = "(request_done c r h)\<lparr>t_frames := ?g # fs, t_mask := suspend_set (sp_meta h)\<rparr>"
  have "sp_event Thread (request_done c r h) = Some ?v"
    using h t(2) by (auto simp: sp_event_def request_done_def susp_loop_step_def)
  then have "sp_run w [Call_continue c 0, Deliver, Thread, Sender c, Thread] ?v"
    using sp_run_append [OF h(1), of "[Sender c, Thread]"] s by simp
  then show ?thesis
    by (intro exI [of _ ?v])
      (simp add: request_done_def h sp_event_def in_routine_def deliver_def susp_loop_step_def)
qed

lemma continue_lost_witness:
  "\<exists>v. sp_run starting_thread [Call_continue 1 0, Deliver, Thread, Sender 1, Thread] v \<and> \<not> in_routine v \<and>
     sp_event Thread v = None"
proof -
  have "has_handle starting_thread" "idle starting_thread 1" "1 \<noteq> t_self starting_thread" "t_pending starting_thread = None"
    "SIGPTHD \<notin> t_mask starting_thread" "t_frames starting_thread = [Start_loop Calling]"
    by (simp_all add: sp_threads has_handle_def idle_def)
  then show ?thesis using continue_lost [OF starting_reach, of 1] by blast
qed

subsection \<open>Creation\<close>

lemma created_world:
  "spthread_create e self junk msk = Inr w \<Longrightarrow> w = new_world self junk msk (cr_pthread_create e)"
  by (auto simp: spthread_create_def split: if_splits)

text \<open>A thread that has not started, or is quiet.\<close>

lemma unstarted_step:
  assumes "sp_ok w" "\<not> started w" "sp_event e w = Some v"
  shows "\<not> started v \<and> t_frames v = t_frames w \<and> sp_creator v = sp_creator w \<or>
    quiet v \<and> t_frames w = [Setup] \<and> sp_creator v = sp_creator w"
proof -
  note o = sp_okD [OF assms(1)]
  have act: "sp_act e w = Some v" using assms(3) by (simp add: sp_event_def split: if_splits)
  note n = control_not_started [OF o(1) assms(2)]
  obtain res where r: "sp_creator w = Create_waiting res" using n(1) by blast
  have no: "t_pending w = None" "\<And>c. sp_args w c = None" using o(3) r by (auto simp: life_ok_def)
  have nh: "\<not> has_handle w" using r by (simp add: has_handle_def)
  have fr: "t_frames w = [] \<or> t_frames w = [Setup]" using assms(2) by (auto simp: started_def)
  then have ir: "\<not> in_routine w" by (auto simp: in_routine_def)
  have idle: "sender_step c w = None" for c
    using requests_okD(1) [OF o(2), of c] no(2) by (cases "sp_calls w c") (auto simp: sender_step_def)
  show ?thesis
  proof (cases e)
    case Thread
    then have "v = spthread_start [] w" using act fr by auto
    then show ?thesis using act Thread fr n(2) no(1)
      by (auto simp: spthread_start_def quiet_def started_def unhandled_def)
  qed (use act nh ir idle n fr no in \<open>auto simp: may_call_def deliver_def create_wakes_def cancel_acts_def
      split: if_splits\<close>)
qed

interpretation create_waits: kept_while "\<lambda>_ _. True" "\<lambda>w. t_frames w = [] \<and> sp_creator w = x" for x
proof
  show "t_frames v = [] \<and> sp_creator v = x" if "sp_ok w" "t_frames w = [] \<and> sp_creator w = x" "sp_event e w = Some v" for w e v
  proof -
    have "\<not> started w" using that(2) by (simp add: started_def)
    from unstarted_step [OF that(1) this that(3)] show ?thesis using that(2) by auto
  qed
qed simp

fun create_result :: "creator \<Rightarrow> int" where
  "create_result (Create_waiting res) = res"
| "create_result (Created res) = res"

lemma create_result_kept:
  assumes "sp_event e w = Some v"
  shows "create_result (sp_creator v) = create_result (sp_creator w)"
  using assms
  by (cases e)
    (auto simp: sp_event_def handle_call_def spthread_suspend_def spthread_continue_def spthread_suspend_self_def spthread_continue_self_def
      send_request_def send_signal_def Let_def sender_step_def request_done_def create_wakes_def deliver_def susp_loop_step_def
      spthread_start_def sigpthd_handler_def handler_return_def cleanup_block_def cleanup_mark_def
      spthread_disable_interrupts_self_def spthread_enable_interrupts_self_def spthread_exit_def spthread_cancel_def
      cancel_acts_def spthread_join_def
      elim!: thread_step.elims
      split: if_splits option.splits list.splits sp_call.splits creator.splits bool.splits susp_phase.splits siginfo.splits
        prod.splits)

interpretation unstarted: kept_while no_request "\<lambda>w. (\<not> started w \<or> quiet w) \<and> create_result (sp_creator w) = x" for x
  by unfold_locales (auto simp: no_request_kept create_result_kept dest: unstarted_step quiet_step)

text \<open>
  When \<open>pthread_create\<close> fails, \<open>spthread_create\<close> does not return its error: no thread will ever set
  \<open>setup_done\<close>, and the caller waits on the condition variable for ever.
\<close>

theorem create_failure_hangs:
  assumes "spthread_create e self junk msk = Inr w" "cr_pthread_create e \<noteq> 0" "sp_run w es v"
  shows "sp_creator v = Create_waiting (cr_pthread_create e)"
  using create_waits.run [OF assms(3) sp_ok_created [OF assms(1)]] created_world [OF assms(1)] assms(2)
  by (simp add: new_world_def)

lemma create_failure_hangs_witness:
  "\<exists>w. spthread_create \<lparr>cr_malloc_meta = True, cr_malloc_args = True, cr_mutex_init = 0, cr_cond_init = 0,
     cr_pthread_create = 11\<rparr> 0 \<lparr>suspend_set = {}, sp_state = 0\<rparr> {} = Inr w \<and> sp_creator w = Create_waiting 11"
proof -
  let ?e = "\<lparr>cr_malloc_meta = True, cr_malloc_args = True, cr_mutex_init = 0, cr_cond_init = 0, cr_pthread_create = 11\<rparr>"
  let ?m = "\<lparr>suspend_set = {}, sp_state = 0\<rparr>"
  have c: "spthread_create ?e 0 ?m {} = Inr (new_world 0 ?m {} 11)" by (simp add: spthread_create_def)
  show ?thesis using create_failure_hangs [OF c, of "[]"] c by simp
qed

text \<open>
  C37 (safety). A new thread starts suspended: until a request is made it executes nothing of its routine, and when
  \<open>spthread_create\<close> has returned, it has returned 0 and the handler is installed.
\<close>

theorem created_suspended:
  assumes "spthread_create e self junk msk = Inr w" "sp_run w es v" "\<forall>e\<in>set es. no_request w e"
  shows "\<not> in_routine v \<and> (\<forall>res. sp_creator v = Created res \<longrightarrow> res = 0 \<and> sp_handler v)"
proof -
  note ok = sp_ok_created [OF assms(1)]
  have ok': "sp_ok v" by (rule sp_run_ok [OF assms(2) ok])
  have w: "w = new_world self junk msk (cr_pthread_create e)" by (rule created_world [OF assms(1)])
  then have "\<not> started w" by (simp add: new_world_def started_def)
  then have v: "\<not> started v \<or> quiet v" "create_result (sp_creator v) = cr_pthread_create e"
    using unstarted.run [OF assms(2) ok _ assms(3)] w by (simp_all add: new_world_def)
  have "\<not> in_routine v"
  proof (cases "started v")
    case True
    then show ?thesis using v(1) quiet_not_in_routine [OF ok'] by blast
  next
    case False
    then show ?thesis by (auto simp: started_def in_routine_def split: list.splits)
  qed
  moreover have "res = 0 \<and> sp_handler v" if c: "sp_creator v = Created res" for res
  proof
    show "res = 0"
    proof (rule ccontr)
      assume "res \<noteq> 0"
      then have "t_frames w = []" using v(2) c w by (simp add: new_world_def)
      then show False using create_waits.run [OF assms(2) ok] c w by (simp add: new_world_def)
    qed
    have "started v" using control_not_started(1) [OF sp_okD(1) [OF ok']] c by auto
    then show "sp_handler v" using sp_okD(1) [OF ok'] unfolding control_ok_def by presburger
  qed
  ultimately show ?thesis by blast
qed

lemma created_suspended_witness:
  "sp_run fresh_thread [Thread, Create_wakes] starting_thread \<and> \<not> in_routine starting_thread \<and> sp_handler starting_thread"
proof -
  have "\<forall>e\<in>set [Thread, Create_wakes]. no_request fresh_thread e" "sp_creator starting_thread = Created 0"
    by (simp_all add: no_request_def sp_threads)
  then show ?thesis using created_suspended [OF fresh_created starting_run] starting_run by blast
qed

subsection \<open>Memory\<close>

text \<open>The calls among the events of a run.\<close>

fun is_call :: "event \<Rightarrow> bool" where
  "is_call Cancel_thread = True"
| "is_call Join_thread = True"
| "is_call (Call_suspend c ret) = True"
| "is_call (Call_continue c ret) = True"
| "is_call _ = False"

definition calls_of :: "event list \<Rightarrow> event list" where
  "calls_of es = filter is_call es"

text \<open>The uses of a thread's handle: a call that names the thread, or the test of its state in the loop of a waiting call.\<close>

definition uses_handle :: "event \<Rightarrow> world \<Rightarrow> bool" where
  "uses_handle e w \<longleftrightarrow>
    (case e of
       Call_suspend c ret \<Rightarrow> True
     | Call_continue c ret \<Rightarrow> True
     | Sender c \<Rightarrow> \<exists>r. sp_calls w c = Napping r
     | _ \<Rightarrow> e \<in> {Tkill, Cancel_thread, Join_thread})"

lemma joined_kept:
  assumes "sp_event e w = Some v" "e \<noteq> Join_thread"
  shows "sp_joined v = sp_joined w"
  using assms
  by (cases e)
    (auto simp: sp_event_def handle_call_def spthread_suspend_def spthread_continue_def spthread_suspend_self_def spthread_continue_self_def
      send_request_def send_signal_def Let_def sender_step_def request_done_def create_wakes_def deliver_def susp_loop_step_def
      spthread_start_def sigpthd_handler_def handler_return_def cleanup_block_def cleanup_mark_def
      spthread_disable_interrupts_self_def spthread_enable_interrupts_self_def spthread_exit_def spthread_cancel_def
      cancel_acts_def
      elim!: thread_step.elims
      split: if_splits option.splits list.splits sp_call.splits creator.splits bool.splits susp_phase.splits siginfo.splits
        prod.splits)

lemma event_faults:
  assumes ok: "sp_ok w" and s: "sp_event e w = Some v"
  shows "sp_fault v \<longleftrightarrow> sp_joined w \<and> uses_handle e w"
proof (cases "sp_joined w")
  case True
  note o = sp_okD [OF ok]
  have act: "sp_act e w = Some v" "\<not> sp_fault w" using s by (simp_all add: sp_event_def split: if_splits)
  have fr: "t_frames w = [Ended]" using o(3) True by (simp add: life_ok_def)
  have nr: "\<not> in_routine w" by (simp add: in_routine_def fr)
  show ?thesis
  proof (cases e)
    case (Sender c)
    then have d: "sender_step c w = Some v" using act by simp
    then show ?thesis using act(2) Sender True waiting_caller(1) [OF ok, of c]
      by (auto simp: uses_handle_def sender_step_def request_done_def split: sp_call.splits option.splits if_splits)
  qed (use act True fr nr in \<open>auto simp: uses_handle_def handle_call_def deliver_def create_wakes_def cancel_acts_def may_call_def
      split: if_splits creator.splits option.splits bool.splits\<close>)
next
  case False
  have "sp_ok v" by (rule sp_event_ok [OF ok s])
  show ?thesis
  proof (cases "e = Join_thread")
    case True
    then show ?thesis using s False by (auto simp: sp_event_def spthread_join_def split: if_splits)
  next
    case neq: False
    have "\<not> sp_joined v" using joined_kept [OF s neq] False by simp
    then show ?thesis using sp_okD(3) [OF \<open>sp_ok v\<close>] False by (auto simp: life_ok_def)
  qed
qed

text \<open>
  C36 (safety). Which memory the participants use, in every order of their steps. The handler never follows the pointer of a
  request whose sender has returned: the request it has been given is still on the stack of its caller. No process exit
  comes from the setup, and the only uses of memory that is gone are those of the meta struct that a join has freed: a
  step uses it exactly when it is a call that names the joined thread, a second join included, or the test of the
  thread's state in a call that was made before the join. That last one happens: a thread that is to be
  suspended ends, another thread joins it, and the caller that still waits for the acknowledgement reads the freed state.
\<close>

theorem requests_never_dangle:
  assumes "sp_reach w"
  shows "\<not> sp_exited w \<and> (sp_fault w \<longrightarrow> sp_joined w) \<and>
    (\<forall>s r m fs. t_frames w = Handler_entry s (SI_QUEUE r) m # fs \<longrightarrow>
       (\<exists>a c. sp_args w r = Some a \<and> sg_ack a = 0 \<and> waiting_on (sp_calls w c) = Some r)) \<and>
    (\<forall>e v. sp_event e w = Some v \<longrightarrow> (sp_fault v \<longleftrightarrow> sp_joined w \<and> uses_handle e w)) \<and>
    (\<exists>es v. sp_run running_thread es v \<and> calls_of es = [Call_suspend 1 0, Join_thread] \<and> sp_fault v)"
proof -
  note ok = sp_reach_ok [OF assms]
  note o = sp_okD [OF ok]
  have "\<exists>a c. sp_args w r = Some a \<and> sg_ack a = 0 \<and> waiting_on (sp_calls w c) = Some r"
    if "t_frames w = Handler_entry s (SI_QUEUE r) m # fs" for s r m fs
  proof -
    have "unhandled w r" "t_frames w \<noteq> [Ended]" using that by (simp_all add: unhandled_def)
    then obtain a where "sp_args w r = Some a" "sg_ack a = 0" using requests_okD(6) [OF o(2)] by blast
    then show ?thesis using requests_okD(4) [OF o(2), of r] by auto
  qed
  moreover have "\<exists>es v. sp_run running_thread es v \<and> calls_of es = [Call_suspend 1 0, Join_thread] \<and> sp_fault v"
  proof -
    let ?es = "[Call_suspend 1 0, Exit_routine, Thread, Thread, Sender 1, Sender 1, Join_thread, Sender 1]"
    have "\<exists>v. sp_run running_thread ?es v \<and> sp_fault v" by (simp add: sp_threads sp_exec Let_def)
    then obtain v where "sp_run running_thread ?es v" "sp_fault v" by blast
    then show ?thesis by (intro exI [of _ ?es] exI [of _ v]) (simp add: calls_of_def)
  qed
  ultimately show ?thesis using o(3) event_faults [OF ok] unfolding life_ok_def by metis
qed

text \<open>At the entry of the handler, and at the fault: the state before it is reached, and the step that reads is the caller's.\<close>

lemma requests_never_dangle_witness:
  "(\<exists>u. sp_run running_thread [Call_suspend 1 0, Deliver] u \<and> top_request (t_frames u) = Some 1 \<and>
      (\<exists>a. sp_args u 1 = Some a \<and> sg_ack a = 0)) \<and>
   (\<exists>u v. sp_run running_thread [Call_suspend 1 0, Exit_routine, Thread, Thread, Sender 1, Sender 1, Join_thread] u \<and>
      sp_event (Sender 1) u = Some v \<and> sp_fault v)"
proof
  have "\<exists>u s m fs. sp_run running_thread [Call_suspend 1 0, Deliver] u \<and> t_frames u = Handler_entry s (SI_QUEUE 1) m # fs"
    by (simp add: sp_threads sp_exec Let_def)
  then obtain u s m fs where u: "sp_run running_thread [Call_suspend 1 0, Deliver] u"
    "t_frames u = Handler_entry s (SI_QUEUE 1) m # fs" by blast
  then show "\<exists>u. sp_run running_thread [Call_suspend 1 0, Deliver] u \<and> top_request (t_frames u) = Some 1 \<and>
      (\<exists>a. sp_args u 1 = Some a \<and> sg_ack a = 0)"
    using requests_never_dangle [OF sp_run_reach [OF u(1) running_reach]] by fastforce
next
  let ?es = "[Call_suspend 1 0, Exit_routine, Thread, Thread, Sender 1, Sender 1, Join_thread]"
  have "\<exists>u v. sp_run running_thread ?es u \<and> sp_event (Sender 1) u = Some v \<and> sp_joined u \<and> sp_calls u 1 = Napping 1"
    by (simp add: sp_threads sp_exec Let_def)
  then obtain u v where u: "sp_run running_thread ?es u" "sp_event (Sender 1) u = Some v" "sp_joined u"
    "sp_calls u 1 = Napping 1" by blast
  then show "\<exists>u v. sp_run running_thread ?es u \<and> sp_event (Sender 1) u = Some v \<and> sp_fault v"
    using requests_never_dangle [OF sp_run_reach [OF u(1) running_reach]] by (auto simp: uses_handle_def)
qed

subsection \<open>Two requests at a time\<close>

definition lost :: "nat \<Rightarrow> world \<Rightarrow> bool" where
  "lost c w \<longleftrightarrow> c \<noteq> t_self w \<and> (\<exists>r a. waiting_on (sp_calls w c) = Some r \<and> sp_args w r = Some a \<and> sg_ack a = 0 \<and>
     \<not> unhandled w r)"

lemma lost_same:
  assumes "lost c w" "t_self v = t_self w" "waiting_on (sp_calls v c) = waiting_on (sp_calls w c)"
    "\<And>r. waiting_on (sp_calls w c) = Some r \<Longrightarrow> sp_args v r = sp_args w r"
    "\<And>r. waiting_on (sp_calls w c) = Some r \<Longrightarrow> unhandled v r \<Longrightarrow> unhandled w r"
  shows "lost c v"
  using assms unfolding lost_def by metis

lemma lost_sent:
  assumes "sp_ok w" "lost c w" "idle w d"
  shows "lost c (send_request d s ret f w)"
proof -
  have "waiting_on (sp_calls w d) = None" using assms(3) by (auto simp: idle_def split: sp_call.splits)
  then have d: "d \<noteq> c" using assms(2) by (auto simp: lost_def)
  have "r \<noteq> sp_next w" if "waiting_on (sp_calls w c) = Some r" for r
    using requests_okD(1,3) [OF sp_okD(2) [OF assms(1)]] that by blast
  then show ?thesis using d
    by (intro lost_same [OF assms(2)]) (auto simp: send_request_def send_signal_def Let_def unhandled_def split: if_splits)
qed

lemma lost_step:
  assumes ok: "sp_ok w" and w: "lost c w" and s: "sp_event e w = Some v"
  shows "lost c v \<or> t_frames v = [Ended]"
proof -
  note o = sp_okD [OF ok]
  have act: "sp_act e w = Some v" using s by (simp add: sp_event_def split: if_splits)
  note self = self_kept [OF s]
  note same = lost_same [OF w self]
  obtain r a where r: "waiting_on (sp_calls w c) = Some r" "sp_args w r = Some a" "sg_ack a = 0" "\<not> unhandled w r"
    using w by (auto simp: lost_def)
  have st: "started w" using control_not_started(1) [OF o(1)] waiting_caller(2) [OF ok r(1)] by auto
  have "t_frames v = [Ended]" if "sp_joined w" using ended_stays [OF _ s] o(3) that by (simp add: life_ok_def)
  moreover have "lost c v \<or> t_frames v = [Ended]" if nj: "\<not> sp_joined w"
  proof (cases e)
    case (Call_suspend d ret)
    then have v: "v = spthread_suspend d ret w" "may_call d ret w"
      using act nj by (simp_all add: handle_call_def split: if_splits)
    show ?thesis
    proof (cases "d = t_self w")
      case True
      then show ?thesis using v
        by (intro disjI1 same) (auto simp: spthread_suspend_def spthread_suspend_self_def unhandled_def)
    next
      case False
      then show ?thesis using v lost_sent [OF ok w] by (simp add: spthread_suspend_def may_call_def)
    qed
  next
    case (Call_continue d ret)
    then have v: "v = spthread_continue d ret w" "may_call d ret w"
      using act nj by (simp_all add: handle_call_def split: if_splits)
    show ?thesis
    proof (cases "d = t_self w")
      case True
      then show ?thesis using v
        by (intro disjI1 same) (auto simp: spthread_continue_def spthread_continue_self_def unhandled_def)
    next
      case False
      then show ?thesis using v lost_sent [OF ok w] by (simp add: spthread_continue_def may_call_def)
    qed
  next
    case (Sender d)
    then have d: "sender_step d w = Some v" using act by simp
    show ?thesis
    proof (cases rule: sender_cases [OF ok d])
      case (1 x)
      then show ?thesis by (intro disjI1 same) (auto simp: unhandled_def)
    next
      case (2 r')
      show ?thesis
      proof (cases "d = c")
        case True
        then have "t_frames w = [Ended]" using 2(2,3) r by fastforce
        then show ?thesis by (simp add: 2(1) request_done_def)
      next
        case False
        then have "r' \<noteq> r" using requests_okD(2) [OF o(2) 2(2)] r(1) by blast
        then show ?thesis using False r(1) by (intro disjI1 same) (auto simp: 2(1) request_done_def unhandled_def)
      qed
    next
      case (3 r')
      then show ?thesis using o(3) by (simp add: life_ok_def 3(1))
    qed
  next
    case Deliver
    have oth: "\<forall>c. t_pending w \<noteq> Some (SI_OTHER c)" using o(3) by (simp add: life_ok_def)
    have "deliver w = Some v" using act Deliver by simp
    from control_deliver [OF o(1) this oth st] obtain info f fs f' saved where
      i: "t_pending w = Some info" "t_frames w = f # fs" 
      "v = w\<lparr>t_pending := None, t_frames := Handler_entry SIGPTHD info saved # f' # fs,
             t_mask := sig_block pthd_set (t_mask w)\<rparr>" by metis
    then show ?thesis by (intro disjI1 same) (cases info; auto simp: unhandled_def)+
  next
    case Thread
    then have t: "thread_step (t_frames w) w = Some v" using act by simp
    show ?thesis
    proof (cases rule: thread_effect [OF ok t])
      case 1
      then show ?thesis by (intro disjI1 same) (auto simp: own_step_def unhandled_def)
    next
      case (2 r' m fs a')
      have "unhandled w r'" by (simp add: unhandled_def 2(1))
      then have "r' \<noteq> r" using r(4) by blast
      note h = handler_acks [OF 2(3,4,2,5)]
      show ?thesis using h(1,2,4,10) r(1) \<open>r' \<noteq> r\<close> by (intro disjI1 same) (auto simp: unhandled_def)
    qed
  next
    case Cancel_acts
    then show ?thesis using act
      by (intro disjI1 same) (auto simp: cancel_acts_def spthread_exit_def unhandled_def split: list.splits if_splits)
  qed (use act in \<open>auto intro!: disjI1 lost_same [OF w] simp: handle_call_def create_wakes_def send_signal_def unhandled_def spthread_exit_def
      spthread_disable_interrupts_self_def spthread_enable_interrupts_self_def spthread_cancel_def spthread_join_def
      split: if_splits creator.splits option.splits bool.splits\<close>)
  ultimately show ?thesis by blast
qed

interpretation lost_request: kept_while "\<lambda>_ _. True" "\<lambda>w. lost c w \<or> t_frames w = [Ended]" for c
  by unfold_locales (auto dest: lost_step ended_stays)

text \<open>
  A request that is made while another \<open>SIGPTHD\<close> is still pending is lost, as the signal does not queue: its caller
  returns only if the thread ends.
\<close>

theorem second_request_lost:
  assumes "sp_reach w" "t_pending w \<noteq> None" "c \<noteq> t_self w" "e = Call_suspend c 0 \<or> e = Call_continue c 0"
    "sp_event e w = Some u" "sp_run u es v" "idle v c"
  shows "t_frames v = [Ended]"
proof -
  note ok = sp_reach_ok [OF assms(1)]
  have "lost c u \<or> t_frames u = [Ended]"
  proof (cases "t_frames w = [Ended]")
    case True
    then show ?thesis using ended_stays assms(5) by blast
  next
    case False
    then obtain sig f where u: "u = send_request c sig 0 f w" "\<And>x. waiting_on (f x) = Some x"
      using assms(3-5) live(1) [OF ok]
      by (auto simp: sp_event_def handle_call_def spthread_suspend_def spthread_continue_def split: if_splits)
    have "sp_next w \<noteq> r" if "unhandled w r" for r using requests_okD(5) [OF sp_okD(2) [OF ok] that] by simp
    then show ?thesis using assms(2,3) u(2)
      by (auto simp: lost_def u(1) send_request_def send_signal_def Let_def unhandled_def)
  qed
  then have "lost c v \<or> t_frames v = [Ended]"
    using lost_request.run [OF assms(6)] sp_event_ok [OF ok assms(5)] by blast
  then show ?thesis using assms(7) by (auto simp: lost_def idle_def split: sp_call.splits)
qed

lemma second_request_lost_witness:
  "\<exists>w u v. sp_run running_thread [Call_suspend 2 0] w \<and> sp_event (Call_suspend 1 0) w = Some u \<and>
     sp_run u [Sender 1, Exit_routine, Thread, Thread, Sender 1, Sender 1] v \<and> idle v 1 \<and> t_frames v = [Ended]"
proof -
  let ?es = "[Sender 1, Exit_routine, Thread, Thread, Sender 1, Sender 1]"
  have "\<exists>w u v. sp_run running_thread [Call_suspend 2 0] w \<and> t_pending w \<noteq> None \<and> t_self w = 0 \<and>
      sp_event (Call_suspend 1 0) w = Some u \<and> sp_run u ?es v \<and> idle v 1"
    by (simp add: sp_threads sp_exec Let_def)
  then obtain w u v where r: "sp_run running_thread [Call_suspend 2 0] w" "t_pending w \<noteq> None" "t_self w = 0"
      "sp_event (Call_suspend 1 0) w = Some u" "sp_run u ?es v" "idle v 1" by blast
  then have "t_frames v = [Ended]"
    using second_request_lost [OF sp_run_reach [OF r(1) running_reach] r(2) _ _ r(4-6)] by simp
  then show ?thesis using r by blast
qed

subsection \<open>Cancel and join\<close>

text \<open>
  \<open>cancel_and_join_thrd\<close> of \<open>kernel_fn.c\<close> (and \<open>cancel_and_join_pcb\<close>): the calls that the thread \<open>c\<close> makes, in
  their order.
\<close>

definition cancel_and_join_thrd :: "nat \<Rightarrow> event list" where
  "cancel_and_join_thrd c = [Cancel_thread, Call_continue c 0, Call_suspend c 0, Join_thread]"

text \<open>A thread that is suspended in a handler during its clean-up.\<close>

definition stuck :: "world \<Rightarrow> bool" where
  "stuck w \<longleftrightarrow> st w = SPTHREAD_SUSPENDED_STATE \<and> (\<forall>r. \<not> unhandled w r) \<and> terminating w \<and>
     (\<exists>p m fs. t_frames w = Handler_loop p m # fs \<or>
        (\<exists>s i m'. t_frames w = Handler_entry s i m' # Handler_loop p m # fs))"

lemma stuck_same:
  assumes "stuck w" "t_frames v = t_frames w" "st v = st w" "\<And>r. t_pending v = Some (SI_QUEUE r) \<Longrightarrow> t_pending w = Some (SI_QUEUE r)"
  shows "stuck v"
  using assms by (auto simp: stuck_def unhandled_def terminating_def)

lemma stuck_facts:
  assumes "stuck w"
  shows "\<not> in_routine w" "t_frames w \<noteq> [Ended]" "started w"
  using assms by (auto simp: stuck_def in_routine_def started_def)

lemma stuck_step:
  assumes ok: "sp_ok w" and w: "stuck w" and s: "sp_event e w = Some v" and n: "no_request w e"
  shows "stuck v"
proof -
  note o = sp_okD [OF ok]
  have act: "sp_act e w = Some v" using s by (simp add: sp_event_def split: if_splits)
  note f = stuck_facts [OF w]
  have u: "\<And>r. \<not> unhandled w r" and st: "st w = SPTHREAD_SUSPENDED_STATE" and t: "terminating w"
    using w by (simp_all add: stuck_def)
  have oth: "\<forall>c. t_pending w \<noteq> Some (SI_OTHER c)" using o(3) by (simp add: life_ok_def)
  show ?thesis
  proof (cases e)
    case (Sender c)
    then show ?thesis using act
      by (cases rule: sender_cases [OF ok, of c v]) (auto intro!: stuck_same [OF w] simp: request_done_def)
  next
    case Deliver
    then have "deliver w = Some v" using act by simp
    from control_deliver [OF o(1) this oth f(3)] obtain info g fs g' saved where
      i: "t_pending w = Some info" "t_frames w = g # fs" "wake (t_mask w) g = (g', saved)" "interruptible (g # fs)"
      "v = w\<lparr>t_pending := None, t_frames := Handler_entry SIGPTHD info saved # g' # fs,
             t_mask := sig_block pthd_set (t_mask w)\<rparr>" by metis
    obtain p m where g: "g = Handler_loop p m" using w i(2,4) by (auto simp: stuck_def)
    have "info = SI_TKILL" using oth u i(1) by (cases info) (auto simp: unhandled_def)
    then show ?thesis using st t i g by (auto simp: stuck_def unhandled_def terminating_def split: prod.splits)
  next
    case Thread
    then have th: "thread_step (t_frames w) w = Some v" using act by simp
    obtain p m fs where "t_frames w = Handler_loop p m # fs \<or> (\<exists>s i m'. t_frames w = Handler_entry s i m' # Handler_loop p m # fs)"
      using w by (auto simp: stuck_def)
    then show ?thesis
    proof (elim disjE exE)
      assume l: "t_frames w = Handler_loop p m # fs"
      then obtain x where "t_frames v = Handler_loop x m # fs" "t_pending v = t_pending w" "sp_meta v = sp_meta w"
        using th st by (auto simp: susp_loop_step_def split: susp_phase.splits if_splits)
      then show ?thesis using st u t l by (auto simp: stuck_def unhandled_def terminating_def)
    next
      fix s i m'
      assume l: "t_frames w = Handler_entry s i m' # Handler_loop p m # fs"
      have "s = SIGPTHD" "\<forall>c. i \<noteq> SI_OTHER c" using control_cases(1) [OF o(1) l] by simp_all
      moreover from this have "i = SI_TKILL" using u l by (cases i) (auto simp: unhandled_def)
      ultimately have "v = handler_return m' (Handler_loop p m # fs) w" using th l by (simp add: sigpthd_handler_def)
      then show ?thesis using st u t l by (auto simp: stuck_def unhandled_def terminating_def handler_return_def)
    qed
  next
    case Cancel_acts
    then show ?thesis using act t by (auto simp: cancel_acts_def split: list.splits if_splits)
  qed (use act n f in \<open>auto intro!: stuck_same [OF w] simp: no_request_def handle_call_def may_call_def create_wakes_def send_signal_def
      spthread_cancel_def spthread_join_def split: if_splits creator.splits option.splits bool.splits\<close>)
qed

interpretation stuck_thread: kept_while no_request stuck
  by unfold_locales (auto simp: no_request_kept intro: stuck_step)

text \<open>One schedule of the calls ends with the thread joined, another with the thread stuck.\<close>

lemma cancelled_joined:
  "\<exists>v. sp_run asleep_thread [Cancel_thread, Cancel_acts, Thread, Thread, Call_continue 1 0, Sender 1, Sender 1,
      Call_suspend 1 0, Sender 1, Sender 1, Sender 1, Join_thread] v \<and> sp_joined v"
  by (simp add: sp_threads sp_exec Let_def)

lemma cancelled_stuck:
  "\<exists>v. sp_run asleep_thread [Cancel_thread, Cancel_acts, Call_continue 1 0, Deliver, Thread,
      Sender 1, Call_suspend 1 0, Deliver, Thread, Sender 1, Sender 1] v \<and> stuck v \<and> idle v 1"
  by (simp add: sp_threads sp_exec Let_def stuck_def unhandled_def)

text \<open>
  C40 (liveness). The calls of \<open>cancel_and_join_thrd\<close> on a suspended thread: the join can succeed; but the two requests can also
  arrive between the start of the clean-up and the instruction of \<open>mark_self_terminated\<close> that blocks their signal. Then
  the thread is suspended inside its clean-up, both calls return 0, and the join waits for ever.
\<close>

theorem cancel_and_join_can_hang:
  shows "(\<exists>es v. sp_run asleep_thread es v \<and> calls_of es = cancel_and_join_thrd 1 \<and> sp_joined v) \<and>
    (\<exists>es v. sp_run asleep_thread es v \<and> calls_of es = butlast (cancel_and_join_thrd 1) \<and> idle v 1 \<and>
       (\<forall>es' u. sp_run v es' u \<longrightarrow> (\<forall>e\<in>set es'. no_request v e) \<longrightarrow> sp_event Join_thread u = None))"
proof
  obtain v where v: "sp_run asleep_thread [Cancel_thread, Cancel_acts, Thread, Thread, Call_continue 1 0, Sender 1, Sender 1,
      Call_suspend 1 0, Sender 1, Sender 1, Sender 1, Join_thread] v" "sp_joined v" using cancelled_joined by blast
  show "\<exists>es v. sp_run asleep_thread es v \<and> calls_of es = cancel_and_join_thrd 1 \<and> sp_joined v"
    by (rule exI, rule exI, rule conjI, rule v(1)) (simp add: v(2) calls_of_def cancel_and_join_thrd_def)
next
  let ?es = "[Cancel_thread, Cancel_acts, Call_continue 1 0, Deliver, Thread,
      Sender 1, Call_suspend 1 0, Deliver, Thread, Sender 1, Sender 1]"
  obtain v where v: "sp_run asleep_thread ?es v" "stuck v" "idle v 1" using cancelled_stuck by blast
  have ok: "sp_ok v" by (rule sp_run_ok [OF v(1) sp_reach_ok [OF asleep_reach]])
  have "sp_event Join_thread u = None" if "sp_run v es' u" "\<forall>e\<in>set es'. no_request v e" for es' u
  proof -
    have "t_frames u \<noteq> [Ended]" by (rule stuck_facts(2) [OF stuck_thread.run [OF that(1) ok v(2) that(2)]])
    then show ?thesis using live(1) [OF sp_run_ok [OF that(1) ok]] by (simp add: sp_event_def spthread_join_def)
  qed
  then show "\<exists>es v. sp_run asleep_thread es v \<and> calls_of es = butlast (cancel_and_join_thrd 1) \<and> idle v 1 \<and>
       (\<forall>es' u. sp_run v es' u \<longrightarrow> (\<forall>e\<in>set es'. no_request v e) \<longrightarrow> sp_event Join_thread u = None)"
    using v(1,3) by (intro exI [of _ ?es] exI [of _ v]) (simp add: calls_of_def cancel_and_join_thrd_def)
qed

lemma cancel_and_join_can_hang_witness:
  "\<exists>es v. sp_run asleep_thread es v \<and> calls_of es = [Cancel_thread, Call_continue 1 0, Call_suspend 1 0] \<and>
     sp_event Join_thread v = None"
proof -
  obtain es v where "sp_run asleep_thread es v" "calls_of es = butlast (cancel_and_join_thrd 1)"
    "\<And>es' u. sp_run v es' u \<Longrightarrow> \<forall>e\<in>set es'. no_request v e \<Longrightarrow> sp_event Join_thread u = None"
    using cancel_and_join_can_hang by blast
  moreover from this(3) [of "[]" v] have "sp_event Join_thread v = None" by simp
  ultimately show ?thesis by (auto simp: cancel_and_join_thrd_def)
qed

end
