(* ===== verification/ReadFile.thy ===== *)
theory ReadFile
  imports FileProps DirProps TableInv
begin

text \<open>
  Opening, reading and closing a file that exists: the state afterwards is the one before, but for the
  slots of the two tables that were used.
\<close>

subsection \<open>The host\<close>

text \<open>All hosts on which every call succeeds read the same.\<close>

lemma good_hosts_read:
  assumes "good_host h" "good_host h'"
  shows "read_block h = read_block h'"
  using assms by (intro ext) (simp add: read_block_def)

lemma good_hosts_same:
  assumes "good_host h" "good_host h'"
  shows "block_entries h = block_entries h'" "find_chain h = find_chain h'" "file_bytes h = file_bytes h'"
    "cwd_dir h = cwd_dir h'" "dir_map h = dir_map h'"
proof -
  note r = good_hosts_read [OF assms]
  show b: "block_entries h = block_entries h'" by (intro ext) (simp add: block_entries_def r)
  show f: "find_chain h = find_chain h'"
  proof (intro ext)
    fix s name bs show "find_chain h s name bs = find_chain h' s name bs"
      by (induction bs) (simp_all add: b split: option.split)
  qed
  show "file_bytes h = file_bytes h'" by (intro ext) (simp add: file_bytes_def r)
  show "dir_map h = dir_map h'" by (intro ext) (simp add: dir_map_def f)
  show "cwd_dir h = cwd_dir h'" by (intro ext) (simp add: cwd_dir_def dir_ok_def chain_entries_def b)
qed

subsection \<open>Pseudo-inodes\<close>

lemma inode_parts:
  assumes "0 \<le> i" "i < 2 ^ 16"
  shows "inode_block (pseudo_inode b i) = b" "inode_index (pseudo_inode b i) = i"
proof -
  have "take_bit 16 i = i" using assms by (simp add: take_bit_int_eq_self)
  then have bit_i: "bit i n \<Longrightarrow> n < 16" for n by (metis bit_take_bit_iff)
  show "inode_block (pseudo_inode b i) = b"
    unfolding inode_block_def pseudo_inode_def
    by (rule bit_word_eqI) (auto simp: bit_simps dest: bit_i)
  have m: "(0xFFFF :: 32 word) = mask 16" by (simp add: mask_eq_exp_minus_1)
  have "pseudo_inode b i AND mask 16 = word_of_int i"
    unfolding pseudo_inode_def
    by (rule bit_word_eqI) (auto simp: bit_simps dest: bit_i)
  then have "inode_index (pseudo_inode b i) = uint (word_of_int i :: 32 word)"
    by (simp add: inode_index_def m)
  then show "inode_index (pseudo_inode b i) = i"
    using assms by (simp add: uint_word_of_int_eq take_bit_int_eq_self)
qed

subsection \<open>Writing an entry that is there already\<close>

lemma pwrite_pread_same:
  assumes "off + n \<le> length img"
  shows "pwrite img off (pread img off n) = img"
proof -
  have "take n (drop off img) @ drop (off + n) img = drop off img"
    by (metis append_take_drop_id drop_drop add.commute)
  then show ?thesis using assms by (simp add: pwrite_def pread_def)
qed

lemma write_same_entry:
  assumes "good_host h" "geom s" "dir_block_ok s b" "i < entries_per_block s"
  shows "write_dirent h b (int i) (block_entries h s b ! i) s = (PennFatErr_OK, s)"
proof -
  have ib: "unat b < image_blocks s" "\<not> chain_end b" using assms(3) by (simp_all add: dir_block_ok_def)
  let ?off = "unat b * g_block_size s"
  let ?blk = "pread (g_img s) ?off (g_block_size s)"
  note r = read_block_eq [OF assms(1,2) ib(1)]
  have inside: "?off + g_block_size s \<le> length (g_img s)" using block_inside [OF assms(2) ib(1)] by (simp add: add.commute)
  have len: "length ?blk = g_block_size s" using inside by simp
  have "64 * i + 64 \<le> g_block_size s" using assms(4) entries_per_block_double(1) [OF assms(2)] by linarith
  then have e: "pwrite ?blk (64 * i) (enc_dirent (block_entries h s b ! i)) = ?blk"
    using assms(4) len by (simp add: block_entries_def r dir_entries_def enc_dec_dirent pwrite_pread_same)
  have "pwrite (g_img s) ?off ?blk = g_img s" using inside by (rule pwrite_pread_same)
  then show ?thesis
    using assms(1,4) ib(2) e r write_block_eq [OF assms(1,2)] by (simp add: write_dirent_def chain_end_def)
qed

subsection \<open>A file that exists\<close>

text \<open>
  \<open>file_at s p (e, b, i) xs\<close>: the current directory has a readable regular file \<open>p\<close> with entry \<open>e\<close> in slot \<open>i\<close> of
  block \<open>b\<close> and the blocks \<open>xs\<close>, and no descriptor refers to it. \<open>file_data\<close> are its bytes.
\<close>

definition file_at :: "fs \<Rightarrow> string \<Rightarrow> found_entry \<Rightarrow> 16 word list \<Rightarrow> bool" where
  "file_at s p f xs \<longleftrightarrow> (case f of (e, b, i) \<Rightarrow>
     (\<exists>bs. cwd_dir (host_at 0) s bs \<and> plain_name p \<and> find_chain (host_at 0) s p bs = Some (e, b, i) \<and>
       de_type e = 1 \<and> CAN_READ (de_perm e) \<and> \<not> open_inode s (pseudo_inode b (int i)) \<and>
       file_chain s (de_first_block e) xs \<and> unat (de_size e) \<le> length xs * g_block_size s))"

definition file_data :: "fs \<Rightarrow> found_entry \<Rightarrow> 16 word list \<Rightarrow> string" where
  "file_data s f xs = take (unat (de_size (fst f))) (file_bytes (host_at 0) s xs)"

text \<open>The tables with the slots that opening the file takes.\<close>

definition opened_at :: "fs \<Rightarrow> found_entry \<Rightarrow> nat \<Rightarrow> nat \<Rightarrow> 32 word \<Rightarrow> fs" where
  "opened_at s f j k off = (case f of (e, b, i) \<Rightarrow>
     set_fd k \<lparr>fd_in_use = True, fd_sysfile_index = j, fd_mode = K_O_RDONLY, fd_offset = off\<rparr>
       (set_sysfile j \<lparr>sf_ref_count = 1, sf_in_use = True, sf_first_block = de_first_block e, sf_size = de_size e,
          sf_mtime = de_mtime e, sf_dir_index = pseudo_inode b (int i)\<rparr> s))"

definition free_slots :: "fs \<Rightarrow> nat \<Rightarrow> nat \<Rightarrow> bool" where
  "free_slots s j k \<longleftrightarrow> find_idx (\<lambda>f. \<not> sf_in_use f) (g_sysfile_table s) = Some j \<and>
     find_idx (\<lambda>f. \<not> fd_in_use f) (g_fd_table s) = Some k \<and>
     length (g_fd_table s) = MAX_FD \<and> length (g_sysfile_table s) = MAX_SYSTEM_FILES"

lemma free_slotsD:
  assumes "free_slots s j k"
  shows "j < MAX_SYSTEM_FILES" "k < MAX_FD" "\<not> sf_in_use (g_sysfile_table s ! j)" "\<not> fd_in_use (g_fd_table s ! k)"
  using assms by (auto simp: free_slots_def dest: find_idx_SomeD)

lemma open_existing:
  assumes "good_host h" "file_at s p f xs" "free_slots s j k"
  shows "k_open h (Some p) K_O_RDONLY s = Some (int k, opened_at s f j k 0)"
proof -
  obtain e b i where f: "f = (e, b, i)" by (cases f)
  obtain bs where c: "cwd_dir h s bs" "plain_name p" "find_chain h s p bs = Some (e, b, i)"
    "de_type e = 1" "CAN_READ (de_perm e)" "\<not> open_inode s (pseudo_inode b (int i))"
    using assms(2) good_hosts_same [OF assms(1) good_host_at [of 0]] by (auto simp: file_at_def f)
  note d = cwd_dirD [OF c(1)]
  have res: "resolve_path h s p = Some (PennFatErr_OK, entry_resolved (g_cwd_block s) (e, b, i))"
    using resolve_plain_found [OF assms(1) d(2) c(2) d(4) c(3)] c(4) by simp
  have mode: "is_valid_mode K_O_RDONLY" "\<not> HAS_WRITE K_O_RDONLY" "\<not> HAS_APPEND K_O_RDONLY" "\<not> REQ_WRITE_PERM K_O_RDONLY"
    by (simp_all add: mode_defs)
  have "find_idx (\<lambda>f. sf_in_use f \<and> sf_dir_index f = pseudo_inode b (int i)) (g_sysfile_table s) = None"
    using c(6) by (auto simp: open_inode_def find_idx_None)
  then have none: "find_and_increment_sysfile (pseudo_inode b (int i)) s = (None, s)"
    by (simp add: find_and_increment_sysfile_def)
  have "p \<noteq> []" using c(2) plain_nameD(1) by blast
  then show ?thesis
    using d(1) mode res c(4,5) none assms(3)
    by (simp add: k_open_def entry_resolved_def k_open_existing_def enter_sysfile_def
        create_sysfile_entry_from_resolved_def free_slots_def assign_fd_def opened_at_def f set_fd_def set_sysfile_def)
qed

text \<open>Closing it writes the entry of the directory back as it is there.\<close>

definition closed_at :: "fs \<Rightarrow> nat \<Rightarrow> nat \<Rightarrow> 32 word \<Rightarrow> fs" where
  "closed_at s j k off = set_sysfile j zero_sysfile
     (set_fd k \<lparr>fd_in_use = False, fd_sysfile_index = j, fd_mode = K_O_RDONLY, fd_offset = off\<rparr> s)"

lemma entries_per_block_tables [simp]:
  "entries_per_block (s\<lparr>g_fd_table := x\<rparr>) = entries_per_block s"
  "entries_per_block (s\<lparr>g_sysfile_table := y\<rparr>) = entries_per_block s"
  by (simp_all add: entries_per_block_def)

lemma file_atD:
  assumes "file_at s p (e, b, i) xs" "good_host h"
  shows "geom s" "g_mounted s" "dir_block_ok s b" "i < entries_per_block s" "block_entries h s b ! i = e" "int i < 2 ^ 16"
    "file_chain s (de_first_block e) xs" "unat (de_size e) \<le> length xs * g_block_size s"
proof -
  obtain bs where c: "cwd_dir (host_at 0) s bs" "find_chain (host_at 0) s p bs = Some (e, b, i)"
    "file_chain s (de_first_block e) xs" "unat (de_size e) \<le> length xs * g_block_size s"
    using assms(1) by (auto simp: file_at_def)
  note d = cwd_dirD [OF c(1)] and pos = find_chain_position [OF c(2)]
  show "geom s" "g_mounted s" by (rule d)+
  show "dir_block_ok s b" using d(4) pos(1) dir_chain_block by (auto simp: dir_ok_def)
  show i: "i < entries_per_block s" by (rule pos)
  show "block_entries h s b ! i = e" using pos(3) good_hosts_same(1) [OF assms(2) good_host_at [of 0]] by simp
  show "int i < 2 ^ 16" using i entries_per_block_double(3) [OF d(2)] by simp
  show "file_chain s (de_first_block e) xs" "unat (de_size e) \<le> length xs * g_block_size s" by (rule c)+
qed

lemma writeback_same:
  assumes "good_host h" "geom s" "dir_block_ok s b" "i < entries_per_block s" "block_entries h s b ! i = e"
    "sf_size f = de_size e" "sf_mtime f = de_mtime e" "sf_first_block f = de_first_block e" "sf_dir_index f = pseudo_inode b (int i)"
    "int i < 2 ^ 16"
  shows "writeback_dirent h f s = s"
proof -
  have "inode_block (sf_dir_index f) = b" "inode_index (sf_dir_index f) = int i"
    using inode_parts [of "int i" b] assms(9,10) by simp_all
  then show ?thesis
    using assms(4-8) read_dirent_eq [OF assms(1-3)] write_same_entry [OF assms(1-4)]
    by (simp add: writeback_dirent_def Let_def)
qed

lemma close_opened:
  assumes "good_host h" "file_at s p f xs" "free_slots s j k"
  shows "k_close h (int k) (opened_at s f j k off) = (err_code PennFatErr_SUCCESS, closed_at s j k off)"
proof -
  obtain e b i where f: "f = (e, b, i)" by (cases f)
  note d = file_atD [OF assms(2) [unfolded f] assms(1)]
  note sl = free_slotsD [OF assms(3)]
  have len: "k < length (g_fd_table s)" "j < length (g_sysfile_table s)" using assms(3) sl by (simp_all add: free_slots_def)
  let ?s1 = "set_fd k \<lparr>fd_in_use = False, fd_sysfile_index = j, fd_mode = K_O_RDONLY, fd_offset = off\<rparr> (opened_at s f j k off)"
  let ?f1 = "\<lparr>sf_ref_count = 0, sf_in_use = True, sf_first_block = de_first_block e, sf_size = de_size e,
          sf_mtime = de_mtime e, sf_dir_index = pseudo_inode b (int i)\<rparr>"
  let ?s2 = "set_sysfile j ?f1 ?s1"
  have "writeback_dirent h ?f1 ?s2 = ?s2"
    by (rule writeback_same [OF assms(1)]) (use d in \<open>simp_all add: opened_at_def f set_fd_def set_sysfile_def dir_block_ok_def\<close>)
  then show ?thesis
    using d(2) sl(1,2) len
    by (simp add: k_close_def bad_fd_def opened_at_def f closed_at_def set_fd_def set_sysfile_def release_sysfile_entry_def)
qed

lemma read_opened:
  assumes "good_host h" "file_at s p f xs" "free_slots s j k" "0 \<le> n" "unat off \<le> unat (de_size (fst f))"
  defines "m \<equiv> min (nat n) (unat (de_size (fst f)) - unat off)"
  shows "k_read h (int k) n (opened_at s f j k off) =
    Some (int m, take m (drop (unat off) (file_data s f xs)), opened_at s f j k (off + of_nat m))"
proof -
  obtain e b i where f: "f = (e, b, i)" by (cases f)
  note d = file_atD [OF assms(2) [unfolded f] assms(1)]
  note sl = free_slotsD [OF assms(3)]
  have len: "k < length (g_fd_table s)" "j < length (g_sysfile_table s)" "length (g_fd_table s) = MAX_FD"
    "length (g_sysfile_table s) = MAX_SYSTEM_FILES" using assms(3) sl by (simp_all add: free_slots_def)
  let ?s = "opened_at s f j k off"
  have o: "open_file ?s k xs" "\<not> HAS_WRITE (fd_mode (g_fd_table ?s ! k))" "sf_size (fd_file ?s k) = de_size e"
    "fd_offset (g_fd_table ?s ! k) = off"
    using d sl len by (simp_all add: open_file_def opened_at_def f set_fd_def set_sysfile_def fd_file_def file_chain_def mode_defs)
  have "file_bytes h ?s xs = file_bytes (host_at 0) s xs"
    using good_hosts_same(3) [OF assms(1) good_host_at [of 0]]
    by (simp add: opened_at_def f set_fd_def set_sysfile_def file_bytes_def)
  moreover have "pread (file_bytes (host_at 0) s xs) (unat off) m = take m (drop (unat off) (file_data s f xs))"
    using assms(5) by (simp add: pread_def file_data_def m_def f drop_take)
  moreover have "set_fd k ((g_fd_table ?s ! k)\<lparr>fd_offset := off + of_nat m\<rparr>) ?s = opened_at s f j k (off + of_nat m)"
    using len by (simp add: opened_at_def f set_fd_def set_sysfile_def)
  moreover have me: "m = min (nat n) (unat (de_size e) - unat off)" by (simp add: m_def f)
  ultimately show ?thesis
    using read_open_file [OF assms(1) o(1,2) assms(4), unfolded o(3,4), folded me] by (simp only:)
qed

end
