(* ===== verification/CatLoops.thy ===== *)
theory CatLoops
  imports ReadFile UserShell PennFatShell
begin

text \<open>
  The copying loops of the two command lines, \<open>cat\<close> of the user shell and of the standalone program, as two instances of
  one contract: a loop that reads a chunk, stops at an empty one, and writes it out.
\<close>

subsection \<open>The contract\<close>

text \<open>
  \<open>get\<close> reads a chunk, \<open>put\<close> writes it, \<open>loop\<close> is the loop around them. In a state that is \<open>good\<close> the bytes
  \<open>left\<close> come in chunks, and \<open>put\<close> appends to what has been \<open>shown\<close>; \<open>rest\<close> is what neither changes.
\<close>

locale byte_copy =
  fixes get :: "'s \<Rightarrow> ((int \<times> string) \<times> 's) option"
    and put :: "string \<Rightarrow> 's \<Rightarrow> 's"
    and loop :: "'s \<Rightarrow> 's option"
    and good :: "'s \<Rightarrow> bool"
    and left :: "'s \<Rightarrow> string"
    and shown :: "'s \<Rightarrow> string"
    and rest :: "'s \<Rightarrow> 'r"
  assumes get_good: "good u \<Longrightarrow> \<exists>buf u1. get u = Some ((int (length buf), buf), u1) \<and> good u1 \<and> left u = buf @ left u1 \<and>
      (buf = [] \<longrightarrow> left u = []) \<and> shown u1 = shown u \<and> rest u1 = rest u"
    and put_good: "good u \<Longrightarrow> good (put buf u)" "left (put buf u) = left u"
      "good u \<Longrightarrow> shown (put buf u) = shown u @ buf" "rest (put buf u) = rest u"
    and loop_stop: "good u \<Longrightarrow> get u = Some ((0, []), u1) \<Longrightarrow> loop u = Some u1"
    and loop_step: "good u \<Longrightarrow> get u = Some ((int (length buf), buf), u1) \<Longrightarrow> good u1 \<Longrightarrow> buf \<noteq> [] \<Longrightarrow> loop u = loop (put buf u1)"
begin

text \<open>The loop returns and has shown all the bytes that were left.\<close>

lemma shows_all:
  "good u \<Longrightarrow> \<exists>v. loop u = Some v \<and> good v \<and> left v = [] \<and> shown v = shown u @ left u \<and> rest v = rest u"
proof (induction "length (left u)" arbitrary: u rule: less_induct)
  case less
  obtain buf u1 where g: "get u = Some ((int (length buf), buf), u1)" "good u1" "left u = buf @ left u1"
    "buf = [] \<longrightarrow> left u = []" "shown u1 = shown u" "rest u1 = rest u" using get_good [OF less.prems] by blast
  show ?case
  proof (cases "buf = []")
    case True
    then show ?thesis using g loop_stop [OF less.prems, of u1] by simp
  next
    case False
    let ?v = "put buf u1"
    have v: "good ?v" "left ?v = left u1" "shown ?v = shown u @ buf" "rest ?v = rest u"
      using put_good [where u = u1 and buf = buf] g(2,5,6) by simp_all
    then obtain w where "loop ?v = Some w" "good w" "left w = []" "shown w = shown ?v @ left ?v" "rest w = rest ?v"
      using less.hyps [of ?v] g(3) False by auto
    then show ?thesis using loop_step [OF less.prems g(1,2) False] v g(3) by auto
  qed
qed

end

subsection \<open>The two loops\<close>

text \<open>The bytes among the outputs of the terminal.\<close>

fun texts :: "terminal_output list \<Rightarrow> string" where
  "texts [] = []"
| "texts (Text t # ts) = t @ texts ts"
| "texts (_ # ts) = texts ts"

fun words_shown :: "pf_line list \<Rightarrow> string" where
  "words_shown [] = []"
| "words_shown (Words t # ts) = t @ words_shown ts"
| "words_shown (_ # ts) = words_shown ts"

lemma texts_append [simp]: "texts (xs @ ys) = texts xs @ texts ys"
  by (induction xs rule: texts.induct) auto

lemma words_shown_append [simp]: "words_shown (xs @ ys) = words_shown xs @ words_shown ys"
  by (induction xs rule: words_shown.induct) auto

text \<open>A source: the file system of the state is \<open>s\<close> with the file \<open>f\<close> open at some offset.\<close>

definition reading :: "fs \<Rightarrow> string \<Rightarrow> found_entry \<Rightarrow> 16 word list \<Rightarrow> nat \<Rightarrow> nat \<Rightarrow> fs \<Rightarrow> bool" where
  "reading s p f xs j k s' \<longleftrightarrow> file_at s p f xs \<and> free_slots s j k \<and>
     (\<exists>off. s' = opened_at s f j k off \<and> unat off \<le> unat (de_size (fst f)))"

definition bytes_left :: "fs \<Rightarrow> found_entry \<Rightarrow> 16 word list \<Rightarrow> nat \<Rightarrow> fs \<Rightarrow> string" where
  "bytes_left s f xs k s' = drop (unat (fd_offset (g_fd_table s' ! k))) (file_data s f xs)"

lemma opened_offset:
  "free_slots s j k \<Longrightarrow> fd_offset (g_fd_table (opened_at s f j k off) ! k) = off"
  using free_slotsD(2) [of s j k] by (auto simp: opened_at_def set_fd_def set_sysfile_def free_slots_def split: prod.splits)

lemma length_file_data:
  assumes "file_at s p f xs"
  shows "length (file_data s f xs) = unat (de_size (fst f))"
proof -
  obtain e b i where f: "f = (e, b, i)" by (cases f)
  note d = file_atD [OF assms [unfolded f] good_host_at [of 0]]
  show ?thesis using length_file_bytes [OF good_host_at d(1,7)] d(8) by (simp add: file_data_def f)
qed

lemma reading_chunk:
  assumes "good_host h" "reading s p f xs j k s'" "0 < n"
  shows "\<exists>buf s1. k_read h (int k) n s' = Some (int (length buf), buf, s1) \<and> reading s p f xs j k s1 \<and>
    bytes_left s f xs k s' = buf @ bytes_left s f xs k s1 \<and> (buf = [] \<longrightarrow> bytes_left s f xs k s' = []) \<and> length buf \<le> nat n"
proof -
  obtain off where r: "file_at s p f xs" "free_slots s j k" "s' = opened_at s f j k off" "unat off \<le> unat (de_size (fst f))"
    using assms(2) by (auto simp: reading_def)
  let ?m = "min (nat n) (unat (de_size (fst f)) - unat off)"
  let ?buf = "take ?m (drop (unat off) (file_data s f xs))"
  have len: "length ?buf = ?m" using length_file_data [OF r(1)] by simp
  have "unat (de_size (fst f)) < 2 ^ 32" using unsigned_less [of "de_size (fst f)"] by simp
  then have "unat off + ?m < 2 ^ 32" using r(4) by simp
  then have off: "unat (off + of_nat ?m) = unat off + ?m" by (rule unat_add_small)
  have "k_read h (int k) n s' = Some (int ?m, ?buf, opened_at s f j k (off + of_nat ?m))"
    using read_opened [OF assms(1) r(1,2) _ r(4), of n] assms(3) r(3) by simp
  moreover have "reading s p f xs j k (opened_at s f j k (off + of_nat ?m))" using r off by (auto simp: reading_def)
  moreover have "bytes_left s f xs k s' = ?buf @ bytes_left s f xs k (opened_at s f j k (off + of_nat ?m))"
    unfolding bytes_left_def r(3) opened_offset [OF r(2)] off
    using append_take_drop_id [of ?m "drop (unat off) (file_data s f xs)", symmetric]
    by (simp only: drop_drop add.commute [of ?m])
  moreover have "?buf = [] \<longrightarrow> bytes_left s f xs k s' = []"
    using assms(3) length_file_data [OF r(1)] by (auto simp: bytes_left_def r(3) opened_offset [OF r(2)] min_def split: if_splits)
  moreover have "length ?buf \<le> nat n" using len by simp
  ultimately show ?thesis using len by metis
qed

text \<open>\<open>cat\<close> of the user shell.\<close>

definition user_reading :: "fs \<Rightarrow> string \<Rightarrow> found_entry \<Rightarrow> 16 word list \<Rightarrow> nat \<Rightarrow> nat \<Rightarrow> os \<Rightarrow> bool" where
  "user_reading s p f xs j k u \<longleftrightarrow> (\<forall>n. good_host (os_host u n)) \<and> reading s p f xs j k (os_fs u)"

lemma user_chunk:
  assumes "user_reading s p f xs j k u" "0 < n"
  shows "\<exists>buf s1. s_read (int k) n u = Some ((int (length buf), buf), u\<lparr>os_fs := s1, os_calls := os_calls u + 1\<rparr>) \<and>
    reading s p f xs j k s1 \<and> bytes_left s f xs k (os_fs u) = buf @ bytes_left s f xs k s1 \<and>
    (buf = [] \<longrightarrow> bytes_left s f xs k (os_fs u) = [])"
  using reading_chunk [of "os_host u (os_calls u)" s p f xs j k "os_fs u" n] assms
  by (auto simp: user_reading_def s_read_def fs_call_def)

interpretation user_cat: byte_copy "s_read (int k) CAT_BUFSZ" "\<lambda>buf. print_out (Text buf)" "cat_loop True (int k)"
  "user_reading s p f xs j k" "\<lambda>u. bytes_left s f xs k (os_fs u)" "\<lambda>u. texts (os_out u)"
  "\<lambda>u. (os_err u, os_kernel u, os_host u)" for s p f xs j k
proof
  have pos: "0 < CAT_BUFSZ" by (simp add: CAT_BUFSZ_def)
  show "\<exists>buf u1. s_read (int k) CAT_BUFSZ u = Some ((int (length buf), buf), u1) \<and> user_reading s p f xs j k u1 \<and>
      bytes_left s f xs k (os_fs u) = buf @ bytes_left s f xs k (os_fs u1) \<and>
      (buf = [] \<longrightarrow> bytes_left s f xs k (os_fs u) = []) \<and> texts (os_out u1) = texts (os_out u) \<and>
      (os_err u1, os_kernel u1, os_host u1) = (os_err u, os_kernel u, os_host u)"
    if g: "user_reading s p f xs j k u" for u
  proof -
    obtain buf s1 where r: "s_read (int k) CAT_BUFSZ u = Some ((int (length buf), buf), u\<lparr>os_fs := s1, os_calls := os_calls u + 1\<rparr>)"
      "reading s p f xs j k s1" "bytes_left s f xs k (os_fs u) = buf @ bytes_left s f xs k s1"
      "buf = [] \<longrightarrow> bytes_left s f xs k (os_fs u) = []" using user_chunk [OF g pos] by blast
    then show ?thesis using g
      by (intro exI [of _ buf] exI [of _ "u\<lparr>os_fs := s1, os_calls := os_calls u + 1\<rparr>"]) (simp add: user_reading_def)
  qed
  show "cat_loop True (int k) u = Some u1" if "s_read (int k) CAT_BUFSZ u = Some ((0, []), u1)" for u u1
    using that by (subst cat_loop.simps) simp
  show "cat_loop True (int k) u = cat_loop True (int k) (print_out (Text buf) u1)"
    if "s_read (int k) CAT_BUFSZ u = Some ((int (length buf), buf), u1)" "buf \<noteq> []" for u u1 buf
    using that by (subst cat_loop.simps) simp
qed (simp_all add: user_reading_def print_out_def)

text \<open>\<open>cat\<close> of the standalone program; \<open>fwrite\<close> accepts a whole buffer.\<close>

definition pf_reading :: "fs \<Rightarrow> string \<Rightarrow> found_entry \<Rightarrow> 16 word list \<Rightarrow> nat \<Rightarrow> nat \<Rightarrow> pennfat \<Rightarrow> bool" where
  "pf_reading s p f xs j k u \<longleftrightarrow> (\<forall>n. good_host (pf_host u n)) \<and> (\<forall>n. BUFSIZE \<le> pf_fwrite u n) \<and> reading s p f xs j k (pf_fs u)"

lemma pf_chunk:
  assumes "pf_reading s p f xs j k u"
  shows "\<exists>buf s1. pf_read (int k) u = Some ((int (length buf), buf), u\<lparr>pf_fs := s1, pf_calls := pf_calls u + 1\<rparr>) \<and>
    reading s p f xs j k s1 \<and> bytes_left s f xs k (pf_fs u) = buf @ bytes_left s f xs k s1 \<and>
    (buf = [] \<longrightarrow> bytes_left s f xs k (pf_fs u) = []) \<and> length buf \<le> BUFSIZE"
  using reading_chunk [of "pf_host u (pf_calls u)" s p f xs j k "pf_fs u" "int BUFSIZE"] assms
  by (auto simp: pf_reading_def pf_read_def pf_call_def BUFSIZE_def)

definition pf_show :: "string \<Rightarrow> pennfat \<Rightarrow> pennfat" where
  "pf_show buf p = pf_print (Words buf) (snd (pf_put buf p))"

text \<open>What the program meets on the outside, and its messages.\<close>

definition pf_world where
  "pf_world u = (pf_err u, pf_stdin u, pf_host u, pf_fwrite u, pf_ferror u, pf_fopen_w u, pf_mem u)"

lemma pf_world_simps [simp]:
  "pf_world (u\<lparr>pf_fs := s\<rparr>) = pf_world u" "pf_world (u\<lparr>pf_calls := n\<rparr>) = pf_world u"
  "pf_world (u\<lparr>pf_out := x\<rparr>) = pf_world u" "pf_world (u\<lparr>pf_fwrites := n\<rparr>) = pf_world u"
  "pf_world (u\<lparr>pf_lines := n\<rparr>) = pf_world u"
  by (simp_all add: pf_world_def)

interpretation pf_cat_file: byte_copy "pf_read (int k)" pf_show "cat_copy name (int k) (-1)"
  "pf_reading s p f xs j k" "\<lambda>u. bytes_left s f xs k (pf_fs u)" "\<lambda>u. words_shown (pf_out u)"
  pf_world for name s p f xs j k
proof
  show "\<exists>buf u1. pf_read (int k) u = Some ((int (length buf), buf), u1) \<and> pf_reading s p f xs j k u1 \<and>
      bytes_left s f xs k (pf_fs u) = buf @ bytes_left s f xs k (pf_fs u1) \<and>
      (buf = [] \<longrightarrow> bytes_left s f xs k (pf_fs u) = []) \<and> words_shown (pf_out u1) = words_shown (pf_out u) \<and>
      pf_world u1 = pf_world u"
    if g: "pf_reading s p f xs j k u" for u
  proof -
    obtain buf s1 where r: "pf_read (int k) u = Some ((int (length buf), buf), u\<lparr>pf_fs := s1, pf_calls := pf_calls u + 1\<rparr>)"
      "reading s p f xs j k s1" "bytes_left s f xs k (pf_fs u) = buf @ bytes_left s f xs k s1"
      "buf = [] \<longrightarrow> bytes_left s f xs k (pf_fs u) = []" using pf_chunk [OF g] by blast
    then show ?thesis using g
      by (intro exI [of _ buf] exI [of _ "u\<lparr>pf_fs := s1, pf_calls := pf_calls u + 1\<rparr>"]) (simp add: pf_reading_def)
  qed
  show "cat_copy name (int k) (-1) u = Some u1" if "pf_read (int k) u = Some ((0, []), u1)" for u u1
    using that by (subst cat_copy.simps) simp
  show "cat_copy name (int k) (-1) u = cat_copy name (int k) (-1) (pf_show buf u1)"
    if g: "pf_reading s p f xs j k u" and r: "pf_read (int k) u = Some ((int (length buf), buf), u1)"
      and g1: "pf_reading s p f xs j k u1" and n: "buf \<noteq> []" for u u1 buf
  proof -
    have "length buf \<le> BUFSIZE" using pf_chunk [OF g] r by auto
    then have "length buf \<le> pf_fwrite u1 (pf_fwrites u1)" using g1 by (meson le_trans pf_reading_def)
    then show ?thesis using r n
      by (subst cat_copy.simps) (simp add: write_buffer_def pf_put_def pf_show_def)
  qed
qed (simp_all add: pf_reading_def pf_show_def pf_put_def pf_print_def)

subsection \<open>The commands\<close>

text \<open>The file system after the file has been read and closed: two table slots that were not in use hold other values.\<close>

lemma opened_reading: "file_at s p f xs \<Longrightarrow> free_slots s j k \<Longrightarrow> reading s p f xs j k (opened_at s f j k 0)"
  by (auto simp: reading_def)

lemma user_cat_file:
  assumes "\<forall>n. good_host (os_host u n)" "file_at (os_fs u) p f xs" "free_slots (os_fs u) j k"
  shows "\<exists>v off. cat [c, p] u = Some v \<and> texts (os_out v) = texts (os_out u) @ file_data (os_fs u) f xs \<and>
    os_err v = os_err u \<and> os_fs v = closed_at (os_fs u) j k off"
proof -
  let ?s = "os_fs u" and ?h = "os_host u (os_calls u)"
  let ?u1 = "u\<lparr>os_fs := opened_at ?s f j k 0, os_calls := os_calls u + 1\<rparr>"
  have g: "good_host ?h" using assms(1) by blast
  have o: "s_open (Some p) K_O_RDONLY u = Some (int k, ?u1)"
    using open_existing [OF g assms(2,3)] by (simp add: s_open_def fs_call_def set_errno_def)
  have r: "user_reading ?s p f xs j k ?u1"
    using assms opened_reading [OF assms(2,3)] by (simp add: user_reading_def)
  obtain v where v: "cat_loop True (int k) ?u1 = Some v" "user_reading ?s p f xs j k v"
    "texts (os_out v) = texts (os_out u) @ bytes_left ?s f xs k (opened_at ?s f j k 0)" "os_err v = os_err u"
    using user_cat.shows_all [OF r] by auto
  have all: "bytes_left ?s f xs k (opened_at ?s f j k 0) = file_data ?s f xs"
    by (simp add: bytes_left_def opened_offset [OF assms(3)])
  obtain off where off: "os_fs v = opened_at ?s f j k off" "good_host (os_host v (os_calls v))"
    using v(2) by (auto simp: user_reading_def reading_def)
  have cl: "s_close (int k) v = Some (err_code PennFatErr_SUCCESS, v\<lparr>os_fs := closed_at ?s j k off, os_calls := os_calls v + 1\<rparr>)"
    using close_opened [OF off(2) assms(2,3), of off] by (simp add: s_close_def fs_call_def off(1))
  show ?thesis
    by (intro exI [of _ "v\<lparr>os_fs := closed_at ?s j k off, os_calls := os_calls v + 1\<rparr>"] exI [of _ off])
      (simp add: cat_def o v(1) [simplified] v(2-) cl [simplified] all)
qed

lemma pf_cat_one:
  assumes "\<forall>n. good_host (pf_host u n)" "\<forall>n. BUFSIZE \<le> pf_fwrite u n" "file_at (pf_fs u) p f xs" "free_slots (pf_fs u) j k"
    "p \<noteq> ''-w''" "p \<noteq> ''-a''"
  shows "\<exists>v off. pf_cat [p] u = Some v \<and> words_shown (pf_out v) = words_shown (pf_out u) @ file_data (pf_fs u) f xs \<and>
    pf_world v = pf_world u \<and> pf_fs v = closed_at (pf_fs u) j k off"
proof -
  let ?s = "pf_fs u" and ?h = "pf_host u (pf_calls u)"
  let ?u1 = "u\<lparr>pf_fs := opened_at ?s f j k 0, pf_calls := pf_calls u + 1\<rparr>"
  have g: "good_host ?h" using assms(1) by blast
  have o: "pf_open p K_O_RDONLY u = Some (int k, ?u1)"
    using open_existing [OF g assms(3,4)] by (simp add: pf_open_def pf_call_def)
  have r: "pf_reading ?s p f xs j k ?u1"
    using assms opened_reading [OF assms(3,4)] by (simp add: pf_reading_def)
  obtain v where v: "cat_copy p (int k) (-1) ?u1 = Some v" "pf_reading ?s p f xs j k v"
    "words_shown (pf_out v) = words_shown (pf_out u) @ bytes_left ?s f xs k (opened_at ?s f j k 0)" "pf_world v = pf_world u"
    using pf_cat_file.shows_all [OF r] by auto
  have all: "bytes_left ?s f xs k (opened_at ?s f j k 0) = file_data ?s f xs"
    by (simp add: bytes_left_def opened_offset [OF assms(4)])
  obtain off where off: "pf_fs v = opened_at ?s f j k off" "good_host (pf_host v (pf_calls v))"
    using v(2) by (auto simp: pf_reading_def reading_def)
  have cl: "pf_close (int k) v = Some (err_code PennFatErr_SUCCESS, v\<lparr>pf_fs := closed_at ?s j k off, pf_calls := pf_calls v + 1\<rparr>)"
    using close_opened [OF off(2) assms(3,4), of off] by (simp add: pf_close_def pf_call_def off(1))
  show ?thesis
    by (intro exI [of _ "v\<lparr>pf_fs := closed_at ?s j k off, pf_calls := pf_calls v + 1\<rparr>"] exI [of _ off])
      (simp add: pf_cat_def no_opts_def assms(5,6) cat_output_def o v(1) [simplified] v(2-) cl [simplified] all)
qed

end
