(* ===== verification/FileStore.thy ===== *)
theory FileStore
  imports CatLoops
begin

text \<open>
  Storing a new file: opening it for writing, one write of at most a block, and closing it, which writes size and time
  into the directory entry. Afterwards the file is there for reading (\<open>file_at\<close> of ReadFile) with the bytes written.
\<close>

subsection \<open>Creating\<close>

lemma slot_chain_same:
  assumes "\<forall>b\<in>set bs. block_entries h s' b = block_entries h s b"
  shows "slot_chain h s' bs = slot_chain h s bs"
  using assms by (induction bs) (auto split: option.split)

definition created_at :: "host \<Rightarrow> string \<Rightarrow> int \<Rightarrow> nat \<Rightarrow> nat \<Rightarrow> nat \<Rightarrow> 16 word \<Rightarrow> nat \<Rightarrow> fs \<Rightarrow> fs" where
  "created_at h p mode n j k b i s =
     set_fd k \<lparr>fd_in_use = True, fd_sysfile_index = j, fd_mode = mode, fd_offset = 0\<rparr>
       (set_sysfile j \<lparr>sf_ref_count = 1, sf_in_use = True, sf_first_block = of_nat n, sf_size = 0,
          sf_mtime = h_now h, sf_dir_index = pseudo_inode b (int i)\<rparr> s)"

text \<open>
  The new entry of a file with block \<open>n\<close>, entered in a slot of the directory: what else the image holds stays.
\<close>

definition slots_ok :: "host \<Rightarrow> fs \<Rightarrow> 16 word list \<Rightarrow> bool" where
  "slots_ok h s bs \<longleftrightarrow> (\<forall>c\<in>set bs. \<forall>x\<in>set (block_entries h s c). live x \<or> slot_free x)"

definition others_kept :: "host \<Rightarrow> 16 word list \<Rightarrow> nat set \<Rightarrow> fs \<Rightarrow> fs \<Rightarrow> bool" where
  "others_kept h bs ns s s' \<longleftrightarrow> image_blocks s' = image_blocks s \<and> (slots_ok h s bs \<longrightarrow> slots_ok h s' bs) \<and>
     (\<forall>c. fat_blocks s \<le> c \<and> c < image_blocks s \<and> c \<notin> unat ` set bs \<and> c \<notin> ns \<longrightarrow> read_block h s' c = read_block h s c)"

lemma others_kept_trans:
  assumes "others_kept h bs ns s s'" "others_kept h bs ns s' s''" "fat_blocks s' = fat_blocks s"
  shows "others_kept h bs ns s s''"
  using assms by (auto simp: others_kept_def)

lemma others_kept_host:
  assumes "good_host h" "good_host h'"
  shows "others_kept h = others_kept h'"
  by (intro ext) (simp add: others_kept_def slots_ok_def good_hosts_same(1) [OF assms] good_hosts_read [OF assms])

lemma others_kept_more: "others_kept h bs ns s s' \<Longrightarrow> ns \<subseteq> ns' \<Longrightarrow> others_kept h bs ns' s s'"
  by (auto simp: others_kept_def)

text \<open>A change of one entry to one that is live or free.\<close>

lemma slot_changed_kept:
  assumes "same_but_img s s'" "image_blocks s' = image_blocks s" "block_entries h s' b = (block_entries h s b)[i := e]"
    "\<forall>c. fat_blocks s \<le> c \<and> c < image_blocks s \<and> c \<noteq> unat b \<longrightarrow> read_block h s' c = read_block h s c"
    "b \<in> set bs" "live e \<or> slot_free e" "dir_ok h s d bs" "fat_blocks s = 1"
  shows "others_kept h bs ns s s'"
proof -
  have "block_entries h s' c = block_entries h s c" if "c \<in> set bs" "c \<noteq> b" for c
  proof (rule block_entries_same [OF assms(1)])
    have "dir_block_ok s c" using assms(7) that(1) by (auto simp: dir_ok_def intro: dir_chain_block)
    then show "read_block h s' (unat c) = read_block h s (unat c)"
      using assms(4,8) that dir_blocks_pos [OF assms(7) that(1)] by (simp add: dir_block_ok_def word_unat_eq_iff)
  qed
  then have "\<forall>x\<in>set (block_entries h s' c). live x \<or> slot_free x"
    if "c \<in> set bs" "\<forall>x\<in>set (block_entries h s c). live x \<or> slot_free x" for c
    using that assms(3,6) by (cases "c = b") (auto dest: set_update_subset_insert [THEN subsetD])
  then show ?thesis using assms(2,4,5) by (auto simp: others_kept_def slots_ok_def)
qed

lemma entry_changed_kept:
  assumes "entry_changed h s b i e s'" "b \<in> set bs" "live e \<or> slot_free e" "dir_ok h s d bs" "fat_blocks s = 1"
  shows "others_kept h bs ns s s'"
  by (rule slot_changed_kept [OF _ _ _ _ assms(2-5), where i = i]) (use assms(1) in \<open>auto simp: entry_changed_def\<close>)

definition new_entry :: "host \<Rightarrow> string \<Rightarrow> nat \<Rightarrow> 16 word list \<Rightarrow> fs \<Rightarrow> fs \<Rightarrow> bool" where
  "new_entry h p n bs s s' \<longleftrightarrow> same_but_img s s' \<and> cwd_dir h s' bs \<and>
     dir_map h s' bs = (dir_map h s bs)(p \<mapsto> new_file_entry h p n) \<and>
     2 \<le> n \<and> n < fat_entries s \<and> fat_list s ! n = FAT_FREE \<and> fat_list s' = (fat_list s)[n := FAT_EOC] \<and>
     others_kept h bs {} s s'"

lemma enter_in_slot:
  assumes g: "good_host h" and d: "cwd_dir h s bs" and p: "plain_name p" and new: "dir_map h s bs p = None"
    and sl: "slot_chain h s bs \<noteq> None" and fr: "2 \<le> n0" "n0 < fat_entries s" "fat_list s ! n0 = FAT_FREE"
  obtains n s1 s2 where "allocate_free_block s = Some (Some n, s1)"
    "add_dirent_to_dir h (g_cwd_block s) (new_file_entry h p n) s1 = Some (PennFatErr_OK, s2)" "new_entry h p n bs s s2"
proof -
  note s = cwd_dirD [OF d]
  obtain r s1 where al0: "allocate_free_block s = Some (r, s1)" using allocate_total [OF s(2)] by auto
  obtain n where r: "r = Some n"
    using allocate_None(2) [OF s(2), of s1 n0] al0 fr by (cases r) auto
  note al = allocate_Some [OF s(2) al0 [unfolded r]] and ef = allocate_effect [OF s(2) al0 [unfolded r]]
  note d1 = dir_ok_alloc [OF s(2-4) al0 [unfolded r]]
  let ?e = "new_file_entry h p n"
  have e: "live ?e" "dname ?e = p" using live_named [OF p] by auto
  have fb: "fat_blocks s1 = 1" using same_but_img_fields(11) [OF ef(4)] s(3) by simp
  have ib: "image_blocks s1 = image_blocks s" by (rule image_blocks_same [OF s(2) ef(1,4)])
  have be: "\<forall>c\<in>set bs. block_entries h s1 c = block_entries h s c"
    using dir_blocks_pos [OF s(4)] ef(5) s(3) block_entries_same [OF ef(4)] by simp
  then obtain b i where sl1: "slot_chain h s1 bs = Some (b, i)" using slot_chain_same [of bs h s1 s] sl by auto
  have fresh: "dir_map h s1 bs (dname ?e) = None" using d1(2) e(2) new by simp
  obtain s2 where s2: "add_dirent_to_dir h (g_cwd_block s) ?e s1 = Some (PennFatErr_OK, s2)" "entry_changed h s1 b i ?e s2"
    "dir_ok h s2 (g_cwd_block s) bs" "dir_map h s2 bs = (dir_map h s1 bs)(p \<mapsto> ?e)"
    using dir_entry_added_in_chain [OF g ef(1) fb d1(1) wf_new_file e(1) fresh sl1] e(2) by auto
  have same: "same_but_img s s2" "geom s2"
    using same_but_img_trans [OF ef(4)] s2(2) by (auto simp: entry_changed_def)
  have b: "b \<in> set bs" using slot_chain_Some(1) [OF sl1] .
  have "others_kept h bs {} s s1" using be ib ef(5) s(3) by (auto simp: others_kept_def slots_ok_def)
  then have "others_kept h bs {} s s2"
    using others_kept_trans [OF _ entry_changed_kept [OF s2(2) b _ d1(1) fb]] e(1) fb s(3) by auto
  moreover have "fat_list s2 = (fat_list s)[n := FAT_EOC]"
    using s2(2) ef(3) fb dir_blocks_pos [OF d1(1) b] by (simp add: entry_changed_def)
  ultimately have "new_entry h p n bs s s2"
    using same(1) cwd_dir_changed [OF d same s2(3)] s2(4) d1(2) al(1-3) by (simp add: new_entry_def)
  then show thesis using that al0 r s2(1) by blast
qed

lemma new_entry_chain:
  assumes "new_entry h p n bs s s'" "cwd_dir h s bs"
  shows "file_chain s' (of_nat n) [of_nat n]" "of_nat n \<notin> set bs" "n < image_blocks s" "unat (of_nat n :: 16 word) = n"
proof -
  note s = cwd_dirD [OF assms(2)]
  have e: "same_but_img s s'" "cwd_dir h s' bs" "2 \<le> n" "n < fat_entries s" "fat_list s ! n = FAT_FREE"
    "fat_list s' = (fat_list s)[n := FAT_EOC]" using assms(1) by (simp_all add: new_entry_def)
  have n: "n < 65535" "n < image_blocks s"
    using e(4) s(3) image_blocks_eq [OF s(2)] fat_entries_double [OF s(2)] geom_block_size [OF s(2)] by simp_all
  then have u: "unat (of_nat n :: 16 word) = n" by (simp add: unat_of_nat)
  then show "of_nat n \<notin> set bs" "n < image_blocks s" "unat (of_nat n :: 16 word) = n"
    using chain_not_free [of "fat_list s" "g_cwd_block s" bs "of_nat n"] s(4) e(5) n(2) by (auto simp: dir_ok_def dir_chain_def)
  have "\<not> chain_end (of_nat n :: 16 word)"
    using e(3) n(1) u by (auto simp: chain_end_def FAT_FREE_def FAT_EOC_def)
  moreover have "image_blocks s' = image_blocks s" "fat_blocks s' = 1"
    using image_blocks_same [OF s(2) cwd_dirD(2) [OF e(2)] e(1)] same_but_img_fields(11) [OF e(1)] s(3) by simp_all
  ultimately show "file_chain s' (of_nat n) [of_nat n]" using e n(2) u by (simp add: file_chain_def)
qed

lemma create_in_slot:
  assumes g: "good_host h" and d: "cwd_dir h s bs" and p: "plain_name p" and new: "dir_map h s bs p = None"
    and f: "free_slots s j k" and sl: "slot_chain h s bs \<noteq> None"
    and fr: "2 \<le> n0" "n0 < fat_entries s" "fat_list s ! n0 = FAT_FREE" and m: "is_valid_mode mode" "HAS_CREATE mode"
    and na: "\<not> HAS_APPEND mode"
  obtains n b i s2 where "k_open h (Some p) mode s = Some (int k, created_at h p mode n j k b i s2)"
    "new_entry h p n bs s s2" "find_chain h s2 p bs = Some (new_file_entry h p n, b, i)"
proof -
  note s = cwd_dirD [OF d] and pn = plain_nameD [OF p]
  obtain n s1 s2 where al: "allocate_free_block s = Some (Some n, s1)"
    "add_dirent_to_dir h (g_cwd_block s) (new_file_entry h p n) s1 = Some (PennFatErr_OK, s2)" and ne: "new_entry h p n bs s s2"
    by (rule enter_in_slot [OF g d p new sl fr])
  let ?e = "new_file_entry h p n"
  have same: "same_but_img s s2" "cwd_dir h s2 bs" "dir_map h s2 bs p = Some ?e" using ne by (simp_all add: new_entry_def)
  obtain b i where found: "find_chain h s2 p bs = Some (?e, b, i)" using same(3) by (auto simp: dir_map_def)
  have res: "resolve_path h s p = Some (PennFatErr_OK, zero_resolved\<lparr>r_parent := g_cwd_block s\<rparr>)"
    by (rule resolve_plain_absent [OF g s(2) p s(4) new])
  have "resolve_path h s2 p = Some (PennFatErr_OK, entry_resolved (g_cwd_block s2) (?e, b, i))"
    using resolve_plain_found [OF g cwd_dirD(2) [OF same(2)] p cwd_dirD(4) [OF same(2)] found] by (simp add: new_file_entry_def)
  then have "k_open_enter_new h p n s2 = Some (Inr (j, 0),
        set_sysfile j \<lparr>sf_ref_count = 1, sf_in_use = True, sf_first_block = of_nat n, sf_size = 0,
          sf_mtime = h_now h, sf_dir_index = pseudo_inode b (int i)\<rparr> s2)"
    using f same_but_img_fields(7) [OF same(1)]
    by (simp add: k_open_enter_new_def entry_resolved_def create_sysfile_entry_from_resolved_def new_file_entry_def free_slots_def)
  then have "k_open h (Some p) mode s = Some (int k, created_at h p mode n j k b i s2)"
    using s(1,5) m na res al pn f same_but_img_fields(8) [OF same(1)]
    by (simp add: k_open_def k_open_create_def zero_resolved_def chain_end_def assign_fd_def created_at_def free_slots_def
        set_sysfile_def set_fd_def)
  then show thesis using that ne found by blast
qed

subsection \<open>Writing and closing\<close>

text \<open>No file is open, as between two commands of the standalone program.\<close>

definition all_closed :: "fs \<Rightarrow> bool" where
  "all_closed s \<longleftrightarrow> length (g_fd_table s) = MAX_FD \<and> length (g_sysfile_table s) = MAX_SYSTEM_FILES \<and>
     (\<forall>f\<in>set (g_fd_table s). \<not> fd_in_use f) \<and> (\<forall>f\<in>set (g_sysfile_table s). \<not> sf_in_use f)"

lemma all_closed_free:
  assumes "all_closed s"
  shows "free_slots s 0 0" "\<not> open_inode s n"
proof -
  have "g_fd_table s \<noteq> []" "g_sysfile_table s \<noteq> []"
    using assms by (auto simp: all_closed_def MAX_FD_def MAX_SYSTEM_FILES_def)
  moreover from this have "\<not> fd_in_use (hd (g_fd_table s))" "\<not> sf_in_use (hd (g_sysfile_table s))"
    using assms hd_in_set by (auto simp: all_closed_def)
  ultimately have "find_idx (\<lambda>f. \<not> sf_in_use f) (g_sysfile_table s) = Some 0" "find_idx (\<lambda>f. \<not> fd_in_use f) (g_fd_table s) = Some 0"
    by (cases "g_fd_table s"; cases "g_sysfile_table s"; simp)+
  then show "free_slots s 0 0" using assms by (simp add: free_slots_def all_closed_def)
  show "\<not> open_inode s n" using assms by (auto simp: open_inode_def all_closed_def)
qed

lemma all_closed_again:
  assumes "all_closed s" "\<not> fd_in_use x" "\<not> sf_in_use y" "g_fd_table s' = (g_fd_table s)[k := x]"
    "g_sysfile_table s' = (g_sysfile_table s)[j := y]"
  shows "all_closed s'"
  using assms by (auto simp: all_closed_def dest: set_update_subset_insert [THEN subsetD])

text \<open>What a new file that is open for writing consists of.\<close>

definition new_open :: "host \<Rightarrow> string \<Rightarrow> int \<Rightarrow> nat \<Rightarrow> 16 word \<Rightarrow> nat \<Rightarrow> 16 word list \<Rightarrow> fs \<Rightarrow> bool" where
  "new_open h p mode n b i bs s \<longleftrightarrow> all_closed s \<and> cwd_dir h s bs \<and> plain_name p \<and>
     find_chain h s p bs = Some (new_file_entry h p n, b, i) \<and> file_chain s (of_nat n) [of_nat n] \<and> of_nat n \<notin> set bs"

lemma created_open:
  assumes "new_open h p mode n b i bs s"
  shows "open_file (created_at h p mode n 0 0 b i s) 0 [of_nat n]"
    "g_fd_table (created_at h p mode n 0 0 b i s) ! 0 = \<lparr>fd_in_use = True, fd_sysfile_index = 0, fd_mode = mode, fd_offset = 0\<rparr>"
proof -
  have len: "length (g_fd_table s) = MAX_FD" "length (g_sysfile_table s) = MAX_SYSTEM_FILES" "g_mounted s" "geom s"
    "file_chain s (of_nat n) [of_nat n]"
    using assms cwd_dirD by (auto simp: new_open_def all_closed_def)
  then show "open_file (created_at h p mode n 0 0 b i s) 0 [of_nat n]"
    "g_fd_table (created_at h p mode n 0 0 b i s) ! 0 = \<lparr>fd_in_use = True, fd_sysfile_index = 0, fd_mode = mode, fd_offset = 0\<rparr>"
    by (simp_all add: created_at_def open_file_def set_fd_def set_sysfile_def fd_file_def file_chain_def
        MAX_FD_def MAX_SYSTEM_FILES_def)
qed

text \<open>The file system once the data are written, and what the write leaves alone.\<close>

definition written_at :: "host \<Rightarrow> host \<Rightarrow> int \<Rightarrow> nat \<Rightarrow> 16 word \<Rightarrow> nat \<Rightarrow> string \<Rightarrow> string \<Rightarrow> fs \<Rightarrow> fs" where
  "written_at h h' mode n b i data img s = s\<lparr>g_img := img,
     g_fd_table := (g_fd_table s)[0 := \<lparr>fd_in_use = True, fd_sysfile_index = 0, fd_mode = mode,
       fd_offset = of_nat (length data)\<rparr>],
     g_sysfile_table := (g_sysfile_table s)[0 := \<lparr>sf_ref_count = 1, sf_in_use = True, sf_first_block = of_nat n,
       sf_size = of_nat (length data), sf_mtime = h_now h', sf_dir_index = pseudo_inode b (int i)\<rparr>]\<rparr>"

lemma wrote_new:
  assumes "new_open h p mode n b i bs s" "wrote h' 0 [of_nat n] data (created_at h p mode n 0 0 b i s) s'" "data \<noteq> []"
  shows "s' = written_at h h' mode n b i data (g_img s') s" "geom s'" "fat_list s' = fat_list s" "image_blocks s' = image_blocks s"
    "file_bytes h' s' [of_nat n] = pwrite (file_bytes h' s [of_nat n]) 0 data"
    "c < image_blocks s \<Longrightarrow> c \<noteq> unat (of_nat n :: 16 word) \<Longrightarrow> read_block h' s' c = read_block h' s c"
proof -
  let ?c = "created_at h p mode n 0 0 b i s"
  have len: "g_fd_table s \<noteq> []" "g_sysfile_table s \<noteq> []"
    using assms(1) by (auto simp: new_open_def all_closed_def MAX_FD_def MAX_SYSTEM_FILES_def)
  have c: "g_fd_table ?c ! 0 = \<lparr>fd_in_use = True, fd_sysfile_index = 0, fd_mode = mode, fd_offset = 0\<rparr>"
    "g_sysfile_table ?c ! 0 = \<lparr>sf_ref_count = 1, sf_in_use = True, sf_first_block = of_nat n, sf_size = 0,
          sf_mtime = h_now h, sf_dir_index = pseudo_inode b (int i)\<rparr>"
    using len by (simp_all add: created_at_def set_fd_def set_sysfile_def)
  have same: "fat_list ?c = fat_list s" "image_blocks ?c = image_blocks s" "read_block h' ?c = read_block h' s"
    "file_bytes h' ?c xs = file_bytes h' s xs" for xs
    by (simp_all add: created_at_def set_fd_def set_sysfile_def file_bytes_def)
  have w: "s' = ?c\<lparr>g_img := g_img s',
      g_fd_table := (g_fd_table ?c)[0 := (g_fd_table ?c ! 0)\<lparr>fd_offset := fd_offset (g_fd_table ?c ! 0) + of_nat (length data)\<rparr>],
      g_sysfile_table := (g_sysfile_table ?c)[fd_sysfile_index (g_fd_table ?c ! 0) :=
        grown h' (unat (fd_offset (g_fd_table ?c ! 0))) data (g_sysfile_table ?c ! fd_sysfile_index (g_fd_table ?c ! 0))]\<rparr>"
    "geom s'" "image_blocks s' = image_blocks ?c" "fat_list s' = fat_list ?c"
    "file_bytes h' s' [of_nat n] = pwrite (file_bytes h' ?c [of_nat n]) (unat (fd_offset (g_fd_table ?c ! 0))) data"
    "\<forall>c < image_blocks ?c. c \<notin> unat ` set [of_nat n :: 16 word] \<longrightarrow> read_block h' s' c = read_block h' ?c c"
    using assms(2) unfolding wrote_def Let_def by blast+
  show "s' = written_at h h' mode n b i data (g_img s') s"
    by (rule trans [OF w(1)], unfold c)
      (simp add: written_at_def grown_def assms(3) len created_at_def set_fd_def set_sysfile_def)
  show "geom s'" "fat_list s' = fat_list s" "image_blocks s' = image_blocks s"
    "file_bytes h' s' [of_nat n] = pwrite (file_bytes h' s [of_nat n]) 0 data"
    using w(2-5) by (simp_all add: same c)
  show "read_block h' s' c = read_block h' s c" if "c < image_blocks s" "c \<noteq> unat (of_nat n :: 16 word)"
    using w(6) that by (simp add: same)
qed

text \<open>The directory is not touched by the write to the file's block.\<close>

lemma wrote_directory:
  assumes "new_open h p mode n b i bs s" "wrote h' 0 [of_nat n] data (created_at h p mode n 0 0 b i s) s'" "data \<noteq> []"
    "good_host h" "good_host h'"
  shows "cwd_dir h s' bs" "find_chain h s' p bs = Some (new_file_entry h p n, b, i)" "file_chain s' (of_nat n) [of_nat n]"
    "dir_map h s' bs = dir_map h s bs" "others_kept h bs {unat (of_nat n :: 16 word)} s s'"
proof -
  note w = wrote_new [OF assms(1-3)]
  let ?t = "s\<lparr>g_img := g_img s'\<rparr>"
  have new: "cwd_dir h s bs" "find_chain h s p bs = Some (new_file_entry h p n, b, i)" "of_nat n \<notin> set bs"
    "file_chain s (of_nat n) [of_nat n]" using assms(1) by (auto simp: new_open_def)
  note d = cwd_dirD [OF new(1)]
  obtain x y where e: "s' = ?t\<lparr>g_fd_table := x, g_sysfile_table := y\<rparr>" using w(1) unfolding written_at_def by blast
  have t: "geom ?t" "image_blocks ?t = image_blocks s" "fat_list ?t = fat_list s" "read_block h ?t = read_block h s'"
    using arg_cong [OF e, of geom] arg_cong [OF e, of image_blocks] arg_cong [OF e, of fat_list]
      arg_cong [OF e, of "read_block h"] w(2-4) by simp_all
  have b: "\<forall>c\<in>set bs. read_block h ?t (unat c) = read_block h s (unat c)"
  proof
    fix c assume "c \<in> set bs"
    then have "unat c < image_blocks s" "c \<noteq> of_nat n"
      using d(4) new(3) by (auto simp: dir_ok_def dir_chain_def)
    then show "read_block h ?t (unat c) = read_block h s (unat c)"
      using w(6) [of "unat c"] good_hosts_read [OF assms(4,5)] t(4) by (simp add: unat_arith_simps(3))
  qed
  have sb: "same_but_img s ?t" by simp
  note fr = dir_ok_frame [OF d(4) sb t(2) _ b]
  have be: "\<forall>c\<in>set bs. block_entries h ?t c = block_entries h s c" using b block_entries_same [OF sb] by blast
  have "cwd_dir h ?t bs" using fr(1) t(1,3) d(1,3) by (simp add: cwd_dir_def fat_blocks_def)
  moreover have "find_chain h ?t p bs = find_chain h s p bs"
    by (rule find_chain_same [OF be])
  moreover have "file_chain ?t (of_nat n) [of_nat n]" using new(4) t(2,3) by (simp add: file_chain_def fat_blocks_def)
  ultimately show "cwd_dir h s' bs" "find_chain h s' p bs = Some (new_file_entry h p n, b, i)" "file_chain s' (of_nat n) [of_nat n]"
    using new(2) arg_cong [OF e, of "\<lambda>s. cwd_dir h s bs"] arg_cong [OF e, of "\<lambda>s. find_chain h s p bs"]
      arg_cong [OF e, of "\<lambda>s. file_chain s (of_nat n) [of_nat n]"]
    by (simp_all add: file_chain_def)
  show "dir_map h s' bs = dir_map h s bs"
    using fr(2) t(1,3) arg_cong [OF e, of "\<lambda>s. dir_map h s bs"] by (simp add: dir_map_def)
  have "\<forall>c\<in>set bs. block_entries h s' c = block_entries h s c" using be arg_cong [OF e, of "block_entries h"] by simp
  moreover have "read_block h s' c = read_block h s c" if "c < image_blocks s" "c \<noteq> unat (of_nat n :: 16 word)" for c
    using w(6) [OF that] good_hosts_read [OF assms(4,5)] by simp
  ultimately show "others_kept h bs {unat (of_nat n :: 16 word)} s s'" using w(4) by (auto simp: others_kept_def slots_ok_def)
qed

text \<open>Closing writes size and time into the entry.\<close>

definition closing_at :: "host \<Rightarrow> int \<Rightarrow> nat \<Rightarrow> 16 word \<Rightarrow> nat \<Rightarrow> string \<Rightarrow> string \<Rightarrow> system_file \<Rightarrow> fs \<Rightarrow> fs" where
  "closing_at h' mode n b i data img f s = s\<lparr>g_img := img,
     g_fd_table := (g_fd_table s)[0 := \<lparr>fd_in_use = False, fd_sysfile_index = 0, fd_mode = mode,
       fd_offset = of_nat (length data)\<rparr>], g_sysfile_table := (g_sysfile_table s)[0 := f]\<rparr>"

definition closing_file :: "host \<Rightarrow> nat \<Rightarrow> 16 word \<Rightarrow> nat \<Rightarrow> string \<Rightarrow> system_file" where
  "closing_file h' n b i data = \<lparr>sf_ref_count = 0, sf_in_use = True, sf_first_block = of_nat n,
       sf_size = of_nat (length data), sf_mtime = h_now h', sf_dir_index = pseudo_inode b (int i)\<rparr>"

lemma release_last:
  assumes "j < MAX_SYSTEM_FILES" "g_sysfile_table s ! j = f" "sf_in_use f" "sf_ref_count f = 1"
  shows "release_sysfile_entry h j s = set_sysfile j zero_sysfile
    (writeback_dirent h (f\<lparr>sf_ref_count := 0\<rparr>) (set_sysfile j (f\<lparr>sf_ref_count := 0\<rparr>) s))"
  using assms by (simp add: release_sysfile_entry_def Let_def)

lemma close_written:
  assumes "g_mounted s" "length (g_fd_table s) = MAX_FD" "length (g_sysfile_table s) = MAX_SYSTEM_FILES"
  shows "k_close h'' 0 (written_at h h' mode n b i data img s) = (err_code PennFatErr_SUCCESS, set_sysfile 0 zero_sysfile
    (writeback_dirent h'' (closing_file h' n b i data) (closing_at h' mode n b i data img (closing_file h' n b i data) s)))"
proof -
  let ?w = "written_at h h' mode n b i data img s"
  let ?s1 = "set_fd 0 ((g_fd_table ?w ! 0)\<lparr>fd_in_use := False\<rparr>) ?w"
  have len: "g_fd_table s \<noteq> []" "g_sysfile_table s \<noteq> []" using assms(2,3) by (auto simp: MAX_FD_def MAX_SYSTEM_FILES_def)
  have close: "k_close h'' 0 ?w = (err_code PennFatErr_SUCCESS, release_sysfile_entry h'' 0 ?s1)"
    using assms len by (simp add: k_close_def bad_fd_def written_at_def MAX_FD_def)
  have f: "(g_sysfile_table ?s1 ! 0)\<lparr>sf_ref_count := 0\<rparr> = closing_file h' n b i data"
    using len by (simp add: written_at_def set_fd_def closing_file_def)
  have s: "set_sysfile 0 (closing_file h' n b i data) ?s1 = closing_at h' mode n b i data img (closing_file h' n b i data) s"
    using len by (simp add: written_at_def closing_at_def set_fd_def set_sysfile_def)
  have "release_sysfile_entry h'' 0 ?s1 = set_sysfile 0 zero_sysfile (writeback_dirent h''
      ((g_sysfile_table ?s1 ! 0)\<lparr>sf_ref_count := 0\<rparr>) (set_sysfile 0 ((g_sysfile_table ?s1 ! 0)\<lparr>sf_ref_count := 0\<rparr>) ?s1))"
    by (rule release_last) (use len in \<open>simp_all add: MAX_SYSTEM_FILES_def written_at_def set_fd_def\<close>)
  then show ?thesis by (simp only: close f s)
qed

text \<open>
  \<open>entry_stored s e d\<close>: the entry is that of a readable regular file with one block, which begins with the bytes \<open>d\<close>.
\<close>

definition entry_stored :: "fs \<Rightarrow> dir_entry \<Rightarrow> string \<Rightarrow> bool" where
  "entry_stored s e d \<longleftrightarrow> de_type e = 1 \<and> CAN_READ (de_perm e) \<and> file_chain s (de_first_block e) [de_first_block e] \<and>
     unat (de_size e) \<le> g_block_size s \<and> d = take (unat (de_size e)) (file_bytes (host_at 0) s [de_first_block e])"

lemma stored_file_at:
  assumes "good_host h" "cwd_dir h s bs" "plain_name p" "dir_map h s bs p = Some e" "all_closed s" "entry_stored s e d"
  obtains b i where "file_at s p (e, b, i) [de_first_block e]" "file_data s (e, b, i) [de_first_block e] = d"
proof -
  obtain b i where "find_chain h s p bs = Some (e, b, i)" using assms(4) by (auto simp: dir_map_def)
  then have "file_at s p (e, b, i) [de_first_block e]" "file_data s (e, b, i) [de_first_block e] = d"
    using assms good_hosts_same [OF assms(1) good_host_at [of 0]] all_closed_free(2) [OF assms(5)]
    by (auto simp: file_at_def entry_stored_def file_data_def)
  then show thesis by (rule that)
qed

definition same_shape :: "fs \<Rightarrow> fs \<Rightarrow> bool" where
  "same_shape s s' \<longleftrightarrow> g_block_size s' = g_block_size s \<and> fat_blocks s' = fat_blocks s \<and> fat_entries s' = fat_entries s \<and>
     g_cwd_block s' = g_cwd_block s \<and> host_files s' = host_files s \<and> g_fs_fd s' = g_fs_fd s \<and>
     g_root_dir s' = g_root_dir s"

lemma same_but_img_shape: "same_but_img s s' \<Longrightarrow> same_shape s s'"
  using same_but_img_fields [of s s'] by (simp add: same_shape_def)

lemma same_shape_trans: "same_shape s s' \<Longrightarrow> same_shape s' s'' \<Longrightarrow> same_shape s s''"
  by (simp add: same_shape_def)

text \<open>A step from \<open>s\<close> to \<open>s'\<close> that enters \<open>p\<close> with the bytes \<open>data\<close> in the block \<open>n\<close> and leaves the other files alone.\<close>

definition file_entered :: "host \<Rightarrow> 16 word list \<Rightarrow> string \<Rightarrow> string \<Rightarrow> nat \<Rightarrow> fs \<Rightarrow> fs \<Rightarrow> bool" where
  "file_entered h bs p data n s s' \<longleftrightarrow> same_shape s s' \<and> cwd_dir h s' bs \<and> all_closed s' \<and> others_kept h bs {n} s s' \<and>
     2 \<le> n \<and> n < fat_entries s \<and> fat_list s ! n = FAT_FREE \<and> fat_list s' = (fat_list s)[n := FAT_EOC] \<and>
     (\<exists>e. dir_map h s' bs = (dir_map h s bs)(p \<mapsto> e) \<and> unat (de_first_block e) = n \<and> entry_stored s' e data)"

lemma close_new:
  assumes no: "new_open h p mode n b i bs s" and wr: "wrote h' 0 [of_nat n] data (created_at h p mode n 0 0 b i s) s'"
    and ne: "data \<noteq> []" and g: "good_host h" "good_host h'" "good_host h''" and le: "length data \<le> g_block_size s"
  shows "\<exists>e s4. k_close h'' 0 s' = (err_code PennFatErr_SUCCESS, s4) \<and> same_shape s s4 \<and> cwd_dir h s4 bs \<and> all_closed s4 \<and>
    dir_map h s4 bs = (dir_map h s bs)(p \<mapsto> e) \<and> de_first_block e = of_nat n \<and> entry_stored s4 e data \<and>
    fat_list s4 = fat_list s \<and> others_kept h bs {unat (of_nat n :: 16 word)} s s4"
proof -
  note w = wrote_new [OF no wr ne] and d = wrote_directory [OF no wr ne g(1,2)]
  have new: "all_closed s" "plain_name p" "of_nat n \<notin> set bs" using no by (auto simp: new_open_def)
  have len: "length (g_fd_table s) = MAX_FD" "length (g_sysfile_table s) = MAX_SYSTEM_FILES" "g_mounted s"
    using no cwd_dirD by (auto simp: new_open_def all_closed_def)
  have gs: "geom s" using no cwd_dirD(2) by (auto simp: new_open_def)
  note hosts = good_hosts_same [OF g(3,1)]
  let ?e = "new_file_entry h p n" and ?f1 = "closing_file h' n b i data"
  let ?e1 = "?e\<lparr>de_size := sf_size ?f1, de_mtime := sf_mtime ?f1, de_first_block := sf_first_block ?f1\<rparr>"
  let ?B = "closing_at h' mode n b i data (g_img s') ?f1 s"
  have cl: "k_close h'' 0 s' = (err_code PennFatErr_SUCCESS, set_sysfile 0 zero_sysfile (writeback_dirent h'' ?f1 ?B))"
    using close_written [OF len(3,1,2)] w(1) by metis
  obtain x y where e: "?B = s'\<lparr>g_fd_table := x, g_sysfile_table := y\<rparr>"
    using arg_cong [OF w(1), of "\<lambda>t. t\<lparr>g_fd_table := g_fd_table ?B, g_sysfile_table := g_sysfile_table ?B\<rparr>"]
    unfolding written_at_def closing_at_def by simp metis
  have B: "cwd_dir h'' ?B bs" "find_chain h'' ?B p bs = Some (?e, b, i)" "file_chain ?B (of_nat n) [of_nat n]"
    "image_blocks ?B = image_blocks s" "fat_list ?B = fat_list s'" "read_block h' ?B = read_block h' s'"
    "dir_map h'' ?B bs = dir_map h s bs" "others_kept h bs {unat (of_nat n :: 16 word)} s ?B"
    using d w(4) hosts unfolding e by (simp_all add: file_chain_def others_kept_def slots_ok_def)
  note cw = cwd_dirD [OF B(1)] and pos = find_chain_position [OF B(2)]
  let ?bl = "of_nat n :: 16 word"
  have i: "int i < 2 ^ 16" using pos(2) entries_per_block_double(3) [OF cw(2)] by simp
  have sz: "unat (of_nat (length data) :: 32 word) = length data"
    using le geom_block_size [OF gs] by (simp add: unat_of_nat)
  have k: "live ?e1" "dname ?e1 = p" "wf_dirent ?e1"
    using entry_kept [OF pos(4,5) wf_new_file, of ?e1] by simp_all
  obtain s2 where s2: "write_dirent h'' b (int i) ?e1 ?B = (PennFatErr_OK, s2)" "entry_changed h'' ?B b i ?e1 s2"
    "dir_ok h'' s2 (g_cwd_block ?B) bs" "dir_map h'' s2 bs = (dir_map h'' ?B bs)(p \<mapsto> ?e1)"
    using dir_entry_updated [OF g(3) cw(2-4) B(2) k(3,1,2)] by auto
  have idx: "inode_block (sf_dir_index ?f1) = b" "inode_index (sf_dir_index ?f1) = int i"
    using inode_parts [of "int i" b] i by (simp_all add: closing_file_def)
  have ok: "dir_block_ok ?B b" using cw(4) pos(1) by (auto simp: dir_ok_def intro: dir_chain_block)
  have rd: "read_dirent h'' ?B b (int i) = Inr ?e" using read_dirent_eq [OF g(3) cw(2) ok] pos(2,3) by simp
  have "name0 ?e \<noteq> NUL \<and> \<not> deleted_mark ?e \<and> de_first_block ?e = sf_first_block ?f1"
    using pos(4) by (simp add: live_def new_file_entry_def closing_file_def)
  then have wb: "writeback_dirent h'' ?f1 ?B = s2" by (simp add: writeback_dirent_def Let_def idx rd s2(1))
  let ?s4 = "set_sysfile 0 zero_sysfile s2"
  have ch: "same_but_img ?B s2" "geom s2" "image_blocks s2 = image_blocks s" "fat_list s2 = fat_list ?B"
    "c < image_blocks s \<Longrightarrow> c \<noteq> unat b \<Longrightarrow> read_block h'' s2 c = read_block h'' ?B c" for c
    using s2(2) cw(3) dir_blocks_pos [OF cw(4) pos(1)] B(4) by (auto simp: entry_changed_def)
  note ch_fields = same_but_img_fields [OF ch(1)]
  have "same_shape s ?B" by (simp add: same_shape_def closing_at_def fat_blocks_def fat_entries_def)
  then have shape: "same_shape s ?s4"
    using same_shape_trans [OF _ same_but_img_shape [OF ch(1)]] by (simp add: same_shape_def set_sysfile_def)
  have tab: "g_fd_table ?s4 = (g_fd_table s)[0 := \<lparr>fd_in_use = False, fd_sysfile_index = 0, fd_mode = mode,
       fd_offset = of_nat (length data)\<rparr>]" "g_sysfile_table ?s4 = (g_sysfile_table s)[0 := zero_sysfile]"
    using ch_fields by (simp_all add: set_sysfile_def closing_at_def)
  have closed: "all_closed ?s4" by (rule all_closed_again [OF new(1) _ _ tab(1,2)]) (simp_all add: zero_sysfile_def)
  have cwd: "cwd_dir h ?s4 bs" "dir_map h ?s4 bs = (dir_map h s bs)(p \<mapsto> ?e1)"
    using cwd_dir_changed [OF B(1) ch(1,2) s2(3)] s2(4) B(7) hosts by (simp_all add: set_sysfile_def)
  have fc: "file_chain ?s4 ?bl [?bl]"
    using B(3,4) ch(3,4) ch_fields(11) by (simp add: file_chain_def set_sysfile_def)
  have "?bl \<noteq> b" using new(3) pos(1) by blast
  then have bl: "unat ?bl < image_blocks s" "unat ?bl \<noteq> unat b"
    using B(3,4) by (simp add: file_chain_def, simp add: word_unat_eq_iff)
  have "file_bytes (host_at 0) ?s4 [?bl] = file_bytes h' s' [?bl]"
    using ch(5) [OF bl] B(6) good_hosts_read [OF g(3,2)] good_hosts_read [OF g(2) good_host_at [of 0]]
    by (simp add: file_bytes_def set_sysfile_def)
  then have "take (length data) (file_bytes (host_at 0) ?s4 [?bl]) = data"
    using w(5) by (simp add: pwrite_def)
  moreover have "CAN_READ DEF_PERM" by (simp add: perm_defs)
  ultimately have stored: "entry_stored ?s4 ?e1 data" "de_first_block ?e1 = ?bl"
    using fc le shape by (simp_all add: entry_stored_def closing_file_def sz new_file_entry_def same_shape_def)
  have "others_kept h'' bs {unat ?bl} ?B s2"
    by (rule entry_changed_kept [OF s2(2) pos(1) _ cw(4,3)]) (use k(1) in simp)
  then have "others_kept h bs {unat ?bl} ?B s2" by (simp only: others_kept_host [OF g(3,1)])
  moreover have "fat_blocks ?B = fat_blocks s" using shape ch_fields(11) by (simp add: same_shape_def set_sysfile_def)
  ultimately have "others_kept h bs {unat ?bl} s s2" using others_kept_trans [OF B(8)] by blast
  then have kept: "others_kept h bs {unat ?bl} s ?s4" by (simp add: others_kept_def slots_ok_def set_sysfile_def)
  have "fat_list ?s4 = fat_list s" using ch(4) B(5) w(3) by (simp add: set_sysfile_def)
  then show ?thesis using cl wb shape closed cwd stored kept by metis
qed

text \<open>
  \<open>room_for h s p\<close>: no file is open, the name \<open>p\<close> is new in the current directory, which has a free slot, and a block
  is free.
\<close>

definition room_for :: "host \<Rightarrow> fs \<Rightarrow> 16 word list \<Rightarrow> string \<Rightarrow> bool" where
  "room_for h s bs p \<longleftrightarrow> all_closed s \<and> plain_name p \<and> (\<exists>n. 2 \<le> n \<and> n < fat_entries s \<and> fat_list s ! n = FAT_FREE) \<and>
     cwd_dir h s bs \<and> dir_map h s bs p = None \<and> slot_chain h s bs \<noteq> None"

lemma store_new_file:
  assumes r: "room_for h s bs p" and l: "data \<noteq> []" "length data \<le> g_block_size s"
    and g: "good_host h" "good_host h'" "good_host h''"
    and m: "is_valid_mode mode" "HAS_CREATE mode" "\<not> HAS_APPEND mode" "\<not> HAS_READ mode"
  shows "\<exists>s1 s2 s3 n. k_open h (Some p) mode s = Some (0, s1) \<and>
    k_write h' 0 data (int (length data)) s1 = Some (int (length data), s2) \<and>
    k_close h'' 0 s2 = (err_code PennFatErr_SUCCESS, s3) \<and> file_entered h bs p data n s s3"
proof -
  obtain n0 where s: "all_closed s" "plain_name p"
    "2 \<le> n0" "n0 < fat_entries s" "fat_list s ! n0 = FAT_FREE" "cwd_dir h s bs" "dir_map h s bs p = None" "slot_chain h s bs \<noteq> None"
    using r by (auto simp: room_for_def)
  obtain n b i s2 where c: "k_open h (Some p) mode s = Some (int 0, created_at h p mode n 0 0 b i s2)"
    and ne: "new_entry h p n bs s s2" and found: "find_chain h s2 p bs = Some (new_file_entry h p n, b, i)"
    by (rule create_in_slot [OF g(1) s(6,2,7) all_closed_free(1) [OF s(1)] s(8,3-5) m(1-3)])
  note ch = new_entry_chain [OF ne s(6)]
  have e: "same_but_img s s2" "cwd_dir h s2 bs" "dir_map h s2 bs = (dir_map h s bs)(p \<mapsto> new_file_entry h p n)"
    "fat_list s2 = (fat_list s)[n := FAT_EOC]" "others_kept h bs {} s s2" using ne by (simp_all add: new_entry_def)
  let ?s1 = "created_at h p mode n 0 0 b i s2"
  note same = same_but_img_fields [OF e(1)]
  have "all_closed s2" using s(1) same by (simp add: all_closed_def)
  then have no: "new_open h p mode n b i bs s2" using found ch e(2) s(2) by (simp add: new_open_def)
  note o = created_open [OF no]
  have sizes: "fat_entries ?s1 = fat_entries s2" "fat_blocks ?s1 = fat_blocks s2" "g_block_size ?s1 = g_block_size s"
    using same by (simp_all add: created_at_def set_fd_def set_sysfile_def)
  have "2 * fat_entries s2 = g_block_size s" "g_block_size s \<le> 4096" "fat_blocks s2 = 1"
    using fat_entries_double [OF cwd_dirD(2) [OF e(2)]] cwd_dirD(3) [OF e(2)] geom_block_size [OF cwd_dirD(2) [OF s(6)]] same
    by simp_all
  then have "fat_entries ?s1 < 0x10000 - fat_blocks ?s1" using sizes by simp
  then obtain s3 where w: "k_write h' 0 data (int (length data)) ?s1 = Some (int (length data), s3)"
    "wrote h' 0 [of_nat n] data ?s1 s3"
    using write_open_file [OF g(2) o(1), of "int (length data)" data] l(2) o(2) m(4) sizes by auto
  have "length data \<le> g_block_size s2" using l(2) same by simp
  then obtain e1 s4 where f: "k_close h'' 0 s3 = (err_code PennFatErr_SUCCESS, s4)" "same_shape s2 s4" "cwd_dir h s4 bs" "all_closed s4"
    "dir_map h s4 bs = (dir_map h s2 bs)(p \<mapsto> e1)" "de_first_block e1 = of_nat n" "entry_stored s4 e1 data"
    "fat_list s4 = fat_list s2" "others_kept h bs {n} s2 s4"
    using close_new [OF no w(2) l(1) g] ch(4) by metis
  have "others_kept h bs {n} s s4"
    using others_kept_trans [OF others_kept_more [OF e(5)] f(9)] same(11) by simp
  then have "file_entered h bs p data n s s4"
    using ne f(2-8) e(3,4) ch(4) same_shape_trans [OF same_but_img_shape [OF e(1)] f(2)]
    by (auto simp: file_entered_def new_entry_def)
  then show ?thesis using c w(1) f(1) by auto
qed

end
