(* ===== verification/FileMap.thy ===== *)
theory FileMap
  imports FileStore
begin

text \<open>
  The files of the root directory as a map from names to contents: each kernel call on names is an update of
  that map, no other file changes, and every block in use belongs to exactly one file.
\<close>

subsection \<open>The calls\<close>

lemma all_closed_same: "same_but_img s s' \<Longrightarrow> all_closed s \<Longrightarrow> all_closed s'"
  using same_but_img_fields(7,8) [of s s'] by (simp add: all_closed_def)

text \<open>\<open>k_touch\<close> of a new name enters an empty file.\<close>

lemma touch_enters:
  assumes r: "room_for h s bs p" and g: "good_host h"
  shows "\<exists>s' n. k_touch h (Some p) s = Some (PennFatErr_OK, s') \<and> file_entered h bs p [] n s s'"
proof -
  obtain n0 where s: "all_closed s" "plain_name p"
    "2 \<le> n0" "n0 < fat_entries s" "fat_list s ! n0 = FAT_FREE" "cwd_dir h s bs" "dir_map h s bs p = None" "slot_chain h s bs \<noteq> None"
    using r by (auto simp: room_for_def)
  note d = cwd_dirD [OF s(6)] and pn = plain_nameD [OF s(2)]
  obtain n s1 s2 where al: "allocate_free_block s = Some (Some n, s1)"
    "add_dirent_to_dir h (g_cwd_block s) (new_file_entry h p n) s1 = Some (PennFatErr_OK, s2)" and ne: "new_entry h p n bs s s2"
    by (rule enter_in_slot [OF g s(6,2,7,8,3-5)])
  let ?e = "new_file_entry h p n"
  have "resolve_path h s p = Some (PennFatErr_OK, zero_resolved\<lparr>r_parent := g_cwd_block s\<rparr>)"
    by (rule resolve_plain_absent [OF g d(2) s(2) d(4) s(7)])
  then have run: "k_touch h (Some p) s = Some (PennFatErr_OK, s2)"
    using d(1,5) pn al by (simp add: k_touch_def zero_resolved_def chain_end_def)
  note ch = new_entry_chain [OF ne s(6)]
  have e: "same_but_img s s2" "cwd_dir h s2 bs" "dir_map h s2 bs = (dir_map h s bs)(p \<mapsto> ?e)"
    "fat_list s2 = (fat_list s)[n := FAT_EOC]" "others_kept h bs {n} s s2"
    using ne others_kept_more [of h bs "{}" s s2 "{n}"] by (simp_all add: new_entry_def)
  have "CAN_READ DEF_PERM" by (simp add: perm_defs)
  then have "entry_stored s2 ?e []" "unat (de_first_block ?e) = n"
    using ch(1,4) by (simp_all add: entry_stored_def new_file_entry_def)
  then have "file_entered h bs p [] n s s2"
    using ne e all_closed_same [OF e(1) s(1)] same_but_img_shape [OF e(1)] by (auto simp: file_entered_def new_entry_def)
  then show ?thesis using run by blast
qed

text \<open>\<open>k_unlink\<close> removes the file and frees its block.\<close>

lemma unlink_removes:
  assumes g: "good_host h" and d: "cwd_dir h s bs" and p: "plain_name p" and m: "dir_map h s bs p = Some e"
    and st: "entry_stored s e x" and c: "all_closed s" and f: "fat_closed (fat_list s)" "de_first_block e \<notin> set bs"
  shows "\<exists>s'. k_unlink h (Some p) s = Some (PennFatErr_OK, s') \<and> same_shape s s' \<and> cwd_dir h s' bs \<and> all_closed s' \<and>
    dir_map h s' bs = (dir_map h s bs)(p := None) \<and> fat_list s' = (fat_list s)[unat (de_first_block e) := FAT_FREE] \<and>
    others_kept h bs {} s s'"
proof -
  note s = cwd_dirD [OF d]
  obtain b i where found: "find_chain h s p bs = Some (e, b, i)" using m by (auto simp: dir_map_def)
  note pos = find_chain_position [OF found]
  have t: "de_type e \<noteq> 2" "de_type e \<noteq> 4" "chain (fat_list s) (de_first_block e) [de_first_block e]"
    "set [de_first_block e] \<inter> set bs = {}"
    using st f(2) by (simp_all add: entry_stored_def file_chain_def)
  obtain s' where u: "k_unlink h (Some p) s = Some (PennFatErr_OK, s')" "same_but_img s s'" "cwd_dir h s' bs"
    "dir_map h s' bs = (dir_map h s bs)(p := None)"
    "\<forall>n < fat_entries s. fat_list s' ! n = (if of_nat n \<in> set [de_first_block e] then FAT_FREE else fat_list s ! n)"
    "block_entries h s' b = (block_entries h s b)[i := deleted_dirent]"
    "\<forall>c. fat_blocks s \<le> c \<and> c < image_blocks s \<and> c \<noteq> unat b \<longrightarrow> read_block h s' c = read_block h s c"
    using unlink_closed [OF g d p found t(1,2) all_closed_free(2) [OF c] f(1) t(3,4)] by blast
  have len: "length (fat_list s') = fat_entries s" "length (fat_list s) = fat_entries s"
    using same_but_img_fields(12) [OF u(2)] by simp_all
  have "fat_entries s \<le> 2 ^ 16"
    using fat_entries_double [OF s(2)] s(3) geom_block_size [OF s(2)] by simp
  then have "of_nat n = de_first_block e \<longleftrightarrow> n = unat (de_first_block e)" if "n < fat_entries s" for n
    using that of_nat_inverse [of n "de_first_block e"] by auto
  then have "fat_list s' = (fat_list s)[unat (de_first_block e) := FAT_FREE]"
    using u(5) len by (intro nth_equalityI) (auto simp: nth_list_update)
  moreover have "image_blocks s' = image_blocks s" by (rule image_blocks_same [OF s(2) cwd_dirD(2) [OF u(3)] u(2)])
  moreover have "slot_free deleted_dirent" by (simp add: slot_free_def name0_def deleted_dirent_def)
  ultimately show ?thesis
    using u(1-4) all_closed_same [OF u(2) c] same_but_img_shape [OF u(2)]
      slot_changed_kept [OF u(2) _ u(6,7) pos(1) _ s(4,3)] by auto
qed

text \<open>\<open>k_rename\<close> to a new name when the directory has a free slot.\<close>

lemma rename_moves:
  assumes g: "good_host h" and d: "cwd_dir h s bs" and p: "plain_name p" "plain_name q" "p \<noteq> q"
    and m: "dir_map h s bs p = Some e" "dir_map h s bs q = None" and ty: "de_type e \<noteq> 4" and sl: "slot_chain h s bs \<noteq> None"
    and c: "all_closed s"
  shows "\<exists>s'. k_rename h (Some p) (Some q) s = Some (PennFatErr_OK, s') \<and> same_shape s s' \<and> cwd_dir h s' bs \<and> all_closed s' \<and>
    dir_map h s' bs = (dir_map h s bs)(q \<mapsto> e\<lparr>de_name := name_field q, de_mtime := h_now h\<rparr>, p := None) \<and>
    fat_list s' = fat_list s \<and> others_kept h bs {} s s'"
proof -
  obtain b i where found: "find_chain h s p bs = Some (e, b, i)" using m(1) by (auto simp: dir_map_def)
  obtain b1 i1 where sl1: "slot_chain h s bs = Some (b1, i1)" using sl by auto
  note s = cwd_dirD [OF d] and pos = find_chain_position [OF found]
  note pn = plain_nameD [OF p(1)] and qn = plain_nameD [OF p(2)]
  let ?e = "e\<lparr>de_name := name_field q, de_mtime := h_now h\<rparr>"
  note e' = renamed_entry [OF p(2) wf_found [OF g d found], of "h_now h"]
  have "k_rename h (Some p) (Some q) s = rename_move h q (entry_resolved (g_cwd_block s) (e, b, i))
      (zero_resolved\<lparr>r_parent := g_cwd_block s\<rparr>) s"
    using s(1,5) pn qn p(3) pos(5) resolve_plain_absent [OF g s(2) p(2) s(4) m(2)]
      resolve_plain_found [OF g s(2) p(1) s(4) found ty]
    by (simp add: k_rename_def rename_clear_def entry_resolved_def zero_resolved_def chain_end_def Let_def)
  then have move: "k_rename h (Some p) (Some q) s =
      do { (err, s1) \<leftarrow> add_dirent_to_dir h (g_cwd_block s) ?e s;
           if err \<noteq> PennFatErr_OK then Some (err, s1)
           else Some (write_dirent h b (int i) deleted_dirent s1) }"
    by (simp add: rename_move_def entry_resolved_def zero_resolved_def cong: if_cong)
  have fresh: "dir_map h s bs (dname ?e) = None" using e'(2) m(2) by simp
  obtain s1 where s1: "add_dirent_to_dir h (g_cwd_block s) ?e s = Some (PennFatErr_OK, s1)" "entry_changed h s b1 i1 ?e s1"
    "dir_ok h s1 (g_cwd_block s) bs" "dir_map h s1 bs = (dir_map h s bs)(q \<mapsto> ?e)" "find_chain h s1 p bs = Some (e, b, i)"
    using dir_entry_added_in_chain [OF g s(2-4) e'(3,1) fresh sl1] e'(2) p(3) found by auto
  have f1: "same_but_img s s1" "geom s1" using s1(2) by (simp_all add: entry_changed_def)
  have fb: "fat_blocks s1 = 1" using same_but_img_fields(11) [OF f1(1)] s(3) by simp
  obtain s2 where s2: "write_dirent h b (int i) deleted_dirent s1 = (PennFatErr_OK, s2)"
    "entry_changed h s1 b i deleted_dirent s2" "dir_ok h s2 (g_cwd_block s) bs" "dir_map h s2 bs = (dir_map h s1 bs)(p := None)"
    using dir_entry_deleted [OF g f1(2) fb s1(3,5)] by auto
  have same: "same_but_img s s2" and gm: "geom s2"
    using same_but_img_trans [OF f1(1)] s2(2) by (auto simp: entry_changed_def)
  have b1: "b1 \<in> set bs" using slot_chain_Some(1) [OF sl1] .
  have "fat_list s2 = fat_list s"
    using s1(2) s2(2) s(3) fb dir_blocks_pos [OF s(4)] b1 pos(1) by (simp add: entry_changed_def)
  moreover have "slot_free deleted_dirent" by (simp add: slot_free_def name0_def deleted_dirent_def)
  then have "others_kept h bs {} s s2"
    using others_kept_trans [OF entry_changed_kept [OF s1(2) b1 _ s(4,3)] entry_changed_kept [OF s2(2) pos(1) _ s1(3) fb]]
      e'(1) fb s(3) by simp
  ultimately show ?thesis
    using move s1(1,4) s2(1,4) cwd_dir_changed [OF d same gm s2(3)] all_closed_same [OF same c] same_but_img_shape [OF same] by simp
qed

subsection \<open>The map\<close>

text \<open>
  \<open>stores s m\<close>: \<open>m\<close> are the names and contents of the files of the root directory, all regular. The blocks of
  the files are exactly the blocks in use: no two files share one and none is lost.
\<close>

definition block_of :: "(string \<Rightarrow> dir_entry option) \<Rightarrow> string \<Rightarrow> nat" where
  "block_of d p = unat (de_first_block (the (d p)))"

definition used_blocks :: "fs \<Rightarrow> nat set" where
  "used_blocks s = {n. 2 \<le> n \<and> n < fat_entries s \<and> fat_list s ! n \<noteq> FAT_FREE}"

definition root_map :: "fs \<Rightarrow> string \<Rightarrow> dir_entry option" where
  "root_map s = dir_map (host_at 0) s [1]"

definition stores :: "fs \<Rightarrow> (string \<Rightarrow> string option) \<Rightarrow> bool" where
  "stores s m \<longleftrightarrow> cwd_dir (host_at 0) s [1] \<and> all_closed s \<and> slots_ok (host_at 0) s [1] \<and>
     (\<forall>p. rel_option (entry_stored s) (root_map s p) (m p)) \<and> (\<forall>p\<in>dom m. plain_name p) \<and>
     bij_betw (block_of (root_map s)) (dom (root_map s)) (used_blocks s)"

lemma stores_dom: "stores s m \<Longrightarrow> dom (root_map s) = dom m"
  by (auto simp: stores_def dom_def) (metis option.rel_distinct(2) not_Some_eq, metis option.rel_distinct(1) not_Some_eq)

lemma storesD:
  assumes "stores s m"
  shows "cwd_dir (host_at 0) s [1]" "all_closed s" "\<forall>p\<in>dom m. plain_name p"
    "bij_betw (block_of (root_map s)) (dom m) (used_blocks s)"
    "root_map s p = None \<longleftrightarrow> m p = None"
    "m p = Some x \<Longrightarrow> \<exists>e. root_map s p = Some e \<and> entry_stored s e x \<and> unat (de_first_block e) \<in> used_blocks s"
proof -
  note dm = stores_dom [OF assms]
  show s: "cwd_dir (host_at 0) s [1]" "all_closed s" "\<forall>p\<in>dom m. plain_name p"
    "bij_betw (block_of (root_map s)) (dom m) (used_blocks s)"
    using assms by (simp_all add: stores_def dm)
  show "root_map s p = None \<longleftrightarrow> m p = None" using dm by blast
  assume x: "m p = Some x"
  then obtain e where e: "root_map s p = Some e" "entry_stored s e x"
    using assms option_rel_Some2 [of "entry_stored s" "root_map s p" x] by (simp add: stores_def) metis
  moreover have "unat (de_first_block e) \<in> used_blocks s"
    using bij_betwE [OF s(4)] x e(1) by (force simp: block_of_def)
  ultimately show "\<exists>e. root_map s p = Some e \<and> entry_stored s e x \<and> unat (de_first_block e) \<in> used_blocks s" by blast
qed

lemma stores_file_at:
  assumes "stores s m" "m p = Some x"
  obtains f xs where "file_at s p f xs" "file_data s f xs = x"
proof -
  note d = storesD [OF assms(1)]
  obtain e where e: "dir_map (host_at 0) s [1] p = Some e" "entry_stored s e x"
    using d(6) [OF assms(2)] by (auto simp: root_map_def)
  have "plain_name p" using d(3) assms(2) by blast
  then obtain b i where "file_at s p (e, b, i) [de_first_block e]" "file_data s (e, b, i) [de_first_block e] = x"
    by (rule stored_file_at [OF good_host_at d(1) _ e(1) d(2) e(2)])
  then show thesis by (rule that)
qed

text \<open>A file whose block is left alone keeps its contents.\<close>

lemma entry_stored_frame:
  assumes "entry_stored s e d" "same_shape s s'" "others_kept (host_at 0) bs ns s s'" "de_first_block e \<notin> set bs"
    "unat (de_first_block e) \<notin> ns" "fat_list s' ! unat (de_first_block e) = fat_list s ! unat (de_first_block e)"
  shows "entry_stored s' e d"
proof -
  let ?b = "unat (de_first_block e)"
  have b: "fat_blocks s \<le> ?b" "?b < image_blocks s" using assms(1) by (simp_all add: entry_stored_def file_chain_def)
  have "?b \<notin> unat ` set bs" using assms(4) by (auto dest!: iffD2 [OF word_unat_eq_iff])
  then have "read_block (host_at 0) s' ?b = read_block (host_at 0) s ?b"
    using assms(3,5) b by (auto simp: others_kept_def)
  then show ?thesis
    using assms(1,2,3,6) by (simp add: entry_stored_def file_chain_def file_bytes_def same_shape_def others_kept_def)
qed

lemma stored_kept:
  assumes "stores s m" "same_shape s s'" "others_kept (host_at 0) [1] ns s s'" "m p = Some x" "root_map s p = Some e"
    "unat (de_first_block e) \<notin> ns" "fat_list s' ! unat (de_first_block e) = fat_list s ! unat (de_first_block e)"
  shows "entry_stored s' e x"
proof -
  have "entry_stored s e x" "2 \<le> unat (de_first_block e)"
    using storesD(6) [OF assms(1,4)] assms(5) by (auto simp: used_blocks_def)
  moreover from this(2) have "de_first_block e \<notin> set [1]" by auto
  ultimately show ?thesis using entry_stored_frame [OF _ assms(2,3) _ assms(6,7)] by blast
qed

lemma bij_betw_more:
  assumes "bij_betw f A B" "p \<notin> A" "n \<notin> B" "f' p = n" "\<And>x. x \<in> A \<Longrightarrow> f' x = f x"
  shows "bij_betw f' (insert p A) (insert n B)"
proof -
  have "bij_betw f' A B" using assms(1,5) by (metis bij_betw_cong)
  then show ?thesis using notIn_Un_bij_betw [of p A f' B] assms(2-4) by simp
qed

lemma bij_betw_less:
  assumes "bij_betw f A B" "p \<in> A"
  shows "bij_betw f (A - {p}) (B - {f p})"
  using bij_betw_DiffI [OF assms(1), of "{p}" "{f p}"] bij_betwE [OF assms(1)] assms(2) by (auto simp: bij_betw_def)

lemma entered_stores:
  assumes st: "stores s m" and en: "file_entered (host_at 0) [1] p x n s s'" and p: "plain_name p" "m p = None"
  shows "stores s' (m(p \<mapsto> x))"
proof -
  note d = storesD [OF st]
  obtain e where e: "root_map s' = (root_map s)(p \<mapsto> e)" "unat (de_first_block e) = n" "entry_stored s' e x"
    using en by (auto simp: file_entered_def root_map_def)
  have k: "same_shape s s'" "cwd_dir (host_at 0) s' [1]" "all_closed s'" "others_kept (host_at 0) [1] {n} s s'"
    "2 \<le> n" "n < fat_entries s" "fat_list s ! n = FAT_FREE" "fat_list s' = (fat_list s)[n := FAT_EOC]"
    using en by (simp_all add: file_entered_def)
  have nu: "n \<notin> used_blocks s" using k(7) by (simp add: used_blocks_def)
  have "rel_option (entry_stored s') (root_map s' q) ((m(p \<mapsto> x)) q)" for q
  proof (cases "q = p \<or> m q = None")
    case True
    then show ?thesis using d(5) [of q] e(1,3) by auto
  next
    case False
    then obtain y where y: "m q = Some y" by blast
    obtain f where f: "root_map s q = Some f" "unat (de_first_block f) \<in> used_blocks s" using d(6) [OF y] by blast
    then have "unat (de_first_block f) \<noteq> n" using nu by blast
    then have "entry_stored s' f y" using stored_kept [OF st k(1,4) y f(1)] k(8) by simp
    then show ?thesis using False y f(1) e(1) by simp
  qed
  moreover have "used_blocks s' = insert n (used_blocks s)"
    using k(1,5,6,8) by (auto simp: used_blocks_def same_shape_def nth_list_update FAT_EOC_def FAT_FREE_def)
  moreover have "bij_betw (block_of (root_map s')) (insert p (dom m)) (insert n (used_blocks s))"
    by (rule bij_betw_more [OF d(4) _ nu]) (use p(2) e(1,2) in \<open>auto simp: block_of_def\<close>)
  moreover have "dom (root_map s') = insert p (dom m)" using stores_dom [OF st] e(1) by auto
  moreover have "slots_ok (host_at 0) s' [1]" using st k(4) by (simp add: stores_def others_kept_def)
  ultimately show ?thesis using k(2,3) d(3) p(1) by (auto simp: stores_def)
qed

lemma removed_stores:
  assumes st: "stores s m" and m: "m p \<noteq> None" and e: "root_map s p = Some e" and k: "same_shape s s'" "cwd_dir (host_at 0) s' [1]"
    "all_closed s'" "others_kept (host_at 0) [1] {} s s'" "root_map s' = (root_map s)(p := None)"
    "fat_list s' = (fat_list s)[unat (de_first_block e) := FAT_FREE]"
  shows "stores s' (m(p := None))"
proof -
  note d = storesD [OF st]
  let ?n = "unat (de_first_block e)"
  have p: "p \<in> dom m" "block_of (root_map s) p = ?n" using m e by (auto simp: block_of_def)
  have "rel_option (entry_stored s') (root_map s' q) ((m(p := None)) q)" for q
  proof (cases "q = p \<or> m q = None")
    case True
    then show ?thesis using d(5) [of q] k(5) by auto
  next
    case False
    then obtain y where y: "m q = Some y" by blast
    obtain f where f: "root_map s q = Some f" using d(6) [OF y] by blast
    have "block_of (root_map s) q \<noteq> block_of (root_map s) p"
      using inj_onD [OF bij_betw_imp_inj_on [OF d(4)], of q p] False p(1) y by blast
    then have "?n \<noteq> unat (de_first_block f)" using p(2) f by (simp add: block_of_def)
    then have "entry_stored s' f y" using stored_kept [OF st k(1,4) y f] k(6) by simp
    then show ?thesis using False y f k(5) by simp
  qed
  moreover have "?n < length (fat_list s)" using storesD(6) [OF st] m e by (force simp: used_blocks_def)
  then have "used_blocks s' = used_blocks s - {?n}"
    using k(1,6) by (auto simp: used_blocks_def same_shape_def nth_list_update split: if_splits)
  moreover have "bij_betw (block_of (root_map s)) (dom m - {p}) (used_blocks s - {?n})"
    using bij_betw_less [OF d(4) p(1)] p(2) by simp
  then have "bij_betw (block_of (root_map s')) (dom m - {p}) (used_blocks s - {?n})"
    by (rule bij_betw_cong [THEN iffD1, rotated]) (simp add: block_of_def k(5))
  moreover have "dom (root_map s') = dom m - {p}" using stores_dom [OF st] k(5) by auto
  moreover have "slots_ok (host_at 0) s' [1]" using st k(4) by (simp add: stores_def others_kept_def)
  ultimately show ?thesis using k(2,3) d(3) by (auto simp: stores_def)
qed

lemma moved_stores:
  assumes st: "stores s m" and m: "m p = Some x" "m q = None" "plain_name q" and e: "root_map s p = Some e"
    and k: "same_shape s s'" "cwd_dir (host_at 0) s' [1]" "all_closed s'" "others_kept (host_at 0) [1] {} s s'"
    "root_map s' = (root_map s)(q \<mapsto> e', p := None)" "fat_list s' = fat_list s"
    and e': "de_type e' = de_type e" "de_perm e' = de_perm e" "de_first_block e' = de_first_block e" "de_size e' = de_size e"
  shows "stores s' (m(q \<mapsto> x, p := None))"
proof -
  note d = storesD [OF st]
  have pq: "p \<noteq> q" using m by auto
  have "rel_option (entry_stored s') (root_map s' r) ((m(q \<mapsto> x, p := None)) r)" for r
  proof -
    consider "r = p" | "r = q" | (other) "r \<noteq> p" "r \<noteq> q" by blast
    then show ?thesis
    proof cases
      case 2
      have "entry_stored s' e x" using stored_kept [OF st k(1,4) m(1) e] k(6) by simp
      then have "entry_stored s' e' x" using e' by (simp add: entry_stored_def)
      then show ?thesis using 2 k(5) pq by simp
    next
      case other
      show ?thesis
      proof (cases "m r")
        case None
        then show ?thesis using other d(5) [of r] k(5) by simp
      next
        case (Some y)
        obtain f where f: "root_map s r = Some f" using d(6) [OF Some] by blast
        have "entry_stored s' f y" using stored_kept [OF st k(1,4) Some f] k(6) by simp
        then show ?thesis using other Some f k(5) by simp
      qed
    qed (simp add: k(5))
  qed
  moreover have used: "used_blocks s' = used_blocks s" using k(1,6) by (simp add: used_blocks_def same_shape_def)
  moreover have "bij_betw (block_of (root_map s)) (dom m - {p}) (used_blocks s - {block_of (root_map s) p})"
    by (rule bij_betw_less [OF d(4)]) (use m(1) in auto)
  then have "bij_betw (block_of (root_map s')) (insert q (dom m - {p}))
      (insert (block_of (root_map s) p) (used_blocks s - {block_of (root_map s) p}))"
    by (rule bij_betw_more) (use m pq k(5) e e'(3) in \<open>auto simp: block_of_def\<close>)
  then have "bij_betw (block_of (root_map s')) (insert q (dom m - {p})) (used_blocks s)"
    using bij_betwE [OF d(4)] m(1) by (simp add: insert_absorb domI)
  moreover have "dom (root_map s') = insert q (dom m - {p})" using stores_dom [OF st] k(5) pq by auto
  moreover have "slots_ok (host_at 0) s' [1]" using st k(4) by (simp add: stores_def others_kept_def)
  ultimately show ?thesis using k(2,3) d(3) m(3) by (auto simp: stores_def split: if_splits)
qed

subsection \<open>Room\<close>

lemma room_for_host:
  assumes "good_host h" "good_host h'"
  shows "room_for h = room_for h'" "file_entered h = file_entered h'"
proof -
  note eq = good_hosts_same [OF assms]
  have "slot_chain h s bs = slot_chain h' s bs" for s bs
    by (induction bs) (simp_all add: eq split: option.split)
  then show "room_for h = room_for h'" by (intro ext) (simp add: room_for_def eq)
  show "file_entered h = file_entered h'" by (intro ext) (simp add: file_entered_def eq others_kept_host [OF assms])
qed

text \<open>Fewer files than the root block has slots: there is a free slot and a free block.\<close>

lemma stores_room:
  assumes st: "stores s m" and few: "card (dom m) < entries_per_block s" and p: "plain_name p" "m p = None"
  shows "room_for (host_at 0) s [1] p"
proof -
  let ?h = "host_at 0" and ?es = "block_entries (host_at 0) s 1"
  note d = storesD [OF st]
  note s = cwd_dirD [OF d(1)]
  have ok: "dir_ok ?h s (g_cwd_block s) [1]" using s(4) .
  have len: "length ?es = entries_per_block s"
    by simp
  have "\<exists>x\<in>set ?es. slot_free x"
  proof (rule ccontr)
    assume "\<not> (\<exists>x\<in>set ?es. slot_free x)"
    then have "filter live ?es = ?es" using st by (auto simp: stores_def slots_ok_def filter_id_conv)
    then have ce: "chain_entries ?h s [1] = ?es"
      using ok by (simp add: chain_entries_def dir_ok_def live_entries_tidy)
    then have "distinct (map dname ?es)" using ok by (simp add: dir_ok_def)
    then have "card (dname ` set ?es) = entries_per_block s" using len distinct_card [of "map dname ?es"] by simp
    moreover have "dom (root_map s) = dname ` set ?es"
      using dir_map_Some [OF ok] ce by (auto simp: root_map_def dom_def)
    ultimately show False using few stores_dom [OF st] by simp
  qed
  then obtain i where "find_idx slot_free ?es = Some i" using find_idx_ex [of _ ?es slot_free] by blast
  then have slot: "slot_chain ?h s [1] \<noteq> None" by simp
  have "\<exists>n. 2 \<le> n \<and> n < fat_entries s \<and> fat_list s ! n = FAT_FREE"
  proof (rule ccontr)
    assume "\<not> ?thesis"
    then have "used_blocks s = {2..<fat_entries s}" by (auto simp: used_blocks_def)
    then have "card (dom m) = fat_entries s - 2" using bij_betw_same_card [OF d(4)] by simp
    moreover have "fat_entries s = 32 * entries_per_block s"
      using entries_per_block_double(1) [OF s(2)] fat_entries_double [OF s(2)] s(3) by simp
    ultimately show False using few entries_per_block_double(2) [OF s(2)] by linarith
  qed
  then show ?thesis
    using d(1,2) p slot d(5) [of p] by (simp add: room_for_def root_map_def)
qed

text \<open>The fresh image stores nothing.\<close>

lemma stores_fresh:
  assumes "cfg \<le> 4" "g_cwd_block s = 1"
  shows "stores (mounted_fresh name 1 cfg s) Map.empty"
proof -
  let ?s = "mounted_fresh name 1 cfg s" and ?h = "host_at 0"
  have nb: "(1::nat) \<le> 1" "(1::nat) \<le> 32" by simp_all
  note g = geom_mounted_fresh [OF nb assms(1), of name s] and d = cwd_dir_fresh [OF good_host_at assms, of 0 name]
  have ib: "1 < image_blocks ?s" using fat_blocks_inside(1) [OF g(1)] g(3) by simp
  have "read_block ?h ?s 1 = Some (replicate (g_block_size ?s) NUL)"
    using fresh_block [OF good_host_at nb assms(1) _ ib] by (simp add: mounted_fresh_def)
  then have "block_entries ?h ?s 1 = replicate (entries_per_block ?s) zero_dirent"
    using dir_entries_zeros [OF g(1)] by (simp add: block_entries_def)
  then have slots: "slots_ok ?h ?s [1]" by (auto simp: slots_ok_def slot_free_def)
  have used: "used_blocks ?s = {}" using fresh_fat [OF nb assms(1)] g(2) by (auto simp: used_blocks_def)
  have "all_closed ?s" by (simp add: all_closed_def mounted_fresh_def zero_fd_def zero_sysfile_def)
  then show ?thesis using d slots used by (simp add: stores_def root_map_def bij_betw_def)
qed

end
