(* ===== verification/CopyTheorems.thy ===== *)
theory CopyTheorems
  imports FileMap Examples KernelTheorems
begin

text \<open>
  The commands that move whole files: \<open>cat\<close> of both command lines shows the bytes of the file, and the standalone
  program's \<open>cp\<close> brings a host file in, from where \<open>cat\<close> shows it and \<open>cp\<close> brings it out again.
\<close>

subsection \<open>Copying to the host\<close>

definition cp_get :: "int \<Rightarrow> string \<times> pennfat \<Rightarrow> ((int \<times> string) \<times> string \<times> pennfat) option" where
  "cp_get fd u = map_option (\<lambda>(r, p). (r, fst u, p)) (pf_read fd (snd u))"

definition cp_put :: "string \<Rightarrow> string \<times> pennfat \<Rightarrow> string \<times> pennfat" where
  "cp_put buf u = (fst u @ buf, snd (pf_put buf (snd u)))"

definition cp_run :: "string \<Rightarrow> string \<Rightarrow> int \<Rightarrow> string \<times> pennfat \<Rightarrow> (string \<times> pennfat) option" where
  "cp_run src dest fd u = (case cp_to_loop src dest fd (fst u) (snd u) of Some ((r, w), p) \<Rightarrow> if r = 0 then Some (w, p) else None
     | None \<Rightarrow> None)"

interpretation pf_cp_out: byte_copy "cp_get (int k)" cp_put "cp_run src dest (int k)"
  "\<lambda>u. pf_reading s p f xs j k (snd u)" "\<lambda>u. bytes_left s f xs k (pf_fs (snd u))" fst
  "\<lambda>u. (pf_err (snd u), pf_out (snd u), pf_stdin (snd u), pf_host (snd u), pf_fwrite (snd u))" for src dest s p f xs j k
proof
  show "\<exists>buf u1. cp_get (int k) u = Some ((int (length buf), buf), u1) \<and> pf_reading s p f xs j k (snd u1) \<and>
      bytes_left s f xs k (pf_fs (snd u)) = buf @ bytes_left s f xs k (pf_fs (snd u1)) \<and>
      (buf = [] \<longrightarrow> bytes_left s f xs k (pf_fs (snd u)) = []) \<and> fst u1 = fst u \<and>
      (pf_err (snd u1), pf_out (snd u1), pf_stdin (snd u1), pf_host (snd u1), pf_fwrite (snd u1)) =
        (pf_err (snd u), pf_out (snd u), pf_stdin (snd u), pf_host (snd u), pf_fwrite (snd u))"
    if g: "pf_reading s p f xs j k (snd u)" for u
  proof -
    obtain buf s1 where r: "pf_read (int k) (snd u) = Some ((int (length buf), buf), (snd u)\<lparr>pf_fs := s1, pf_calls := pf_calls (snd u) + 1\<rparr>)"
      "reading s p f xs j k s1" "bytes_left s f xs k (pf_fs (snd u)) = buf @ bytes_left s f xs k s1"
      "buf = [] \<longrightarrow> bytes_left s f xs k (pf_fs (snd u)) = []" using pf_chunk [OF g] by blast
    then show ?thesis using g
      by (intro exI [of _ buf] exI [of _ "(fst u, (snd u)\<lparr>pf_fs := s1, pf_calls := pf_calls (snd u) + 1\<rparr>)"])
        (simp add: pf_reading_def cp_get_def)
  qed
  show "cp_run src dest (int k) u = Some u1" if "cp_get (int k) u = Some ((0, []), u1)" for u u1
    using that by (auto simp: cp_run_def cp_get_def cp_to_loop.simps [of src dest "int k" "fst u" "snd u"])
  show "cp_run src dest (int k) u = cp_run src dest (int k) (cp_put buf u1)"
    if g: "pf_reading s p f xs j k (snd u)" and r: "cp_get (int k) u = Some ((int (length buf), buf), u1)"
      and g1: "pf_reading s p f xs j k (snd u1)" and n: "buf \<noteq> []" for u u1 buf
  proof -
    have "length buf \<le> BUFSIZE" using pf_chunk [OF g] r by (auto simp: cp_get_def)
    then have "length buf \<le> pf_fwrite (snd u1) (pf_fwrites (snd u1))" using g1 by (meson le_trans pf_reading_def)
    then show ?thesis using r n
      by (auto simp: cp_run_def cp_get_def cp_put_def pf_put_def cp_to_loop.simps [of src dest "int k" "fst u" "snd u"])
  qed
qed (simp_all add: pf_reading_def cp_put_def pf_put_def)

lemma cp_out:
  assumes "\<forall>n. good_host (pf_host u n)" "\<forall>n. BUFSIZE \<le> pf_fwrite u n" "file_at (pf_fs u) p f xs" "free_slots (pf_fs u) j k"
    "pf_fopen_w u dest"
  shows "\<exists>v off. cp_to_host p dest u = Some (0, v) \<and> pf_err v = pf_err u \<and>
    pf_fs v = put_file dest (file_data (pf_fs u) f xs) (closed_at (pf_fs u) j k off)"
proof -
  let ?s = "pf_fs u" and ?h = "pf_host u (pf_calls u)"
  let ?u1 = "u\<lparr>pf_fs := opened_at ?s f j k 0, pf_calls := pf_calls u + 1\<rparr>"
  have g: "good_host ?h" using assms(1) by blast
  have o: "pf_open p K_O_RDONLY u = Some (int k, ?u1)"
    using open_existing [OF g assms(3,4)] by (simp add: pf_open_def pf_call_def)
  have r: "pf_reading ?s p f xs j k ?u1"
    using assms opened_reading [OF assms(3,4)] by (simp add: pf_reading_def)
  have all: "bytes_left ?s f xs k (opened_at ?s f j k 0) = file_data ?s f xs"
    by (simp add: bytes_left_def opened_offset [OF assms(4)])
  obtain v where v: "cp_to_loop p dest (int k) [] ?u1 = Some ((0, file_data ?s f xs), v)" "pf_reading ?s p f xs j k v"
    "pf_err v = pf_err u"
    using pf_cp_out.shows_all [of _ p f xs j k "([], ?u1)" p dest, simplified, OF r [simplified]] all
    by (auto simp: cp_run_def split: option.splits if_splits)
  obtain off where off: "pf_fs v = opened_at ?s f j k off" "good_host (pf_host v (pf_calls v))"
    using v(2) by (auto simp: pf_reading_def reading_def)
  have cl: "pf_close (int k) v = Some (err_code PennFatErr_SUCCESS, v\<lparr>pf_fs := closed_at ?s j k off, pf_calls := pf_calls v + 1\<rparr>)"
    using close_opened [OF off(2) assms(3,4), of off] by (simp add: pf_close_def pf_call_def off(1))
  show ?thesis
    by (intro exI [of _ "v\<lparr>pf_fs := put_file dest (file_data ?s f xs) (closed_at ?s j k off), pf_calls := pf_calls v + 1\<rparr>"]
        exI [of _ off]) (simp add: cp_to_host_def o assms(5) v(1) [simplified] v(3) cl [simplified])
qed

subsection \<open>Copying from the host\<close>

lemma create_mode: "is_valid_mode (K_O_CREATE OR K_O_WRONLY)" "HAS_CREATE (K_O_CREATE OR K_O_WRONLY)"
    "\<not> HAS_APPEND (K_O_CREATE OR K_O_WRONLY)" "\<not> HAS_READ (K_O_CREATE OR K_O_WRONLY)"
  by (simp_all add: mode_defs)

lemma cp_in:
  assumes g: "\<forall>n. good_host (pf_host u n)" and d: "host_files (pf_fs u) src = Some data" and e: "\<not> pf_ferror u src"
    and r: "room_for (host_at 0) (pf_fs u) bs p" and l: "data \<noteq> []" "length data \<le> g_block_size (pf_fs u)"
  shows "\<exists>s' n. cp_from_host src p u = Some (0, u\<lparr>pf_fs := s', pf_calls := pf_calls u + 3\<rparr>) \<and>
    file_entered (host_at 0) bs p data n (pf_fs u) s'"
proof -
  let ?h = "\<lambda>n. pf_host u (pf_calls u + n)"
  have gh: "good_host (?h n)" for n using g by blast
  obtain s1 s2 s3 n where s: "k_open (?h 0) (Some p) (K_O_CREATE OR K_O_WRONLY) (pf_fs u) = Some (0, s1)"
    "k_write (?h 1) 0 data (int (length data)) s1 = Some (int (length data), s2)"
    "k_close (?h 2) 0 s2 = (err_code PennFatErr_SUCCESS, s3)" "file_entered (?h 0) bs p data n (pf_fs u) s3"
    using store_new_file [OF r [folded room_for_host(1) [OF gh [of 0] good_host_at]] l gh gh gh create_mode] by blast
  have "length data \<le> BUFSIZE"
    using r l(2) geom_block_size cwd_dirD(2) by (fastforce simp: room_for_def BUFSIZE_def)
  then have "cp_from_loop p 0 data (u\<lparr>pf_fs := s1, pf_calls := pf_calls u + 1\<rparr>) =
      Some (0, u\<lparr>pf_fs := s2, pf_calls := pf_calls u + 2\<rparr>)"
    using s(2) l(1) by (simp add: cp_from_loop.simps [of _ _ data] cp_from_loop.simps [of _ _ "[]"] pf_write_def pf_call_def)
  then have "cp_from_host src p u = Some (0, u\<lparr>pf_fs := s3, pf_calls := pf_calls u + 3\<rparr>)"
    using d e s(1,3) by (simp add: cp_from_host_def pf_open_def pf_close_def pf_call_def)
  moreover have "file_entered (host_at 0) bs p data n (pf_fs u) s3"
    using s(4) by (simp only: room_for_host(2) [OF gh [of 0] good_host_at [of 0]])
  ultimately show ?thesis by blast
qed

subsection \<open>A fresh image\<close>

definition image_with :: "string \<Rightarrow> string \<Rightarrow> fs" where
  "image_with src data = mounted_fresh ''d'' 1 0 (put_file src data made_fs)"

lemma image_with_facts [simp]:
  "stores (image_with src data) Map.empty" "host_files (image_with src data) src = Some data"
  "g_fs_fd (image_with src data) = Some ''d''" "g_block_size (image_with src data) = 256"
  "entries_per_block (image_with src data) = 4"
proof -
  have "g_cwd_block (put_file src data made_fs) = 1" by (simp add: made_fs_def init_fs_def put_file_def)
  then show "stores (image_with src data) Map.empty" unfolding image_with_def by (intro stores_fresh) simp_all
qed (simp_all add: image_with_def mounted_fresh_def put_file_def block_sizes_def entries_per_block_def)

text \<open>The standalone program on a file system, with lines to read, when all calls of the host succeed.\<close>

definition pennfat_on :: "fs \<Rightarrow> string \<Rightarrow> pennfat" where
  "pennfat_on s input = \<lparr>pf_fs = s, pf_host = (\<lambda>_. host_at 7), pf_calls = 0, pf_fwrite = (\<lambda>_. BUFSIZE), pf_fwrites = 0,
    pf_ferror = (\<lambda>_. False), pf_fopen_w = (\<lambda>_. True), pf_mem = (\<lambda>_. (True, True)), pf_lines = 0, pf_stdin = input,
    pf_stdin_error = False, pf_out = [], pf_err = []\<rparr>"

lemma pennfat_on_fields [simp]:
  "pf_fs (pennfat_on s i) = s" "pf_host (pennfat_on s i) n = host_at 7" "pf_fwrite (pennfat_on s i) n = BUFSIZE"
  "pf_ferror (pennfat_on s i) f = False" "pf_fopen_w (pennfat_on s i) f = True" "pf_stdin (pennfat_on s i) = i"
  "pf_out (pennfat_on s i) = []" "pf_err (pennfat_on s i) = []" "pf_mem (pennfat_on s i) n = (True, True)"
  by (simp_all add: pennfat_on_def)

subsection \<open>The commands\<close>

text \<open>C26 (functional). \<open>cat\<close> of the user shell on a readable file of the current directory, of any length, returns, shows
  exactly the bytes of the file, reports no error, and leaves the file system as it was but for the two
  table slots that it used, which are free again.\<close>

theorem user_cat_prints:
  assumes "\<forall>n. good_host (os_host u n)" "file_at (os_fs u) p f xs" "free_slots (os_fs u) j k"
  shows "\<exists>v off. cat [''cat'', p] u = Some v \<and> texts (os_out v) = texts (os_out u) @ file_data (os_fs u) f xs \<and>
    os_err v = os_err u \<and> os_fs v = closed_at (os_fs u) j k off"
  by (rule user_cat_file [OF assms])

theorem user_cat_prints_witness:
  "\<exists>u v f xs. file_at (os_fs u) ''f'' f xs \<and> cat [''cat'', ''f''] u = Some v \<and> texts (os_out v) = ''abc'' \<and> os_err v = []"
proof -
  obtain s1 s2 s n where en: "file_entered (host_at 0) [1] ''f'' ''abc'' n (image_with [] []) s"
    using store_new_file [OF stores_room [OF image_with_facts(1)] _ _ good_host_at good_host_at good_host_at create_mode,
        where p = "''f''" and data = "''abc''"] by force
  have st: "stores s [''f'' \<mapsto> ''abc'']" using entered_stores [OF image_with_facts(1) en] by simp
  obtain f xs where s: "file_at s ''f'' f xs" "file_data s f xs = ''abc''" by (rule stores_file_at [OF st, of "''f''" "''abc''"]) simp_all
  let ?u = "\<lparr>os_fs = s, os_kernel = child_kernel, os_errno = NoError, os_host = (\<lambda>_. host_at 7), os_calls = 0, os_out = [],
    os_err = []\<rparr>"
  obtain v off where "cat [''cat'', ''f''] ?u = Some v" "texts (os_out v) = ''abc''" "os_err v = []"
    using user_cat_prints [of ?u "''f''" f xs 0 0] s all_closed_free(1) [OF storesD(2) [OF st]] by auto
  then show ?thesis using s(1) by (intro exI [of _ ?u] exI [of _ v] exI [of _ f] exI [of _ xs]) simp
qed

text \<open>C25 (roundtrip). \<open>cp -h SRC F\<close> in the standalone program stores a host file of at most one block under a new name of
  the root directory, as long as this has fewer files than its block has slots; \<open>cat F\<close> then shows its bytes, and
  \<open>cp F -h DST\<close> writes them to the host file \<open>DST\<close>. None of the three reports an error. (Neither host file is
  the mounted image itself.)\<close>

theorem pennfat_copy_roundtrip:
  assumes "\<forall>n. good_host (pf_host u n)" "\<forall>n. BUFSIZE \<le> pf_fwrite u n" "\<not> pf_ferror u src" "pf_fopen_w u dst"
    "stores (pf_fs u) m" "card (dom m) < entries_per_block (pf_fs u)" "plain_name p" "m p = None" "p \<notin> {''-h'', ''-w'', ''-a''}"
    "host_files (pf_fs u) src = Some data" "data \<noteq> []" "length data \<le> g_block_size (pf_fs u)"
    "g_fs_fd (pf_fs u) \<notin> {Some src, Some dst}"
  shows "\<exists>v c w. pf_cp [''-h'', src, p] u = Some (0, v) \<and> pf_err v = pf_err u \<and> stores (pf_fs v) (m(p \<mapsto> data)) \<and>
    pf_cat [p] v = Some c \<and> words_shown (pf_out c) = words_shown (pf_out u) @ data \<and> pf_err c = pf_err u \<and>
    pf_cp [p, ''-h'', dst] v = Some (0, w) \<and> host_files (pf_fs w) = (host_files (pf_fs u))(dst \<mapsto> data) \<and> pf_err w = pf_err u"
proof -
  obtain s' n where i: "cp_from_host src p u = Some (0, u\<lparr>pf_fs := s', pf_calls := pf_calls u + 3\<rparr>)"
    "file_entered (host_at 0) [1] p data n (pf_fs u) s'"
    using cp_in [OF assms(1,10,3) stores_room [OF assms(5-8)] assms(11,12)] by blast
  let ?v = "u\<lparr>pf_fs := s', pf_calls := pf_calls u + 3\<rparr>"
  have st: "stores s' (m(p \<mapsto> data))" by (rule entered_stores [OF assms(5) i(2) assms(7,8)])
  obtain f xs where fa: "file_at (pf_fs ?v) p f xs" "file_data s' f xs = data" by (rule stores_file_at [OF st, of p data]) simp_all
  have sl: "free_slots (pf_fs ?v) 0 0" using all_closed_free(1) [OF storesD(2) [OF st]] by simp
  have v: "\<forall>n. good_host (pf_host ?v n)" "\<forall>n. BUFSIZE \<le> pf_fwrite ?v n" "pf_fopen_w ?v dst" using assms(1,2,4) by simp_all
  have ne: "p \<noteq> ''-w''" "p \<noteq> ''-a''" "p \<noteq> ''-h''" using assms(9) by simp_all
  obtain c off where c: "pf_cat [p] ?v = Some c" "words_shown (pf_out c) = words_shown (pf_out u) @ data" "pf_err c = pf_err u"
    using pf_cat_one [OF v(1,2) fa(1) sl ne(1,2)] fa(2) by (auto simp: pf_world_def)
  obtain w off' where w: "cp_to_host p dst ?v = Some (0, w)" "pf_err w = pf_err u" "pf_fs w = put_file dst data (closed_at s' 0 0 off')"
    using cp_out [OF v(1,2) fa(1) sl v(3)] fa(2) by auto
  have "host_files (pf_fs w) = (host_files (pf_fs u))(dst \<mapsto> data)"
    using i(2) by (simp add: w(3) put_file_def closed_at_def set_fd_def set_sysfile_def file_entered_def same_shape_def)
  then show ?thesis using i(1) c w(1,2) ne(3) st by (intro exI [of _ ?v] exI [of _ c] exI [of _ w]) (simp add: pf_cp_def)
qed

theorem pennfat_copy_roundtrip_witness:
  "\<exists>u v c w. pf_cp [''-h'', ''s'', ''f''] u = Some (0, v) \<and> pf_cat [''f''] v = Some c \<and> words_shown (pf_out c) = ''abc'' \<and>
    pf_cp [''f'', ''-h'', ''t''] v = Some (0, w) \<and> host_files (pf_fs w) ''t'' = Some ''abc''"
proof -
  obtain v c w where "pf_cp [''-h'', ''s'', ''f''] (pennfat_on (image_with ''s'' ''abc'') []) = Some (0, v)"
    "pf_cat [''f''] v = Some c" "words_shown (pf_out c) = ''abc''"
    "pf_cp [''f'', ''-h'', ''t''] v = Some (0, w)" "host_files (pf_fs w) ''t'' = Some ''abc''"
    using pennfat_copy_roundtrip [of "pennfat_on (image_with ''s'' ''abc'') []" "''s''" "''t''" Map.empty "''f''" "''abc''"]
    by auto
  then show ?thesis by blast
qed

end
