(* ===== verification/PennFatSession.thy ===== *)
theory PennFatSession
  imports CopyTheorems ShellTheorems
begin

text \<open>
  A whole session with the standalone program: the lines that are typed, the program's loop, its command line parser, the
  commands and the file system, against a map from names to contents.
\<close>

subsection \<open>The specification\<close>

datatype request = Put string string | Touch string | Remove string | Move string string | Show string

fun request_words :: "request \<Rightarrow> string list" where
  "request_words (Put src p) = [''cp'', ''-h'', src, p]"
| "request_words (Touch p) = [''touch'', p]"
| "request_words (Remove p) = [''rm'', p]"
| "request_words (Move p q) = [''mv'', p, q]"
| "request_words (Show p) = [''cat'', p]"

definition simple_command :: "string list \<Rightarrow> parsed_command" where
  "simple_command ws = \<lparr>is_background = False, is_file_append = False, stdin_file = None, stdout_file = None, commands = [ws]\<rparr>"

definition typed :: "string list \<Rightarrow> string" where "typed ws = print_parsed_command (simple_command ws)"

text \<open>
  What stays during a session: the name of the image, the host's files that may be copied, the slots of the directory and the size of a block,
  the messages so far, the first entry of the FAT, and the copy of the root block that was taken when mounting.
\<close>

record service =
  sv_image :: string
  sv_files :: "string \<Rightarrow> string option"
  sv_slots :: nat
  sv_room :: nat
  sv_errors :: "string list"
  sv_super :: "16 word"
  sv_root :: string

text \<open>What a request does to the map, and what it shows. \<^const>\<open>None\<close>: not specified here.\<close>

fun perform :: "service \<Rightarrow> request \<Rightarrow> (string \<Rightarrow> string option) \<Rightarrow> ((string \<Rightarrow> string option) \<times> string) option" where
  "perform sv (Put src p) m =
    (case sv_files sv src of None \<Rightarrow> None
     | Some x \<Rightarrow> if plain_name p \<and> m p = None \<and> card (dom m) < sv_slots sv \<and> x \<noteq> [] \<and> length x \<le> sv_room sv
         then Some (m(p \<mapsto> x), []) else None)"
| "perform sv (Touch p) m =
    (if plain_name p \<and> m p = None \<and> card (dom m) < sv_slots sv then Some (m(p \<mapsto> []), []) else None)"
| "perform sv (Remove p) m = (if m p = None then None else Some (m(p := None), []))"
| "perform sv (Move p q) m =
    (case m p of None \<Rightarrow> None
     | Some x \<Rightarrow> if plain_name q \<and> m q = None \<and> card (dom m) < sv_slots sv then Some (m(q \<mapsto> x, p := None), []) else None)"
| "perform sv (Show p) m =
    (if p \<in> {''-w'', ''-a''} then None else map_option (\<lambda>x. (m, x)) (m p))"

definition typable :: "string list \<Rightarrow> bool" where
  "typable ws \<longleftrightarrow> ws \<noteq> [] \<and> list_all wf_word ws \<and> length (typed ws) < MAX_CMD_LENGTH"

definition specified where
  "specified sv r m = (if typable (request_words r) then perform sv r m else None)"

fun session where
  "session step [] m = Some (m, [])"
| "session step (r # rs) m =
    do { (m1, t) \<leftarrow> step r m; (m2, ts) \<leftarrow> session step rs m1; Some (m2, t @ ts) }"

subsection \<open>Programs that serve lines\<close>

locale line_server =
  fixes loop :: "'u \<Rightarrow> 'r option"
    and input :: "'u \<Rightarrow> string"
    and shown :: "'u \<Rightarrow> string"
    and line :: "'c \<Rightarrow> string"
    and step :: "'c \<Rightarrow> 'm \<Rightarrow> ('m \<times> string) option"
    and rel :: "'u \<Rightarrow> 'm \<Rightarrow> bool"
  assumes serves_one: "rel u m \<Longrightarrow> step c m = Some (m', t) \<Longrightarrow> input u = line c @ rest \<Longrightarrow>
    \<exists>v. loop u = loop v \<and> rel v m' \<and> input v = rest \<and> shown v = shown u @ t"
begin

lemma serves_all:
  "rel u m \<Longrightarrow> session step cs m = Some (m', t) \<Longrightarrow> input u = concat (map line cs) @ rest \<Longrightarrow>
    \<exists>v. loop u = loop v \<and> rel v m' \<and> input v = rest \<and> shown v = shown u @ t"
proof (induction cs arbitrary: u m t)
  case Nil
  then show ?case by auto
next
  case (Cons c cs)
  obtain m1 t1 t2 where s: "step c m = Some (m1, t1)" "session step cs m1 = Some (m', t2)" "t = t1 @ t2"
    using Cons.prems(2) by (auto simp: Option.bind_eq_Some_conv)
  obtain v where v: "loop u = loop v" "rel v m1" "input v = concat (map line cs) @ rest" "shown v = shown u @ t1"
    using serves_one [OF Cons.prems(1) s(1)] Cons.prems(3) by auto
  show ?case using Cons.IH [OF v(2) s(2) v(3)] v(1,4) s(3) by auto
qed

end

subsection \<open>Reading and parsing a line\<close>

lemma line_of_line:
  assumes "CHR 0x0A \<notin> set l" "length l < n"
  shows "line_of n (l @ CHR 0x0A # rest) = l @ [CHR 0x0A]"
  using assms by (induction n l arbitrary: rule: line_of.induct) (auto simp: Suc_lessI split: nat.splits)

lemma typed_words: "typed ws = concat (map (\<lambda>w. w @ '' '') ws) @ [CHR 0x0A]"
  by (simp add: typed_def simple_command_def print_parsed_command_def print_stage_def)

lemma wf_word_chars:
  assumes "wf_word w"
  shows "CHR 0x0A \<notin> set w" "NUL \<notin> set w"
  using assms by (auto simp: wf_word_def word_char_def is_space_def)

lemma get_typed:
  assumes "typable ws" "pf_stdin u = typed ws @ rest"
  shows "get_cmd MAX_CMD_LENGTH u = Some (typed ws, u\<lparr>pf_stdin := rest\<rparr>)"
proof -
  let ?l = "concat (map (\<lambda>w. w @ '' '') ws)"
  have w: "\<forall>w\<in>set ws. CHR 0x0A \<notin> set w \<and> NUL \<notin> set w"
    using assms(1) wf_word_chars by (auto simp: typable_def list_all_iff)
  then have c: "CHR 0x0A \<notin> set ?l" "cstring (typed ws)" by (auto simp: typed_words cstring_def)
  have "length ?l < MAX_CMD_LENGTH - 1" using assms(1) by (simp add: typable_def typed_words less_diff_conv)
  then have "line_of (MAX_CMD_LENGTH - 1) (typed ws @ rest) = typed ws"
    using line_of_line [OF c(1), of "MAX_CMD_LENGTH - 1" rest] by (simp add: typed_words)
  moreover have "typed ws @ rest \<noteq> []" by (simp add: typed_words)
  ultimately show ?thesis
    using assms(2) c(2) by (simp add: get_cmd_def fgets_def Let_def)
qed

lemma run_typed:
  assumes "typable ws" "pf_mem u (pf_lines u) = (True, True)"
  shows "run_line (typed ws) u = map_option Inr (pf_command (hd ws) (tl ws) (u\<lparr>pf_lines := pf_lines u + 1\<rparr>))"
proof -
  have "wf_command (simple_command ws)"
    using assms(1) by (auto simp: wf_command_def simple_command_def typable_def list_all_iff)
  then obtain buf where "parse_command True True (typed ws) = Some (Inr (simple_command ws), buf)"
    using parse_print unfolding typed_def by blast
  moreover have "typed ws \<noteq> []" by (simp add: typed_words)
  moreover obtain c as where "ws = c # as" using assms(1) by (cases ws) (simp_all add: typable_def)
  ultimately show ?thesis
    using assms(2) by (simp add: run_line_def safe_parse_command_def simple_command_def)
qed

subsection \<open>The commands\<close>

definition serving :: "service \<Rightarrow> pennfat \<Rightarrow> (string \<Rightarrow> string option) \<Rightarrow> bool" where
  "serving sv u m \<longleftrightarrow> stores (pf_fs u) m \<and> pf_err u = sv_errors sv \<and>
     (\<forall>n. good_host (pf_host u n) \<and> BUFSIZE \<le> pf_fwrite u n \<and> pf_mem u n = (True, True)) \<and> (\<forall>f. \<not> pf_ferror u f) \<and>
     (\<forall>f x. sv_files sv f = Some x \<longrightarrow> host_files (pf_fs u) f = Some x \<and> f \<noteq> sv_image sv) \<and>
     g_fs_fd (pf_fs u) = Some (sv_image sv) \<and> sv_slots sv = entries_per_block (pf_fs u) \<and> sv_room sv = g_block_size (pf_fs u) \<and>
     fat_list (pf_fs u) ! 0 = sv_super sv \<and> g_root_dir (pf_fs u) = sv_root sv"

lemma same_shape_entries: "same_shape s s' \<Longrightarrow> entries_per_block s' = entries_per_block s"
  by (simp add: same_shape_def entries_per_block_def)

lemma serving_next:
  assumes "serving sv u m" "same_shape (pf_fs u) (pf_fs v)" "stores (pf_fs v) m'"
    "fat_list (pf_fs v) ! 0 = fat_list (pf_fs u) ! 0" "pf_world v = pf_world u \<or> pf_world v = pf_world (u\<lparr>pf_stdin := rest\<rparr>)"
  shows "serving sv v m'"
  using assms same_shape_entries [OF assms(2)] by (auto simp: serving_def same_shape_def pf_world_def)

lemma stores_fat_closed:
  assumes "stores s m"
  shows "fat_closed (fat_list s)"
  unfolding fat_closed_def
proof (intro allI impI)
  fix i assume i: "1 \<le> i \<and> i < length (fat_list s)"
  note d = storesD [OF assms]
  have "chain_end (fat_list s ! i)"
  proof (cases "i = 1 \<or> i \<notin> used_blocks s")
    case True
    then show ?thesis
      using i cwd_dirD(4) [OF d(1)] by (cases "i = 1") (auto simp: used_blocks_def dir_ok_def dir_chain_def chain_end_def)
  next
    case False
    then obtain p where p: "p \<in> dom m" "i = block_of (root_map s) p" using bij_betw_imp_surj_on [OF d(4)] by blast
    then obtain x e where "m p = Some x" "root_map s p = Some e" "entry_stored s e x" using d(6) by blast
    then show ?thesis using p(2) by (simp add: block_of_def entry_stored_def file_chain_def chain_end_def)
  qed
  then show "fat_list s ! i = FAT_EOC \<or> unat (fat_list s ! i) < length (fat_list s)"
    using i by (auto simp: chain_end_def FAT_FREE_def)
qed

lemma stores_closed_at:
  assumes "stores s m"
  shows "stores (closed_at s 0 0 off) m" "same_shape s (closed_at s 0 0 off)" "fat_list (closed_at s 0 0 off) = fat_list s"
proof -
  let ?s = "closed_at s 0 0 off"
  have e: "closed_at s 0 0 off = s\<lparr>g_fd_table := g_fd_table ?s, g_sysfile_table := g_sysfile_table ?s\<rparr>"
    by (simp add: closed_at_def set_fd_def set_sysfile_def)
  show sh: "same_shape s ?s" by (subst e) (simp add: same_shape_def)
  show "fat_list ?s = fat_list s" by (subst e) simp
  have "all_closed ?s"
    by (rule all_closed_again [OF storesD(2) [OF assms]]) (simp_all add: closed_at_def set_fd_def set_sysfile_def zero_sysfile_def)
  moreover have "cwd_dir h ?s = cwd_dir h s" "slots_ok h ?s = slots_ok h s" "root_map ?s = root_map s"
    "used_blocks ?s = used_blocks s" "entry_stored ?s = entry_stored s" for h
    by (subst e, (intro ext)?, simp add: slots_ok_def root_map_def used_blocks_def entry_stored_def file_chain_def file_bytes_def)+
  ultimately show "stores ?s m" using assms by (simp add: stores_def)
qed

text \<open>The calls on names, on a state that stores a map.\<close>

lemma cp_serves:
  assumes st: "serving sv u m" and p: "perform sv (Put src p) m = Some (m', t)"
  shows "\<exists>s'. pf_command ''cp'' [''-h'', src, p] u = Some (u\<lparr>pf_fs := s', pf_calls := pf_calls u + 3\<rparr>) \<and> same_shape (pf_fs u) s' \<and>
    fat_list s' ! 0 = fat_list (pf_fs u) ! 0 \<and> stores s' m' \<and> t = []"
proof -
  obtain x where x: "sv_files sv src = Some x" "plain_name p" "m p = None" "card (dom m) < sv_slots sv" "x \<noteq> []" "length x \<le> sv_room sv"
    "m' = m(p \<mapsto> x)" "t = []" using p by (auto split: option.splits if_splits)
  have s: "stores (pf_fs u) m" "\<forall>n. good_host (pf_host u n)" "host_files (pf_fs u) src = Some x" "\<not> pf_ferror u src"
    "card (dom m) < entries_per_block (pf_fs u)" "length x \<le> g_block_size (pf_fs u)"
    using st x by (auto simp: serving_def)
  obtain s' n where c: "cp_from_host src p u = Some (0, u\<lparr>pf_fs := s', pf_calls := pf_calls u + 3\<rparr>)"
    "file_entered (host_at 0) [1] p x n (pf_fs u) s'"
    using cp_in [OF s(2-4) stores_room [OF s(1,5) x(2,3)] x(5) s(6)] by blast
  have "stores s' m'" using entered_stores [OF s(1) c(2) x(2,3)] x(7) by simp
  then show ?thesis using c x(8) by (intro exI [of _ s']) (simp add: pf_command_def pf_cp_def report_def file_entered_def)
qed

lemma touch_serves:
  assumes st: "serving sv u m" and p: "perform sv (Touch p) m = Some (m', t)"
  shows "\<exists>s'. pf_command ''touch'' [p] u = Some (u\<lparr>pf_fs := s', pf_calls := pf_calls u + 1\<rparr>) \<and> same_shape (pf_fs u) s' \<and>
    fat_list s' ! 0 = fat_list (pf_fs u) ! 0 \<and> stores s' m' \<and> t = []"
proof -
  let ?h = "pf_host u (pf_calls u)"
  have x: "plain_name p" "m p = None" "card (dom m) < sv_slots sv" "m' = m(p \<mapsto> [])" "t = []" using p by (auto split: if_splits)
  have s: "stores (pf_fs u) m" "good_host ?h" "card (dom m) < entries_per_block (pf_fs u)" using st x by (auto simp: serving_def)
  note eq = room_for_host [OF s(2) good_host_at [of 0]]
  obtain s' n where c: "k_touch ?h (Some p) (pf_fs u) = Some (PennFatErr_OK, s')" "file_entered (host_at 0) [1] p [] n (pf_fs u) s'"
    using touch_enters [of ?h, unfolded eq, OF stores_room [OF s(1,3) x(1,2)] s(2)] by blast
  have "stores s' m'" using entered_stores [OF s(1) c(2) x(1,2)] x(4) by simp
  then show ?thesis using c x(5) by (intro exI [of _ s']) (simp add: pf_command_def pf_call_def file_entered_def)
qed

lemma rm_serves:
  assumes st: "serving sv u m" and p: "perform sv (Remove p) m = Some (m', t)"
  shows "\<exists>s'. pf_command ''rm'' [p] u = Some (u\<lparr>pf_fs := s', pf_calls := pf_calls u + 1\<rparr>) \<and> same_shape (pf_fs u) s' \<and>
    fat_list s' ! 0 = fat_list (pf_fs u) ! 0 \<and> stores s' m' \<and> t = []"
proof -
  let ?h = "pf_host u (pf_calls u)" and ?s = "pf_fs u"
  have x: "m p \<noteq> None" "m' = m(p := None)" "t = []" using p by (auto split: if_splits)
  have s: "stores ?s m" "good_host ?h" using st by (auto simp: serving_def)
  note d = storesD [OF s(1)] and eq = good_hosts_same [OF s(2) good_host_at [of 0]] others_kept_host [OF s(2) good_host_at [of 0]]
  obtain y e where e: "root_map ?s p = Some e" "entry_stored ?s e y" "unat (de_first_block e) \<in> used_blocks ?s"
    using d(6) x(1) by blast
  have p: "plain_name p" "dir_map (host_at 0) ?s [1] p = Some e" "de_first_block e \<notin> set [1]"
    using d(3) x(1) e(1,3) by (auto simp: root_map_def used_blocks_def)
  obtain s' where c: "k_unlink ?h (Some p) ?s = Some (PennFatErr_OK, s')" "same_shape ?s s'" "cwd_dir (host_at 0) s' [1]" "all_closed s'"
    "root_map s' = (root_map ?s)(p := None)" "fat_list s' = (fat_list ?s)[unat (de_first_block e) := FAT_FREE]"
    "others_kept (host_at 0) [1] {} ?s s'"
    using unlink_removes [of ?h, unfolded eq, OF s(2) d(1) p(1,2) e(2) d(2) stores_fat_closed [OF s(1)] p(3)]
    by (auto simp: root_map_def)
  have "stores s' m'" using removed_stores [OF s(1) x(1) e(1) c(2-4,7,5,6)] x(2) by simp
  moreover have "0 < unat (de_first_block e)" using e(3) by (simp add: used_blocks_def)
  ultimately show ?thesis using c(1,2,6) x(3) by (intro exI [of _ s']) (simp add: pf_command_def pf_call_def)
qed

lemma mv_serves:
  assumes st: "serving sv u m" and p: "perform sv (Move p q) m = Some (m', t)"
  shows "\<exists>s'. pf_command ''mv'' [p, q] u = Some (u\<lparr>pf_fs := s', pf_calls := pf_calls u + 1\<rparr>) \<and> same_shape (pf_fs u) s' \<and>
    fat_list s' ! 0 = fat_list (pf_fs u) ! 0 \<and> stores s' m' \<and> t = []"
proof -
  let ?h = "pf_host u (pf_calls u)" and ?s = "pf_fs u"
  obtain y where x: "m p = Some y" "plain_name q" "m q = None" "card (dom m) < sv_slots sv" "m' = m(q \<mapsto> y, p := None)" "t = []"
    using p by (auto split: if_splits option.splits)
  have s: "stores ?s m" "good_host ?h" "card (dom m) < entries_per_block ?s" using st x by (auto simp: serving_def)
  note d = storesD [OF s(1)] and eq = good_hosts_same [OF s(2) good_host_at [of 0]] others_kept_host [OF s(2) good_host_at [of 0]]
  obtain e where e: "root_map ?s p = Some e" "entry_stored ?s e y" using d(6) [OF x(1)] by blast
  have "room_for ?h ?s [1] q" using stores_room [OF s(1,3) x(2,3)] by (simp only: room_for_host(1) [OF s(2) good_host_at [of 0]])
  then have slh: "slot_chain ?h ?s [1] \<noteq> None" by (simp add: room_for_def del: slot_chain.simps)
  have p: "plain_name p" "dir_map (host_at 0) ?s [1] p = Some e" "dir_map (host_at 0) ?s [1] q = None" "p \<noteq> q" "de_type e \<noteq> 4"
    using d(3) d(5) [of q] x(1,3) e by (auto simp: root_map_def entry_stored_def)
  let ?e = "e\<lparr>de_name := name_field q, de_mtime := h_now ?h\<rparr>"
  obtain s' where c: "k_rename ?h (Some p) (Some q) ?s = Some (PennFatErr_OK, s')" "same_shape ?s s'" "cwd_dir (host_at 0) s' [1]"
    "all_closed s'" "root_map s' = (root_map ?s)(q \<mapsto> ?e, p := None)" "fat_list s' = fat_list ?s"
    "others_kept (host_at 0) [1] {} ?s s'"
    using rename_moves [of ?h, unfolded eq, OF s(2) d(1) p(1) x(2) p(4,2,3,5) slh d(2)] by (auto simp: root_map_def)
  have "stores s' m'"
    using moved_stores [OF s(1) x(1,3,2) e(1) c(2-4,7,5,6)] x(5) by simp
  then show ?thesis using c(1,2,6) x(6) by (intro exI [of _ s']) (simp add: pf_command_def pf_call_def report_def)
qed

lemma cat_serves:
  assumes st: "serving sv u m" and p: "perform sv (Show p) m = Some (m', t)"
  shows "\<exists>v. pf_command ''cat'' [p] u = Some v \<and> same_shape (pf_fs u) (pf_fs v) \<and>
    fat_list (pf_fs v) ! 0 = fat_list (pf_fs u) ! 0 \<and> stores (pf_fs v) m' \<and> pf_world v = pf_world u \<and> words_shown (pf_out v) = words_shown (pf_out u) @ t"
proof -
  have x: "m p = Some t" "m' = m" "p \<noteq> ''-w''" "p \<noteq> ''-a''" using p by (auto split: if_splits)
  have s: "stores (pf_fs u) m" "\<forall>n. good_host (pf_host u n)" "\<forall>n. BUFSIZE \<le> pf_fwrite u n" using st by (auto simp: serving_def)
  obtain f xs where f: "file_at (pf_fs u) p f xs" "file_data (pf_fs u) f xs = t" by (rule stores_file_at [OF s(1) x(1)])
  obtain v off where v: "pf_cat [p] u = Some v" "words_shown (pf_out v) = words_shown (pf_out u) @ t" "pf_world v = pf_world u"
    "pf_fs v = closed_at (pf_fs u) 0 0 off"
    using pf_cat_one [OF s(2,3) f(1) all_closed_free(1) [OF storesD(2) [OF s(1)]] x(3,4)] f(2) by auto
  show ?thesis using v x(2) stores_closed_at [OF s(1), of off] by (simp add: pf_command_def)
qed

lemma command_serves:
  assumes "serving sv u m" "perform sv r m = Some (m', t)"
  shows "\<exists>v. pf_command (hd (request_words r)) (tl (request_words r)) u = Some v \<and> serving sv v m' \<and>
    pf_stdin v = pf_stdin u \<and> words_shown (pf_out v) = words_shown (pf_out u) @ t"
proof -
  have "\<exists>v. pf_command (hd (request_words r)) (tl (request_words r)) u = Some v \<and> same_shape (pf_fs u) (pf_fs v) \<and>
      fat_list (pf_fs v) ! 0 = fat_list (pf_fs u) ! 0 \<and> stores (pf_fs v) m' \<and> pf_world v = pf_world u \<and> words_shown (pf_out v) = words_shown (pf_out u) @ t"
  proof (cases r)
    case (Put src p)
    then show ?thesis using cp_serves [OF assms(1), of src p m' t] assms(2) by auto
  next
    case (Touch p)
    then show ?thesis using touch_serves [OF assms(1), of p m' t] assms(2) by auto
  next
    case (Remove p)
    then show ?thesis using rm_serves [OF assms(1), of p m' t] assms(2) by auto
  next
    case (Move p q)
    then show ?thesis using mv_serves [OF assms(1), of p q m' t] assms(2) by auto
  next
    case (Show p)
    then show ?thesis using cat_serves [OF assms(1), of p m' t] assms(2) by auto
  qed
  then obtain v where v: "pf_command (hd (request_words r)) (tl (request_words r)) u = Some v" "same_shape (pf_fs u) (pf_fs v)"
      "stores (pf_fs v) m'" "fat_list (pf_fs v) ! 0 = fat_list (pf_fs u) ! 0" "pf_world v = pf_world u" "words_shown (pf_out v) = words_shown (pf_out u) @ t" by blast
  moreover have "pf_stdin v = pf_stdin u" using v(5) by (simp add: pf_world_def)
  ultimately show ?thesis using serving_next [OF assms(1) v(2-4)] by blast
qed

interpretation pennfat: line_server main_loop pf_stdin "\<lambda>u. words_shown (pf_out u)" "\<lambda>r. typed (request_words r)"
  "specified sv" "serving sv" for sv
proof
  fix u m r m' t rest
  assume u: "serving sv u m" and r: "specified sv r m = Some (m', t)"
    and i: "pf_stdin u = typed (request_words r) @ rest"
  have ty: "typable (request_words r)" and p: "perform sv r m = Some (m', t)"
    using r by (auto simp: specified_def split: if_splits)
  let ?u1 = "u\<lparr>pf_stdin := rest\<rparr>"
  let ?u2 = "?u1\<lparr>pf_lines := pf_lines u + 1\<rparr>"
  have "serving sv ?u2 m" using u by (simp add: serving_def)
  then obtain v where v: "pf_command (hd (request_words r)) (tl (request_words r)) ?u2 = Some v" "serving sv v m'"
    "pf_stdin v = rest" "words_shown (pf_out v) = words_shown (pf_out u) @ t"
    using command_serves [OF _ p, of ?u2] by auto
  have "pf_mem ?u1 (pf_lines ?u1) = (True, True)" using u by (simp add: serving_def)
  then have "run_line (typed (request_words r)) ?u1 = Some (Inr v)"
    using run_typed [OF ty, of ?u1] v(1) by simp
  then have "main_loop u = main_loop v"
    using get_typed [OF ty i] by (subst main_loop.simps) simp
  then show "\<exists>v. main_loop u = main_loop v \<and> serving sv v m' \<and> pf_stdin v = rest \<and>
      words_shown (pf_out v) = words_shown (pf_out u) @ t" using v(2-4) by blast
qed

subsection \<open>Formatting and mounting\<close>

lemma run_one_line:
  assumes "typable ws" "pf_stdin u = typed ws @ rest" "\<forall>n. pf_mem u n = (True, True)"
    "pf_command (hd ws) (tl ws) (u\<lparr>pf_stdin := rest, pf_lines := pf_lines u + 1\<rparr>) = Some v"
  shows "main_loop u = main_loop v"
proof -
  have "run_line (typed ws) (u\<lparr>pf_stdin := rest\<rparr>) = Some (Inr v)"
    using run_typed [OF assms(1), of "u\<lparr>pf_stdin := rest\<rparr>"] assms(3,4) by simp
  then show ?thesis using get_typed [OF assms(1,2)] by (subst main_loop.simps) simp
qed

definition fresh_service :: "string \<Rightarrow> (string \<Rightarrow> string option) \<Rightarrow> nat \<Rightarrow> string list \<Rightarrow> service" where
  "fresh_service d files cfg errs = \<lparr>sv_image = d, sv_files = files, sv_slots = block_sizes ! cfg div 64, sv_room = block_sizes ! cfg, sv_errors = errs,
     sv_super = super_word 1 cfg, sv_root = replicate (block_sizes ! cfg) NUL\<rparr>"

lemma fresh_service_simps [simp]:
  "sv_image (fresh_service d files cfg errs) = d" "sv_files (fresh_service d files cfg errs) = files" "sv_slots (fresh_service d files cfg errs) = block_sizes ! cfg div 64"
  "sv_room (fresh_service d files cfg errs) = block_sizes ! cfg" "sv_errors (fresh_service d files cfg errs) = errs"
  "sv_super (fresh_service d files cfg errs) = super_word 1 cfg" "sv_root (fresh_service d files cfg errs) = replicate (block_sizes ! cfg) NUL"
  by (simp_all add: fresh_service_def)

lemma serving_fresh:
  assumes u: "\<forall>n. good_host (pf_host u n) \<and> BUFSIZE \<le> pf_fwrite u n \<and> pf_mem u n = (True, True)" "\<forall>f. \<not> pf_ferror u f"
    and f: "\<forall>f x. files f = Some x \<longrightarrow> host_files s f = Some x \<and> d \<noteq> f" and s: "g_cwd_block s = 1" "cfg \<le> 4"
    and fs: "pf_fs u = mounted_fresh d 1 cfg (put_file d img s)"
  shows "serving (fresh_service d files cfg (pf_err u)) u Map.empty"
proof -
  let ?s = "put_file d img s"
  have nb: "(1::nat) \<le> 1" "(1::nat) \<le> 32" by simp_all
  note g = geom_mounted_fresh [OF nb s(2), of d ?s] and sz = mkfs_sizes [OF nb s(2)]
  have "2 \<le> mkfs_fat_entries 1 (block_sizes ! cfg)" using sz(2) by simp
  then have "fat_list (mounted_fresh d 1 cfg ?s) ! 0 = super_word 1 cfg"
    using fat_list_fresh [OF nb s(2), of d ?s] by (simp add: mkfs_fat_array_def super_word_def)
  moreover have "stores (mounted_fresh d 1 cfg ?s) Map.empty" by (rule stores_fresh [OF s(2)]) (simp add: put_file_def s(1))
  moreover have "\<forall>f x. files f = Some x \<longrightarrow> host_files (pf_fs u) f = Some x \<and> f \<noteq> d"
  proof (intro allI impI)
    fix g x assume "files g = Some x"
    then have "host_files s g = Some x" "d \<noteq> g" using f by blast+
    then show "host_files (pf_fs u) g = Some x \<and> g \<noteq> d" using fs by (simp add: mounted_fresh_def put_file_def)
  qed
  moreover have "entries_per_block (pf_fs u) = block_sizes ! cfg div 64" "g_block_size (pf_fs u) = block_sizes ! cfg"
    "g_root_dir (pf_fs u) = replicate (block_sizes ! cfg) NUL" "g_fs_fd (pf_fs u) = Some d"
    using fs by (simp_all add: mounted_fresh_def entries_per_block_def)
  ultimately show ?thesis using u fs by (simp add: serving_def)
qed

lemma starts_service:
  assumes u: "\<forall>n. good_host (pf_host u n) \<and> BUFSIZE \<le> pf_fwrite u n \<and> pf_mem u n = (True, True)" "\<forall>f. \<not> pf_ferror u f"
    and f: "\<forall>f x. files f = Some x \<longrightarrow> host_files (pf_fs u) f = Some x \<and> d \<noteq> f"
    and s: "g_cwd_block (pf_fs u) = 1" "\<not> g_mounted (pf_fs u)" "cfg \<le> 4" and c: "atoi c = int cfg"
    and ty: "typable [''mkfs'', d, ''1'', c]" "typable [''mount'', d]"
    and i: "pf_stdin u = typed [''mkfs'', d, ''1'', c] @ typed [''mount'', d] @ rest"
  shows "\<exists>v. main_loop u = main_loop v \<and> serving (fresh_service d files cfg (pf_err u)) v Map.empty \<and> pf_stdin v = rest \<and>
    pf_out v = pf_out u"
proof -
  have one: "atoi ''1'' = 1" by code_simp
  let ?s = "pf_fs u" and ?h = "pf_host u"
  let ?u1 = "u\<lparr>pf_stdin := typed [''mount'', d] @ rest, pf_lines := pf_lines u + 1\<rparr>"
  let ?u2 = "?u1\<lparr>pf_fs := put_file d (mkfs_image 1 cfg) ?s, pf_calls := pf_calls u + 1\<rparr>"
  let ?u3 = "?u2\<lparr>pf_stdin := rest, pf_lines := pf_lines u + 2\<rparr>"
  let ?s4 = "mounted_fresh d 1 cfg (put_file d (mkfs_image 1 cfg) ?s)"
  let ?v = "?u3\<lparr>pf_fs := ?s4, pf_calls := pf_calls u + 2\<rparr>"
  have g: "good_host (?h n)" for n using u(1) by blast
  have "k_mkfs (?h (pf_calls u)) d 1 (int cfg) ?s = (PennFatErr_SUCCESS, put_file d (mkfs_image 1 cfg) ?s)"
    using mkfs_good [OF g s(2) _ _ s(3), of 1] by simp
  then have "pf_command ''mkfs'' [d, ''1'', c] ?u1 = Some ?u2"
    using s(3) by (simp add: pf_command_def pf_mkfs_def one c pf_call_def report_def Let_def)
  then have m1: "main_loop u = main_loop ?u2" using run_one_line [OF ty(1) i] u(1) by simp
  have "k_mount (?h (pf_calls u + 1)) d (put_file d (mkfs_image 1 cfg) ?s) = (PennFatErr_SUCCESS, ?s4)"
    by (rule mount_fresh [OF g]) (use s in \<open>simp_all add: put_file_def\<close>)
  then have "pf_command ''mount'' [d] ?u3 = Some ?v"
    by (simp add: pf_command_def pf_mount_def pf_call_def report_def)
  then have "main_loop ?u2 = main_loop ?v" using run_one_line [OF ty(2), of ?u2 rest ?v] u(1) by simp
  moreover have "serving (fresh_service d files cfg (pf_err ?v)) ?v Map.empty"
    by (rule serving_fresh [of ?v, OF _ _ f s(1,3)]) (use u in simp_all)
  ultimately show ?thesis using m1 by (intro exI [of _ ?v]) simp
qed

subsection \<open>The end of the program\<close>

lemma close_all_closed:
  assumes "all_closed s"
  shows "close_all h s = s"
proof -
  have "\<not> fd_in_use (g_fd_table s ! fd)" if "fd < MAX_FD" for fd using assms that by (auto simp: all_closed_def)
  then have "fold (\<lambda>fd s. if fd_in_use (g_fd_table s ! fd) then snd (k_close h (int fd) s) else s) fds s = s"
    if "\<forall>fd\<in>set fds. fd < MAX_FD" for fds
    using that by (induction fds) auto
  then show ?thesis by (simp add: close_all_def)
qed

text \<open>
  The image that is left when the file system is unmounted, mounted again: the root block is the one from the first
  mount, and the FAT is the one at the end.
\<close>

definition remounted :: "string \<Rightarrow> nat \<Rightarrow> fs \<Rightarrow> fs" where
  "remounted d cfg s = (let img = pwrite (g_img s) (g_block_size s) (replicate (g_block_size s) NUL) in
     s\<lparr>g_fs_fd := Some d, g_img := img, g_fat := True, g_superblock := \<lparr>fat_block_count = 1, data_start_block = 2\<rparr>,
       g_root_dir := replicate (g_block_size s) NUL, g_sysfile_table := replicate MAX_SYSTEM_FILES zero_sysfile,
       g_fd_table := replicate MAX_FD zero_fd, g_mounted := True, host_files := (host_files s)(d \<mapsto> img)\<rparr>)"

lemma unmount_remount:
  assumes g: "good_host h" "good_host h'" and st: "stores s m" and c: "cfg \<le> 4" "g_block_size s = block_sizes ! cfg"
    and w: "fat_list s ! 0 = super_word 1 cfg" "g_root_dir s = replicate (block_sizes ! cfg) NUL" "g_fs_fd s = Some d"
  shows "\<exists>s1. k_unmount h s = Some (PennFatErr_SUCCESS, s1) \<and> k_mount h' d s1 = (PennFatErr_SUCCESS, remounted d cfg s)"
proof -
  note d = storesD [OF st] and s = cwd_dirD [OF storesD(1) [OF st]]
  let ?img = "pwrite (g_img s) (g_block_size s) (replicate (g_block_size s) NUL)"
  have nb: "(1::nat) \<le> 1" "(1::nat) \<le> 32" by simp_all
  note sw = super_word_fields [OF nb c(1)]
  have ib: "1 < image_blocks s" using fat_blocks_inside(1) [OF s(2)] s(3) by simp
  have len: "2 * g_block_size s \<le> length (g_img s)" "256 \<le> g_block_size s"
    using block_inside [OF s(2) ib] geom_block_size [OF s(2)] by simp_all
  have "0 < fat_entries s" using fat_entries_double [OF s(2)] s(3) len(2) by simp
  then have f0: "fat_get s 0 = Some (super_word 1 cfg)" using fat.get_contents [OF s(2), of 0] w(1) by simp
  then have le: "of_nat (le_val (pread (g_img s) 0 2)) = super_word 1 cfg" by (auto simp: fat_get_def split: if_splits)
  have img: "pread ?img 0 2 = pread (g_img s) 0 2" "length (pread ?img 0 2) = 2" "length ?img = length (g_img s)"
    "pread ?img (g_block_size s) (g_block_size s) = replicate (g_block_size s) NUL"
    using len by (simp add: pread_pwrite_other, simp add: pread_pwrite_other length_pread_inside, simp add: length_pwrite,
      simp add: pread_pwrite_same)
  let ?s1 = "(put_file d ?img s)\<lparr>g_img := ?img, g_fat := False, g_root_dir := [], g_fs_fd := None, g_mounted := False\<rparr>"
  have "k_unmount h s = Some (PennFatErr_SUCCESS, ?s1)"
    using s(1) g(1) f0 sw close_all_closed [OF d(2)] w(2,3) c(2)
    by (simp add: k_unmount_def close_image_def put_file_def Let_def)
  moreover have "k_mount h' d ?s1 = (PennFatErr_SUCCESS, remounted d cfg s)"
    using g(2) img le sw c
    by (simp add: k_mount_def mount_map_def Let_def put_file_def remounted_def) (simp add: block_sizes_def)
  ultimately show ?thesis by blast
qed

lemma remounted_empty:
  assumes st: "stores s m"
  shows "root_map (remounted d cfg s) = Map.empty" "used_blocks (remounted d cfg s) = used_blocks s"
proof -
  note s = cwd_dirD [OF storesD(1) [OF st]]
  let ?t = "remounted d cfg s" and ?h = "host_at 0"
  let ?img = "pwrite (g_img s) (g_block_size s) (replicate (g_block_size s) NUL)"
  have ib: "1 < image_blocks s" using fat_blocks_inside(1) [OF s(2)] s(3) by simp
  have len: "2 * g_block_size s \<le> length (g_img s)" using block_inside [OF s(2) ib] by simp
  have f: "g_img ?t = ?img" "g_block_size ?t = g_block_size s" "fat_blocks ?t = 1" "fat_entries ?t = fat_entries s" "g_fat ?t"
    "g_fat s" using s(2,3) by (simp_all add: remounted_def Let_def fat_blocks_def fat_entries_def geom_def)
  have li: "length ?img = length (g_img s)" using len by (simp add: length_pwrite)
  have g: "geom ?t"
    using s(2,3) f li by (simp add: geom_def) (simp add: remounted_def Let_def)
  have "fat_get ?t i = fat_get s i" for i
  proof -
    have "pread ?img (2 * i) 2 = pread (g_img s) (2 * i) 2" if "i < fat_entries s"
      using that len fat_entries_double [OF s(2)] s(3) by (intro pread_pwrite_other) auto
    then show ?thesis using f li by (simp add: fat_get_def)
  qed
  then have "fat_list ?t = fat_list s" using f(4) by (simp add: store_contents_def)
  then show "used_blocks ?t = used_blocks s" by (simp add: used_blocks_def f(4))
  have "image_blocks ?t = image_blocks s" using f li by (simp add: image_blocks_def)
  then have "read_block ?h ?t 1 = Some (replicate (g_block_size ?t) NUL)"
    using read_block_eq [OF good_host_at g, of 1] ib len f(1,2) by (simp add: pread_pwrite_same)
  then have "block_entries ?h ?t 1 = replicate (entries_per_block ?t) zero_dirent"
    using dir_entries_zeros [OF g] by (simp add: block_entries_def)
  then have ce: "chain_entries ?h ?t [1] = []" by (simp add: chain_entries_def live_entries_tidy tidy_zeros)
  show "root_map ?t = Map.empty"
    unfolding root_map_def by (rule ext) (simp only: dir_map_def find_chain_live ce find.simps)
qed

lemma session_ends:
  assumes "pf_stdin u = []" "k_unmount (pf_host u (pf_calls u)) (pf_fs u) = Some (e, s)" "g_mounted (pf_fs u)"
  shows "main_loop u = Some (Inr (u\<lparr>pf_fs := s, pf_calls := pf_calls u + 1\<rparr>))"
  using assms by (subst main_loop.simps) (simp add: get_cmd_def fgets_def pf_call_def pennfat_kernel_cleanup_def)

subsection \<open>The properties\<close>

text \<open>C1 (refinement). The standalone program serves a session as a map from names to contents would. From a state that
  stores the map \<open>m\<close>, the lines of a session are read, parsed and executed one after the other: the program
  goes on as from a state that stores the map the session leads to, it has shown exactly what the session
  shows, and it has reported no error. No file but the one a request names changes, no block is shared or
  lost, and as many files fit as the block of the directory has slots.\<close>

theorem pennfat_session:
  assumes "serving sv u m" "session (specified sv) rs m = Some (m', t)"
    "pf_stdin u = concat (map (\<lambda>r. typed (request_words r)) rs) @ rest"
  shows "\<exists>v. main_loop u = main_loop v \<and> serving sv v m' \<and> pf_stdin v = rest \<and>
    words_shown (pf_out v) = words_shown (pf_out u) @ t"
  by (rule pennfat.serves_all [OF assms])

lemma typable_examples:
  "typable [''cp'', ''-h'', ''s'', ''f'']" "typable [''mv'', ''f'', ''g'']" "typable [''cat'', ''g'']" "typable [''rm'', ''g'']"
  "typable [''mkfs'', ''d'', ''1'', ''0'']" "typable [''mount'', ''d'']" "atoi ''0'' = 0"
  by code_simp+

lemma session_example:
  assumes "sv_files sv = [''s'' \<mapsto> ''abc'']" "sv_slots sv = 4" "sv_room sv = 256"
  shows "session (specified sv) [Put ''s'' ''f'', Move ''f'' ''g'', Show ''g''] Map.empty = Some ([''g'' \<mapsto> ''abc''], ''abc'')"
  using assms typable_examples by (simp add: specified_def fun_upd_idem fun_upd_twist [of "''g''"])

theorem pennfat_session_witness:
  "\<exists>u v. main_loop u = main_loop v \<and> pf_stdin u = typed [''cp'', ''-h'', ''s'', ''f''] @ typed [''mv'', ''f'', ''g''] @ typed [''cat'', ''g''] \<and>
    pf_stdin v = [] \<and> stores (pf_fs v) [''g'' \<mapsto> ''abc''] \<and> words_shown (pf_out v) = ''abc''"
proof -
  let ?rs = "[Put ''s'' ''f'', Move ''f'' ''g'', Show ''g'']"
  let ?u = "pennfat_on (image_with ''s'' ''abc'') (concat (map (\<lambda>r. typed (request_words r)) ?rs))"
  let ?sv = "fresh_service ''d'' [''s'' \<mapsto> ''abc''] 0 []"
  have "image_with ''s'' ''abc'' = mounted_fresh ''d'' 1 0 (put_file ''d'' (mkfs_image 1 0) (put_file ''s'' ''abc'' init_fs))"
    by (simp add: image_with_def made_fs_def put_file_def fun_upd_twist)
  then have "serving (fresh_service ''d'' [''s'' \<mapsto> ''abc''] 0 (pf_err ?u)) ?u Map.empty"
    by (intro serving_fresh [where s = "put_file ''s'' ''abc'' init_fs"]) (simp_all add: put_file_def init_fs_def)
  then have sv: "serving ?sv ?u Map.empty" by simp
  have se: "session (specified ?sv) ?rs Map.empty = Some ([''g'' \<mapsto> ''abc''], ''abc'')"
    by (rule session_example) (simp_all add: block_sizes_def)
  obtain v where "main_loop ?u = main_loop v" "serving ?sv v [''g'' \<mapsto> ''abc'']" "pf_stdin v = []" "words_shown (pf_out v) = ''abc''"
    using pennfat_session [OF sv se, of "[]"] by auto
  then show ?thesis by (intro exI [of _ ?u] exI [of _ v]) (simp add: serving_def)
qed

text \<open>C2 (safety). A whole run of the standalone program, from an unmounted start to the end of its input: it formats an image
  with one FAT block, mounts it, serves any session, and returns without an error after it has shown what the
  session shows. But the program ends with \<open>k_unmount\<close>, which writes the root block of the time of the mount over the
  root directory: an image that is mounted again has no file, while the blocks of all the files of the
  session are still in use in its FAT.\<close>

theorem session_is_lost:
  assumes "\<forall>n. good_host (pf_host u n) \<and> BUFSIZE \<le> pf_fwrite u n \<and> pf_mem u n = (True, True)" "\<forall>f. \<not> pf_ferror u f"
    "\<forall>f x. files f = Some x \<longrightarrow> host_files (pf_fs u) f = Some x \<and> d \<noteq> f"
    "g_cwd_block (pf_fs u) = 1" "\<not> g_mounted (pf_fs u)" "cfg \<le> 4" "atoi c = int cfg"
    "typable [''mkfs'', d, ''1'', c]" "typable [''mount'', d]"
    "session (specified (fresh_service d files cfg (pf_err u))) rs Map.empty = Some (m, t)"
    "pf_stdin u = typed [''mkfs'', d, ''1'', c] @ typed [''mount'', d] @ concat (map (\<lambda>r. typed (request_words r)) rs)"
    "good_host h"
  shows "\<exists>w s. main_loop u = Some (Inr w) \<and> words_shown (pf_out w) = words_shown (pf_out u) @ t \<and> pf_err w = pf_err u \<and>
    k_mount h d (pf_fs w) = (PennFatErr_SUCCESS, s) \<and> root_map s = Map.empty \<and> card (used_blocks s) = card (dom m)"
proof -
  let ?sv = "fresh_service d files cfg (pf_err u)"
  obtain v where v: "main_loop u = main_loop v" "serving ?sv v Map.empty" "pf_out v = pf_out u"
    "pf_stdin v = concat (map (\<lambda>r. typed (request_words r)) rs) @ []"
    using starts_service [OF assms(1-9), of "concat (map (\<lambda>r. typed (request_words r)) rs)"] assms(11) by auto
  obtain x where x: "main_loop v = main_loop x" "serving ?sv x m" "pf_stdin x = []" "words_shown (pf_out x) = words_shown (pf_out u) @ t"
    using pennfat.serves_all [OF v(2) assms(10) v(4)] v(3) by auto
  have s: "stores (pf_fs x) m" "g_block_size (pf_fs x) = block_sizes ! cfg" "fat_list (pf_fs x) ! 0 = super_word 1 cfg"
    "g_root_dir (pf_fs x) = replicate (block_sizes ! cfg) NUL" "g_fs_fd (pf_fs x) = Some d" "good_host (pf_host x (pf_calls x))"
    "pf_err x = pf_err u" using x(2) by (simp_all add: serving_def)
  obtain s1 where s1: "k_unmount (pf_host x (pf_calls x)) (pf_fs x) = Some (PennFatErr_SUCCESS, s1)"
    "k_mount h d s1 = (PennFatErr_SUCCESS, remounted d cfg (pf_fs x))"
    using unmount_remount [OF s(6) assms(12) s(1) assms(6) s(2-5)] by blast
  have "main_loop x = Some (Inr (x\<lparr>pf_fs := s1, pf_calls := pf_calls x + 1\<rparr>))"
    by (rule session_ends [OF x(3) s1(1) cwd_dirD(1) [OF storesD(1) [OF s(1)]]])
  moreover have "card (used_blocks (pf_fs x)) = card (dom m)" using bij_betw_same_card [OF storesD(4) [OF s(1)]] by simp
  ultimately show ?thesis
    using v(1) x(1,4) s(7) s1(2) remounted_empty [OF s(1)]
    by (intro exI [of _ "x\<lparr>pf_fs := s1, pf_calls := pf_calls x + 1\<rparr>"] exI [of _ "remounted d cfg (pf_fs x)"]) simp
qed

theorem session_is_lost_witness:
  "\<exists>u w s. pf_stdin u = typed [''mkfs'', ''d'', ''1'', ''0''] @ typed [''mount'', ''d''] @ typed [''cp'', ''-h'', ''s'', ''f''] @
      typed [''mv'', ''f'', ''g''] @ typed [''cat'', ''g''] \<and> main_loop u = Some (Inr w) \<and> words_shown (pf_out w) = ''abc'' \<and>
    pf_err w = [] \<and> k_mount (host_at 7) ''d'' (pf_fs w) = (PennFatErr_SUCCESS, s) \<and> root_map s = Map.empty \<and> card (used_blocks s) = 1"
proof -
  let ?rs = "[Put ''s'' ''f'', Move ''f'' ''g'', Show ''g'']"
  let ?u = "pennfat_on (put_file ''s'' ''abc'' init_fs) (typed [''mkfs'', ''d'', ''1'', ''0''] @ typed [''mount'', ''d''] @
    concat (map (\<lambda>r. typed (request_words r)) ?rs))"
  have se: "session (specified (fresh_service ''d'' [''s'' \<mapsto> ''abc''] 0 (pf_err ?u))) ?rs Map.empty = Some ([''g'' \<mapsto> ''abc''], ''abc'')"
    by (rule session_example) (simp_all add: block_sizes_def)
  have hf: "\<forall>f x. [''s'' \<mapsto> ''abc''] f = Some x \<longrightarrow> host_files (pf_fs ?u) f = Some x \<and> ''d'' \<noteq> f"
    by (simp add: put_file_def)
  have "\<exists>w s. main_loop ?u = Some (Inr w) \<and> words_shown (pf_out w) = words_shown (pf_out ?u) @ ''abc'' \<and> pf_err w = pf_err ?u \<and>
    k_mount (host_at 7) ''d'' (pf_fs w) = (PennFatErr_SUCCESS, s) \<and> root_map s = Map.empty \<and>
    card (used_blocks s) = card (dom [''g'' \<mapsto> ''abc''])"
    by (rule session_is_lost [OF _ _ hf _ _ _ _ _ _ se, where c = "''0''"])
      (use typable_examples in \<open>simp_all add: init_fs_def put_file_def\<close>)
  then obtain w s where "main_loop ?u = Some (Inr w)" "words_shown (pf_out w) = ''abc''" "pf_err w = []"
    "k_mount (host_at 7) ''d'' (pf_fs w) = (PennFatErr_SUCCESS, s)" "root_map s = Map.empty" "card (used_blocks s) = 1"
    by auto
  then show ?thesis by (intro exI [of _ ?u] exI [of _ w] exI [of _ s]) simp
qed

end
