(* ===== verification/Diagnostics.thy ===== *)
theory Diagnostics
  imports Prelude
begin

text \<open>
  What the program writes about itself: \<open>print_and_abort\<close> of \<open>src/util/panic.c\<close>, the assertions of
  \<open>src/util/utils.c\<close>, the logger of \<open>src/util/logger.c\<close> and the kernel's log of
  \<open>src/kernel/klogger.c\<close>. Texts that \<open>printf\<close> has formatted are arguments.
\<close>

subsection \<open>Panics\<close>

text \<open>What one call of \<open>write\<close> does: \<open>Again\<close> is \<open>EINTR\<close> or \<open>EAGAIN\<close>, \<open>Broken\<close> any other error.\<close>

datatype write_result = Wrote nat | Again | Broken

text \<open>
  Each round passes the whole message again, whatever has been written. The result is what has been written when
  \<open>abort\<close> is called.
\<close>

partial_function (option) abort_loop :: "(nat \<Rightarrow> write_result) \<Rightarrow> string \<Rightarrow> nat \<Rightarrow> nat \<Rightarrow> string \<Rightarrow> string option" where
  "abort_loop w msg k sent out =
    (if sent = length msg then Some out
     else case w k of
       Wrote n \<Rightarrow> if n = 0 then Some out
                  else abort_loop w msg (k + 1) (sent + min n (length msg)) (out @ take n msg)
     | Again \<Rightarrow> abort_loop w msg (k + 1) sent out
     | Broken \<Rightarrow> Some out)"

declare abort_loop.simps [code]

definition print_and_abort :: "(nat \<Rightarrow> write_result) \<Rightarrow> string \<Rightarrow> string option" where
  "print_and_abort w msg = abort_loop w msg 0 0 []"

lemma abort_again:
  "\<forall>i<j. w (k + i) = Again \<Longrightarrow> sent \<noteq> length msg \<Longrightarrow> abort_loop w msg k sent out = abort_loop w msg (k + j) sent out"
proof (induction j arbitrary: k)
  case 0
  then show ?case by simp
next
  case (Suc j)
  have "w k = Again" "\<forall>i<j. w (k + 1 + i) = Again" using Suc.prems(1) by force+
  then show ?case using Suc.IH [of "k + 1"] Suc.prems(2) by (subst abort_loop.simps) simp
qed

text \<open>Once more has been counted than the message has, and every write is a full one, there is no way out.\<close>

lemma abort_overshot:
  assumes "length msg < sent" "msg \<noteq> []" "\<forall>i\<ge>k. \<exists>n. length msg \<le> n \<and> w i = Wrote n"
  shows "abort_loop w msg k sent out = None"
proof (rule ccontr)
  assume "abort_loop w msg k sent out \<noteq> None"
  then obtain r where ret: "abort_loop w msg k sent out = Some r" by blast
  have "length msg < sent \<longrightarrow> msg \<noteq> [] \<longrightarrow> (\<forall>i\<ge>k. \<exists>n. length msg \<le> n \<and> w i = Wrote n) \<longrightarrow> False"
  proof (rule abort_loop.raw_induct [where P = "\<lambda>w msg k sent out r.
      length msg < sent \<longrightarrow> msg \<noteq> [] \<longrightarrow> (\<forall>i\<ge>k. \<exists>n. length msg \<le> n \<and> w i = Wrote n) \<longrightarrow> False", OF _ ret])
    fix f :: "(nat \<Rightarrow> write_result) \<Rightarrow> string \<Rightarrow> nat \<Rightarrow> nat \<Rightarrow> string \<Rightarrow> string option"
      and w :: "nat \<Rightarrow> write_result" and msg :: string and k sent :: nat and out r :: string
    assume IH: "\<And>w msg k sent out r. f w msg k sent out = Some r \<Longrightarrow>
        length msg < sent \<longrightarrow> msg \<noteq> [] \<longrightarrow> (\<forall>i\<ge>k. \<exists>n. length msg \<le> n \<and> w i = Wrote n) \<longrightarrow> False"
      and eq: "(if sent = length msg then Some out
        else case w k of
          Wrote n \<Rightarrow> if n = 0 then Some out else f w msg (k + 1) (sent + min n (length msg)) (out @ take n msg)
        | Again \<Rightarrow> f w msg (k + 1) sent out
        | Broken \<Rightarrow> Some out) = Some r"
    show "length msg < sent \<longrightarrow> msg \<noteq> [] \<longrightarrow> (\<forall>i\<ge>k. \<exists>n. length msg \<le> n \<and> w i = Wrote n) \<longrightarrow> False"
    proof (intro impI)
      assume t: "length msg < sent" and m: "msg \<noteq> []" and all: "\<forall>i\<ge>k. \<exists>n. length msg \<le> n \<and> w i = Wrote n"
      obtain n where n: "length msg \<le> n" "w k = Wrote n" using all le_refl [of k] by blast
      have "0 < n" using n(1) m by (cases n) auto
      then have "f w msg (k + 1) (sent + min n (length msg)) (out @ take n msg) = Some r" using eq n t by simp
      moreover have "length msg < sent + min n (length msg)" using t by arith
      moreover have "\<forall>i\<ge>k + 1. \<exists>n. length msg \<le> n \<and> w i = Wrote n" using all by auto
      ultimately show False using IH m by blast
    qed
  qed
  then show False using assms by blast
qed

subsection \<open>Assertions\<close>

text \<open>
  \<open>perror\<close> writes the description and the text of \<open>errno\<close>; the left side is what has been written before the panic,
  and the panic.
\<close>

definition perror :: "string \<Rightarrow> string option \<Rightarrow> string" where
  "perror err desc = (case desc of None \<Rightarrow> [] | Some d \<Rightarrow> d @ '': '' @ err @ [CHR 0x0A])"

definition assert_non_null :: "(nat \<Rightarrow> write_result) \<Rightarrow> string \<Rightarrow> 'a option \<Rightarrow> string option \<Rightarrow> string \<times> string option + unit" where
  "assert_non_null w err ptr desc =
    (if ptr \<noteq> None then Inr () else Inl (perror err desc, print_and_abort w ''non-null assertion failed''))"

definition assert_non_negative :: "(nat \<Rightarrow> write_result) \<Rightarrow> string \<Rightarrow> int \<Rightarrow> string option \<Rightarrow> string \<times> string option + unit" where
  "assert_non_negative w err val desc =
    (if val \<ge> 0 then Inr () else Inl (perror err desc, print_and_abort w ''non-negative assertion failed''))"

subsection \<open>The logger\<close>

datatype log_level = LOG_LEVEL_DEBUG | LOG_LEVEL_INFO | LOG_LEVEL_WARN | LOG_LEVEL_ERROR | LOG_LEVEL_CRITICAL

fun level_number :: "log_level \<Rightarrow> nat" where
  "level_number LOG_LEVEL_DEBUG = 0"
| "level_number LOG_LEVEL_INFO = 1"
| "level_number LOG_LEVEL_WARN = 2"
| "level_number LOG_LEVEL_ERROR = 3"
| "level_number LOG_LEVEL_CRITICAL = 4"

fun level_str :: "log_level \<Rightarrow> string" where
  "level_str LOG_LEVEL_DEBUG = ''DEBUG''"
| "level_str LOG_LEVEL_INFO = ''INFO''"
| "level_str LOG_LEVEL_WARN = ''WARN''"
| "level_str LOG_LEVEL_ERROR = ''ERROR''"
| "level_str LOG_LEVEL_CRITICAL = ''CRITICAL''"

text \<open>\<^const>\<open>None\<close> as \<open>fp\<close> is \<open>stderr\<close>; a path stands for the stream that writes the file.\<close>

record Logger =
  lg_fp :: "string option"
  lg_level :: log_level
  lg_name :: string

record log_world =
  lw_files :: "string \<Rightarrow> string option"
  lw_stderr :: string

definition log_path :: "string \<Rightarrow> string" where
  "log_path nm = take 511 (''logs/'' @ nm @ ''.log'')"

definition logger_init :: "bool \<Rightarrow> (string \<Rightarrow> bool) \<Rightarrow> string \<Rightarrow> log_level \<Rightarrow> log_world \<Rightarrow> Logger option \<times> log_world" where
  "logger_init malloc_ok fopen_ok nm level w =
    (if \<not> malloc_ok then (None, w)
     else if \<not> fopen_ok (log_path nm) then (None, w)
     else (Some \<lparr>lg_fp = Some (log_path nm), lg_level = level, lg_name = take 255 nm\<rparr>,
           w\<lparr>lw_files := (lw_files w)(log_path nm \<mapsto> [])\<rparr>))"

definition logger_init_stderr :: "bool \<Rightarrow> log_level \<Rightarrow> string \<Rightarrow> Logger option" where
  "logger_init_stderr malloc_ok level nm =
    (if \<not> malloc_ok then None else Some \<lparr>lg_fp = None, lg_level = level, lg_name = take 255 nm\<rparr>)"

definition log_put :: "string option \<Rightarrow> string \<Rightarrow> log_world \<Rightarrow> log_world" where
  "log_put fp t w =
    (case fp of None \<Rightarrow> w\<lparr>lw_stderr := lw_stderr w @ t\<rparr>
     | Some path \<Rightarrow> w\<lparr>lw_files := (lw_files w)(path := map_option (\<lambda>s. s @ t) (lw_files w path))\<rparr>)"

definition log_line :: "Logger \<Rightarrow> log_level \<times> string \<times> string \<Rightarrow> string" where
  "log_line l e = (case e of (level, time_str, msg) \<Rightarrow>
     ''['' @ time_str @ ''] '' @ level_str level @ '' ['' @ lg_name l @ '']: '' @ msg @ [CHR 0x0A])"

definition logger_log :: "Logger option \<Rightarrow> log_level \<times> string \<times> string \<Rightarrow> log_world \<Rightarrow> log_world" where
  "logger_log logger e w =
    (case logger of None \<Rightarrow> w
     | Some l \<Rightarrow> if level_number (fst e) < level_number (lg_level l) then w else log_put (lg_fp l) (log_line l e) w)"

text \<open>\<open>LOGGER_INIT\<close>: a failure is reported, a success is logged.\<close>

definition LOGGER_INIT :: "bool \<Rightarrow> (string \<Rightarrow> bool) \<Rightarrow> string \<Rightarrow> log_level \<Rightarrow> string \<Rightarrow> log_world \<Rightarrow> Logger option \<times> log_world" where
  "LOGGER_INIT malloc_ok fopen_ok nm level time_str w =
    (case logger_init malloc_ok fopen_ok nm level w of
       (None, w1) \<Rightarrow> (None, log_put None (''Logger initialization failed for module '' @ [CHR 0x27] @ nm @ [CHR 0x27] @ ''!'' @ [CHR 0x0A]) w1)
     | (Some l, w1) \<Rightarrow> (Some l, logger_log (Some l)
         (LOG_LEVEL_INFO, time_str, ''Logger successfully initialized for module '' @ [CHR 0x27] @ nm @ [CHR 0x27] @ ''.'') w1))"

text \<open>The stream that \<open>logger_close\<close> closes; \<open>stderr\<close> stays open.\<close>

definition logger_close :: "Logger option \<Rightarrow> string option" where
  "logger_close logger = (case logger of None \<Rightarrow> None | Some l \<Rightarrow> lg_fp l)"

text \<open>\<open>LOGGER_CLOSE\<close> also clears the variable.\<close>

definition LOGGER_CLOSE :: "Logger option \<Rightarrow> Logger option \<times> string option" where
  "LOGGER_CLOSE logger = (None, logger_close logger)"

text \<open>A logger's file holds exactly the lines at or above its level, in the order of the calls.\<close>

lemma logged_lines:
  assumes "lg_fp l = Some path" "lw_files w path = Some s"
  shows "lw_files (fold (logger_log (Some l)) es w) path =
    Some (s @ concat (map (log_line l) (filter (\<lambda>e. level_number (lg_level l) \<le> level_number (fst e)) es)))"
  using assms(2)
proof (induction es arbitrary: w s)
  case Nil
  then show ?case by simp
next
  case (Cons e es)
  show ?case
  proof (cases "level_number (fst e) < level_number (lg_level l)")
    case True
    then show ?thesis using Cons.IH [OF Cons.prems] by (simp add: logger_log_def)
  next
    case False
    then have "lw_files (logger_log (Some l) e w) path = Some (s @ log_line l e)"
      using assms(1) Cons.prems by (simp add: logger_log_def log_put_def)
    then show ?thesis using Cons.IH False by simp
  qed
qed

subsection \<open>The log of the kernel\<close>

text \<open>The first call removes the log of an earlier run; a call that cannot open the file writes nothing.\<close>

record klogger =
  kl_init :: bool
  kl_log :: "string option"

definition klog :: "bool \<Rightarrow> string \<Rightarrow> klogger \<Rightarrow> klogger" where
  "klog fopen_ok entry s =
    (let s1 = (if kl_init s then s else \<lparr>kl_init = True, kl_log = None\<rparr>) in
     if \<not> fopen_ok then s1
     else s1\<lparr>kl_log := Some ((case kl_log s1 of None \<Rightarrow> [] | Some t \<Rightarrow> t) @ entry @ [CHR 0x0A])\<rparr>)"

lemma klog_running:
  "kl_init s \<Longrightarrow> kl_log s = Some t \<Longrightarrow>
    kl_log (fold (\<lambda>(ok, l). klog ok l) es s) = Some (t @ concat (map (\<lambda>(ok, l). l @ [CHR 0x0A]) (filter fst es)))"
proof (induction es arbitrary: s t)
  case Nil
  then show ?case by simp
next
  case (Cons e es)
  obtain ok l where e: "e = (ok, l)" by (cases e)
  have "kl_init (klog ok l s)" "kl_log (klog ok l s) = Some (if ok then t @ l @ [CHR 0x0A] else t)"
    using Cons.prems by (simp_all add: klog_def Let_def)
  then show ?case using Cons.IH e by auto
qed

text \<open>Whatever an earlier run has left, the log of a run whose first call succeeds holds the lines of this run.\<close>

lemma klog_lines:
  assumes "\<not> kl_init s"
  shows "kl_log (fold (\<lambda>(ok, l). klog ok l) ((True, l) # es) s) =
    Some (l @ [CHR 0x0A] @ concat (map (\<lambda>(ok, l). l @ [CHR 0x0A]) (filter fst es)))"
proof -
  have "kl_init (klog True l s)" "kl_log (klog True l s) = Some (l @ [CHR 0x0A])"
    using assms by (simp_all add: klog_def Let_def)
  then show ?thesis using klog_running by simp
qed

subsection \<open>The property\<close>

text \<open>C38 (liveness). A panic writes its message exactly once and aborts when some write takes all of it, however often the calls
  before were interrupted. But the loop hands the whole message to every call: after a first write that takes only a
  part of it, and full writes from then on, what has been counted never equals the length, and the
  program writes for ever instead of aborting.\<close>

theorem panic_aborts:
  assumes "msg \<noteq> []"
  shows "((\<forall>i<j. w i = Again) \<and> w j = Wrote n \<and> length msg \<le> n \<longrightarrow> print_and_abort w msg = Some msg) \<and>
    (w 0 = Wrote n \<and> 0 < n \<and> n < length msg \<and> (\<forall>i\<ge>1. \<exists>m\<ge>length msg. w i = Wrote m) \<longrightarrow> print_and_abort w msg = None)"
proof (intro conjI impI; elim conjE)
  assume w: "\<forall>i<j. w i = Again" "w j = Wrote n" "length msg \<le> n"
  have n: "n \<noteq> 0" using w(3) assms by (cases n) auto
  have "print_and_abort w msg = abort_loop w msg j 0 []"
    using abort_again [of j w 0 0 msg "[]"] w(1) assms by (simp add: print_and_abort_def)
  also have "\<dots> = abort_loop w msg (j + 1) (length msg) msg"
    using w(2,3) n assms by (subst abort_loop.simps) simp
  also have "\<dots> = Some msg" by (subst abort_loop.simps) simp
  finally show "print_and_abort w msg = Some msg" .
next
  assume w: "w 0 = Wrote n" "0 < n" "n < length msg" "\<forall>i\<ge>1. \<exists>m\<ge>length msg. w i = Wrote m"
  obtain m where m: "length msg \<le> m" "w 1 = Wrote m" using w(4) by blast
  have "print_and_abort w msg = abort_loop w msg 1 n (take n msg)"
    using w(1-3) assms by (simp add: print_and_abort_def, subst abort_loop.simps) simp
  also have "\<dots> = abort_loop w msg 2 (n + length msg) (take n msg @ msg)"
    using w(2,3) m assms by (subst abort_loop.simps) (simp add: numeral_2_eq_2)
  also have "\<dots> = None" by (rule abort_overshot) (use w(2,4) assms in auto)
  finally show "print_and_abort w msg = None" .
qed

theorem panic_aborts_witness:
  "print_and_abort (\<lambda>i. if i < 3 then Again else Wrote 9) ''panic'' = Some ''panic'' \<and>
   print_and_abort (\<lambda>i. if i = 0 then Wrote 2 else Wrote 5) ''panic'' = None"
proof
  show "print_and_abort (\<lambda>i. if i < 3 then Again else Wrote 9) ''panic'' = Some ''panic''"
    using panic_aborts [of "''panic''" 3 "\<lambda>i. if i < 3 then Again else Wrote 9" 9] by simp
  show "print_and_abort (\<lambda>i. if i = 0 then Wrote 2 else Wrote 5) ''panic'' = None"
    using panic_aborts [of "''panic''" 0 "\<lambda>i. if i = 0 then Wrote 2 else Wrote 5" 2] by simp
qed

end
