(* ===== verification/Spec2Isabelle.thy ===== *)
theory Spec2Isabelle
  imports FsTheorems ShellTheorems KernelTheorems UserTheorems PennFatShell SpThreadTheorems PennFatSession Diagnostics
begin

text \<open>
  PennOS is a teaching operating system that runs as one host process: a file system in a host file
  (PennFAT), a kernel that schedules host threads as processes, and a shell. This development models its
  C sources under \<open>src/src\<close> and proves what their operations do.

  \<^bold>\<open>How the program is modelled.\<close> C functions are HOL functions on an explicit state. Return codes stay
  return values; a panic is the left side of a sum. \<^const>\<open>None\<close> of an option result means that the call
  accesses memory it must not, or does not return: loops that the code leaves unbounded are
  \<open>partial_function (option)\<close>, without fuel, and that they return is proved where it holds. Integers
  that are stored have their width (\<open>16 word\<close> FAT entries, \<open>32 word\<close> sizes, offsets and clock ticks,
  \<open>8 word\<close> permissions); arithmetic on C's \<open>int\<close> that can exceed 32 bits is wrapped where it matters.
  Strings are character lists; a C string ends before its first NUL.

  \<^bold>\<open>What the host decides\<close> is an argument: the record \<open>host\<close> of FatCore holds the time and which
  allocations and which reads and writes of the host file succeed; \<open>mem\<close> of VecOps holds which
  allocations of the vectors succeed and what is in fresh memory; the addresses that \<open>calloc\<close> yields,
  thread handles and whether \<open>spthread_create\<close> succeeds are arguments of the calls. The process kernel
  records its calls of the thread library as a trace; the library has a model of its own.

  \<^bold>\<open>The file system\<close>, \<open>src/internal/pennfat_kernel.c\<close> with \<open>src/common/pennfat_definitions.h\<close> and
  \<open>pennfat_errors.h\<close>:
  \<^item> PennFatDefs: error codes and messages, open modes, permissions, the directory entry and its 64 bytes,
    the records of the two file tables.
  \<^item> FatCore: the state \<open>fs\<close> (the image, the FAT, the tables, the current directory) and the access to FAT
    entries and blocks.
  \<^item> FatChain: allocating and freeing blocks, walking chains. Lemmas: the least free entry is taken, a
    chain is freed whole, also a cyclic one.
  \<^item> DirOps, DirMap: directory entries in chains of blocks, and the finite map from names to entries that
    a directory stands for. Adding, replacing and deleting entries are updates of that map.
  \<^item> PathRes: paths, symbolic links, dot and dot-dot.
  \<^item> FileTable, FileOps: the two tables of open files; open, read, write, seek, close, unlink.
  \<^item> NameOps: ls, touch, chmod, chdir, getcwd, symlink, mkdir, rmdir, rename.
  \<^item> MountOps, MountProps: mkfs, mount, unmount.
  \<^item> DirProps, FileProps, TableInv: what the operations do to directories and to the bytes of files, and
    the invariant of the reference counts, by rule induction over all operations in any order.
  \<^item> Examples, FsTheorems: concrete file systems, and the properties.

  \<^bold>\<open>The shell\<close>: ShellParser is \<open>src/util/parser.c\<close>, the two passes over a command line. The second pass
  stores what the first has counted; \<open>lock_step\<close> and \<open>passes_agree\<close> say that it never stores more.
  ShellTheorems has the properties.

  \<^bold>\<open>The process kernel\<close>:
  \<^item> VecOps: \<open>src/util/Vec.c\<close> and \<open>src/kernel/pcb_vec.c\<close>. Both implement the locale \<open>growing_array\<close>, a
    contract over the list of the elements in use; both are interpretations of it.
  \<^item> Pcb: \<open>src/kernel/PCB.c\<close>, process control blocks in a heap of addresses.
  \<^item> PcbQueue: \<open>src/kernel/pcb_queue.c\<close>, queues linked through the PCBs. \<open>queue_list\<close> says which list a queue
    is; the operations are related to operations on lists, and implement the locale \<open>fifo_queue\<close>, in
    which taking turns is proved once.
  \<^item> ProcOps: the calls of \<open>src/kernel/kernel_syscall.c\<close> and the start and clean-up of
    \<open>src/kernel/kernel_fn.c\<close>. A call that blocks is split where it blocks.
  \<^item> Sched: one pass of the loop of \<open>src/kernel/scheduler.c\<close>, split at \<open>sigsuspend\<close>.
  \<^item> ProcInv: the invariant \<open>proc_ok\<close> of the process table, with one lemma per call.
  \<^item> ProcRuns: the runs. \<open>k_proc_create\<close> unblocks \<open>SIGPTHD\<close> before it registers the process, so a creation is
    four steps, \<open>create_step\<close>, between which other threads run: \<open>k_proc_choose\<close> (pid and PCB), and the three
    statements of \<open>pcb_vec_push_back\<close>. Every other call is one step of \<open>proc_step\<close>. \<open>free_reach\<close> are the states of
    all interleavings of these steps, in which the table can break; \<open>lone_reach\<close> and \<open>proc_reach\<close> those in which
    creations do not overlap and no push is interrupted by a change of the vector. The invariant holds in the latter.
    That the other calls are one step each is a simplification: most, but not all of their changes are made with
    \<open>SIGPTHD\<close> blocked.
  \<^item> ProcFun: what the calls find and change; KernelTheorems: the properties.

  \<^bold>\<open>The threads\<close>: \<open>src/kernel/spthread.c\<close>, suspendable threads over pthreads.
  \<^item> SpThread: a thread, the threads that suspend, continue, cancel and join it, and its creator, as a
    transition system. The state \<open>world\<close> has the stack of the thread's active frames (a suspended handler
    can be interrupted by another), its signal mask and pending signal, the meta struct, the arguments of
    requests on the stacks of their senders, and where each sender is in its wait. \<open>sp_event\<close> is one step
    of one participant, \<open>sp_run\<close> a run in any interleaving, \<open>sp_reach\<close> the reachable states. A join may overlap with
    other calls, as nothing in the code keeps them apart; a call on a joined thread, and the test of its state by a
    caller that still waits, set \<open>sp_fault\<close>. \<open>pthread_sigqueue\<close> may fail with \<open>EAGAIN\<close>.
  \<^item> SpThreadProps: the invariant \<open>sp_ok\<close> of the reachable states: the shape of the stack, what is blocked
    where, and which requests are alive.
  \<^item> SpThreadTheorems: what the callers can rely on, proved with the locale \<open>kept_while\<close> (a property that
    allowed events keep holds along runs), and the schedules in which they cannot.

  \<^bold>\<open>User code\<close>:
  \<^item> Syscalls: \<open>src/user/syscall_kernel.c\<close>. The state \<open>os\<close> joins those of the file system and of the process
    kernel with \<open>errno\<close> and the texts that have been written. Each call of the file system meets the host as
    \<open>os_host\<close> says for its number.
  \<^item> JobTable: \<open>src/user/jobs.c\<close>, compiled with the signal numbers of \<open>src/common/pennos_signal.h\<close>, which
    differ from those of the kernel. JobProps: its invariant, by rule induction over the operations and the
    commands that change it.
  \<^item> CLib: \<open>strtol\<close>, \<open>%d\<close> and \<open>fgets\<close> of the C library, and that numbers are read back.
  \<^item> UserShell: \<open>src/user/shell.c\<close>, the built-in commands, redirections and pipelines, and \<open>shell_main\<close>, which
    is split where it waits for a process.
  \<^item> KernelShell: \<open>src/shell/shell.c\<close>, the reader of lines, Ctrl-C, and one round of the loop of the shell.
  \<^item> UserTheorems: the properties of this part.
  \<^item> PennFatShell: \<open>src/pennfat.c\<close>, the standalone program over the file system, with \<open>get_cmd\<close> and
    \<open>safe_parse_command\<close> of \<open>src/util/utils.c\<close>.
  \<^item> Diagnostics: \<open>print_and_abort\<close> of \<open>src/util/panic.c\<close>, the assertions, and the two logs, with what a
    log file holds after a run. \<open>write\<close> and \<open>fopen\<close> are arguments. The other parts do not look at the logs;
    a panic is an error value there, and here it is shown that the abort itself can be missed.

  \<^bold>\<open>Whole runs\<close>, across the components:
  \<^item> ReadFile: opening, reading and closing a file that exists. CatLoops: the copying loops of \<open>cat\<close> in both
    command lines as instances of the locale \<open>byte_copy\<close>.
  \<^item> FileStore: a new file from its creation over one write of at most a block to its closing. A file has one
    block, as \<open>k_write\<close> does not extend a chain; longer contents are an error of \<open>cp\<close>.
  \<^item> FileMap: \<open>stores s m\<close>, the root directory as a map from names to contents, with the blocks in use in
    bijection with the files. Each call on names is an update of the map. Room for a file is there as
    long as the files are fewer than the slots of one block.
  \<^item> CopyTheorems: copying between the host and the file system.
  \<^item> PennFatSession: a specification of sessions over the map, and that \<open>main_loop\<close> with parser, commands and file
    system implements it, by the locale \<open>line_server\<close>; then a run from formatting to the end of the input.

  \<^bold>\<open>Not modelled\<close>: the main functions, the demos,
  functions that only print text for debugging, the dead code in comments, host signal masks, timers and
  the registration of handlers, the redirection of the host's descriptors in \<open>spawn_entry_wrapper\<close>, the
  endless loops of \<open>busy\<close>, \<open>zombify\<close> and \<open>orphan_child\<close>, and the help text of \<open>man\<close>, which is an argument.
\<close>

end
